(* ===== verification/Prelude.thy ===== *)
theory Prelude
  imports Main "HOL-Library.Word"
begin

unbundle bit_operations_syntax

section \<open>Shared types, results, machine arithmetic and byte slices\<close>

text \<open>
  What every theory of the development shares: the widths of the machine integers, the
  error values of \<^verbatim>\<open>src/error.rs\<close>, the \<^verbatim>\<open>Result\<close> plumbing, 64- and 32-bit arithmetic on
  naturals with the wrap-around written out, and slices of byte lists.

  A Rust \<^verbatim>\<open>Result<T>\<close> is \<open>error + 'a\<close>, \<open>Inl\<close> the error. A Rust panic (an index or a
  slice out of range) is the extra error value \<open>Panicked\<close>: it is not a constructor of
  the Rust enum, and a theorem that a function returns \<open>Inr\<close> shows that it does not
  panic. The message of an error is a constructor that names the \<^verbatim>\<open>format!\<close> string of the
  source and carries the values the string shows.
\<close>

subsection \<open>Widths\<close>

type_synonym u8 = "8 word"
type_synonym u16 = "16 word"
type_synonym u32 = "32 word"
type_synonym u64 = "64 word"
type_synonym bytes = "8 word list"

subsection \<open>Errors\<close>

datatype invalid_msg =
    InobtcountNeedsFinobt
  | IllegalBlockSize nat
  | MinCrcBlockSize
  | IllegalSectorSize nat
  | BlockSmallerThanSector nat nat
  | SectorSmallerThanHw nat nat
  | IllegalInodeSize nat nat
  | SizeTooLarge nat nat
  | DataTooSmall nat nat
  | AgsizeNotMultiple nat nat
  | AgsizeZero
  | AgcountZero
  | LastAgTooSmall nat nat
  | AgsizeTooSmall nat nat
  | AgsizeTooBig nat nat
  | AgsizeOverData nat nat
  | TooManyAgs nat
  | ImaxpctOver100 nat
  | LabelTooLong
  | LogTooLarge nat
  | FsTooSmall
  | LogTooSmall
  | TooFewAgs
  | BlocksNotFree nat nat
  | NoSpaceForFreeList nat
  | RootChunkNotFree nat
  | LabelInvalid

datatype unsupported_msg =
    BlockSizeUnsupported nat
  | FsUnder300MB
  | IncompatFeatures nat
  | RealtimeDevice
  | ExternalLog
  | LogStripeUnit nat
  | LogRecordBlocks nat
  | LogBlocksUnsupported nat

datatype corrupt_msg =
    SuperblockGeometry
  | SuperblockMagic nat
  | SuperblockCrc nat
  | LogNoPreviousHeader
  | LogInconsistent
  | LogNoRecordBeforeZeroed
  | LogNoRecordBeforeHead
  | LogNoSyncRecord
  | BtreeTooDeep string
  | ChunkOutsideAg nat nat

datatype notxfs_msg = NoXfsbMagic | NotV5

datatype recovery_msg = DirtyLog nat nat | NeedsRepair

datatype error =
    Io nat
  | OutOfBounds nat nat nat
  | InvalidParams invalid_msg
  | Unsupported unsupported_msg
  | NotXfs notxfs_msg
  | Corrupt corrupt_msg
  | NeedsRecovery recovery_msg
  | Panicked

subsection \<open>Results\<close>

text \<open>\<open>and_then\<close> is the \<^verbatim>\<open>?\<close> operator: an error ends the function, a value goes on.\<close>

definition and_then :: "'e + 'a \<Rightarrow> ('a \<Rightarrow> 'e + 'b) \<Rightarrow> 'e + 'b" where
  "and_then r f = (case r of Inl e \<Rightarrow> Inl e | Inr x \<Rightarrow> f x)"

primrec try_fold :: "('a \<Rightarrow> 's \<Rightarrow> 'e + 's) \<Rightarrow> 'a list \<Rightarrow> 's \<Rightarrow> 'e + 's" where
  "try_fold f [] s = Inr s"
| "try_fold f (x # xs) s = and_then (f x s) (try_fold f xs)"

primrec try_map :: "('a \<Rightarrow> 'e + 'b) \<Rightarrow> 'a list \<Rightarrow> 'e + 'b list" where
  "try_map f [] = Inr []"
| "try_map f (x # xs) = and_then (f x) (\<lambda>y. and_then (try_map f xs) (\<lambda>ys. Inr (y # ys)))"

subsection \<open>Unsigned arithmetic with wrap-around\<close>

definition add64 :: "nat \<Rightarrow> nat \<Rightarrow> nat" where
  "add64 a b = (a + b) mod 2 ^ 64"

definition sub64 :: "nat \<Rightarrow> nat \<Rightarrow> nat" where
  "sub64 a b = (a + (2 ^ 64 - b mod 2 ^ 64)) mod 2 ^ 64"

definition mul64 :: "nat \<Rightarrow> nat \<Rightarrow> nat" where
  "mul64 a b = (a * b) mod 2 ^ 64"

definition shl64 :: "nat \<Rightarrow> nat \<Rightarrow> nat" where
  "shl64 a k = (a * 2 ^ (k mod 64)) mod 2 ^ 64"

definition shr64 :: "nat \<Rightarrow> nat \<Rightarrow> nat" where
  "shr64 a k = a div 2 ^ (k mod 64)"

definition add32 :: "nat \<Rightarrow> nat \<Rightarrow> nat" where
  "add32 a b = (a + b) mod 2 ^ 32"

definition sub32 :: "nat \<Rightarrow> nat \<Rightarrow> nat" where
  "sub32 a b = (a + (2 ^ 32 - b mod 2 ^ 32)) mod 2 ^ 32"

text \<open>\<open>as_u32\<close> is the cast \<^verbatim>\<open>x as u32\<close>; \<open>div_ceil\<close> is the method of the same name.\<close>

definition as_u32 :: "nat \<Rightarrow> nat" where
  "as_u32 a = a mod 2 ^ 32"

definition div_ceil :: "nat \<Rightarrow> nat \<Rightarrow> nat" where
  "div_ceil a b = a div b + (if a mod b > 0 then 1 else 0)"

definition u64_of_bool :: "bool \<Rightarrow> nat" where
  "u64_of_bool b = (if b then 1 else 0)"

fun is_power_of_two :: "nat \<Rightarrow> bool" where
  "is_power_of_two n = (if n \<le> 1 then n = 1 else if odd n then False else is_power_of_two (n div 2))"

fun trailing_zeros :: "nat \<Rightarrow> nat" where
  "trailing_zeros n = (if n = 0 \<or> odd n then 0 else Suc (trailing_zeros (n div 2)))"

declare is_power_of_two.simps [simp del]
declare trailing_zeros.simps [simp del]

subsection \<open>Slices\<close>

definition slice :: "nat \<Rightarrow> nat \<Rightarrow> 'a list \<Rightarrow> 'a list" where
  "slice off n b = take n (drop off b)"

definition splice :: "nat \<Rightarrow> 'a list \<Rightarrow> 'a list \<Rightarrow> 'a list" where
  "splice off src b = take off b @ src @ drop (off + length src) b"

text \<open>
  \<open>read_slice off n b\<close> is \<^verbatim>\<open>&b[off..off + n]\<close>; \<open>write_slice off src b\<close> is
  \<^verbatim>\<open>b[off..off + src.len()].copy_from_slice(src)\<close>. Both panic out of range.
\<close>

definition read_slice :: "nat \<Rightarrow> nat \<Rightarrow> 'a list \<Rightarrow> error + 'a list" where
  "read_slice off n b = (if off + n \<le> length b then Inr (slice off n b) else Inl Panicked)"

definition write_slice :: "nat \<Rightarrow> 'a list \<Rightarrow> 'a list \<Rightarrow> error + 'a list" where
  "write_slice off src b =
     (if off + length src \<le> length b then Inr (splice off src b) else Inl Panicked)"

definition set_byte :: "nat \<Rightarrow> 'a \<Rightarrow> 'a list \<Rightarrow> error + 'a list" where
  "set_byte off v b = write_slice off [v] b"

text \<open>\<open>on_slice off n f b\<close> passes \<^verbatim>\<open>&mut b[off..off + n]\<close> to \<open>f\<close>.\<close>

definition on_slice :: "nat \<Rightarrow> nat \<Rightarrow> ('a list \<Rightarrow> error + 'a list) \<Rightarrow> 'a list \<Rightarrow> error + 'a list" where
  "on_slice off n f b = and_then (read_slice off n b) (\<lambda>s. and_then (f s) (\<lambda>s'. write_slice off s' b))"

text \<open>A sequence of edits of one buffer, first to last.\<close>

primrec run_edits :: "('b \<Rightarrow> 'e + 'b) list \<Rightarrow> 'b \<Rightarrow> 'e + 'b" where
  "run_edits [] b = Inr b"
| "run_edits (e # es) b = and_then (e b) (run_edits es)"

section \<open>Lemmas\<close>

named_theorems slice_simps \<open>reading through writes at known offsets\<close>
named_theorems nowrap \<open>machine arithmetic that does not wrap\<close>

subsection \<open>Results\<close>

lemma and_then_simps [simp]:
  "and_then (Inl e) f = Inl e"
  "and_then (Inr x) f = f x"
  by (simp_all add: and_then_def)

lemma and_then_eq_Inr:
  "and_then r f = Inr y \<longleftrightarrow> (\<exists>x. r = Inr x \<and> f x = Inr y)"
  by (cases r) auto

lemma and_then_InrE [elim!]:
  assumes "and_then r f = Inr y"
  obtains x where "r = Inr x" and "f x = Inr y"
  using assms by (auto simp: and_then_eq_Inr)

lemma and_then_cong [fundef_cong]:
  "r = r' \<Longrightarrow> (\<And>x. r' = Inr x \<Longrightarrow> f x = g x) \<Longrightarrow> and_then r f = and_then r' g"
  by (cases r') auto

lemma and_then_assoc: "and_then (and_then r f) g = and_then r (\<lambda>x. and_then (f x) g)"
  by (cases r) auto

lemma run_edits_append:
  "run_edits (es @ fs) b = and_then (run_edits es b) (run_edits fs)"
  by (induction es arbitrary: b) (simp_all add: and_then_assoc and_then_def split: sum.split)

lemma try_fold_append:
  "try_fold f (xs @ ys) s = and_then (try_fold f xs s) (try_fold f ys)"
  by (induction xs arbitrary: s) (simp_all add: and_then_assoc and_then_def split: sum.split)

lemma try_fold_invariant:
  assumes "try_fold f xs s = Inr s'" and "P s"
    and "\<And>x s s'. x \<in> set xs \<Longrightarrow> P s \<Longrightarrow> f x s = Inr s' \<Longrightarrow> P s'"
  shows "P s'"
  using assms by (induction xs arbitrary: s) auto

lemma try_map_length: "try_map f xs = Inr ys \<Longrightarrow> length ys = length xs"
  by (induction xs arbitrary: ys) auto

lemma try_map_nth:
  "try_map f xs = Inr ys \<Longrightarrow> i < length xs \<Longrightarrow> f (xs ! i) = Inr (ys ! i)"
proof (induction xs arbitrary: ys i)
  case (Cons x xs)
  then show ?case by (cases i) auto
qed simp

lemma try_map_total:
  "(\<And>x. x \<in> set xs \<Longrightarrow> \<exists>y. f x = Inr y) \<Longrightarrow> \<exists>ys. try_map f xs = Inr ys"
proof (induction xs)
  case (Cons x xs)
  then obtain y ys where "f x = Inr y" "try_map f xs = Inr ys" by force
  then show ?case by simp
qed simp

subsection \<open>Arithmetic that does not wrap\<close>

lemma add64_nowrap [nowrap]: "a + b < 2 ^ 64 \<Longrightarrow> add64 a b = a + b"
  by (simp add: add64_def)

lemma sub64_nowrap [nowrap]:
  assumes "b \<le> a" "a < 2 ^ 64"
  shows "sub64 a b = a - b"
proof -
  obtain c where "a = b + c" using assms(1) by (auto simp: le_iff_add)
  then show ?thesis using assms by (simp add: sub64_def)
qed

lemma mul64_nowrap [nowrap]: "a * b < 2 ^ 64 \<Longrightarrow> mul64 a b = a * b"
  by (simp add: mul64_def)

lemma shl64_nowrap [nowrap]: "a * 2 ^ k < 2 ^ 64 \<Longrightarrow> k < 64 \<Longrightarrow> shl64 a k = a * 2 ^ k"
  by (simp add: shl64_def)

lemma shl64_one [nowrap]:
  assumes "k < 64"
  shows "shl64 1 k = 2 ^ k"
proof -
  have "(2::nat) ^ k < 2 ^ 64" using assms by (intro power_strict_increasing) simp_all
  then show ?thesis using assms by (simp add: shl64_def)
qed

lemma shl64_Suc_0 [nowrap]: "k < 64 \<Longrightarrow> shl64 (Suc 0) k = 2 ^ k"
  using shl64_one by simp

lemma shr64_small [nowrap]: "k < 64 \<Longrightarrow> shr64 a k = a div 2 ^ k"
  by (simp add: shr64_def)

lemma add32_nowrap [nowrap]: "a + b < 2 ^ 32 \<Longrightarrow> add32 a b = a + b"
  by (simp add: add32_def)

lemma sub32_nowrap [nowrap]:
  assumes "b \<le> a" "a < 2 ^ 32"
  shows "sub32 a b = a - b"
proof -
  obtain c where "a = b + c" using assms(1) by (auto simp: le_iff_add)
  then show ?thesis using assms by (simp add: sub32_def)
qed

lemma as_u32_small [nowrap]: "a < 2 ^ 32 \<Longrightarrow> as_u32 a = a"
  by (simp add: as_u32_def)

lemma sub64_wraps: "a < b \<Longrightarrow> b < 2 ^ 64 \<Longrightarrow> sub64 a b = 2 ^ 64 - (b - a)"
  by (simp add: sub64_def)

lemma div_ceil_bounds:
  assumes "0 < b"
  shows "a \<le> div_ceil a b * b" and "a \<noteq> 0 \<Longrightarrow> (div_ceil a b - 1) * b < a"
proof -
  have *: "a = a div b * b + a mod b" by simp
  have m: "a mod b < b" using assms by simp
  show "a \<le> div_ceil a b * b"
  proof (cases "a mod b = 0")
    case True
    then show ?thesis using * by (simp add: div_ceil_def)
  next
    case False
    then have "div_ceil a b * b = a div b * b + b" by (simp add: div_ceil_def)
    then show ?thesis using * m by linarith
  qed
  assume "a \<noteq> 0"
  show "(div_ceil a b - 1) * b < a"
  proof (cases "a mod b = 0")
    case True
    then have "a = a div b * b" and "div_ceil a b = a div b" using * by (auto simp: div_ceil_def)
    moreover have "a div b \<noteq> 0" using True \<open>a \<noteq> 0\<close> * by auto
    ultimately show ?thesis using assms \<open>a \<noteq> 0\<close>
      by (metis diff_less mult_less_mono1 neq0_conv zero_less_one)
  next
    case False
    then have "(div_ceil a b - 1) * b = a div b * b" by (simp add: div_ceil_def)
    then show ?thesis using * False by linarith
  qed
qed

lemma is_power_of_two_iff: "is_power_of_two n \<longleftrightarrow> (\<exists>k. n = 2 ^ k)"
proof (induction n rule: is_power_of_two.induct)
  case (1 n)
  show ?case
  proof (cases "n \<le> 1")
    case True
    have "(\<exists>k. n = 2 ^ k) \<longleftrightarrow> n = 1"
      using True by (metis le_less less_one power_0 power_not_zero zero_neq_numeral)
    with True show ?thesis by (simp add: is_power_of_two.simps [of n])
  next
    case False
    then have 3: "1 < n" by simp
    have "(\<exists>k. n = 2 ^ k) \<longleftrightarrow> even n \<and> (\<exists>k. n div 2 = 2 ^ k)"
    proof
      assume "\<exists>k. n = 2 ^ k"
      then obtain k where k: "n = 2 ^ k" by blast
      with 3 have "k \<noteq> 0" by (cases k) auto
      then obtain j where "k = Suc j" by (cases k) auto
      with k show "even n \<and> (\<exists>k. n div 2 = 2 ^ k)" by auto
    next
      assume "even n \<and> (\<exists>k. n div 2 = 2 ^ k)"
      then obtain k where "even n" "n div 2 = 2 ^ k" by blast
      then have "n = 2 ^ Suc k" by (metis dvd_mult_div_cancel power_Suc)
      then show "\<exists>k. n = 2 ^ k" by blast
    qed
    with 3 1 show ?thesis by (auto simp: is_power_of_two.simps [of n])
  qed
qed

lemma trailing_zeros_power [simp]: "trailing_zeros (2 ^ k) = k"
proof (induction k)
  case 0
  show ?case by (simp add: trailing_zeros.simps)
next
  case (Suc k)
  then show ?case by (subst trailing_zeros.simps) simp
qed

lemma xor_left_cancel: "a XOR b = a XOR c \<longleftrightarrow> b = c" for a b c :: "'a::len word"
  by (metis xor.assoc xor_self_eq xor.left_neutral)

lemma power_of_two_between:
  assumes "2 ^ a \<le> (2::nat) ^ k" "(2::nat) ^ k \<le> 2 ^ b"
  shows "a \<le> k \<and> k \<le> b"
  using assms by simp

lemma divisor_of_power_two:
  assumes "x dvd 2 ^ k"
  obtains i where "x = (2::nat) ^ i"
proof -
  have "\<exists>i. x = 2 ^ i" using assms
  proof (induction k arbitrary: x)
    case (Suc k)
    show ?case
    proof (cases "even x")
      case True
      then obtain y where y: "x = 2 * y" by blast
      then have "y dvd 2 ^ k" using Suc.prems by simp
      then obtain i where "y = 2 ^ i" using Suc.IH by blast
      then show ?thesis using y by (intro exI [of _ "Suc i"]) simp
    next
      case False
      then have "coprime x (2 ^ Suc k)" by simp
      then have "is_unit x" using Suc.prems by (metis coprime_common_divisor dvd_refl)
      then show ?thesis by (intro exI [of _ 0]) simp
    qed
  qed (intro exI [of _ 0], simp)
  then show thesis using that by blast
qed

end
