(* ===== verification/Bytes.thy ===== *)
theory Bytes
  imports Prelude
begin

unbundle bit_operations_syntax

section \<open>Big-endian field access (\<^verbatim>\<open>src/bytes.rs\<close>)\<close>

text \<open>
  \<open>to_be\<close> and \<open>to_le\<close> are the standard library's \<^verbatim>\<open>to_be_bytes\<close> and \<^verbatim>\<open>to_le_bytes\<close> at a
  width in bytes, \<open>from_be\<close> and \<open>from_le\<close> their inverses; the readers \<open>be16\<close> to \<open>le32\<close> and
  the writers \<open>put16\<close> to \<open>put64\<close> are the functions of the file. A reader or writer out of
  range panics. A writer takes the buffer last, so that a list of writers is a list of
  edits for \<open>run_edits\<close>.
\<close>

primrec to_be :: "nat \<Rightarrow> 'a::len word \<Rightarrow> bytes" where
  "to_be 0 v = []"
| "to_be (Suc n) v = to_be n (drop_bit 8 v) @ [ucast v]"

definition from_be :: "bytes \<Rightarrow> 'a::len word" where
  "from_be bs = foldl (\<lambda>acc b. push_bit 8 acc OR ucast b) 0 bs"

definition to_le :: "nat \<Rightarrow> 'a::len word \<Rightarrow> bytes" where
  "to_le n v = rev (to_be n v)"

definition from_le :: "bytes \<Rightarrow> 'a::len word" where
  "from_le bs = from_be (rev bs)"

definition be16 :: "bytes \<Rightarrow> nat \<Rightarrow> error + u16" where
  "be16 b off = and_then (read_slice off 2 b) (\<lambda>s. Inr (from_be s))"

definition be32 :: "bytes \<Rightarrow> nat \<Rightarrow> error + u32" where
  "be32 b off = and_then (read_slice off 4 b) (\<lambda>s. Inr (from_be s))"

definition be64 :: "bytes \<Rightarrow> nat \<Rightarrow> error + u64" where
  "be64 b off = and_then (read_slice off 8 b) (\<lambda>s. Inr (from_be s))"

definition le32 :: "bytes \<Rightarrow> nat \<Rightarrow> error + u32" where
  "le32 b off = and_then (read_slice off 4 b) (\<lambda>s. Inr (from_le s))"

definition put16 :: "nat \<Rightarrow> u16 \<Rightarrow> bytes \<Rightarrow> error + bytes" where
  "put16 off v b = write_slice off (to_be 2 v) b"

definition put32 :: "nat \<Rightarrow> u32 \<Rightarrow> bytes \<Rightarrow> error + bytes" where
  "put32 off v b = write_slice off (to_be 4 v) b"

definition put64 :: "nat \<Rightarrow> u64 \<Rightarrow> bytes \<Rightarrow> error + bytes" where
  "put64 off v b = write_slice off (to_be 8 v) b"

section \<open>Lemmas\<close>

subsection \<open>Encoding and decoding words\<close>

lemma to_be_numeral: "to_be (numeral k) v = to_be (pred_numeral k) (drop_bit 8 v) @ [ucast v]"
  by (simp add: numeral_eq_Suc)

lemma length_to_be [simp]: "length (to_be n v) = n"
  by (induction n arbitrary: v) auto

lemma length_to_le [simp]: "length (to_le n v) = n"
  by (simp add: to_le_def)

lemma from_be_Nil [simp]: "from_be [] = 0"
  by (simp add: from_be_def)

lemma from_be_snoc: "from_be (bs @ [b]) = push_bit 8 (from_be bs) OR ucast b"
  by (simp add: from_be_def)

lemma from_be_to_be: "from_be (to_be n v) = take_bit (8 * n) v"
proof (induction n arbitrary: v)
  case (Suc n)
  show ?case
    by (rule bit_word_eqI) (auto simp: Suc from_be_snoc bit_simps algebra_simps)
qed simp

lemma from_be_to_be_id [simp]:
  "LENGTH('a) \<le> 8 * n \<Longrightarrow> from_be (to_be n (v :: 'a::len word)) = v"
  by (rule bit_word_eqI) (auto simp: from_be_to_be bit_simps)

lemma from_le_to_le_id [simp]:
  "LENGTH('a) \<le> 8 * n \<Longrightarrow> from_le (to_le n (v :: 'a::len word)) = v"
  by (simp add: from_le_def to_le_def)

lemma to_be_from_be:
  "8 * length bs \<le> LENGTH('a) \<Longrightarrow> to_be (length bs) (from_be bs :: 'a::len word) = bs"
proof (induction bs rule: rev_induct)
  case (snoc b bs)
  have 1: "drop_bit 8 (push_bit 8 (from_be bs) OR ucast b) = take_bit (LENGTH('a) - 8) (from_be bs :: 'a word)"
    by (rule bit_word_eqI) (auto simp: bit_simps dest: bit_imp_le_length)
  have t: "take_bit (8 * length bs) (from_be bs :: 'a word) = from_be bs"
    using snoc from_be_to_be [of "length bs" "from_be bs :: 'a word"] by simp
  have "i < LENGTH('a) - 8" if "bit (from_be bs :: 'a word) i" for i
  proof -
    from that have "bit (take_bit (8 * length bs) (from_be bs :: 'a word)) i" by (simp only: t)
    then have "i < 8 * length bs" by (simp add: bit_take_bit_iff)
    with snoc.prems show ?thesis by simp
  qed
  then have 2: "take_bit (LENGTH('a) - 8) (from_be bs :: 'a word) = from_be bs"
    by (intro bit_word_eqI) (auto simp: bit_simps)
  have 3: "ucast (push_bit 8 (from_be bs :: 'a word) OR ucast b) = b"
    using snoc.prems by (intro bit_word_eqI) (auto simp: bit_simps)
  have "to_be (length bs) (from_be bs :: 'a word) = bs" using snoc by simp
  then show ?case by (simp only: from_be_snoc length_append_singleton to_be.simps 1 2 3)
qed simp

lemma to_le_from_le:
  "8 * length bs \<le> LENGTH('a) \<Longrightarrow> to_le (length bs) (from_le bs :: 'a::len word) = bs"
  using to_be_from_be [of "rev bs", where 'a = 'a] by (simp add: to_le_def from_le_def)

subsection \<open>Slices and splices\<close>

lemma length_splice [slice_simps]:
  "off + length src \<le> length b \<Longrightarrow> length (splice off src b) = length b"
  by (simp add: splice_def)

lemma length_slice [simp]: "off + n \<le> length b \<Longrightarrow> length (slice off n b) = n"
  by (simp add: slice_def)

lemma slice_splice_same [slice_simps]:
  "off + length src \<le> length b \<Longrightarrow> n = length src \<Longrightarrow> slice off n (splice off src b) = src"
  by (simp add: slice_def splice_def)

lemma nth_splice:
  assumes "off + length src \<le> length b" "i < length b"
  shows "splice off src b ! i =
    (if off \<le> i \<and> i < off + length src then src ! (i - off) else b ! i)"
  using assms by (auto simp: splice_def nth_append min_def)

lemma nth_slice: "off + n \<le> length b \<Longrightarrow> i < n \<Longrightarrow> slice off n b ! i = b ! (off + i)"
  by (simp add: slice_def)

lemma splice_frame:
  assumes "off + length src \<le> length b"
  shows "take off (splice off src b) = take off b"
    and "drop (off + length src) (splice off src b) = drop (off + length src) b"
  using assms by (simp_all add: splice_def)

lemma slice_splice_before [slice_simps]:
  assumes "o' + n \<le> off" "off + length src \<le> length b"
  shows "slice o' n (splice off src b) = slice o' n b"
  using assms by (intro nth_equalityI) (simp_all add: nth_slice nth_splice slice_simps)

lemma slice_splice_after [slice_simps]:
  assumes "off + length src \<le> o'" "o' + n \<le> length b"
  shows "slice o' n (splice off src b) = slice o' n b"
  using assms by (intro nth_equalityI) (simp_all add: nth_slice nth_splice slice_simps)

lemma slice_splice_inside:
  assumes "off \<le> o'" "o' + n \<le> off + length src" "off + length src \<le> length b"
  shows "slice o' n (splice off src b) = slice (o' - off) n src"
  using assms by (intro nth_equalityI) (simp_all add: nth_slice nth_splice slice_simps)

lemma slice_slice: "i + m \<le> n \<Longrightarrow> off + n \<le> length b \<Longrightarrow> slice i m (slice off n b) = slice (off + i) m b"
  by (intro nth_equalityI) (simp_all add: nth_slice add.assoc)

lemma slice_all [simp]: "slice 0 (length b) b = b"
  by (simp add: slice_def)

lemma splice_slice_id: "off + n \<le> length b \<Longrightarrow> splice off (slice off n b) b = b"
  by (intro nth_equalityI) (auto simp: nth_slice nth_splice slice_simps)

lemma splice_all [simp]: "length src = length b \<Longrightarrow> splice 0 src b = src"
  by (simp add: splice_def)

lemma read_slice_ok [simp]: "off + n \<le> length b \<Longrightarrow> read_slice off n b = Inr (slice off n b)"
  by (simp add: read_slice_def)

lemma read_slice_InrD: "read_slice off n b = Inr s \<Longrightarrow> off + n \<le> length b \<and> s = slice off n b"
  by (auto simp: read_slice_def split: if_splits)

lemma write_slice_ok [slice_simps]:
  "off + length src \<le> length b \<Longrightarrow> write_slice off src b = Inr (splice off src b)"
  by (simp add: write_slice_def)

lemma write_slice_InrD:
  "write_slice off src b = Inr b' \<Longrightarrow> off + length src \<le> length b \<and> b' = splice off src b"
  by (auto simp: write_slice_def split: if_splits)

subsection \<open>Readers through writers\<close>

lemma be16_ok [slice_simps]: "off + 2 \<le> length b \<Longrightarrow> be16 b off = Inr (from_be (slice off 2 b))"
  by (simp add: be16_def)

lemma be32_ok [slice_simps]: "off + 4 \<le> length b \<Longrightarrow> be32 b off = Inr (from_be (slice off 4 b))"
  by (simp add: be32_def)

lemma be64_ok [slice_simps]: "off + 8 \<le> length b \<Longrightarrow> be64 b off = Inr (from_be (slice off 8 b))"
  by (simp add: be64_def)

lemma le32_ok [slice_simps]: "off + 4 \<le> length b \<Longrightarrow> le32 b off = Inr (from_le (slice off 4 b))"
  by (simp add: le32_def)

lemma put16_ok [slice_simps]: "off + 2 \<le> length b \<Longrightarrow> put16 off v b = Inr (splice off (to_be 2 v) b)"
  by (simp add: put16_def slice_simps)

lemma put32_ok [slice_simps]: "off + 4 \<le> length b \<Longrightarrow> put32 off v b = Inr (splice off (to_be 4 v) b)"
  by (simp add: put32_def slice_simps)

lemma put64_ok [slice_simps]: "off + 8 \<le> length b \<Longrightarrow> put64 off v b = Inr (splice off (to_be 8 v) b)"
  by (simp add: put64_def slice_simps)

lemma set_byte_ok [slice_simps]: "off < length b \<Longrightarrow> set_byte off v b = Inr (splice off [v] b)"
  by (simp add: set_byte_def slice_simps)

section \<open>Properties\<close>

text \<open>
  What a writer stores a reader of the same width at the same offset returns, for every
  offset in range, and the write changes no byte outside its field; out of range the writer
  panics.
\<close>

theorem put32_be32:
  "(case put32 off v b of
      Inl e \<Rightarrow> e = Panicked \<and> length b < off + 4
    | Inr b' \<Rightarrow> be32 b' off = Inr v \<and> length b' = length b
        \<and> take off b' = take off b \<and> drop (off + 4) b' = drop (off + 4) b)"
  by (auto simp: put32_def write_slice_def be32_def slice_simps splice_frame splice_frame(2) [of _ "to_be 4 v", simplified] split: sum.split)

end
