(* ===== verification/Crc.thy ===== *)
theory Crc
  imports Bytes
begin

unbundle bit_operations_syntax

section \<open>CRC32C (\<^verbatim>\<open>src/crc.rs\<close>)\<close>

text \<open>
  The table, the byte-wise update and the checksum as the file computes them: \<open>step\<close> is the
  body of the inner loop of \<^verbatim>\<open>table()\<close>, \<open>table\<close> the 256 entries it fills, \<open>update\<close> the fold
  over the data. \<open>cksum\<close>, \<open>stamp\<close> and \<open>verify\<close> panic where the slices of the source would.
  The lemmas compare the table with the bit-wise register it speeds up, and show that the
  stored checksum detects every change of up to four neighbouring bytes.
\<close>

definition step :: "u32 \<Rightarrow> u32" where
  "step c = (if c AND 1 \<noteq> 0 then 0x82f63b78 XOR drop_bit 1 c else drop_bit 1 c)"

definition table :: "u32 list" where
  "table = map (\<lambda>i. (step ^^ 8) (of_nat i)) [0..<256]"

definition update :: "u32 \<Rightarrow> bytes \<Rightarrow> u32" where
  "update c data = foldl (\<lambda>c b. (table ! unat ((c XOR ucast b) AND 0xff)) XOR drop_bit 8 c) c data"

definition crc32c :: "bytes \<Rightarrow> u32" where
  "crc32c data = NOT (update (NOT 0) data)"

definition cksum :: "bytes \<Rightarrow> nat \<Rightarrow> error + u32" where
  "cksum buf off =
     and_then (read_slice 0 off buf) (\<lambda>pre.
     let c = update (NOT 0) pre;
         c = update c (replicate 4 0)
     in and_then (read_slice (off + 4) (length buf - (off + 4)) buf) (\<lambda>post.
        Inr (NOT (update c post))))"

definition stamp :: "nat \<Rightarrow> bytes \<Rightarrow> error + bytes" where
  "stamp off buf = and_then (cksum buf off) (\<lambda>c. write_slice off (to_le 4 c) buf)"

definition verify :: "bytes \<Rightarrow> nat \<Rightarrow> error + bool" where
  "verify buf off =
     (if off + 4 \<le> length buf
      then and_then (le32 buf off) (\<lambda>s. and_then (cksum buf off) (\<lambda>c. Inr (s = c)))
      else Inr False)"

section \<open>Lemmas\<close>

subsection \<open>The register\<close>

lemma step_bit: "step c = (if bit c 0 then 0x82f63b78 XOR drop_bit 1 c else drop_bit 1 c)"
  by (simp add: step_def and_one_eq mod_2_eq_odd bit_0)

lemma step_xor: "step (x XOR y) = step x XOR step y"
  unfolding step_bit by (rule bit_word_eqI) (auto simp: bit_simps)

lemma step_pow_xor: "(step ^^ n) (x XOR y) = (step ^^ n) x XOR (step ^^ n) y"
  by (induction n) (simp_all add: step_xor)

lemma poly_bit31: "bit (0x82f63b78 :: u32) 31"
  by simp

lemma step_inj: "inj step"
proof (rule injI)
  fix x y assume e: "step x = step y"
  have top: "bit (step z) 31 = bit z 0" for z
    using poly_bit31 by (auto simp: step_bit bit_simps dest: bit_imp_le_length)
  from e have b: "bit x 0 = bit y 0" using top by metis
  with e have "drop_bit 1 x = drop_bit 1 y" by (auto simp: step_bit xor_left_cancel split: if_splits)
  then have "bit x (Suc i) = bit y (Suc i)" for i
    by (metis bit_drop_bit_eq comp_apply plus_1_eq_Suc)
  with b show "x = y" by (intro bit_word_eqI) (metis not0_implies_Suc)
qed

lemma step_pow_inj: "inj (step ^^ n)"
  by (rule inj_fn [OF step_inj])

text \<open>A register whose low bits are clear only shifts.\<close>

lemma step_pow_shift:
  "take_bit n c = 0 \<Longrightarrow> (step ^^ n) c = drop_bit n c"
proof (induction n arbitrary: c)
  case (Suc n)
  have "\<not> bit c 0" using Suc.prems by (metis bit_0 bit_take_bit_iff bit_0_eq bot_apply bot_bool_def zero_less_Suc)
  then have s: "step c = drop_bit 1 c" by (simp add: step_bit)
  have "take_bit n (drop_bit 1 c) = 0"
    using Suc.prems by (simp add: take_bit_drop_bit)
  then have "(step ^^ n) (drop_bit 1 c) = drop_bit n (drop_bit 1 c)" by (rule Suc.IH)
  then show ?case by (simp only: funpow_Suc_right comp_apply s) simp
qed simp

subsection \<open>The table is eight steps of the register\<close>

lemma length_table [simp]: "length table = 256"
  by (simp add: table_def)

lemma table_nth: "table ! unat (c AND 0xff) = (step ^^ 8) (c AND 0xff)"
proof -
  have "unat (c AND 0xff) \<le> unat (0xff :: u32)"
    by (rule word_and_le1 [THEN word_le_nat_alt [THEN iffD1]])
  then have "unat (c AND 0xff) < 256" by simp
  then show ?thesis by (simp add: table_def)
qed

lemma table_step:
  "(table ! unat (c AND 0xff)) XOR drop_bit 8 c = (step ^^ 8) c"
proof -
  have low: "c AND 0xff = take_bit 8 c"
    using take_bit_eq_mask [of 8 c] by (simp add: mask_eq_exp_minus_1)
  have split: "c = take_bit 8 c XOR push_bit 8 (drop_bit 8 c)"
    by (rule bit_word_eqI) (auto simp: bit_simps)
  have "(step ^^ 8) (push_bit 8 (drop_bit 8 c)) = drop_bit 8 (push_bit 8 (drop_bit 8 c))"
    by (rule step_pow_shift) (rule bit_word_eqI, auto simp: bit_simps)
  also have "\<dots> = drop_bit 8 c"
    by (rule bit_word_eqI) (auto simp: bit_simps dest: bit_imp_le_length)
  finally have "(step ^^ 8) (push_bit 8 (drop_bit 8 c)) = drop_bit 8 c" .
  then have "(step ^^ 8) c = (step ^^ 8) (take_bit 8 c) XOR drop_bit 8 c"
    by (subst split) (simp add: step_pow_xor)
  then show ?thesis by (simp only: table_nth) (simp only: low)
qed

lemma drop_byte: "drop_bit 8 (c XOR ucast (b :: u8)) = drop_bit 8 (c :: u32)"
  by (rule bit_word_eqI) (auto simp: bit_simps dest: bit_imp_le_length)

lemma update_Nil [simp]: "update c [] = c"
  by (simp add: update_def)

lemma update_Cons: "update c (b # bs) = update ((step ^^ 8) (c XOR ucast b)) bs"
proof -
  have "(table ! unat ((c XOR ucast b) AND 0xff)) XOR drop_bit 8 c = (step ^^ 8) (c XOR ucast b)"
    using table_step [of "c XOR ucast b"] by (simp only: drop_byte)
  then show ?thesis by (simp only: update_def foldl.simps)
qed

lemma update_append: "update c (xs @ ys) = update (update c xs) ys"
  by (simp add: update_def)

lemma step_eight: "(step ^^ 8) c = step (step (step (step (step (step (step (step c)))))))"
  by (simp add: eval_nat_numeral)

lemma update_inj: "update c xs = update c' xs \<Longrightarrow> c = c'"
proof (induction xs arbitrary: c c')
  case (Cons b xs)
  then have "(step ^^ 8) (c XOR ucast b) = (step ^^ 8) (c' XOR ucast b)"
    by (auto simp: update_Cons)
  then have "c XOR ucast b = c' XOR ucast b" by (rule injD [OF step_pow_inj])
  then have "(c XOR ucast b) XOR ucast b = (c' XOR ucast b) XOR ucast b" by simp
  then show ?case by (simp only: xor.assoc xor_self_eq xor.right_neutral)
qed simp

subsection \<open>Four bytes at once\<close>

definition window :: "u8 \<Rightarrow> u8 \<Rightarrow> u8 \<Rightarrow> u8 \<Rightarrow> u32" where
  "window b0 b1 b2 b3 =
     ucast b0 XOR push_bit 8 (ucast b1) XOR push_bit 16 (ucast b2) XOR push_bit 24 (ucast b3)"

lemma step_pow_push:
  assumes "n \<le> 24"
  shows "(step ^^ n) (push_bit n (ucast (b :: u8))) = ucast b"
proof -
  have "(step ^^ n) (push_bit n (ucast b)) = drop_bit n (push_bit n (ucast b))"
    by (rule step_pow_shift) (rule bit_word_eqI, auto simp: bit_simps)
  also have "\<dots> = ucast b"
    using assms by (intro bit_word_eqI) (auto simp: bit_simps dest: bit_imp_le_length)
  finally show ?thesis .
qed

lemma update_one: "update c [b] = (step ^^ 8) (c XOR ucast b)"
  by (simp only: update_Cons update_Nil)

lemma update_next:
  "n \<le> 24 \<Longrightarrow> update ((step ^^ n) x) [b] = (step ^^ (8 + n)) (x XOR push_bit n (ucast b))"
  by (simp only: update_one funpow_add comp_apply step_pow_xor step_pow_push)

lemma update_window: "update c [b0, b1, b2, b3] = (step ^^ 32) (c XOR window b0 b1 b2 b3)"
proof -
  have "update c [b0, b1, b2, b3] = update (update (update (update c [b0]) [b1]) [b2]) [b3]"
    by (simp only: update_append [symmetric] append.simps)
  also have "\<dots> = update (update (update ((step ^^ 8) (c XOR ucast b0)) [b1]) [b2]) [b3]"
    by (simp only: update_one)
  also have "\<dots> = (step ^^ 32) ((((c XOR ucast b0) XOR push_bit 8 (ucast b1))
      XOR push_bit 16 (ucast b2)) XOR push_bit 24 (ucast b3))"
    using update_next [of 8] update_next [of 16] update_next [of 24] by simp
  finally show ?thesis by (simp only: window_def xor.assoc)
qed

lemma window_inj:
  assumes "window a0 a1 a2 a3 = window b0 b1 b2 b3"
  shows "a0 = b0 \<and> a1 = b1 \<and> a2 = b2 \<and> a3 = b3"
proof -
  have "ucast (drop_bit 0 (window c0 c1 c2 c3)) = c0 \<and> ucast (drop_bit 8 (window c0 c1 c2 c3)) = c1
      \<and> ucast (drop_bit 16 (window c0 c1 c2 c3)) = c2 \<and> ucast (drop_bit 24 (window c0 c1 c2 c3)) = c3"
    for c0 c1 c2 c3
    by (intro conjI; rule bit_word_eqI)
      (auto simp: window_def bit_simps dest: bit_imp_le_length)
  with assms show ?thesis by metis
qed

lemma update_window_inj:
  assumes "length ws = 4" "length ws' = 4" "update c ws = update c ws'"
  shows "ws = ws'"
proof -
  from assms(1,2) obtain a0 a1 a2 a3 b0 b1 b2 b3 where
    e: "ws = [a0, a1, a2, a3]" "ws' = [b0, b1, b2, b3]"
    by (auto simp: numeral_eq_Suc length_Suc_conv)
  with assms(3) have "c XOR window a0 a1 a2 a3 = c XOR window b0 b1 b2 b3"
    by (auto simp: update_window dest: injD [OF step_pow_inj])
  then have "window a0 a1 a2 a3 = window b0 b1 b2 b3" by (simp only: xor_left_cancel)
  from window_inj [OF this] e show ?thesis by simp
qed

subsection \<open>Checksum, stamp and verification in range\<close>

lemma cksum_eq:
  assumes "off + 4 \<le> length buf"
  shows "cksum buf off = Inr (NOT (update (NOT 0) (splice off (replicate 4 0) buf)))"
proof -
  have "slice (off + 4) (length buf - (off + 4)) buf = drop (off + 4) buf"
    by (simp add: slice_def)
  with assms show ?thesis
    by (simp add: cksum_def Let_def splice_def update_append slice_def [of 0])
qed

lemma cksum_short: "length buf < off + 4 \<Longrightarrow> cksum buf off = Inl Panicked"
  by (auto simp: cksum_def read_slice_def Let_def and_then_def)

lemma splice_splice_same:
  "length a = length c \<Longrightarrow> off + length a \<le> length b \<Longrightarrow> splice off a (splice off c b) = splice off a b"
  by (intro nth_equalityI) (auto simp: nth_splice slice_simps)

lemma splice_restore:
  "length c = n \<Longrightarrow> off + n \<le> length b \<Longrightarrow> splice off (slice off n b) (splice off c b) = b"
  by (subst splice_splice_same) (simp_all add: splice_slice_id)

lemma cksum_splice:
  "length v = 4 \<Longrightarrow> off + 4 \<le> length buf \<Longrightarrow> cksum (splice off v buf) off = cksum buf off"
  by (simp add: cksum_eq slice_simps splice_splice_same)

lemma to_le_inj: "to_le 4 x = to_le 4 y \<longleftrightarrow> x = y" for x y :: u32
proof
  assume "to_le 4 x = to_le 4 y"
  then have "(from_le (to_le 4 x) :: u32) = from_le (to_le 4 y)" by simp
  then show "x = y" by simp
qed simp

definition crc_bytes :: "bytes \<Rightarrow> nat \<Rightarrow> bytes" where
  "crc_bytes buf off = to_le 4 (NOT (update (NOT 0) (splice off (replicate 4 0) buf)))"

lemma replicate_four: "replicate 4 x = [x, x, x, x]"
  by (simp add: numeral_eq_Suc)

lemma length_crc_bytes [simp]: "length (crc_bytes buf off) = 4"
  by (simp add: crc_bytes_def)

lemma stamp_ok [slice_simps]:
  "off + 4 \<le> length buf \<Longrightarrow> stamp off buf = Inr (splice off (crc_bytes buf off) buf)"
  by (simp add: stamp_def cksum_eq slice_simps crc_bytes_def)

lemma verify_eq:
  "off + 4 \<le> length buf \<Longrightarrow> verify buf off = Inr (slice off 4 buf = crc_bytes buf off)"
  using to_le_from_le [of "slice off 4 buf", where 'a = 32]
  by (auto simp: verify_def slice_simps cksum_eq crc_bytes_def)

lemma crc_bytes_splice:
  "length v = 4 \<Longrightarrow> off + 4 \<le> length buf \<Longrightarrow> crc_bytes (splice off v buf) off = crc_bytes buf off"
  by (simp add: crc_bytes_def splice_splice_same)

lemma verify_stamped:
  "off + 4 \<le> length buf \<Longrightarrow> verify (splice off (crc_bytes buf off) buf) off = Inr True"
  by (simp add: verify_eq slice_simps crc_bytes_splice)

lemma verify_total: "\<exists>v. verify buf off = Inr v"
proof (cases "off + 4 \<le> length buf")
  case True
  then show ?thesis by (simp add: verify_eq)
next
  case False
  then have "verify buf off = Inr False" by (simp add: verify_def)
  then show ?thesis by blast
qed

text \<open>The part of a buffer before, inside and after a window of four bytes.\<close>

lemma split_at_window:
  "k + 4 \<le> length b \<Longrightarrow> b = take k b @ slice k 4 b @ drop (k + 4) b"
  by (metis append_take_drop_id drop_drop slice_def add.commute)

lemma eq_by_window:
  assumes "k + 4 \<le> length a" "length b = length a"
    and "\<forall>i<length a. i < k \<or> k + 4 \<le> i \<longrightarrow> b ! i = a ! i"
    and "slice k 4 a = slice k 4 b"
  shows "a = b"
proof -
  have "take k b = take k a" "drop (k + 4) b = drop (k + 4) a"
    using assms(1-3) by (auto intro!: nth_equalityI)
  then show ?thesis
    using assms(1,2,4) split_at_window [of k a] split_at_window [of k b] by simp
qed

lemma update_differs_in_window:
  assumes "k + 4 \<le> length a" "length b = length a"
    and "\<forall>i<length a. i < k \<or> k + 4 \<le> i \<longrightarrow> b ! i = a ! i"
    and "update c a = update c b"
  shows "a = b"
proof -
  have t: "take k b = take k a" "drop (k + 4) b = drop (k + 4) a"
    using assms(1-3) by (auto intro!: nth_equalityI)
  have "update (update (update c (take k a)) (slice k 4 a)) (drop (k + 4) a) = update c a"
    by (subst (4) split_at_window [OF assms(1)]) (simp only: update_append)
  also have "\<dots> = update c b" by (rule assms(4))
  also have "\<dots> = update (update (update c (take k a)) (slice k 4 b)) (drop (k + 4) a)"
    using assms(1,2) by (subst split_at_window [of k b]) (simp_all only: update_append t)
  finally have "update (update c (take k a)) (slice k 4 a) = update (update c (take k a)) (slice k 4 b)"
    by (rule update_inj)
  then have "slice k 4 a = slice k 4 b"
    using assms(1,2) by (intro update_window_inj) simp_all
  then show ?thesis by (rule eq_by_window [OF assms(1-3)])
qed

section \<open>Properties\<close>

text \<open>
  \<^bold>\<open>C38\<close>. The table-driven loop computes what the bit-serial register of CRC-32C computes, for
  every start value and every data.
\<close>

theorem update_bitwise:
  "update c data = foldl (\<lambda>c b. (step ^^ 8) (c XOR ucast b)) c data"
  by (induction data arbitrary: c) (simp_all only: update_Nil update_Cons foldl.simps)

text \<open>
  \<^bold>\<open>C39\<close>. A buffer that is stamped verifies, keeps its length and every byte outside the field,
  and stamping is idempotent; a buffer too short for the field panics.
\<close>

theorem stamp_then_verify:
  "(case stamp off buf of
      Inl e \<Rightarrow> e = Panicked \<and> length buf < off + 4
    | Inr b \<Rightarrow> verify b off = Inr True \<and> stamp off b = Inr b \<and> length b = length buf
        \<and> take off b = take off buf \<and> drop (off + 4) b = drop (off + 4) buf)"
proof (cases "off + 4 \<le> length buf")
  case True
  then show ?thesis
    by (auto simp: slice_simps verify_stamped crc_bytes_splice splice_splice_same splice_frame
        splice_frame(2) [of _ "crc_bytes buf off", simplified])
next
  case False
  then show ?thesis by (simp add: stamp_def cksum_short)
qed

text \<open>
  \<^bold>\<open>C40\<close>. A buffer that verifies does not verify after any change confined to four neighbouring
  bytes that either lie outside the checksum field or are the field.
\<close>

theorem verify_detects_burst:
  assumes ok: "verify a off = Inr True"
    and len: "length b = length a" "k + 4 \<le> length a"
    and pos: "k + 4 \<le> off \<or> off + 4 \<le> k \<or> k = off"
    and same: "\<forall>i<length a. i < k \<or> k + 4 \<le> i \<longrightarrow> b ! i = a ! i"
    and diff: "a \<noteq> b"
  shows "verify b off = Inr False"
proof -
  have off: "off + 4 \<le> length a" using ok by (auto simp: verify_def split: if_splits)
  define z where "z x = splice off (replicate 4 (0 :: u8)) x" for x
  have "slice off 4 b \<noteq> crc_bytes b off"
  proof
    assume eq: "slice off 4 b = crc_bytes b off"
    have eqa: "slice off 4 a = crc_bytes a off" using ok off by (simp add: verify_eq)
    show False
    proof (cases "k = off")
      case True
      then have "z a = z b" using off len same
        by (auto simp: z_def nth_splice slice_simps intro!: nth_equalityI)
      then have "slice off 4 a = slice off 4 b" using eq eqa by (simp add: crc_bytes_def z_def)
      then have "slice k 4 a = slice k 4 b" using True by simp
      then have "a = b" by (rule eq_by_window [OF len(2,1) same])
      with diff show False by simp
    next
      case False
      then have s: "slice off 4 b = slice off 4 a"
        using off len pos same by (intro nth_equalityI) (auto simp: nth_slice)
      have "update (NOT 0) (z a) = update (NOT 0) (z b)"
        using eq eqa s by (simp add: crc_bytes_def z_def to_le_inj)
      moreover have "length (z a) = length a" "length (z b) = length a"
        using off len by (simp_all add: z_def slice_simps)
      moreover have "\<forall>i<length a. i < k \<or> k + 4 \<le> i \<longrightarrow> z b ! i = z a ! i"
        using off len same by (simp add: z_def nth_splice)
      ultimately have "z a = z b"
        using len by (intro update_differs_in_window [of k]) simp_all
      then have "splice off (slice off 4 a) (z a) = splice off (slice off 4 b) (z b)" by (simp only: s)
      moreover have "splice off (slice off 4 a) (z a) = a"
        unfolding z_def by (rule splice_restore) (use off in simp_all)
      moreover have "splice off (slice off 4 b) (z b) = b"
        unfolding z_def by (rule splice_restore) (use off len in simp_all)
      ultimately have "a = b" by simp
      with diff show False by simp
    qed
  qed
  then show ?thesis using off len by (simp add: verify_eq)
qed

theorem verify_detects_burst_witness:
  "verify [1, 2, 3, 4, 84, 13, 55, 192, 5, 6] 4 = Inr True \<and> verify [9, 2, 3, 4, 84, 13, 55, 192, 5, 6] 4 = Inr False"
proof -
  have ok: "verify [1, 2, 3, 4, 84, 13, 55, 192, 5, 6] 4 = Inr True"
    by (simp add: verify_eq slice_def crc_bytes_def splice_def update_Cons step_eight step_def
        to_le_def to_be_numeral replicate_four)
  have "verify [9, 2, 3, 4, 84, 13, 55, 192, 5, 6] 4 = Inr False"
    by (rule verify_detects_burst [OF ok, of _ 0]) (simp_all add: nth_Cons split: nat.splits)
  with ok show ?thesis by simp
qed

end
