(* ===== verification/Field_Table.thy ===== *)
theory Field_Table
  imports Crc
begin

section \<open>Tables of fields and the contract of an encoder\<close>

text \<open>
  Every on-disk structure is written field by field at fixed offsets into a buffer of zeros
  and then stamped with its checksum. A field table lists what a finished structure holds:
  pairs of an offset and the bytes there. The locale \<open>stamped_encoder\<close> is the contract all the
  encoders of \<^verbatim>\<open>src/structs\<close> share; its lemmas give, once for all of them, that the encoder
  does not panic, keeps the length of the buffer, leaves a checksum that verifies, stores
  every field where a reader finds it and touches no byte outside the fields.
\<close>

type_synonym field = "nat \<times> bytes"

abbreviation fld8 :: "nat \<Rightarrow> u8 \<Rightarrow> field" where "fld8 off v \<equiv> (off, [v])"
abbreviation fld16 :: "nat \<Rightarrow> u16 \<Rightarrow> field" where "fld16 off v \<equiv> (off, to_be 2 v)"
abbreviation fld32 :: "nat \<Rightarrow> u32 \<Rightarrow> field" where "fld32 off v \<equiv> (off, to_be 4 v)"
abbreviation fld64 :: "nat \<Rightarrow> u64 \<Rightarrow> field" where "fld64 off v \<equiv> (off, to_be 8 v)"

definition field_write :: "field \<Rightarrow> bytes \<Rightarrow> error + bytes" where
  "field_write f = write_slice (fst f) (snd f)"

definition apply_fields :: "field list \<Rightarrow> bytes \<Rightarrow> bytes" where
  "apply_fields fs b = fold (\<lambda>(off, src). splice off src) fs b"

text \<open>\<open>fields_inside n\<close>: every field ends within \<open>n\<close> bytes. \<open>fields_apart\<close>: no two fields overlap.\<close>

definition fields_inside :: "nat \<Rightarrow> field list \<Rightarrow> bool" where
  "fields_inside n fs \<longleftrightarrow> list_all (\<lambda>(off, src). off + length src \<le> n) fs"

definition apart :: "field \<Rightarrow> field \<Rightarrow> bool" where
  "apart f h \<longleftrightarrow> fst f + length (snd f) \<le> fst h \<or> fst h + length (snd h) \<le> fst f"

primrec fields_apart :: "field list \<Rightarrow> bool" where
  "fields_apart [] \<longleftrightarrow> True"
| "fields_apart (f # fs) \<longleftrightarrow> list_all (apart f) fs \<and> fields_apart fs"

text \<open>\<open>holds fs b\<close>: the buffer has the bytes of every field; \<open>covers fs i\<close>: a field has byte \<open>i\<close>.\<close>

definition holds :: "field list \<Rightarrow> bytes \<Rightarrow> bool" where
  "holds fs b \<longleftrightarrow> list_all (\<lambda>(off, src). off + length src \<le> length b \<and> slice off (length src) b = src) fs"

definition covers :: "field list \<Rightarrow> nat \<Rightarrow> bool" where
  "covers fs i \<longleftrightarrow> list_ex (\<lambda>(off, src). off \<le> i \<and> i < off + length src) fs"

lemma put_field_writes:
  "put16 off v16 = field_write (off, to_be 2 v16)"
  "put32 off v32 = field_write (off, to_be 4 v32)"
  "put64 off v64 = field_write (off, to_be 8 v64)"
  "set_byte off v8 = field_write (off, [v8])"
  "write_slice off src = field_write (off, src)"
  by (simp_all add: fun_eq_iff put16_def put32_def put64_def set_byte_def field_write_def)

lemma length_apply_fields: "fields_inside (length b) fs \<Longrightarrow> length (apply_fields fs b) = length b"
  by (induction fs arbitrary: b) (auto simp: apply_fields_def fields_inside_def slice_simps)

lemma run_field_writes:
  "fields_inside (length b) fs \<Longrightarrow> run_edits (map field_write fs) b = Inr (apply_fields fs b)"
  by (induction fs arbitrary: b)
     (auto simp: apply_fields_def fields_inside_def field_write_def slice_simps)

lemma slice_apply_fields_apart:
  assumes "fields_inside (length b) fs" "list_all (apart (off, src)) fs" "off + length src \<le> length b"
  shows "slice off (length src) (apply_fields fs b) = slice off (length src) b"
  using assms
proof (induction fs arbitrary: b)
  case (Cons f fs)
  obtain o' s' where f: "f = (o', s')" by force
  have in': "o' + length s' \<le> length b" and a: "off + length src \<le> o' \<or> o' + length s' \<le> off"
    using Cons.prems by (simp_all add: f fields_inside_def apart_def)
  have "slice off (length src) (apply_fields fs (splice o' s' b)) = slice off (length src) (splice o' s' b)"
    using Cons.prems in' by (intro Cons.IH) (simp_all add: fields_inside_def slice_simps)
  also have "\<dots> = slice off (length src) b" using a in' Cons.prems(3) by (auto simp: slice_simps)
  finally show ?case by (simp add: f apply_fields_def)
qed (simp add: apply_fields_def)

lemma holds_apply_fields:
  assumes "fields_inside (length b) fs" "fields_apart fs"
  shows "holds fs (apply_fields fs b)"
  using assms
proof (induction fs arbitrary: b)
  case (Cons f fs)
  obtain off src where f: "f = (off, src)" by force
  have off: "off + length src \<le> length b" using Cons.prems by (simp add: f fields_inside_def)
  have ins: "fields_inside (length (splice off src b)) fs"
    using Cons.prems off by (simp add: fields_inside_def slice_simps)
  have "slice off (length src) (apply_fields fs (splice off src b)) = src"
    using Cons.prems ins off by (subst slice_apply_fields_apart) (simp_all add: f slice_simps)
  moreover have "holds fs (apply_fields fs (splice off src b))" using Cons.prems ins by (intro Cons.IH) simp_all
  moreover have "length (apply_fields fs (splice off src b)) = length b"
    using ins off by (simp add: length_apply_fields slice_simps)
  ultimately show ?case using off by (simp add: f holds_def apply_fields_def)
qed (simp add: holds_def)

lemma nth_apply_fields:
  assumes "fields_inside (length b) fs" "\<not> covers fs i" "i < length b"
  shows "apply_fields fs b ! i = b ! i"
  using assms
proof (induction fs arbitrary: b)
  case (Cons f fs)
  obtain off src where f: "f = (off, src)" by force
  have off: "off + length src \<le> length b" using Cons.prems by (simp add: f fields_inside_def)
  have "apply_fields fs (splice off src b) ! i = splice off src b ! i"
    using Cons.prems off by (intro Cons.IH) (simp_all add: f fields_inside_def covers_def slice_simps)
  then show ?case using Cons.prems off by (auto simp: f apply_fields_def covers_def nth_splice)
qed (simp add: apply_fields_def)

subsection \<open>Reading a field back\<close>

lemma holds_Cons:
  "holds ((off, src) # fs) b \<longleftrightarrow>
     off + length src \<le> length b \<and> slice off (length src) b = src \<and> holds fs b"
  by (auto simp: holds_def)

lemma holds_member:
  "holds fs b \<Longrightarrow> (off, src) \<in> set fs \<Longrightarrow> off + length src \<le> length b \<and> slice off (length src) b = src"
  by (auto simp: holds_def list_all_iff)

lemma holds_be16: "holds fs b \<Longrightarrow> (off, to_be 2 v) \<in> set fs \<Longrightarrow> be16 b off = Inr v"
  using holds_member [of fs b off "to_be 2 v"] by (simp add: slice_simps)

lemma holds_be32: "holds fs b \<Longrightarrow> (off, to_be 4 v) \<in> set fs \<Longrightarrow> be32 b off = Inr v"
  using holds_member [of fs b off "to_be 4 v"] by (simp add: slice_simps)

lemma holds_be64: "holds fs b \<Longrightarrow> (off, to_be 8 v) \<in> set fs \<Longrightarrow> be64 b off = Inr v"
  using holds_member [of fs b off "to_be 8 v"] by (simp add: slice_simps)

lemma holds_byte:
  assumes "holds fs b" "(off, [v]) \<in> set fs"
  shows "b ! off = v" "off < length b"
proof -
  have m: "off + 1 \<le> length b" "slice off 1 b = [v]" using holds_member [OF assms] by simp_all
  then show "off < length b" by simp
  have "b ! (off + 0) = slice off 1 b ! 0" using m(1) by (subst nth_slice) simp_all
  then show "b ! off = v" using m(2) by simp
qed

section \<open>The contract\<close>

locale stamped_encoder =
  fixes enc :: "'a \<Rightarrow> bytes \<Rightarrow> error + bytes"
    and ok :: "'a \<Rightarrow> nat \<Rightarrow> bool"
    and fields :: "'a \<Rightarrow> nat \<Rightarrow> field list"
    and crc_off :: nat
  assumes body: "ok x (length b) \<Longrightarrow>
      \<exists>c. enc x b = stamp crc_off c \<and> length c = length b \<and> holds (fields x (length b)) c \<and>
        (\<forall>i<length b. \<not> covers (fields x (length b)) i \<longrightarrow> c ! i = b ! i)"
    and crc_apart: "ok x n \<Longrightarrow> list_all (apart (crc_off, replicate 4 0)) (fields x n)"
    and crc_inside: "ok x n \<Longrightarrow> crc_off + 4 \<le> n"
begin

lemma encoded:
  assumes "ok x (length b)"
  obtains b' where "enc x b = Inr b'" "length b' = length b" "verify b' crc_off = Inr True"
    "holds (fields x (length b)) b'"
    "\<And>i. i < length b \<Longrightarrow> \<not> covers ((crc_off, replicate 4 0) # fields x (length b)) i \<Longrightarrow> b' ! i = b ! i"
proof -
  obtain c where c: "enc x b = stamp crc_off c" "length c = length b" "holds (fields x (length b)) c"
    "\<forall>i<length b. \<not> covers (fields x (length b)) i \<longrightarrow> c ! i = b ! i"
    using body [OF assms] by blast
  have crc: "crc_off + 4 \<le> length c" using crc_inside [OF assms] c(2) by simp
  define d where "d = splice crc_off (crc_bytes c crc_off) c"
  have same: "slice off (length src) d = slice off (length src) c"
    if "(off, src) \<in> set (fields x (length b))" for off src
  proof -
    have "apart (crc_off, replicate 4 0) (off, src)"
      using crc_apart [OF assms] that by (auto simp: list_all_iff)
    moreover have "off + length src \<le> length c" using holds_member [OF c(3) that] by simp
    ultimately show ?thesis using crc by (auto simp: apart_def d_def slice_simps)
  qed
  have "holds (fields x (length b)) d"
    using c(3) same crc unfolding holds_def list_all_iff by (auto simp: d_def slice_simps)
  moreover have "enc x b = Inr d" using c(1) crc by (simp add: d_def slice_simps)
  moreover have "length d = length b" using c(2) crc by (simp add: d_def slice_simps)
  moreover have "verify d crc_off = Inr True" using crc by (simp add: d_def verify_stamped)
  moreover have "d ! i = b ! i" if "i < length b" "\<not> covers ((crc_off, replicate 4 0) # fields x (length b)) i" for i
    using that c(2,4) crc by (auto simp: d_def nth_splice covers_def)
  ultimately show thesis by (intro that)
qed

lemma total: "ok x (length b) \<Longrightarrow> \<exists>b'. enc x b = Inr b'"
  using encoded by metis

lemma checked:
  assumes "ok x (length b)" "enc x b = Inr b'"
  shows "length b' = length b" "verify b' crc_off = Inr True" "holds (fields x (length b)) b'"
  using encoded [OF assms(1)] assms(2) by (metis Inr_inject)+

lemma untouched:
  assumes "ok x (length b)" "enc x b = Inr b'" "i < length b"
    "\<not> covers ((crc_off, replicate 4 0) # fields x (length b)) i"
  shows "b' ! i = b ! i"
  using encoded [OF assms(1)] assms(2-4) by (metis Inr_inject)

end

text \<open>
  An encoder that is a list of field writes and a stamp of the whole buffer meets the
  contract, when the fields and the checksum are inside the buffer and do not overlap.
\<close>

lemma on_slice_all:
  assumes "length b = n" "off + 4 \<le> n"
  shows "on_slice 0 n (stamp off) b = stamp off b"
  using assms by (simp add: on_slice_def slice_simps slice_def splice_def)

lemma plain_encoder:
  assumes writes: "\<And>x b. ok x (length b) \<Longrightarrow>
      enc x b = and_then (run_edits (map field_write (fields x (length b))) b) (on_slice 0 (length b) (stamp crc_off))"
    and inside: "\<And>x n. ok x n \<Longrightarrow> fields_inside n ((crc_off, replicate 4 0) # fields x n)"
    and apart: "\<And>x n. ok x n \<Longrightarrow> fields_apart ((crc_off, replicate 4 0) # fields x n)"
  shows "stamped_encoder enc ok fields crc_off"
proof
  fix x n
  assume "ok x n"
  then show "list_all (apart (crc_off, replicate 4 0)) (fields x n)" "crc_off + 4 \<le> n"
    using inside [of x n] apart [of x n] by (simp_all add: fields_inside_def)
next
  fix x and b :: bytes
  assume ok: "ok x (length b)"
  define fs where "fs = fields x (length b)"
  have fs: "fields_inside (length b) fs" "fields_apart fs" "crc_off + 4 \<le> length b"
    using inside [OF ok] apart [OF ok] by (simp_all add: fs_def fields_inside_def)
  then have "enc x b = stamp crc_off (apply_fields fs b)"
    unfolding writes [OF ok] fs_def [symmetric]
    by (simp add: run_field_writes on_slice_all length_apply_fields)
  with fs show "\<exists>c. enc x b = stamp crc_off c \<and> length c = length b \<and> holds fs c \<and>
      (\<forall>i<length b. \<not> covers fs i \<longrightarrow> c ! i = b ! i)"
    by (auto simp: length_apply_fields holds_apply_fields nth_apply_fields)
qed

text \<open>\<open>reads r n\<close>: the reader returned a word of value \<open>n\<close>.\<close>

definition reads :: "error + 'a::len word \<Rightarrow> nat \<Rightarrow> bool" where
  "reads r n \<longleftrightarrow> (case r of Inl _ \<Rightarrow> False | Inr w \<Rightarrow> unat w = n)"

lemma unat_of_nat_small: "n < 2 ^ LENGTH('a) \<Longrightarrow> unat (of_nat n :: 'a::len word) = n"
  by (simp add: unat_of_nat)

lemma reads_of_nat [simp]: "n < 2 ^ LENGTH('a) \<Longrightarrow> reads (Inr (of_nat n :: 'a::len word)) n"
  by (simp add: reads_def unat_of_nat)

end
