(* ===== verification/Geometry.thy ===== *)
theory Geometry
  imports Prelude
begin

unbundle bit_operations_syntax

section \<open>What mkfs.xfs chooses (\<^verbatim>\<open>src/geometry.rs\<close>)\<close>

text \<open>
  The parameters of a format, the geometry worked out from them, and every position derived
  from the geometry. The integers of the file are naturals; an operation that could leave its
  width is one of \<open>add64\<close> to \<open>as_u32\<close>, so that the model wraps where a release build does.
  \<open>compute\<close> is cut at the comments of \<^verbatim>\<open>Geometry::compute\<close> that name the mkfs.xfs function
  each part reproduces; a label is its UTF-8 bytes.
\<close>

subsection \<open>Constants\<close>

definition MIN_CRC_BLOCKSIZE :: nat where "MIN_CRC_BLOCKSIZE = 1024"
definition MAX_BLOCKSIZE :: nat where "MAX_BLOCKSIZE = 65536"
definition MAX_SUPPORTED_BLOCKSIZE :: nat where "MAX_SUPPORTED_BLOCKSIZE = 16384"
definition MIN_SECTORSIZE :: nat where "MIN_SECTORSIZE = 512"
definition MAX_SECTORSIZE :: nat where "MAX_SECTORSIZE = 32768"
definition DINODE_MIN_SIZE :: nat where "DINODE_MIN_SIZE = 256"
definition DINODE_MAX_SIZE :: nat where "DINODE_MAX_SIZE = 2048"
definition INODE_BIG_CLUSTER_SIZE :: nat where "INODE_BIG_CLUSTER_SIZE = 8192"
definition INODES_PER_CHUNK :: nat where "INODES_PER_CHUNK = 64"
definition MAX_LOG_BLOCKS :: nat where "MAX_LOG_BLOCKS = 1024 * 1024"
definition MIN_LOG_BYTES :: nat where "MIN_LOG_BYTES = 10 * 1024 * 1024"
definition MAX_LOG_BYTES :: nat where "MAX_LOG_BYTES = 2 * 1024 * 1024 * 1024 - MIN_LOG_BYTES"
definition AG_MIN_BYTES :: nat where "AG_MIN_BYTES = 2 ^ 24"
definition AG_MAX_BYTES :: nat where "AG_MAX_BYTES = 2 ^ 40"
definition MAX_AGNUMBER :: nat where "MAX_AGNUMBER = 0xfffffffe"
definition ALLOCBT_AGFL_RESERVE :: nat where "ALLOCBT_AGFL_RESERVE = 4"
definition AGFL_HEADER :: nat where "AGFL_HEADER = 36"
definition MIB :: nat where "MIB = 2 ^ 20"
definition GIB :: nat where "GIB = 2 ^ 30"
definition TIB :: nat where "TIB = 2 ^ 40"

lemmas geometry_consts = MIN_CRC_BLOCKSIZE_def MAX_BLOCKSIZE_def MAX_SUPPORTED_BLOCKSIZE_def
  MIN_SECTORSIZE_def MAX_SECTORSIZE_def DINODE_MIN_SIZE_def DINODE_MAX_SIZE_def
  INODE_BIG_CLUSTER_SIZE_def INODES_PER_CHUNK_def MAX_LOG_BLOCKS_def MIN_LOG_BYTES_def
  MAX_LOG_BYTES_def AG_MIN_BYTES_def AG_MAX_BYTES_def MAX_AGNUMBER_def
  ALLOCBT_AGFL_RESERVE_def AGFL_HEADER_def MIB_def GIB_def TIB_def

subsection \<open>Features, parameters, geometry\<close>

record feature_flags =
  finobt :: bool
  rmapbt :: bool
  reflink :: bool
  inobtcount :: bool
  bigtime :: bool
  nrext64 :: bool
  sparse :: bool

definition default_features :: feature_flags where
  "default_features = \<lparr>finobt = True, rmapbt = True, reflink = True, inobtcount = True,
     bigtime = True, nrext64 = True, sparse = True\<rparr>"

record timestamp =
  secs :: "64 word"
  nsecs :: u32

text \<open>\<open>since\<close> is the time since the epoch, in seconds and nanoseconds, or nothing when the clock is before it.\<close>

definition timestamp_now :: "(nat \<times> nat) option \<Rightarrow> timestamp" where
  "timestamp_now since =
     (let (s, n) = (case since of Some t \<Rightarrow> t | None \<Rightarrow> (0, 0)) in \<lparr>secs = of_nat s, nsecs = of_nat n\<rparr>)"

record params =
  p_size :: "nat option"
  p_block_size :: "nat option"
  p_sector_size :: "nat option"
  p_inode_size :: "nat option"
  p_agcount :: "nat option"
  p_agsize :: "nat option"
  p_imaxpct :: "nat option"
  p_label :: "bytes option"
  p_uuid :: "bytes option"
  p_time :: "timestamp option"
  p_gen_seed :: "u64 option"
  p_features :: feature_flags

definition params_new :: params where
  "params_new = \<lparr>p_size = None, p_block_size = None, p_sector_size = None, p_inode_size = None,
     p_agcount = None, p_agsize = None, p_imaxpct = None, p_label = None, p_uuid = None,
     p_time = None, p_gen_seed = None, p_features = default_features\<rparr>"

record geometry =
  blocksize :: nat
  blocklog :: nat
  sectsize :: nat
  sectlog :: nat
  lsectsize :: nat
  lsectlog :: nat
  inodesize :: nat
  inodelog :: nat
  inopblock :: nat
  inopblog :: nat
  dirblocklog :: nat
  dblocks :: nat
  agsize :: nat
  agcount :: nat
  agblklog :: nat
  imaxpct :: nat
  logblocks :: nat
  logagno :: nat
  log_agbno :: nat
  features :: feature_flags
  label :: bytes

subsection \<open>Helpers\<close>

definition roundup :: "nat \<Rightarrow> nat \<Rightarrow> nat" where
  "roundup n m = mul64 (div_ceil n m) m"

text \<open>
  The loop of \<^verbatim>\<open>log2_roundup\<close>: \<open>l\<close> is a \<^verbatim>\<open>u8\<close> and a shift by it is taken modulo 64, so above
  \<open>2 ^ 63\<close> no \<open>l\<close> ends the loop; \<open>None\<close> is "does not return".
\<close>

partial_function (option) log2_roundup_from :: "nat \<Rightarrow> nat \<Rightarrow> nat option" where
  "log2_roundup_from i l =
     (if shl64 1 l < i then log2_roundup_from i ((l + 1) mod 256) else Some l)"

declare log2_roundup_from.simps [code]

definition log2_roundup :: "nat \<Rightarrow> nat option" where
  "log2_roundup i = log2_roundup_from i 0"

definition pow2_log :: "nat \<Rightarrow> nat" where
  "pow2_log v = trailing_zeros v"

definition ag_min_blocks :: "nat \<Rightarrow> nat" where
  "ag_min_blocks bl = shr64 AG_MIN_BYTES bl"

definition ag_max_blocks :: "nat \<Rightarrow> nat" where
  "ag_max_blocks bl = shr64 (AG_MAX_BYTES - 1) bl"

text \<open>
  \<^verbatim>\<open>default_ag_geometry\<close>: the shift of the inner block, then the size and the count. A size
  of 0 panics in the division that follows.
\<close>

definition multidisk_shift :: "nat \<Rightarrow> nat \<Rightarrow> nat" where
  "multidisk_shift bl dbs =
     (let s = 5;
          s = (if dbs \<le> shr64 (512 * GIB) bl then s - 1 else s);
          s = (if dbs \<le> shr64 (8 * GIB) bl then s - 1 else s);
          s = (if dbs < shr64 (128 * MIB) bl then s - 1 else s);
          s = (if dbs < shr64 (64 * MIB) bl then s - 1 else s);
          s = (if dbs < shr64 (32 * MIB) bl then s - 1 else s)
      in s)"

definition default_ag_blocks :: "nat \<Rightarrow> nat \<Rightarrow> bool \<Rightarrow> nat" where
  "default_ag_blocks bl dbs multidisk =
     (let max = ag_max_blocks bl in
      if dbs \<ge> shr64 (32 * TIB) bl then max
      else if \<not> multidisk \<and> dbs \<ge> shr64 (4 * TIB) bl then max
      else let shift = (if \<not> multidisk \<and> dbs \<ge> shr64 (128 * MIB) bl then 2
                        else multidisk_shift bl dbs);
               b = shr64 dbs shift
           in if dbs AND (shl64 1 shift - 1) \<noteq> 0 \<and> b < max then add64 b 1 else b)"

definition default_ag_geometry :: "nat \<Rightarrow> nat \<Rightarrow> bool \<Rightarrow> error + nat \<times> nat" where
  "default_ag_geometry bl dbs multidisk =
     (let blocks = default_ag_blocks bl dbs multidisk in
      if blocks = 0 then Inl Panicked
      else Inr (blocks, add64 (dbs div blocks) (u64_of_bool (dbs mod blocks \<noteq> 0))))"

subsection \<open>Positions derived from the geometry\<close>

definition bs :: "geometry \<Rightarrow> nat" where
  "bs g = blocksize g"

definition ag_blocks :: "geometry \<Rightarrow> nat \<Rightarrow> nat" where
  "ag_blocks g agno =
     (if agno = sub64 (agcount g) 1 then sub64 (dblocks g) (mul64 agno (agsize g)) else agsize g)"

definition header_blocks :: "geometry \<Rightarrow> nat" where
  "header_blocks g = div_ceil (4 * sectsize g) (bs g)"

definition bno_block :: "geometry \<Rightarrow> nat" where
  "bno_block g = header_blocks g"

definition cnt_block :: "geometry \<Rightarrow> nat" where
  "cnt_block g = bno_block g + 1"

definition ibt_block :: "geometry \<Rightarrow> nat" where
  "ibt_block g = cnt_block g + 1"

definition fibt_block :: "geometry \<Rightarrow> nat" where
  "fibt_block g = ibt_block g + 1"

definition rmap_block :: "geometry \<Rightarrow> nat" where
  "rmap_block g = (if finobt (features g) then fibt_block g + 1 else ibt_block g + 1)"

definition refc_block :: "geometry \<Rightarrow> nat" where
  "refc_block g =
     (if rmapbt (features g) then rmap_block g + 1
      else if finobt (features g) then fibt_block g + 1
      else ibt_block g + 1)"

definition prealloc_blocks :: "geometry \<Rightarrow> nat" where
  "prealloc_blocks g =
     (if reflink (features g) then refc_block g + 1
      else if rmapbt (features g) then rmap_block g + 1
      else if finobt (features g) then fibt_block g + 1
      else ibt_block g + 1)"

definition ag_max_usable :: "geometry \<Rightarrow> nat" where
  "ag_max_usable g =
     (let f = features g;
          blocks = header_blocks g + ALLOCBT_AGFL_RESERVE + 3 + u64_of_bool (finobt f)
            + u64_of_bool (rmapbt f) + u64_of_bool (reflink f)
      in sub64 (agsize g) blocks)"

definition agfl_size :: "geometry \<Rightarrow> nat" where
  "agfl_size g = sub32 (sectsize g) AGFL_HEADER div 4"

definition min_freelist :: "geometry \<Rightarrow> nat" where
  "min_freelist g = 2 + 2 + (if rmapbt (features g) then 2 else 0)"

definition chunk_blocks :: "geometry \<Rightarrow> nat" where
  "chunk_blocks g = shr64 (INODES_PER_CHUNK * inodesize g) (blocklog g)"

definition cluster_align :: "geometry \<Rightarrow> nat" where
  "cluster_align g =
     (let cluster = INODE_BIG_CLUSTER_SIZE * (inodesize g div DINODE_MIN_SIZE)
      in shr64 cluster (blocklog g))"

definition inoalignmt :: "geometry \<Rightarrow> nat" where
  "inoalignmt g = (if sparse (features g) then chunk_blocks g else cluster_align g)"

definition rextsize :: "geometry \<Rightarrow> nat" where
  "rextsize g = (if blocksize g < 4096 then shr64 4096 (blocklog g) else 1)"

definition lsunit_bytes :: "geometry \<Rightarrow> nat" where
  "lsunit_bytes g = (if lsectsize g > 512 then blocksize g else 0)"

definition logsunit :: "geometry \<Rightarrow> nat" where
  "logsunit g = (if lsunit_bytes g = 0 then 1 else lsunit_bytes g)"

definition spino_align :: "geometry \<Rightarrow> nat" where
  "spino_align g = (if sparse (features g) then as_u32 (cluster_align g) else 0)"

definition agb_to_fsb :: "geometry \<Rightarrow> nat \<Rightarrow> nat \<Rightarrow> nat" where
  "agb_to_fsb g agno agbno = shl64 agno (agblklog g) OR agbno"

definition agb_to_byte :: "geometry \<Rightarrow> nat \<Rightarrow> nat \<Rightarrow> nat" where
  "agb_to_byte g agno agbno = shl64 (add64 (mul64 agno (agsize g)) agbno) (blocklog g)"

definition agb_to_daddr :: "geometry \<Rightarrow> nat \<Rightarrow> nat \<Rightarrow> nat" where
  "agb_to_daddr g agno agbno = shl64 (add64 (mul64 agno (agsize g)) agbno) (blocklog g - 9)"

definition ino :: "geometry \<Rightarrow> nat \<Rightarrow> nat \<Rightarrow> nat \<Rightarrow> nat" where
  "ino g agno agbno slot =
     (let agino = shl64 agbno (inopblog g) OR slot
      in shl64 agno (agblklog g + inopblog g) OR agino)"

definition logstart :: "geometry \<Rightarrow> nat" where
  "logstart g = agb_to_fsb g (logagno g) (log_agbno g)"

definition root_chunk_agbno :: "geometry \<Rightarrow> nat" where
  "root_chunk_agbno g =
     (let f = features g;
          first = header_blocks g + 2 + 1 + min_freelist g;
          first = first + (u64_of_bool (finobt f) + u64_of_bool (rmapbt f) + u64_of_bool (reflink f));
          first = (if logagno g = 0 then add64 first (logblocks g) else first);
          align = inoalignmt g
      in if align > 1 then roundup first align else first)"

definition rootino :: "geometry \<Rightarrow> nat" where
  "rootino g = ino g 0 (root_chunk_agbno g) 0"

definition initial_fdblocks :: "geometry \<Rightarrow> nat" where
  "initial_fdblocks g =
     sub64 (sub64 (dblocks g) (mul64 (agcount g) (prealloc_blocks g))) (logblocks g)"

subsection \<open>Working the geometry out\<close>

definition check_features :: "feature_flags \<Rightarrow> error + unit" where
  "check_features f =
     (if inobtcount f \<and> \<not> finobt f then Inl (InvalidParams InobtcountNeedsFinobt) else Inr ())"

definition validate_blocksize :: "params \<Rightarrow> error + nat" where
  "validate_blocksize p =
     (let bsz = (case p_block_size p of Some b \<Rightarrow> b | None \<Rightarrow> 4096) in
      if \<not> is_power_of_two bsz \<or> \<not> (512 \<le> bsz \<and> bsz \<le> MAX_BLOCKSIZE)
        then Inl (InvalidParams (IllegalBlockSize bsz))
      else if bsz < MIN_CRC_BLOCKSIZE then Inl (InvalidParams MinCrcBlockSize)
      else if bsz > MAX_SUPPORTED_BLOCKSIZE then Inl (Unsupported (BlockSizeUnsupported bsz))
      else Inr bsz)"

definition default_sectorsize :: "nat \<Rightarrow> nat \<Rightarrow> nat \<Rightarrow> nat" where
  "default_sectorsize bsz logical physical_sector =
     (let physical = max physical_sector logical;
          physical = (if physical > MAX_SECTORSIZE then logical else physical)
      in if bsz < physical \<and> bsz \<ge> logical then logical else physical)"

definition validate_sectorsize :: "params \<Rightarrow> nat \<Rightarrow> nat \<Rightarrow> nat \<Rightarrow> error + nat" where
  "validate_sectorsize p bsz logical_sector physical_sector =
     (let logical = max logical_sector MIN_SECTORSIZE;
          ss = (case p_sector_size p of Some s \<Rightarrow> s
                | None \<Rightarrow> default_sectorsize bsz logical physical_sector) in
      if \<not> is_power_of_two ss \<or> \<not> (MIN_SECTORSIZE \<le> ss \<and> ss \<le> MAX_SECTORSIZE)
        then Inl (InvalidParams (IllegalSectorSize ss))
      else if bsz < ss then Inl (InvalidParams (BlockSmallerThanSector bsz ss))
      else if ss < logical then Inl (InvalidParams (SectorSmallerThanHw ss logical))
      else Inr ss)"

definition validate_inodesize :: "params \<Rightarrow> nat \<Rightarrow> error + nat" where
  "validate_inodesize p bsz =
     (let isz = (case p_inode_size p of Some i \<Rightarrow> i | None \<Rightarrow> 512) in
      if \<not> is_power_of_two isz \<or> isz < 512 \<or> isz > DINODE_MAX_SIZE \<or> isz > bsz div 2
        then Inl (InvalidParams (IllegalInodeSize isz (min (bsz div 2) DINODE_MAX_SIZE)))
      else Inr isz)"

definition validate_datadev :: "params \<Rightarrow> nat \<Rightarrow> nat \<Rightarrow> error + nat" where
  "validate_datadev p device_size bl =
     (let device_blocks = shr64 device_size bl in
      and_then
        (case p_size p of
           Some by \<Rightarrow>
             (let b = shr64 by bl in
              if b > device_blocks then Inl (InvalidParams (SizeTooLarge by device_blocks))
              else Inr b)
         | None \<Rightarrow> Inr device_blocks)
        (\<lambda>dbs. if dbs < ag_min_blocks bl
                 then Inl (InvalidParams (DataTooSmall dbs (ag_min_blocks bl)))
               else Inr dbs))"

definition initial_ag_geometry :: "params \<Rightarrow> nat \<Rightarrow> nat \<Rightarrow> nat \<Rightarrow> error + nat \<times> nat" where
  "initial_ag_geometry p bsz bl dbs =
     (case p_agsize p of
        Some by \<Rightarrow>
          (if by mod bsz \<noteq> 0 then Inl (InvalidParams (AgsizeNotMultiple by bsz))
           else let s = by div bsz in
             if s = 0 then Inl (InvalidParams AgsizeZero) else Inr (s, div_ceil dbs s))
      | None \<Rightarrow>
          (case p_agcount p of
             Some n \<Rightarrow>
               (if n = 0 then Inl (InvalidParams AgcountZero) else Inr (div_ceil dbs n, n))
           | None \<Rightarrow> default_ag_geometry bl dbs False))"

text \<open>\<open>align_ag_geometry\<close> returns the data blocks and the count; \<open>agsize = 0\<close> panics in \<^verbatim>\<open>%\<close>.\<close>

definition align_ag_geometry :: "params \<Rightarrow> nat \<Rightarrow> nat \<Rightarrow> nat \<Rightarrow> nat \<Rightarrow> error + nat \<times> nat" where
  "align_ag_geometry p bl dbs ags agc =
     (if ags = 0 then Inl Panicked
      else if dbs mod ags \<noteq> 0 \<and> dbs mod ags < ag_min_blocks bl then
        (if p_agcount p \<noteq> None
           then Inl (InvalidParams (LastAgTooSmall (dbs mod ags) (ag_min_blocks bl)))
         else Inr (mul64 (sub64 agc 1) ags, sub64 agc 1))
      else Inr (dbs, agc))"

definition validate_ag_geometry :: "nat \<Rightarrow> nat \<Rightarrow> nat \<Rightarrow> nat \<Rightarrow> error + unit" where
  "validate_ag_geometry bl dbs ags agc =
     (if ags < ag_min_blocks bl then Inl (InvalidParams (AgsizeTooSmall ags (ag_min_blocks bl)))
      else if ags > ag_max_blocks bl then Inl (InvalidParams (AgsizeTooBig ags (ag_max_blocks bl)))
      else if ags > dbs then Inl (InvalidParams (AgsizeOverData ags dbs))
      else if agc > MAX_AGNUMBER then Inl (InvalidParams (TooManyAgs agc))
      else Inr ())"

definition calculate_imaxpct :: "params \<Rightarrow> nat \<Rightarrow> nat \<Rightarrow> error + nat" where
  "calculate_imaxpct p bl dbs =
     (case p_imaxpct p of
        Some x \<Rightarrow> if x > 100 then Inl (InvalidParams (ImaxpctOver100 x)) else Inr x
      | None \<Rightarrow> if dbs < shr64 TIB bl then Inr 25
                else if dbs < shr64 (50 * TIB) bl then Inr 5
                else Inr 1)"

definition label_bytes :: "params \<Rightarrow> error + bytes" where
  "label_bytes p =
     (case p_label p of
        Some l \<Rightarrow> if length l > 12 then Inl (InvalidParams LabelTooLong)
                  else write_slice 0 l (replicate 12 0)
      | None \<Rightarrow> Inr (replicate 12 0))"

definition calculate_log_size :: "geometry \<Rightarrow> error + geometry" where
  "calculate_log_size g =
     (let bl = blocklog g in
      if dblocks g < shr64 (300 * MIB) bl then Inl (Unsupported FsUnder300MB)
      else
        let max_logblocks = sub64 (ag_max_usable g) 1;
            lb = shr64 (shl64 (dblocks g) bl div 2048) bl;
            lb = max lb (shr64 (64 * MIB) bl);
            lb = min lb max_logblocks;
            lb = min lb MAX_LOG_BLOCKS;
            lb = (if shl64 lb bl > MAX_LOG_BYTES then shr64 MAX_LOG_BYTES bl else lb)
        in if lb > sub64 (agsize g) (prealloc_blocks g) then Inl (InvalidParams (LogTooLarge lb))
           else
             let agno = agcount g div 2;
                 lb = (if agno = 0
                       then min lb (sub64 max_logblocks (mul64 (shr64 (INODES_PER_CHUNK * inodesize g) bl) 4))
                       else lb)
             in Inr (g\<lparr>logagno := agno, logblocks := lb, log_agbno := prealloc_blocks g\<rparr>))"

definition validate_supported :: "geometry \<Rightarrow> error + geometry" where
  "validate_supported g =
     (if dblocks g < shr64 (300 * MIB) (blocklog g) then Inl (InvalidParams FsTooSmall)
      else if logblocks g < shr64 (64 * MIB) (blocklog g) then Inl (InvalidParams LogTooSmall)
      else if agcount g < 2 then Inl (InvalidParams TooFewAgs)
      else Inr g)"

definition compute :: "params \<Rightarrow> nat \<Rightarrow> nat \<Rightarrow> nat \<Rightarrow> error + geometry" where
  "compute p device_size logical_sector physical_sector =
     (let f = p_features p in
      and_then (check_features f) (\<lambda>_.
      and_then (validate_blocksize p) (\<lambda>bsz.
      let bl = pow2_log bsz in
      and_then (validate_sectorsize p bsz logical_sector physical_sector) (\<lambda>ss.
      let dirbl = (if bsz < 4096 then 12 else bl) in
      and_then (validate_inodesize p bsz) (\<lambda>isz.
      and_then (validate_datadev p device_size bl) (\<lambda>dbs.
      and_then (initial_ag_geometry p bsz bl dbs) (\<lambda>(ags, agc).
      and_then (align_ag_geometry p bl dbs ags agc) (\<lambda>(dbs, agc).
      and_then (validate_ag_geometry bl dbs ags agc) (\<lambda>_.
      and_then (calculate_imaxpct p bl dbs) (\<lambda>pct.
      and_then (label_bytes p) (\<lambda>lbl.
      case log2_roundup ags of None \<Rightarrow> Inl Panicked | Some agbl \<Rightarrow>
      and_then (calculate_log_size
        \<lparr>blocksize = bsz, blocklog = bl, sectsize = ss, sectlog = pow2_log ss,
         lsectsize = ss, lsectlog = pow2_log ss, inodesize = isz, inodelog = pow2_log isz,
         inopblock = bsz div isz, inopblog = bl - pow2_log isz, dirblocklog = dirbl,
         dblocks = dbs, agsize = ags, agcount = agc, agblklog = agbl, imaxpct = pct,
         logblocks = 0, logagno = 0, log_agbno = 0, features = f, label = lbl\<rparr>)
      validate_supported)))))))))))"

section \<open>The invariant of an accepted geometry\<close>

text \<open>
  What every geometry that \<open>compute\<close> returns satisfies, in plain arithmetic. \<open>tiles\<close> is the
  further condition that the last allocation group starts inside the data blocks: \<open>compute\<close>
  guarantees it except for a requested group count far over the group size.
\<close>

definition geometry_ok :: "geometry \<Rightarrow> bool" where
  "geometry_ok g \<longleftrightarrow>
     blocksize g = 2 ^ blocklog g \<and> 10 \<le> blocklog g \<and> blocklog g \<le> 14 \<and>
     sectsize g = 2 ^ sectlog g \<and> 9 \<le> sectlog g \<and> sectlog g \<le> blocklog g \<and>
     lsectsize g = sectsize g \<and> lsectlog g = sectlog g \<and>
     inodesize g = 2 ^ inodelog g \<and> 9 \<le> inodelog g \<and> inodelog g \<le> 11 \<and> inodelog g < blocklog g \<and>
     inopblock g = 2 ^ inopblog g \<and> inopblog g = blocklog g - inodelog g \<and>
     dirblocklog g = max 12 (blocklog g) \<and>
     2 ^ 24 \<le> agsize g * blocksize g \<and> agsize g * blocksize g < 2 ^ 40 \<and>
     agsize g \<le> dblocks g \<and> dblocks g \<le> agcount g * agsize g \<and> 2 \<le> agcount g \<and> agcount g \<le> MAX_AGNUMBER \<and>
     dblocks g * blocksize g < 2 ^ 64 \<and> 300 * 2 ^ 20 \<le> dblocks g * blocksize g \<and>
     (dblocks g mod agsize g = 0 \<or> 2 ^ 24 \<le> (dblocks g mod agsize g) * blocksize g) \<and>
     agsize g \<le> 2 ^ agblklog g \<and> 2 ^ (agblklog g - 1) < agsize g \<and> agblklog g \<le> 30 \<and>
     imaxpct g \<le> 100 \<and>
     logagno g = agcount g div 2 \<and> log_agbno g = prealloc_blocks g \<and>
     64 * 2 ^ 20 \<le> logblocks g * blocksize g \<and> logblocks g \<le> MAX_LOG_BLOCKS \<and>
     logblocks g * blocksize g \<le> MAX_LOG_BYTES \<and>
     prealloc_blocks g + logblocks g < agsize g \<and>
     (inobtcount (features g) \<longrightarrow> finobt (features g)) \<and> length (label g) = 12"

definition tiles :: "geometry \<Rightarrow> bool" where
  "tiles g \<longleftrightarrow> (agcount g - 1) * agsize g < dblocks g"

section \<open>Lemmas\<close>

subsection \<open>The log2 loop\<close>

lemma log2_from_None:
  assumes "2 ^ 63 < i"
  shows "log2_roundup_from i l = None"
proof (rule ccontr)
  assume "log2_roundup_from i l \<noteq> None"
  then obtain r where r: "log2_roundup_from i l = Some r" by blast
  have "\<not> shl64 1 r < i"
  proof (rule log2_roundup_from.raw_induct [where P = "\<lambda>i l r. \<not> shl64 1 r < i", OF _ r])
    fix f i l r
    assume IH: "\<And>i l r. f i l = Some r \<Longrightarrow> \<not> shl64 1 r < i"
      and eq: "(if shl64 1 l < i then f i ((l + 1) mod 256) else Some l) = Some r"
    then show "\<not> shl64 1 r < i" by (auto split: if_splits)
  qed
  moreover have "shl64 1 r \<le> 2 ^ 63"
  proof -
    have "(2::nat) ^ (r mod 64) \<le> 2 ^ 63" by (rule power_increasing) simp_all
    then show ?thesis by (simp add: shl64_def)
  qed
  ultimately show False using assms by simp
qed

lemma log2_from_Some:
  assumes "l \<le> k" "k < 64" "i \<le> 2 ^ k" "\<forall>j<k. 2 ^ j < i"
  shows "log2_roundup_from i l = Some k"
  using assms
proof (induction "k - l" arbitrary: l)
  case 0
  then show ?case by (subst log2_roundup_from.simps) (simp add: nowrap)
next
  case (Suc d)
  then have "2 ^ l < i" "l < 64" by auto
  moreover from this have "shl64 1 l = 2 ^ l" by (intro nowrap)
  moreover have "log2_roundup_from i (Suc l) = Some k" using Suc by (intro Suc.hyps(1)) simp_all
  ultimately show ?case by (subst log2_roundup_from.simps) simp
qed

lemma log2_roundup_Some:
  assumes "0 < i" "i \<le> 2 ^ 63"
  obtains k where "log2_roundup i = Some k" "i \<le> 2 ^ k" "k \<le> 63" "\<forall>j<k. 2 ^ j < i"
proof -
  define k where "k = (LEAST k. i \<le> 2 ^ k)"
  have le: "i \<le> 2 ^ k" unfolding k_def by (rule LeastI [of _ 63]) (rule assms)
  have "k \<le> 63" unfolding k_def by (rule Least_le) (rule assms)
  moreover have "\<forall>j<k. 2 ^ j < i"
    unfolding k_def by (metis not_less_Least not_le)
  moreover have "log2_roundup i = Some k"
    unfolding log2_roundup_def using le calculation by (intro log2_from_Some) simp_all
  ultimately show thesis using le that by blast
qed

lemma log2_roundup_SomeD:
  assumes "log2_roundup i = Some k" "1 < i"
  shows "i \<le> 2 ^ k \<and> 2 ^ (k - 1) < i \<and> 0 < k"
proof -
  have "i \<le> 2 ^ 63"
    using assms(1) log2_from_None [of i 0] by (auto simp: log2_roundup_def not_le [symmetric])
  with assms obtain j where j: "log2_roundup i = Some j" "i \<le> 2 ^ j" "\<forall>m<j. 2 ^ m < i"
    using log2_roundup_Some [of i] by auto
  then have "j = k" using assms(1) by simp
  moreover have "0 < j" using j(2) assms(2) by (cases j) auto
  ultimately show ?thesis using j by auto
qed

subsection \<open>What each validation lets through\<close>

lemma power_two_bounds:
  "2 ^ a \<le> (2::nat) ^ k \<longleftrightarrow> a \<le> k" "(2::nat) ^ k < 2 ^ a \<longleftrightarrow> k < a"
  by simp_all

lemma between_powers:
  assumes "is_power_of_two n" "lo \<le> n" "n \<le> hi" "lo = 2 ^ a" "hi = 2 ^ b"
  obtains k where "n = 2 ^ k" "a \<le> k" "k \<le> b" "pow2_log n = k"
proof -
  obtain k where k: "n = 2 ^ k" using assms(1) is_power_of_two_iff by blast
  with assms have "a \<le> k" "k \<le> b" by (simp_all add: power_two_bounds)
  with k that show thesis by (simp add: pow2_log_def)
qed

lemma validate_blocksize_InrE:
  assumes "validate_blocksize p = Inr bsz"
  obtains k where "bsz = 2 ^ k" "10 \<le> k" "k \<le> 14" "pow2_log bsz = k"
proof -
  from assms have "is_power_of_two bsz" "1024 \<le> bsz" "bsz \<le> 16384"
    by (auto simp: validate_blocksize_def Let_def geometry_consts split: if_splits)
  then show thesis by (rule between_powers [where a = 10 and b = 14]) (simp_all add: that)
qed

lemma validate_sectorsize_InrE:
  assumes "validate_sectorsize p bsz lg ph = Inr ss"
  obtains k where "ss = 2 ^ k" "9 \<le> k" "k \<le> 15" "pow2_log ss = k" "ss \<le> bsz" "lg \<le> ss"
proof -
  have ok: "is_power_of_two ss" "512 \<le> ss" "ss \<le> 32768" and le: "ss \<le> bsz" "lg \<le> ss"
    using assms by (auto simp: validate_sectorsize_def Let_def geometry_consts split: if_splits)
  from ok obtain k where "ss = 2 ^ k" "9 \<le> k" "k \<le> 15" "pow2_log ss = k"
    by (rule between_powers [where a = 9 and b = 15]) simp_all
  with le show thesis by (intro that)
qed

lemma validate_inodesize_InrE:
  assumes "validate_inodesize p bsz = Inr isz"
  obtains k where "isz = 2 ^ k" "9 \<le> k" "k \<le> 11" "pow2_log isz = k" "isz \<le> bsz div 2"
proof -
  have ok: "is_power_of_two isz" "512 \<le> isz" "isz \<le> 2048" and le: "isz \<le> bsz div 2"
    using assms by (auto simp: validate_inodesize_def Let_def geometry_consts split: if_splits)
  from ok obtain k where "isz = 2 ^ k" "9 \<le> k" "k \<le> 11" "pow2_log isz = k"
    by (rule between_powers [where a = 9 and b = 11]) simp_all
  with le show thesis by (intro that)
qed

lemma ag_limits:
  assumes "10 \<le> bl" "bl \<le> 14"
  shows "ag_min_blocks bl = 2 ^ (24 - bl)" and "ag_max_blocks bl = 2 ^ (40 - bl) - 1"
proof -
  have "bl \<in> {10, 11, 12, 13, 14}" using assms by auto
  then show "ag_min_blocks bl = 2 ^ (24 - bl)" "ag_max_blocks bl = 2 ^ (40 - bl) - 1"
    by (auto simp: ag_min_blocks_def ag_max_blocks_def shr64_def geometry_consts)
qed

lemma blocks_of_bytes:
  assumes "bl \<le> 14" "n = 2 ^ k * m" "14 \<le> k"
  shows "shr64 n bl \<le> d \<longleftrightarrow> n \<le> d * 2 ^ bl" and "d < shr64 n bl \<longleftrightarrow> d * 2 ^ bl < n"
    and "d \<le> shr64 n bl \<longleftrightarrow> d * 2 ^ bl \<le> n"
proof -
  have "2 ^ k = 2 ^ (k - bl) * (2::nat) ^ bl"
    using assms by (simp add: power_add [symmetric])
  then obtain q where n: "n = q * 2 ^ bl" using assms(2) by (metis mult.assoc mult.commute)
  then have "shr64 n bl = q" using assms(1) by (simp add: shr64_def)
  then show "shr64 n bl \<le> d \<longleftrightarrow> n \<le> d * 2 ^ bl" "d < shr64 n bl \<longleftrightarrow> d * 2 ^ bl < n"
    "d \<le> shr64 n bl \<longleftrightarrow> d * 2 ^ bl \<le> n"
    using n by simp_all
qed

lemma validate_datadev_InrD:
  assumes "validate_datadev p device_size bl = Inr dbs" "bl \<le> 14"
  shows "ag_min_blocks bl \<le> dbs" "dbs * 2 ^ bl \<le> device_size"
proof -
  have "shr64 device_size bl * 2 ^ bl \<le> device_size"
    using assms(2) by (simp add: shr64_def)
  moreover have "dbs \<le> shr64 device_size bl"
    using assms(1) by (auto simp: validate_datadev_def Let_def split: option.splits if_splits)
  ultimately show "dbs * 2 ^ bl \<le> device_size" by (meson le_trans mult_le_mono1)
  show "ag_min_blocks bl \<le> dbs"
    using assms(1) by (auto simp: validate_datadev_def Let_def split: option.splits if_splits)
qed

lemma u64_of_bool_le [simp]: "u64_of_bool b \<le> 1"
  by (simp add: u64_of_bool_def)

lemma default_ag_geometry_InrD:
  assumes "default_ag_geometry bl dbs md = Inr (ags, agc)" "dbs < 2 ^ 63"
  shows "0 < ags" "agc = div_ceil dbs ags"
proof -
  show a: "0 < ags" using assms(1) by (auto simp: default_ag_geometry_def Let_def split: if_splits)
  have "dbs div ags < 2 ^ 63" using le_less_trans [OF div_le_dividend assms(2)] .
  then have "dbs div ags + u64_of_bool (dbs mod ags \<noteq> 0) < 2 ^ 64"
    by (simp add: u64_of_bool_def)
  with assms(1) show "agc = div_ceil dbs ags"
    by (auto simp: default_ag_geometry_def Let_def nowrap div_ceil_def u64_of_bool_def split: if_splits)
qed

lemma div_ceil_pos: "0 < a \<Longrightarrow> 0 < b \<Longrightarrow> 0 < div_ceil a b"
  using div_ceil_bounds(1) [of b a] by (cases "div_ceil a b") auto

lemma initial_ag_geometry_InrD:
  assumes "initial_ag_geometry p bsz bl dbs = Inr (ags, agc)" "0 < dbs" "dbs < 2 ^ 63"
  shows "0 < ags" "0 < agc" "dbs \<le> agc * ags"
    and "p_agcount p = None \<Longrightarrow> (agc - 1) * ags < dbs"
    and "agc \<le> ags \<Longrightarrow> (agc - 1) * ags < dbs"
proof -
  have count: "(agc - 1) * ags < dbs" if "agc = div_ceil dbs ags" "0 < ags"
    using that div_ceil_bounds(2) [of ags dbs] assms(2) by simp
  consider (div) "0 < ags" "agc = div_ceil dbs ags"
    | (cnt) "p_agcount p = Some agc" "0 < agc" "ags = div_ceil dbs agc"
  proof (cases "p_agsize p")
    case (Some m)
    then show thesis using assms(1) div
      by (auto simp: initial_ag_geometry_def Let_def split: if_splits)
  next
    case None
    note agsize = this
    show thesis
    proof (cases "p_agcount p")
      case (Some n)
      then show thesis using agsize assms(1)
        by (intro cnt) (auto simp: initial_ag_geometry_def split: if_splits)
    next
      case None
      then have "default_ag_geometry bl dbs False = Inr (ags, agc)"
        using agsize assms(1) by (simp add: initial_ag_geometry_def)
      then show thesis using div default_ag_geometry_InrD assms(3) by blast
    qed
  qed
  then have "0 < ags \<and> 0 < agc \<and> dbs \<le> agc * ags
     \<and> (p_agcount p = None \<longrightarrow> (agc - 1) * ags < dbs) \<and> (agc \<le> ags \<longrightarrow> (agc - 1) * ags < dbs)"
  proof cases
    case div
    then show ?thesis using count assms(2) div_ceil_bounds(1) [of ags dbs] div_ceil_pos by simp
  next
    case cnt
    have "ags \<noteq> 0" using cnt assms(2) div_ceil_pos by simp
    moreover have "dbs \<le> agc * ags" using cnt div_ceil_bounds(1) [of agc dbs] by (simp add: mult.commute)
    moreover have "(agc - 1) * ags < dbs" if "agc \<le> ags"
    proof -
      have "(ags - 1) * agc < dbs" using cnt div_ceil_bounds(2) [of agc dbs] assms(2) by simp
      then have "agc * ags < dbs + agc" by (simp add: algebra_simps diff_mult_distrib)
      then have "agc * ags < dbs + ags" using that by linarith
      moreover have "(agc - 1) * ags = agc * ags - ags" by (simp add: diff_mult_distrib)
      ultimately show ?thesis using assms(2) by linarith
    qed
    ultimately show ?thesis using cnt by simp
  qed
  then show "0 < ags" "0 < agc" "dbs \<le> agc * ags"
    "p_agcount p = None \<Longrightarrow> (agc - 1) * ags < dbs" "agc \<le> ags \<Longrightarrow> (agc - 1) * ags < dbs" by auto
qed

lemma align_ag_geometry_InrD:
  assumes "align_ag_geometry p bl dbs0 ags agc0 = Inr (dbs, agc)"
    and "ag_min_blocks bl \<le> dbs0" "dbs0 \<le> agc0 * ags" "0 < agc0" "dbs0 < 2 ^ 63"
    and "p_agcount p = None \<Longrightarrow> (agc0 - 1) * ags < dbs0"
  shows "dbs \<le> dbs0" "dbs \<le> agc * ags" "dbs mod ags = 0 \<or> ag_min_blocks bl \<le> dbs mod ags"
    and "agc = agc0 \<and> dbs = dbs0 \<or> p_agcount p = None \<and> (agc - 1) * ags < dbs"
proof -
  have "dbs \<le> dbs0 \<and> dbs \<le> agc * ags \<and> (dbs mod ags = 0 \<or> ag_min_blocks bl \<le> dbs mod ags)
      \<and> (agc = agc0 \<and> dbs = dbs0 \<or> p_agcount p = None \<and> (agc - 1) * ags < dbs)"
  proof (cases "dbs0 mod ags \<noteq> 0 \<and> dbs0 mod ags < ag_min_blocks bl")
    case False
    then show ?thesis using assms(1,3)
      by (auto simp: align_ag_geometry_def split: if_splits)
  next
    case True
    then have none: "p_agcount p = None" and pos: "0 < ags"
      and eq: "dbs = mul64 (sub64 agc0 1) ags" "agc = sub64 agc0 1"
      using assms(1) by (auto simp: align_ag_geometry_def split: if_splits)
    have le: "(agc0 - 1) * ags < dbs0" using assms(6) none by simp
    moreover have "agc0 - 1 \<le> (agc0 - 1) * ags" using pos by simp
    ultimately have "agc0 - 1 < dbs0" by (meson le_less_trans)
    then have c: "sub64 agc0 1 = agc0 - 1" using assms(4,5) by (intro nowrap) simp_all
    then have "mul64 (agc0 - 1) ags = (agc0 - 1) * ags" 
      by (intro nowrap less_trans [OF less_trans [OF le assms(5)]]) simp
    then have d: "dbs = (agc0 - 1) * ags" "agc = agc0 - 1" using eq c by simp_all
    have "agc0 \<noteq> 1"
    proof
      assume "agc0 = 1"
      then have "dbs0 \<le> ags" using assms(3) by simp
      then have "dbs0 mod ags = dbs0 \<or> dbs0 mod ags = 0" by (cases "dbs0 = ags") simp_all
      then show False using True assms(2) by auto
    qed
    then have "(agc - 1) * ags < dbs" using d pos assms(4) by simp
    then show ?thesis using d le none by simp
  qed
  then show "dbs \<le> dbs0" "dbs \<le> agc * ags" "dbs mod ags = 0 \<or> ag_min_blocks bl \<le> dbs mod ags"
    "agc = agc0 \<and> dbs = dbs0 \<or> p_agcount p = None \<and> (agc - 1) * ags < dbs" by auto
qed

lemma calculate_imaxpct_InrD: "calculate_imaxpct p bl dbs = Inr pct \<Longrightarrow> pct \<le> 100"
  by (auto simp: calculate_imaxpct_def split: option.splits if_splits)

lemma label_bytes_InrD: "label_bytes p = Inr l \<Longrightarrow> length l = 12"
  by (auto simp: label_bytes_def write_slice_def splice_def split: option.splits if_splits)

subsection \<open>Blocks at the start of every group\<close>

lemma header_blocks_bounds:
  assumes "sectsize g \<le> blocksize g" "0 < sectsize g"
  shows "1 \<le> header_blocks g \<and> header_blocks g \<le> 4"
proof -
  have "0 < blocksize g" using assms by simp
  note b = div_ceil_bounds [OF this, of "4 * sectsize g"]
  have "(div_ceil (4 * sectsize g) (blocksize g) - 1) * blocksize g < 4 * blocksize g"
    using b(2) assms by (intro less_le_trans [OF b(2)]) simp_all
  then have "div_ceil (4 * sectsize g) (blocksize g) - 1 < 4" by simp
  moreover have "0 < div_ceil (4 * sectsize g) (blocksize g)"
    using assms by (intro div_ceil_pos) simp_all
  ultimately show ?thesis by (simp add: header_blocks_def bs_def)
qed

lemma prealloc_blocks_eq:
  "prealloc_blocks g = header_blocks g + 3 + u64_of_bool (finobt (features g))
     + u64_of_bool (rmapbt (features g)) + u64_of_bool (reflink (features g))"
  by (simp add: prealloc_blocks_def refc_block_def rmap_block_def fibt_block_def ibt_block_def
      cnt_block_def bno_block_def u64_of_bool_def)

lemma prealloc_blocks_le: "prealloc_blocks g \<le> header_blocks g + 6"
  unfolding prealloc_blocks_eq by (simp add: u64_of_bool_def)

lemma prealloc_blocks_cong:
  "features g = features h \<Longrightarrow> sectsize g = sectsize h \<Longrightarrow> blocksize g = blocksize h \<Longrightarrow>
   prealloc_blocks g = prealloc_blocks h"
  by (simp add: prealloc_blocks_eq header_blocks_def bs_def)

subsection \<open>The log\<close>

text \<open>
  The size of the internal log in plain arithmetic: a 2048th of the data, at least 64 MiB,
  at most what one group has free, a million blocks and 2 GiB less 10 MiB.
\<close>

definition log_size_spec :: "geometry \<Rightarrow> nat" where
  "log_size_spec g =
     min (min (min (max (dblocks g div 2048) (2 ^ 26 div 2 ^ blocklog g))
                   (agsize g - (prealloc_blocks g + 5)))
              (2 ^ 20))
         (MAX_LOG_BYTES div 2 ^ blocklog g)"

lemma calculate_log_size_eq:
  assumes bl: "10 \<le> blocklog g" "blocklog g \<le> 14" "blocksize g = 2 ^ blocklog g"
    and ss: "0 < sectsize g" "sectsize g \<le> blocksize g"
    and ag: "2 ^ 24 \<le> agsize g * blocksize g" "agsize g < 2 ^ 40"
    and agc: "2 \<le> agcount g" and d: "dblocks g * blocksize g < 2 ^ 64"
  shows "calculate_log_size g =
     (if dblocks g * blocksize g < 300 * 2 ^ 20 then Inl (Unsupported FsUnder300MB)
      else Inr (g\<lparr>logagno := agcount g div 2, logblocks := log_size_spec g,
                  log_agbno := prealloc_blocks g\<rparr>))"
    and "prealloc_blocks g + 5 \<le> agsize g"
proof -
  have hb: "1 \<le> header_blocks g" "header_blocks g \<le> 4" using header_blocks_bounds ss by auto
  have "agsize g * blocksize g \<le> agsize g * 2 ^ 14"
    unfolding bl(3) using bl(2) by (intro mult_le_mono2 power_increasing) simp_all
  then have "2 ^ 24 \<le> agsize g * 2 ^ 14" using ag(1) by (rule le_trans [rotated])
  then have agsz: "1024 \<le> agsize g" by simp
  have un: "ag_max_usable g = agsize g - (prealloc_blocks g + 4)"
    unfolding ag_max_usable_def prealloc_blocks_eq Let_def
    by (subst sub64_nowrap) (use hb agsz ag(2) in \<open>auto simp: geometry_consts u64_of_bool_def\<close>)
  have pre: "prealloc_blocks g + 4 \<le> 14" using prealloc_blocks_le [of g] hb by simp
  then show "prealloc_blocks g + 5 \<le> agsize g" using agsz by simp
  have mx: "sub64 (ag_max_usable g) 1 = agsize g - (prealloc_blocks g + 5)"
    unfolding un by (subst sub64_nowrap) (use pre agsz ag(2) in auto)
  have room: "sub64 (agsize g) (prealloc_blocks g) = agsize g - prealloc_blocks g"
    using pre agsz ag(2) by (intro nowrap) simp_all
  have div0: "agcount g div 2 \<noteq> 0" using agc by simp
  have a: "shr64 (shl64 (dblocks g) (blocklog g) div 2048) (blocklog g) = dblocks g div 2048"
    using d bl by (simp add: nowrap div_mult2_eq [symmetric] mult.commute [of 2048])
  have s64: "shr64 (64 * MIB) (blocklog g) = 2 ^ 26 div 2 ^ blocklog g"
    using bl(2) by (simp add: nowrap MIB_def)
  define b where "b = min (min (max (dblocks g div 2048) (2 ^ 26 div 2 ^ blocklog g))
     (agsize g - (prealloc_blocks g + 5))) (2 ^ 20)"
  have b_le: "b \<le> 2 ^ 20" "b \<le> agsize g - (prealloc_blocks g + 5)" unfolding b_def by simp_all
  have "b * 2 ^ blocklog g \<le> 2 ^ 20 * 2 ^ 14"
    using b_le(1) power_increasing [OF bl(2), of "2::nat"] by (intro mult_le_mono) simp_all
  then have sh: "shl64 b (blocklog g) = b * 2 ^ blocklog g" using bl(2) by (intro nowrap) simp_all
  have c: "(if shl64 b (blocklog g) > MAX_LOG_BYTES then shr64 MAX_LOG_BYTES (blocklog g) else b)
      = log_size_spec g"
  proof -
    have "b * 2 ^ blocklog g \<le> MAX_LOG_BYTES \<longleftrightarrow> b \<le> MAX_LOG_BYTES div 2 ^ blocklog g"
      by (simp add: less_eq_div_iff_mult_less_eq)
    then show ?thesis using sh bl(2) unfolding log_size_spec_def b_def [symmetric]
      by (auto simp: nowrap min_def not_less [symmetric])
  qed
  have c_le: "log_size_spec g \<le> b" unfolding log_size_spec_def b_def by (rule min.cobounded1)
  then have fits: "\<not> log_size_spec g > agsize g - prealloc_blocks g" using b_le(2) by linarith
  have mb: "(300::nat) * 2 ^ 20 = 2 ^ 20 * 300" by simp
  have big: "dblocks g < shr64 (300 * MIB) (blocklog g) \<longleftrightarrow> dblocks g * blocksize g < 300 * 2 ^ 20"
    using blocks_of_bytes(2) [OF bl(2), of "300 * MIB" 20 300] bl(3) by (simp add: MIB_def)
  define a' where "a' = max (shr64 (shl64 (dblocks g) (blocklog g) div 2048) (blocklog g))
     (shr64 (64 * MIB) (blocklog g))"
  define b' where "b' = min (min a' (sub64 (ag_max_usable g) 1)) MAX_LOG_BLOCKS"
  define c' where "c' = (if shl64 b' (blocklog g) > MAX_LOG_BYTES
     then shr64 MAX_LOG_BYTES (blocklog g) else b')"
  have eq: "calculate_log_size g =
     (if dblocks g < shr64 (300 * MIB) (blocklog g) then Inl (Unsupported FsUnder300MB)
      else if c' > sub64 (agsize g) (prealloc_blocks g) then Inl (InvalidParams (LogTooLarge c'))
      else Inr (g\<lparr>logagno := agcount g div 2,
        logblocks := (if agcount g div 2 = 0 then min c' (sub64 (sub64 (ag_max_usable g) 1)
          (mul64 (shr64 (INODES_PER_CHUNK * inodesize g) (blocklog g)) 4)) else c'),
        log_agbno := prealloc_blocks g\<rparr>))"
    unfolding calculate_log_size_def Let_def a'_def b'_def c'_def by (rule refl)
  have "MAX_LOG_BLOCKS = 2 ^ 20" by (simp add: MAX_LOG_BLOCKS_def)
  then have "b' = b" unfolding b'_def a'_def b_def a s64 mx by (rule arg_cong)
  then have "c' = log_size_spec g" unfolding c'_def c [symmetric] by (rule ssubst) (rule refl)
  with eq fits show "calculate_log_size g =
     (if dblocks g * blocksize g < 300 * 2 ^ 20 then Inl (Unsupported FsUnder300MB)
      else Inr (g\<lparr>logagno := agcount g div 2, logblocks := log_size_spec g,
                  log_agbno := prealloc_blocks g\<rparr>))"
    unfolding big room by (simp only: div0 if_False)
qed

lemma calculate_log_size_InrD:
  assumes "calculate_log_size g0 = Inr g"
    and bl: "10 \<le> blocklog g0" "blocklog g0 \<le> 14" "blocksize g0 = 2 ^ blocklog g0"
    and ss: "0 < sectsize g0" "sectsize g0 \<le> blocksize g0"
    and ag: "2 ^ 24 \<le> agsize g0 * blocksize g0" "agsize g0 < 2 ^ 40"
    and agc: "2 \<le> agcount g0" and d: "dblocks g0 * blocksize g0 < 2 ^ 64"
  shows "g = g0\<lparr>logagno := agcount g0 div 2, logblocks := log_size_spec g0, log_agbno := prealloc_blocks g0\<rparr>"
    and "300 * 2 ^ 20 \<le> dblocks g0 * blocksize g0"
    and "logblocks g \<le> MAX_LOG_BLOCKS" "logblocks g * blocksize g0 \<le> MAX_LOG_BYTES"
    and "prealloc_blocks g0 + logblocks g + 5 \<le> agsize g0"
proof -
  note e = calculate_log_size_eq [OF bl ss ag agc d]
  show g: "g = g0\<lparr>logagno := agcount g0 div 2, logblocks := log_size_spec g0, log_agbno := prealloc_blocks g0\<rparr>"
    and "300 * 2 ^ 20 \<le> dblocks g0 * blocksize g0"
    using assms(1) unfolding e(1) by (auto simp only: sum.simps split: if_split_asm)
  have n: "logblocks g = log_size_spec g0" using g by simp
  have "log_size_spec g0 \<le> 2 ^ 20"
    unfolding log_size_spec_def by (rule min.coboundedI1, rule min.cobounded2)
  then show "logblocks g \<le> MAX_LOG_BLOCKS" unfolding n MAX_LOG_BLOCKS_def by simp
  have "log_size_spec g0 \<le> MAX_LOG_BYTES div 2 ^ blocklog g0" unfolding log_size_spec_def by simp
  then show "logblocks g * blocksize g0 \<le> MAX_LOG_BYTES"
    unfolding n bl(3) by (simp add: less_eq_div_iff_mult_less_eq)
  have "log_size_spec g0 \<le> agsize g0 - (prealloc_blocks g0 + 5)" unfolding log_size_spec_def by simp
  then show "prealloc_blocks g0 + logblocks g + 5 \<le> agsize g0" using e(2) unfolding n by linarith
qed

subsection \<open>Taking a successful computation apart\<close>

definition start_geometry ::
  "params \<Rightarrow> nat \<Rightarrow> nat \<Rightarrow> nat \<Rightarrow> nat \<Rightarrow> nat \<Rightarrow> nat \<Rightarrow> nat \<Rightarrow> nat \<Rightarrow> bytes \<Rightarrow> geometry" where
  "start_geometry p bsz ss isz dbs ags agc agbl pct lbl =
     \<lparr>blocksize = bsz, blocklog = pow2_log bsz, sectsize = ss, sectlog = pow2_log ss,
      lsectsize = ss, lsectlog = pow2_log ss, inodesize = isz, inodelog = pow2_log isz,
      inopblock = bsz div isz, inopblog = pow2_log bsz - pow2_log isz,
      dirblocklog = (if bsz < 4096 then 12 else pow2_log bsz), dblocks = dbs, agsize = ags,
      agcount = agc, agblklog = agbl, imaxpct = pct, logblocks = 0, logagno = 0, log_agbno = 0,
      features = p_features p, label = lbl\<rparr>"

lemma compute_InrE:
  assumes "compute p device_size lg ph = Inr g"
  obtains bsz ss isz dbs0 ags agc0 dbs agc pct lbl agbl u v where
    "check_features (p_features p) = Inr u" "validate_blocksize p = Inr bsz"
    "validate_sectorsize p bsz lg ph = Inr ss" "validate_inodesize p bsz = Inr isz"
    "validate_datadev p device_size (pow2_log bsz) = Inr dbs0"
    "initial_ag_geometry p bsz (pow2_log bsz) dbs0 = Inr (ags, agc0)"
    "align_ag_geometry p (pow2_log bsz) dbs0 ags agc0 = Inr (dbs, agc)"
    "validate_ag_geometry (pow2_log bsz) dbs ags agc = Inr v"
    "calculate_imaxpct p (pow2_log bsz) dbs = Inr pct" "label_bytes p = Inr lbl"
    "log2_roundup ags = Some agbl"
    "calculate_log_size (start_geometry p bsz ss isz dbs ags agc agbl pct lbl) = Inr g"
    "validate_supported g = Inr g"
proof -
  have oc: "(case x of None \<Rightarrow> Inl e | Some y \<Rightarrow> f y) = Inr z \<longleftrightarrow> (\<exists>y. x = Some y \<and> f y = Inr z)"
    for x and e :: error and f :: "nat \<Rightarrow> error + geometry" and z
    by (simp split: option.split)
  have vs: "validate_supported x = Inr y \<Longrightarrow> x = y" for x y
    by (simp add: validate_supported_def split: if_splits)
  show thesis
    using assms
    apply (simp only: compute_def Let_def and_then_eq_Inr split_paired_Ex prod.case oc)
    apply (elim exE conjE)
    apply (frule vs, hypsubst)
    apply (rule that, assumption+, simp only: start_geometry_def, assumption)
    done
qed

lemma validate_ag_geometry_InrD:
  assumes "validate_ag_geometry bl dbs ags agc = Inr u" "10 \<le> bl" "bl \<le> 14"
  shows "2 ^ 24 \<le> ags * 2 ^ bl" "ags * 2 ^ bl < 2 ^ 40" "ags \<le> dbs" "agc \<le> MAX_AGNUMBER"
proof -
  have v: "ag_min_blocks bl \<le> ags" "ags \<le> ag_max_blocks bl" "ags \<le> dbs" "agc \<le> MAX_AGNUMBER"
    using assms(1) by (auto simp: validate_ag_geometry_def split: if_splits)
  have p: "0 < (2::nat) ^ bl" by simp
  have e: "2 ^ (24 - bl) * 2 ^ bl = (2::nat) ^ 24" "2 ^ (40 - bl) * 2 ^ bl = (2::nat) ^ 40"
    using assms(3) by (simp_all flip: power_add)
  have lo: "2 ^ (24 - bl) \<le> ags" using v(1) ag_limits(1) [OF assms(2,3)] by simp
  have "0 < (2::nat) ^ (40 - bl)" by simp
  then have hi: "ags < 2 ^ (40 - bl)" using v(2) ag_limits(2) [OF assms(2,3)] by linarith
  show "2 ^ 24 \<le> ags * 2 ^ bl" using mult_le_mono1 [OF lo, of "2 ^ bl"] e by simp
  show "ags * 2 ^ bl < 2 ^ 40" using mult_less_mono1 [OF hi p] e by simp
  show "ags \<le> dbs" "agc \<le> MAX_AGNUMBER" using v by simp_all
qed

lemma calculate_log_size_agcount:
  assumes "calculate_log_size g0 = Inr g"
  shows "agcount g = agcount g0"
proof -
  have "\<exists>a b c. g = g0\<lparr>logagno := a, logblocks := b, log_agbno := c\<rparr>"
    using assms by (simp only: calculate_log_size_def Let_def sum.simps split: if_split_asm) blast+
  then show ?thesis by auto
qed

lemma compute_geometry:
  assumes c: "compute p device_size lg ph = Inr g" and dev: "device_size < 2 ^ 64"
  shows "geometry_ok g" and "dblocks g * blocksize g \<le> device_size"
    and "features g = p_features p"
    and "p_agcount p = None \<or> agcount g \<le> agsize g \<Longrightarrow> tiles g"
    and "prealloc_blocks g + logblocks g + 5 \<le> agsize g"
proof -
  obtain bsz ss isz dbs0 ags agc0 dbs agc pct lbl agbl u v where
    f: "check_features (p_features p) = Inr u" and b: "validate_blocksize p = Inr bsz" and
    s: "validate_sectorsize p bsz lg ph = Inr ss" and n: "validate_inodesize p bsz = Inr isz" and
    d: "validate_datadev p device_size (pow2_log bsz) = Inr dbs0" and
    ig: "initial_ag_geometry p bsz (pow2_log bsz) dbs0 = Inr (ags, agc0)" and
    al: "align_ag_geometry p (pow2_log bsz) dbs0 ags agc0 = Inr (dbs, agc)" and
    va: "validate_ag_geometry (pow2_log bsz) dbs ags agc = Inr v" and
    im: "calculate_imaxpct p (pow2_log bsz) dbs = Inr pct" and lb: "label_bytes p = Inr lbl" and
    l2: "log2_roundup ags = Some agbl" and
    cl: "calculate_log_size (start_geometry p bsz ss isz dbs ags agc agbl pct lbl) = Inr g" and
    sup: "validate_supported g = Inr g"
    using c by (rule compute_InrE)
  obtain bl where bl: "bsz = 2 ^ bl" "10 \<le> bl" "bl \<le> 14" "pow2_log bsz = bl"
    using b by (rule validate_blocksize_InrE)
  obtain sl where sl: "ss = 2 ^ sl" "9 \<le> sl" "sl \<le> 15" "pow2_log ss = sl" "ss \<le> bsz" "lg \<le> ss"
    using s by (rule validate_sectorsize_InrE)
  obtain il where il: "isz = 2 ^ il" "9 \<le> il" "il \<le> 11" "pow2_log isz = il" "isz \<le> bsz div 2"
    using n by (rule validate_inodesize_InrE)
  have slbl: "sl \<le> bl" using sl(1,5) bl(1) by (simp add: power_two_bounds)
  have "(2::nat) ^ il \<le> 2 ^ (bl - 1)" using il(1,5) bl(1,2) by (cases bl) simp_all
  then have ilbl: "il < bl" using bl(2) by (simp add: power_two_bounds)
  have dd: "dbs0 * 2 ^ bl \<le> device_size" "ag_min_blocks bl \<le> dbs0"
    using validate_datadev_InrD [of p device_size bl dbs0] d bl by simp_all
  have "dbs0 * 2 ^ 10 \<le> dbs0 * 2 ^ bl" using bl(2) by (intro mult_le_mono2 power_increasing) simp_all
  then have "dbs0 * 2 ^ 10 < 2 ^ 64" using dd(1) dev by (meson le_less_trans le_trans)
  then have d54: "dbs0 < 2 ^ 54" by simp
  have d0: "0 < dbs0" using dd(2) ag_limits(1) [OF bl(2,3)] by (metis gr0I le_zero_eq power_not_zero zero_neq_numeral)
  note ig' = initial_ag_geometry_InrD [OF ig d0]
  have al': "dbs \<le> dbs0" "dbs \<le> agc * ags" "dbs mod ags = 0 \<or> ag_min_blocks bl \<le> dbs mod ags"
    "agc = agc0 \<and> dbs = dbs0 \<or> p_agcount p = None \<and> (agc - 1) * ags < dbs"
    using align_ag_geometry_InrD [OF al] ig' dd d54 bl(4) by simp_all
  have va': "2 ^ 24 \<le> ags * 2 ^ bl" "ags * 2 ^ bl < 2 ^ 40" "ags \<le> dbs" "agc \<le> MAX_AGNUMBER"
    using validate_ag_geometry_InrD [OF va] bl by simp_all
  define G where "G = start_geometry p bsz ss isz dbs ags agc agbl pct lbl"
  have G: "blocksize G = 2 ^ bl" "blocklog G = bl" "sectsize G = 2 ^ sl" "agsize G = ags"
    "agcount G = agc" "dblocks G = dbs"
    using bl sl by (simp_all add: G_def start_geometry_def)
  have agc2: "2 \<le> agc"
    using sup calculate_log_size_agcount [OF cl] G by (auto simp: validate_supported_def G_def split: if_splits)
  have "ags * 2 ^ bl \<ge> ags * 1" by (intro mult_le_mono2) simp
  then have ags40: "ags < 2 ^ 40" using va'(2) by linarith
  have d64: "dbs * 2 ^ bl < 2 ^ 64"
    using le_less_trans [OF le_trans [OF mult_le_mono1 [OF al'(1)] dd(1)] dev] .
  note cl' = calculate_log_size_InrD [OF cl [folded G_def], unfolded G, OF bl(2,3) refl]
  have lg: "g = G\<lparr>logagno := agc div 2, logblocks := logblocks g, log_agbno := prealloc_blocks G\<rparr>"
    "300 * 2 ^ 20 \<le> dbs * 2 ^ bl" "logblocks g \<le> MAX_LOG_BLOCKS" "logblocks g * 2 ^ bl \<le> MAX_LOG_BYTES"
    "prealloc_blocks G + logblocks g + 5 \<le> ags"
    using cl' va' ags40 agc2 slbl d64 by (simp_all add: power_two_bounds)
  obtain n where geq: "g = G\<lparr>logagno := agc div 2, logblocks := n, log_agbno := prealloc_blocks G\<rparr>"
    using lg(1) by blast
  have gf: "blocksize g = 2 ^ bl" "blocklog g = bl" "sectsize g = 2 ^ sl" "sectlog g = sl"
    "lsectsize g = 2 ^ sl" "lsectlog g = sl" "inodesize g = 2 ^ il" "inodelog g = il"
    "inopblock g = 2 ^ bl div 2 ^ il" "inopblog g = bl - il" "dirblocklog g = (if (2::nat) ^ bl < 4096 then 12 else bl)"
    "dblocks g = dbs" "agsize g = ags" "agcount g = agc" "agblklog g = agbl" "imaxpct g = pct"
    "features g = p_features p" "label g = lbl" "logagno g = agc div 2" "log_agbno g = prealloc_blocks G"
    using bl sl il by (simp_all add: geq G_def start_geometry_def)
  have pre: "prealloc_blocks g = prealloc_blocks G"
    by (rule prealloc_blocks_cong) (simp_all add: gf G, simp add: G_def start_geometry_def)
  show "features g = p_features p" "prealloc_blocks g + logblocks g + 5 \<le> agsize g"
    using gf lg(5) pre by simp_all
  show "dblocks g * blocksize g \<le> device_size"
    using le_trans [OF mult_le_mono1 [OF al'(1)] dd(1)] gf by simp
  show "tiles g" if "p_agcount p = None \<or> agcount g \<le> agsize g"
    using that ig'(4,5) al'(4) d54 gf by (auto simp: tiles_def)
  have c300: "64 * 2 ^ 20 \<le> logblocks g * 2 ^ bl"
    using sup blocks_of_bytes(2) [of bl "64 * MIB" 20 64 "logblocks g"] bl(3) gf
    by (auto simp: validate_supported_def MIB_def split: if_splits)
  have ag1: "1 < ags" using va'(1) power_increasing [OF bl(3), of "2::nat"]
    by (cases "ags \<le> 1") (auto simp: le_Suc_eq)
  note l2' = log2_roundup_SomeD [OF l2 ag1]
  have inop: "2 ^ bl div 2 ^ il = (2::nat) ^ (bl - il)"
    using ilbl by (simp add: power_diff)
  have dirb: "(if (2::nat) ^ bl < 4096 then 12 else bl) = max 12 bl"
    using power_two_bounds(2) [of bl 12] by (auto simp: max_def)
  have last: "dbs mod ags = 0 \<or> 2 ^ 24 \<le> (dbs mod ags) * 2 ^ bl"
  proof -
    have "2 ^ (24 - bl) * 2 ^ bl = (2::nat) ^ 24" using bl(3) by (simp flip: power_add)
    then show ?thesis
      using al'(3) ag_limits(1) [OF bl(2,3)] mult_le_mono1 [of "2 ^ (24 - bl)" "dbs mod ags" "2 ^ bl"] by auto
  qed
  have agbl: "agbl \<le> 30"
  proof -
    have "ags * 2 ^ 10 \<le> ags * 2 ^ bl" using bl(2) by (intro mult_le_mono2 power_increasing) simp_all
    then have "ags * 2 ^ 10 < 2 ^ 40" using va'(2) by (rule le_less_trans)
    then have "ags < 2 ^ 30" by simp
    with l2' have "(2::nat) ^ (agbl - 1) < 2 ^ 30" by linarith
    then have "agbl - 1 < 30" by (simp only: power_two_bounds)
    then show ?thesis by simp
  qed
  show "geometry_ok g"
    unfolding geometry_ok_def gf pre inop dirb
    using bl(2,3) sl(2) slbl il(2,3) ilbl va' al'(2) agc2 d64 lg c300 last l2' agbl f ag1
      calculate_imaxpct_InrD [OF im] label_bytes_InrD [OF lb]
    by (intro conjI) (simp_all add: check_features_def split: if_splits)
qed

end
