(* ===== verification/Layout.thy ===== *)
theory Layout
  imports Geometry
begin

section \<open>Allocation groups and addresses\<close>

text \<open>
  The arithmetic of an accepted geometry: the sizes of the allocation groups, the bounds that
  keep every derived position from wrapping, and the filesystem block and inode numbers.
\<close>

subsection \<open>Allocation groups\<close>

lemma geometry_okD:
  assumes "geometry_ok g"
  shows "blocksize g = 2 ^ blocklog g" "10 \<le> blocklog g" "blocklog g \<le> 14"
    "sectsize g = 2 ^ sectlog g" "9 \<le> sectlog g" "sectlog g \<le> blocklog g"
    "lsectsize g = sectsize g" "inodesize g = 2 ^ inodelog g" "9 \<le> inodelog g" "inodelog g \<le> 11"
    "inodelog g < blocklog g" "inopblog g = blocklog g - inodelog g"
    "agsize g \<le> dblocks g" "dblocks g \<le> agcount g * agsize g" "2 \<le> agcount g"
    "agcount g < 2 ^ 32" "agsize g < 2 ^ 30" "1024 \<le> agsize g" "dblocks g < 2 ^ 54"
    "dblocks g * blocksize g < 2 ^ 64"
    "agsize g \<le> 2 ^ agblklog g" "agblklog g \<le> 30"
    "logagno g = agcount g div 2" "log_agbno g = prealloc_blocks g"
    "logblocks g \<le> 2 ^ 20" "prealloc_blocks g + logblocks g < agsize g" "length (label g) = 12"
    "2 ^ 24 \<le> agsize g * blocksize g" "agsize g * blocksize g < 2 ^ 40"
    "dblocks g mod agsize g = 0 \<or> 2 ^ 24 \<le> (dblocks g mod agsize g) * blocksize g"
proof -
  note g = assms [unfolded geometry_ok_def]
  show "blocksize g = 2 ^ blocklog g" "10 \<le> blocklog g" "blocklog g \<le> 14"
    "sectsize g = 2 ^ sectlog g" "9 \<le> sectlog g" "sectlog g \<le> blocklog g"
    "lsectsize g = sectsize g" "inodesize g = 2 ^ inodelog g" "9 \<le> inodelog g" "inodelog g \<le> 11"
    "inodelog g < blocklog g" "inopblog g = blocklog g - inodelog g"
    "agsize g \<le> dblocks g" "dblocks g \<le> agcount g * agsize g" "2 \<le> agcount g"
    "dblocks g * blocksize g < 2 ^ 64" "agsize g \<le> 2 ^ agblklog g" "agblklog g \<le> 30"
    "logagno g = agcount g div 2" "log_agbno g = prealloc_blocks g"
    "prealloc_blocks g + logblocks g < agsize g" "length (label g) = 12"
    "dblocks g mod agsize g = 0 \<or> 2 ^ 24 \<le> (dblocks g mod agsize g) * blocksize g"
    using g by blast+
  have "agcount g \<le> MAX_AGNUMBER" "logblocks g \<le> MAX_LOG_BLOCKS" using g by blast+
  then show "agcount g < 2 ^ 32" "logblocks g \<le> 2 ^ 20" by (simp_all add: geometry_consts)
  have l: "10 \<le> blocklog g" "blocklog g \<le> 14" and b: "blocksize g = 2 ^ blocklog g"
    and a: "2 ^ 24 \<le> agsize g * blocksize g" "agsize g * blocksize g < 2 ^ 40"
    and d: "dblocks g * blocksize g < 2 ^ 64"
    using g by blast+
  have p: "(2::nat) ^ 10 \<le> 2 ^ blocklog g" "(2::nat) ^ blocklog g \<le> 2 ^ 14"
    using l by (intro power_increasing; simp)+
  show "2 ^ 24 \<le> agsize g * blocksize g" "agsize g * blocksize g < 2 ^ 40" by (fact a)+
  have "agsize g * 2 ^ 10 < 2 ^ 40"
    using le_less_trans [OF mult_le_mono2 [OF p(1)], of "agsize g"] a b by simp
  then show "agsize g < 2 ^ 30" by simp
  have "2 ^ 24 \<le> agsize g * 2 ^ 14"
    using le_trans [OF a(1) [unfolded b] mult_le_mono2 [OF p(2)]] .
  then show "1024 \<le> agsize g" by simp
  have "dblocks g * 2 ^ 10 < 2 ^ 64"
    using le_less_trans [OF mult_le_mono2 [OF p(1)], of "dblocks g"] d b by simp
  then show "dblocks g < 2 ^ 54" by simp
qed

lemma ag_blocks_eq:
  assumes g: "geometry_ok g" and t: "tiles g" and a: "a < agcount g"
  shows "ag_blocks g a = (if a = agcount g - 1 then dblocks g - a * agsize g else agsize g)"
proof -
  have c: "sub64 (agcount g) 1 = agcount g - 1"
    using geometry_okD(15,16) [OF g] by (intro nowrap) simp_all
  show ?thesis
  proof (cases "a = agcount g - 1")
    case True
    have m: "a * agsize g < dblocks g" using t True by (simp add: tiles_def)
    then have "mul64 a (agsize g) = a * agsize g"
      using geometry_okD(19) [OF g] by (intro nowrap less_trans [OF m] less_trans [OF geometry_okD(19) [OF g]]) simp
    moreover have "sub64 (dblocks g) (a * agsize g) = dblocks g - a * agsize g"
      using m less_trans [OF geometry_okD(19) [OF g]] by (intro nowrap) simp_all
    ultimately show ?thesis using True c by (simp add: ag_blocks_def)
  qed (simp add: ag_blocks_def c [unfolded One_nat_def])
qed

lemma last_group:
  assumes g: "geometry_ok g" and t: "tiles g"
  defines "n \<equiv> dblocks g - (agcount g - 1) * agsize g"
  shows "0 < n" "n \<le> agsize g" "2 ^ 24 \<le> n * blocksize g"
proof -
  define m where "m = agcount g - 1"
  have m: "agcount g = Suc m" using geometry_okD(15) [OF g] by (simp add: m_def)
  have d: "dblocks g = m * agsize g + n"
    using t unfolding n_def tiles_def m_def by simp
  show n0: "0 < n" using t unfolding n_def tiles_def by simp
  have "dblocks g \<le> m * agsize g + agsize g" using geometry_okD(14) [OF g] by (simp add: m add.commute)
  then show ns: "n \<le> agsize g" using d by linarith
  show "2 ^ 24 \<le> n * blocksize g"
  proof (cases "n = agsize g")
    case True
    then show ?thesis using geometry_okD(28) [OF g] by simp
  next
    case False
    then have "dblocks g mod agsize g = n" using d ns by simp
    then show ?thesis using geometry_okD(30) [OF g] n0 by auto
  qed
qed

lemma ag_blocks_bounds:
  assumes g: "geometry_ok g" and t: "tiles g" and a: "a < agcount g"
  shows "1024 \<le> ag_blocks g a" "ag_blocks g a \<le> agsize g" "ag_blocks g a < 2 ^ 30"
    "2 ^ 24 \<le> ag_blocks g a * blocksize g" "a * agsize g + ag_blocks g a \<le> dblocks g"
proof -
  note l = last_group [OF g t]
  have all: "ag_blocks g a \<le> agsize g \<and> 2 ^ 24 \<le> ag_blocks g a * blocksize g
      \<and> a * agsize g + ag_blocks g a \<le> dblocks g"
  proof (cases "a = agcount g - 1")
    case True
    then show ?thesis using l ag_blocks_eq [OF g t a] t by (auto simp: tiles_def)
  next
    case False
    then have "a + 1 \<le> agcount g - 1" using a by simp
    then have "(a + 1) * agsize g \<le> (agcount g - 1) * agsize g" by (rule mult_le_mono1)
    then have "a * agsize g + agsize g < dblocks g" using t by (simp add: tiles_def)
    then show ?thesis using geometry_okD(28) [OF g] False ag_blocks_eq [OF g t a] by simp
  qed
  then show "ag_blocks g a \<le> agsize g" "2 ^ 24 \<le> ag_blocks g a * blocksize g"
    "a * agsize g + ag_blocks g a \<le> dblocks g" by auto
  then show "ag_blocks g a < 2 ^ 30" using geometry_okD(17) [OF g] by linarith
  have "(2::nat) ^ blocklog g \<le> 2 ^ 14" using geometry_okD(3) [OF g] by (intro power_increasing) simp_all
  then have "ag_blocks g a * blocksize g \<le> ag_blocks g a * 2 ^ 14"
    unfolding geometry_okD(1) [OF g] by (rule mult_le_mono2)
  then have "2 ^ 24 \<le> ag_blocks g a * 2 ^ 14" using all le_trans by blast
  then show "1024 \<le> ag_blocks g a" by simp
qed

lemma sum_ag_blocks:
  assumes g: "geometry_ok g" and t: "tiles g"
  shows "(\<Sum>a<agcount g. ag_blocks g a) = dblocks g"
proof -
  obtain m where m: "agcount g = Suc m" using geometry_okD(15) [OF g] by (cases "agcount g") auto
  have "(\<Sum>a<agcount g. ag_blocks g a) = (\<Sum>a<m. ag_blocks g a) + ag_blocks g m" by (simp add: m)
  also have "(\<Sum>a<m. ag_blocks g a) = (\<Sum>a<m. agsize g)"
    using ag_blocks_eq [OF g t] m by (intro sum.cong) simp_all
  also have "\<dots> + ag_blocks g m = dblocks g"
    using ag_blocks_eq [OF g t, of m] t m by (simp add: tiles_def)
  finally show ?thesis .
qed

subsection \<open>Numbers made of two fields\<close>

lemma or_field:
  assumes "b < 2 ^ k"
  shows "(a * 2 ^ k) OR b = a * 2 ^ k + (b::nat)"
proof -
  have "take_bit k b = b" using assms by (rule take_bit_nat_eq_self)
  moreover have "push_bit k a OR take_bit k b = push_bit k a + take_bit k b"
    by (rule disjunctive_add [symmetric]) (auto simp: bit_simps)
  ultimately show ?thesis by (simp add: push_bit_eq_mult)
qed

lemma or_field_div: "b < 2 ^ k \<Longrightarrow> (a * 2 ^ k + b) div 2 ^ k = a" for a b :: nat
  by simp

lemma or_field_mod: "b < 2 ^ k \<Longrightarrow> (a * 2 ^ k + b) mod 2 ^ k = b" for a b :: nat
  by simp

lemma product_below: "a < 2 ^ j \<Longrightarrow> a * 2 ^ k < 2 ^ (j + k)" for a :: nat
  by (simp add: power_add)

lemma field_bound:
  assumes "a < 2 ^ j" "b < 2 ^ k"
  shows "a * 2 ^ k + b < (2::nat) ^ (j + k)"
proof -
  have "(a + 1) * 2 ^ k \<le> 2 ^ j * 2 ^ k" using assms(1) by (intro mult_le_mono1) simp
  then show ?thesis using assms(2) by (simp add: power_add)
qed

lemma agblklog_blocklog:
  assumes "geometry_ok g"
  shows "agblklog g + blocklog g \<le> 40"
proof -
  have "2 ^ (agblklog g - 1) < agsize g" using assms unfolding geometry_ok_def by blast
  then have "2 ^ (agblklog g - 1) * 2 ^ blocklog g \<le> agsize g * (2::nat) ^ blocklog g"
    by (intro mult_le_mono1) simp
  then have "(2::nat) ^ (agblklog g - 1) * 2 ^ blocklog g < 2 ^ 40"
    using geometry_okD(29) [OF assms] geometry_okD(1) [OF assms] by (metis le_less_trans)
  then have "(2::nat) ^ (agblklog g - 1 + blocklog g) < 2 ^ 40" by (simp only: power_add)
  then have "agblklog g - 1 + blocklog g < 40" by (simp only: power_two_bounds)
  then show ?thesis using geometry_okD(3) [OF assms] by simp
qed

lemma agb_to_fsb_eq:
  assumes g: "geometry_ok g" and a: "a < agcount g" and b: "b < agsize g"
  shows "agb_to_fsb g a b = a * 2 ^ agblklog g + b" "b < 2 ^ agblklog g" "agb_to_fsb g a b < 2 ^ 62"
proof -
  show b': "b < 2 ^ agblklog g" using geometry_okD(21) [OF g] b by simp
  have a': "a < 2 ^ 32" using geometry_okD(16) [OF g] a by simp
  have "(2::nat) ^ (32 + agblklog g) \<le> 2 ^ 62"
    using geometry_okD(22) [OF g] by (intro power_increasing) simp_all
  then have l: "a * 2 ^ agblklog g + b < 2 ^ 62" using field_bound [OF a' b'] by linarith
  then have "shl64 a (agblklog g) = a * 2 ^ agblklog g"
    using geometry_okD(22) [OF g] by (intro nowrap) simp_all
  then show "agb_to_fsb g a b = a * 2 ^ agblklog g + b" by (simp add: agb_to_fsb_def or_field [OF b'])
  then show "agb_to_fsb g a b < 2 ^ 62" using l by simp
qed

subsection \<open>Computing a geometry\<close>

lemma compute_stages:
  assumes "check_features (p_features p) = Inr u" "validate_blocksize p = Inr bsz"
    "validate_sectorsize p bsz lg ph = Inr ss" "validate_inodesize p bsz = Inr isz"
    "validate_datadev p device_size (pow2_log bsz) = Inr dbs0"
    "initial_ag_geometry p bsz (pow2_log bsz) dbs0 = Inr (ags, agc0)"
    "align_ag_geometry p (pow2_log bsz) dbs0 ags agc0 = Inr (dbs, agc)"
    "validate_ag_geometry (pow2_log bsz) dbs ags agc = Inr v"
    "calculate_imaxpct p (pow2_log bsz) dbs = Inr pct" "label_bytes p = Inr lbl"
    "log2_roundup ags = Some agbl"
  shows "compute p device_size lg ph =
     and_then (calculate_log_size (start_geometry p bsz ss isz dbs ags agc agbl pct lbl)) validate_supported"
  using assms by (simp add: compute_def Let_def start_geometry_def)

lemma default_feature_flags [simp]:
  "p_features params_new = default_features"
  "finobt default_features" "rmapbt default_features" "reflink default_features"
  "inobtcount default_features" "bigtime default_features" "nrext64 default_features"
  "sparse default_features"
  by (simp_all add: params_new_def default_features_def)

lemma default_stages:
  "check_features default_features = Inr ()"
  "validate_blocksize params_new = Inr 4096"
  "validate_sectorsize params_new 4096 512 512 = Inr 512"
  "validate_inodesize params_new 4096 = Inr 512"
  "label_bytes params_new = Inr (replicate 12 0)"
  "pow2_log 4096 = 12" "pow2_log 512 = 9"
  by (simp_all add: check_features_def validate_blocksize_def validate_sectorsize_def
      default_sectorsize_def validate_inodesize_def label_bytes_def params_new_def geometry_consts
      is_power_of_two.simps pow2_log_def trailing_zeros.simps)

text \<open>The geometry of a 512 MiB device under the default parameters.\<close>

definition geometry_512m :: geometry where
  "geometry_512m = \<lparr>blocksize = 4096, blocklog = 12, sectsize = 512, sectlog = 9,
     lsectsize = 512, lsectlog = 9, inodesize = 512, inodelog = 9, inopblock = 8, inopblog = 3,
     dirblocklog = 12, dblocks = 131072, agsize = 32768, agcount = 4, agblklog = 15, imaxpct = 25,
     logblocks = 16384, logagno = 2, log_agbno = 7, features = default_features,
     label = replicate 12 0\<rparr>"

lemma compute_512m: "compute params_new (512 * 2 ^ 20) 512 512 = Inr geometry_512m"
proof -
  have d: "validate_datadev params_new (512 * 2 ^ 20) 12 = Inr 131072"
    by (simp add: validate_datadev_def params_new_def geometry_consts ag_min_blocks_def shr64_def)
  have i: "initial_ag_geometry params_new 4096 12 131072 = Inr (32768, 4)"
    by (simp add: initial_ag_geometry_def params_new_def geometry_consts ag_max_blocks_def shr64_def
        default_ag_geometry_def default_ag_blocks_def shl64_def add64_def u64_of_bool_def)
  have a: "align_ag_geometry params_new 12 131072 32768 4 = Inr (131072, 4)"
    by (simp add: align_ag_geometry_def)
  have v: "validate_ag_geometry 12 131072 32768 4 = Inr ()"
    by (simp add: validate_ag_geometry_def ag_min_blocks_def ag_max_blocks_def shr64_def geometry_consts)
  have m: "calculate_imaxpct params_new 12 131072 = Inr 25"
    by (simp add: calculate_imaxpct_def shr64_def geometry_consts params_new_def)
  have l: "log2_roundup 32768 = Some 15"
    by (simp add: log2_roundup_def log2_roundup_from.simps shl64_def)
  note c = compute_stages [of params_new, unfolded default_feature_flags, OF default_stages(1-4),
      unfolded default_stages(6), OF d i a v m default_stages(5) l]
  show ?thesis unfolding c
    by (simp add: calculate_log_size_def Let_def start_geometry_def geometry_consts shr64_def
        shl64_def ag_max_usable_def prealloc_blocks_eq header_blocks_def bs_def u64_of_bool_def
        div_ceil_def sub64_def default_stages validate_supported_def geometry_512m_def)
qed

lemma geometry_512m_ok: "geometry_ok geometry_512m" "tiles geometry_512m"
  using compute_geometry(1,4) [OF compute_512m] by (simp_all add: params_new_def)







subsection \<open>The default parameters\<close>

lemma and_three: "n AND 3 = n mod 4" for n :: nat
proof -
  have "n AND mask 2 = n mod 2 ^ 2" by (simp only: take_bit_eq_mask [symmetric] take_bit_eq_mod)
  then show ?thesis by (simp add: mask_eq_exp_minus_1)
qed

lemma default_groups:
  assumes "76800 \<le> dbs" "dbs < 2 ^ 52"
  defines "ags \<equiv> default_ag_blocks 12 dbs False"
  shows "19200 \<le> ags" "ags < 2 ^ 28" "4 * ags \<le> dbs + 3" "dbs \<le> 4 * ags \<or> ags = 2 ^ 28 - 1"
proof -
  have e: "ags = (if 2 ^ 30 \<le> dbs then 2 ^ 28 - 1
     else if dbs mod 4 \<noteq> 0 \<and> dbs div 4 < 2 ^ 28 - 1 then dbs div 4 + 1 else dbs div 4)"
    using assms(1,2)
    by (simp add: ags_def default_ag_blocks_def Let_def shr64_def shl64_def add64_def
        ag_max_blocks_def geometry_consts and_three)
  obtain q r where q: "dbs = 4 * q + r" "r < 4" "dbs div 4 = q" "dbs mod 4 = r" by (rule that [of "dbs div 4" "dbs mod 4"]) simp_all
  consider "2 ^ 30 \<le> dbs" "ags = 2 ^ 28 - 1" | "dbs < 2 ^ 30" "r \<noteq> 0" "q < 2 ^ 28 - 1" "ags = q + 1"
    | "dbs < 2 ^ 30" "r = 0 \<or> q = 2 ^ 28 - 1" "ags = q"
    using e q by (force split: if_splits)
  then have "19200 \<le> ags \<and> ags < 2 ^ 28 \<and> 4 * ags \<le> dbs + 3 \<and> (dbs \<le> 4 * ags \<or> ags = 2 ^ 28 - 1)"
    by cases (use q assms(1) in auto)
  then show "19200 \<le> ags" "ags < 2 ^ 28" "4 * ags \<le> dbs + 3" "dbs \<le> 4 * ags \<or> ags = 2 ^ 28 - 1" by auto
qed

lemma compute_default:
  assumes "300 * 2 ^ 20 \<le> device_size" "device_size < 2 ^ 64"
  obtains g where "compute params_new device_size 512 512 = Inr g" "4 \<le> agcount g"
    "prealloc_blocks g + logblocks g + 6 \<le> agsize g"
proof -
  define d where "d = device_size div 4096"
  have d: "76800 \<le> d" "d < 2 ^ 52" using assms by (simp_all add: d_def div_le_mono)
  define ags where "ags = default_ag_blocks 12 d False"
  note a = default_groups [OF d, folded ags_def]
  define agc where "agc = div_ceil d ags"
  have pn: "p_size params_new = None" "p_agsize params_new = None" "p_agcount params_new = None"
    "p_imaxpct params_new = None" by (simp_all add: params_new_def)
  have cnt: "d \<le> agc * ags" "(agc - 1) * ags < d"
    using div_ceil_bounds [of ags d] a d by (simp_all add: agc_def)
  have agc4: "4 \<le> agc"
  proof (rule ccontr)
    assume "\<not> 4 \<le> agc"
    then have "agc * ags \<le> 3 * ags" by (intro mult_le_mono1) simp
    then show False using cnt(1) a(1,3) by linarith
  qed
  have i: "initial_ag_geometry params_new 4096 12 d = Inr (ags, agc)"
  proof -
    have "d div ags < 2 ^ 52" using le_less_trans [OF div_le_dividend d(2)] .
    then have "d div ags + u64_of_bool (d mod ags \<noteq> 0) < 2 ^ 64"
      by (simp add: u64_of_bool_def)
    then show ?thesis using a pn
      by (simp add: initial_ag_geometry_def default_ag_geometry_def Let_def ags_def [symmetric] nowrap
          agc_def div_ceil_def u64_of_bool_def)
  qed
  obtain d' agc' where al: "align_ag_geometry params_new 12 d ags agc = Inr (d', agc')"
    and d': "76800 \<le> d'" "d' \<le> d" "4 \<le> agc'" "agc' \<le> agc" "ags \<le> d'"
  proof (cases "d mod ags \<noteq> 0 \<and> d mod ags < ag_min_blocks 12")
    case False
    then show thesis using that [of d agc] a d agc4 pn by (auto simp: align_ag_geometry_def)
  next
    case True
    then have "agc = Suc (d div ags)" by (simp add: agc_def div_ceil_def)
    then have split: "d = (agc - 1) * ags + d mod ags" and "agc - 1 \<le> d" by simp_all
    have rem: "d mod ags < 4096" using True by (simp add: ag_min_blocks_def shr64_def geometry_consts)
    have c: "sub64 agc 1 = agc - 1" "mul64 (agc - 1) ags = (agc - 1) * ags"
      using \<open>agc - 1 \<le> d\<close> agc4 d(2) split by (simp_all add: nowrap)
    have "agc \<noteq> 4"
    proof
      assume "agc = 4"
      then have "d = 3 * ags + d mod ags" using split by simp
      then show False using rem a by linarith
    qed
    then have five: "5 \<le> agc" using agc4 by simp
    then have "4 * ags \<le> (agc - 1) * ags" by (intro mult_le_mono1) simp
    then have "76800 \<le> (agc - 1) * ags" using a by linarith
    then show thesis
      using True c a five split pn by (intro that [of "(agc - 1) * ags" "agc - 1"]) (auto simp: align_ag_geometry_def)
  qed
  have "agc \<le> MAX_AGNUMBER"
  proof (rule ccontr)
    assume "\<not> agc \<le> MAX_AGNUMBER"
    then have "2 ^ 31 * ags \<le> (agc - 1) * ags" by (intro mult_le_mono1) (simp add: MAX_AGNUMBER_def)
    then have "2 ^ 31 * ags < d" using cnt(2) by (rule le_less_trans)
    then show False using a d by auto
  qed
  then have v: "validate_ag_geometry 12 d' ags agc' = Inr ()"
    using a d' by (simp add: validate_ag_geometry_def ag_min_blocks_def ag_max_blocks_def shr64_def geometry_consts)
  obtain k where l: "log2_roundup ags = Some k" using log2_roundup_Some [of ags] a by auto
  have "\<exists>pct. calculate_imaxpct params_new 12 d' = Inr pct"
    using pn by (simp add: calculate_imaxpct_def)
  then obtain pct where m: "calculate_imaxpct params_new 12 d' = Inr pct" by blast
  have dv: "validate_datadev params_new device_size 12 = Inr d"
    using d pn by (simp add: validate_datadev_def d_def shr64_def ag_min_blocks_def geometry_consts)
  define G where "G = start_geometry params_new 4096 512 512 d' ags agc' k pct (replicate 12 0)"
  have G: "blocklog G = 12" "blocksize G = 4096" "sectsize G = 512" "agsize G = ags" "agcount G = agc'"
    "dblocks G = d'" "prealloc_blocks G = 7"
    by (simp_all add: G_def start_geometry_def default_stages prealloc_blocks_eq header_blocks_def bs_def
        div_ceil_def u64_of_bool_def)
  note c = compute_stages [of params_new, unfolded default_feature_flags, OF default_stages(1-4),
      unfolded default_stages(6), OF dv i al v m default_stages(5) l, folded G_def]
  have "calculate_log_size G = Inr (G\<lparr>logagno := agc' div 2, logblocks := log_size_spec G, log_agbno := 7\<rparr>)"
    using calculate_log_size_eq(1) [of G] G a d d' by simp
  moreover have "16384 \<le> log_size_spec G"
    using a by (simp add: log_size_spec_def G geometry_consts)
  moreover have "log_size_spec G + 13 \<le> ags"
  proof (cases "d' \<le> 4 * ags")
    case True
    have "log_size_spec G \<le> max (d' div 2048) 16384" unfolding log_size_spec_def G by (simp add: min.coboundedI1)
    then show ?thesis using True a(1) by (auto simp: max_def split: if_splits)
  next
    case False
    then have "ags = 2 ^ 28 - 1" using a(4) d'(2) by linarith
    moreover have "log_size_spec G \<le> 2 ^ 20" unfolding log_size_spec_def by (simp add: min.coboundedI1)
    ultimately show ?thesis by simp
  qed
  ultimately show thesis
    using d' G by (intro that [of "G\<lparr>logagno := agc' div 2, logblocks := log_size_spec G, log_agbno := 7\<rparr>"])
      (simp_all add: c validate_supported_def shr64_def geometry_consts prealloc_blocks_eq header_blocks_def bs_def)
qed

subsection \<open>Addresses inside the device\<close>

lemma agb_to_byte_eq:
  assumes g: "geometry_ok g" and t: "tiles g" and a: "a < agcount g" and b: "b < ag_blocks g a"
  shows "agb_to_byte g a b = (a * agsize g + b) * blocksize g"
    and "(a * agsize g + b) * blocksize g + blocksize g \<le> dblocks g * blocksize g"
proof -
  have "a * agsize g + b < dblocks g" using ag_blocks_bounds(5) [OF g t a] b by simp
  then have le: "(a * agsize g + b + 1) * blocksize g \<le> dblocks g * blocksize g"
    by (intro mult_le_mono1) simp
  then show "(a * agsize g + b) * blocksize g + blocksize g \<le> dblocks g * blocksize g" by simp
  have d: "a * agsize g + b < 2 ^ 64"
    using \<open>a * agsize g + b < dblocks g\<close> geometry_okD(19) [OF g] by simp
  then have "add64 (mul64 a (agsize g)) b = a * agsize g + b" by (simp add: nowrap)
  moreover have "(a * agsize g + b) * 2 ^ blocklog g < 2 ^ 64"
    using le geometry_okD(20) [OF g] geometry_okD(1) [OF g] by simp
  ultimately show "agb_to_byte g a b = (a * agsize g + b) * blocksize g"
    using geometry_okD(1,3) [OF g] by (simp add: agb_to_byte_def nowrap)
qed

lemma group_block_unique:
  assumes "b < n" "b' < n" "a * n + b = a' * n + (b'::nat)"
  shows "a = a' \<and> b = b'"
proof -
  have "(a * n + b) div n = a" "(a' * n + b') div n = a'" using assms(1,2) by simp_all
  then show ?thesis using assms(3) by simp
qed

lemma agb_to_byte_disjoint:
  assumes g: "geometry_ok g" and t: "tiles g"
    and a: "a < agcount g" "b < ag_blocks g a" and a': "a' < agcount g" "b' < ag_blocks g a'"
    and ne: "(a, b) \<noteq> (a', b')"
  shows "agb_to_byte g a b + blocksize g \<le> agb_to_byte g a' b' \<or>
    agb_to_byte g a' b' + blocksize g \<le> agb_to_byte g a b"
proof -
  define x y where "x = a * agsize g + b" and "y = a' * agsize g + b'"
  have "b < agsize g" "b' < agsize g"
    using a a' ag_blocks_bounds(2) [OF g t] by (meson less_le_trans)+
  then have "x \<noteq> y" using ne group_block_unique unfolding x_def y_def by blast
  then consider "x + 1 \<le> y" | "y + 1 \<le> x" by linarith
  then show ?thesis
  proof cases
    case 1
    then have "(x + 1) * blocksize g \<le> y * blocksize g" by (rule mult_le_mono1)
    then show ?thesis using agb_to_byte_eq(1) [OF g t] a a' by (simp add: x_def y_def)
  next
    case 2
    then have "(y + 1) * blocksize g \<le> x * blocksize g" by (rule mult_le_mono1)
    then show ?thesis using agb_to_byte_eq(1) [OF g t] a a' by (simp add: x_def y_def)
  qed
qed

lemma log2_roundup_Least:
  assumes "i \<le> 2 ^ 63"
  shows "log2_roundup i = Some (LEAST k. i \<le> 2 ^ k)"
proof (cases "i = 0")
  case True
  have "(LEAST k. (0::nat) \<le> 2 ^ k) = 0" by (rule Least_eq_0) simp
  then show ?thesis using True by (simp add: log2_roundup_def log2_roundup_from.simps)
next
  case False
  then obtain k where k: "log2_roundup i = Some k" "i \<le> 2 ^ k" "\<forall>j<k. 2 ^ j < i"
    using log2_roundup_Some [of i] assms by auto
  have "(LEAST k. i \<le> 2 ^ k) = k"
  proof (rule Least_equality)
    show "k \<le> j" if "i \<le> 2 ^ j" for j using k(3) that by (meson not_le)
  qed (rule k(2))
  then show ?thesis using k(1) by simp
qed

subsection \<open>A group count the data cannot fill\<close>

text \<open>
  \<open>crowded_params\<close> asks for 25000 groups on a device of 499975001 blocks: the group size rounds
  up to 20000 blocks, and 24999 groups of that size are already more than the data.
\<close>

definition crowded_params :: params where
  "crowded_params = params_new\<lparr>p_agcount := Some 25000\<rparr>"

lemma crowded_stages:
  "validate_blocksize crowded_params = Inr 4096"
  "validate_sectorsize crowded_params 4096 512 512 = Inr 512"
  "validate_inodesize crowded_params 4096 = Inr 512"
  "label_bytes crowded_params = Inr (replicate 12 0)"
  "p_features crowded_params = default_features"
  "validate_datadev crowded_params (499975001 * 4096) 12 = Inr 499975001"
  "initial_ag_geometry crowded_params 4096 12 499975001 = Inr (20000, 25000)"
  "align_ag_geometry crowded_params 12 499975001 20000 25000 = Inr (499975001, 25000)"
  "validate_ag_geometry 12 499975001 20000 25000 = Inr ()"
  "calculate_imaxpct crowded_params 12 499975001 = Inr 5"
  "log2_roundup 20000 = Some 15"
  by (simp_all add: crowded_params_def params_new_def validate_blocksize_def validate_sectorsize_def
      default_sectorsize_def validate_inodesize_def label_bytes_def geometry_consts
      is_power_of_two.simps validate_datadev_def shr64_def ag_min_blocks_def initial_ag_geometry_def
      div_ceil_def align_ag_geometry_def validate_ag_geometry_def ag_max_blocks_def
      calculate_imaxpct_def log2_roundup_def log2_roundup_from.simps shl64_def)

lemma crowded_geometry:
  obtains g where "compute crowded_params (499975001 * 4096) 512 512 = Inr g"
    "agcount g = 25000" "agsize g = 20000" "dblocks g = 499975001"
proof -
  define G where "G = start_geometry crowded_params 4096 512 512 499975001 20000 25000 15 5 (replicate 12 0)"
  have G: "blocklog G = 12" "blocksize G = 4096" "sectsize G = 512" "agsize G = 20000" "agcount G = 25000"
    "dblocks G = 499975001" "prealloc_blocks G = 7"
    by (simp_all add: G_def start_geometry_def default_stages crowded_stages prealloc_blocks_eq
        header_blocks_def bs_def div_ceil_def u64_of_bool_def)
  note c = compute_stages [of crowded_params, unfolded crowded_stages(5), OF default_stages(1)
      crowded_stages(1-3), unfolded default_stages(6), OF crowded_stages(6-10,4,11), folded G_def]
  have "calculate_log_size G = Inr (G\<lparr>logagno := 12500, logblocks := log_size_spec G, log_agbno := 7\<rparr>)"
    using calculate_log_size_eq(1) [of G] G by simp
  moreover have "16384 \<le> log_size_spec G" by (simp add: log_size_spec_def G geometry_consts)
  ultimately have "compute crowded_params (499975001 * 4096) 512 512 =
      Inr (G\<lparr>logagno := 12500, logblocks := log_size_spec G, log_agbno := 7\<rparr>)"
    unfolding c using G by (simp add: validate_supported_def shr64_def geometry_consts)
  then show thesis by (rule that) (simp_all add: G)
qed

section \<open>Properties\<close>

text \<open>
  \<^bold>\<open>C32\<close>. Every geometry that \<^verbatim>\<open>Geometry::compute\<close> accepts satisfies the whole invariant: powers of
  two in their ranges, groups between 16 MiB and 1 TiB, the data covered by the groups and
  inside the device, a log of 64 MiB to 2 GiB that fits in its group, and the feature flags as
  asked for.
\<close>

theorem compute_accepted:
  assumes "compute p device_size logical_sector physical_sector = Inr g" "device_size < 2 ^ 64"
  shows "geometry_ok g \<and> dblocks g * blocksize g \<le> device_size \<and> features g = p_features p"
  using compute_geometry(1-3) [OF assms] by blast

theorem compute_accepted_witness:
  "geometry_ok geometry_512m \<and> dblocks geometry_512m * blocksize geometry_512m \<le> 512 * 2 ^ 20 \<and>
   features geometry_512m = p_features params_new"
  by (rule compute_accepted [OF compute_512m]) simp

text \<open>
  The groups tile the data: their sizes add up to the data blocks, none is
  larger than the group size and none is under 16 MiB, for every accepted geometry whose group
  count was not asked for or does not exceed the group size.
\<close>

theorem groups_tile:
  assumes "compute p device_size logical_sector physical_sector = Inr g" "device_size < 2 ^ 64"
    and "p_agcount p = None \<or> agcount g \<le> agsize g"
  shows "(\<Sum>a<agcount g. ag_blocks g a) = dblocks g \<and>
    (\<forall>a<agcount g. 2 ^ 24 \<le> ag_blocks g a * blocksize g \<and> ag_blocks g a \<le> agsize g)"
  using sum_ag_blocks ag_blocks_bounds compute_geometry(1,4) [OF assms(1,2)] assms(3) by blast

theorem groups_tile_witness:
  "(\<Sum>a<agcount geometry_512m. ag_blocks geometry_512m a) = dblocks geometry_512m \<and>
   ag_blocks geometry_512m 3 \<le> agsize geometry_512m"
  using groups_tile [OF compute_512m] by (simp add: params_new_def) (simp add: geometry_512m_def)

text \<open>
  \<^bold>\<open>C34\<close>. A requested group count far above the group size is accepted although the last group
  would start beyond the data: \<^verbatim>\<open>ag_blocks\<close> then wraps around below zero.
\<close>

theorem crowded_groups_wrap:
  "\<exists>g. compute crowded_params (499975001 * 4096) 512 512 = Inr g \<and> \<not> tiles g \<and>
     ag_blocks g (agcount g - 1) = 2 ^ 64 - 4999"
proof -
  obtain g where g: "compute crowded_params (499975001 * 4096) 512 512 = Inr g"
    "agcount g = 25000" "agsize g = 20000" "dblocks g = 499975001"
    by (rule crowded_geometry)
  then show ?thesis
    by (intro exI [of _ g]) (simp add: tiles_def ag_blocks_def sub64_def mul64_def)
qed



text \<open>
  With the default parameters every device of at least 300 MiB is accepted, with
  four groups or more.
\<close>

theorem default_parameters_accepted:
  assumes "300 * 2 ^ 20 \<le> device_size" "device_size < 2 ^ 64"
  shows "\<exists>g. compute params_new device_size 512 512 = Inr g \<and> 4 \<le> agcount g"
  using compute_default [OF assms] by blast

theorem default_parameters_accepted_witness:
  "\<exists>g. compute params_new (300 * 2 ^ 20) 512 512 = Inr g \<and> 4 \<le> agcount g"
  by (rule default_parameters_accepted) simp_all

text \<open>
  \<^bold>\<open>C35\<close>. The log size is a 2048th of the data clamped to 64 MiB, the free space of a group,
  \<open>2 ^ 20\<close> blocks and 2 GiB less 10 MiB, the log starts right after the preallocated
  blocks of the middle group, and the guard that the log overflows its group never fires.
\<close>

theorem log_size_chosen:
  assumes "10 \<le> blocklog g" "blocklog g \<le> 14" "blocksize g = 2 ^ blocklog g"
    and "0 < sectsize g" "sectsize g \<le> blocksize g"
    and "2 ^ 24 \<le> agsize g * blocksize g" "agsize g < 2 ^ 40"
    and "2 \<le> agcount g" "dblocks g * blocksize g < 2 ^ 64"
  shows "calculate_log_size g =
     (if dblocks g * blocksize g < 300 * 2 ^ 20 then Inl (Unsupported FsUnder300MB)
      else Inr (g\<lparr>logagno := agcount g div 2, logblocks := log_size_spec g,
                  log_agbno := prealloc_blocks g\<rparr>))"
  by (rule calculate_log_size_eq(1) [OF assms])

theorem log_size_chosen_witness:
  "calculate_log_size geometry_512m = Inr (geometry_512m\<lparr>logagno := 2,
     logblocks := log_size_spec geometry_512m, log_agbno := prealloc_blocks geometry_512m\<rparr>)"
  using log_size_chosen [of geometry_512m] by (simp add: geometry_512m_def)

text \<open>
  \<^verbatim>\<open>log2_roundup\<close> returns the least exponent whose power of two reaches its argument, and
  above \<open>2 ^ 63\<close> it does not return.
\<close>

theorem log2_roundup_least:
  "log2_roundup i = (if i \<le> 2 ^ 63 then Some (LEAST k. i \<le> 2 ^ k) else None)"
  using log2_roundup_Least [of i] log2_from_None [of i 0] by (simp add: log2_roundup_def)

text \<open>
  A filesystem block number is the group and the block in two bit fields: it decodes
  to both, so no two blocks of a filesystem share one.
\<close>

theorem fsb_round_trip:
  assumes "geometry_ok g" "a < agcount g" "b < agsize g"
  shows "shr64 (agb_to_fsb g a b) (agblklog g) = a \<and> agb_to_fsb g a b mod 2 ^ agblklog g = b"
  using agb_to_fsb_eq [OF assms] geometry_okD(22) [OF assms(1)] by (simp add: nowrap)

theorem fsb_round_trip_witness:
  "shr64 (agb_to_fsb geometry_512m 2 7) 15 = 2 \<and> agb_to_fsb geometry_512m 2 7 mod 2 ^ 15 = 7"
  using fsb_round_trip [OF geometry_512m_ok(1), of 2 7] by (simp add: geometry_512m_def)

text \<open>
  Two different blocks of a filesystem have byte ranges that do not overlap, and every
  one of them ends inside the data device.
\<close>

theorem blocks_disjoint:
  assumes "geometry_ok g" "tiles g" "a < agcount g" "b < ag_blocks g a"
    and "a' < agcount g" "b' < ag_blocks g a'" "(a, b) \<noteq> (a', b')"
  shows "agb_to_byte g a b + blocksize g \<le> dblocks g * blocksize g \<and>
    (agb_to_byte g a b + blocksize g \<le> agb_to_byte g a' b' \<or>
      agb_to_byte g a' b' + blocksize g \<le> agb_to_byte g a b)"
  using agb_to_byte_disjoint [OF assms] agb_to_byte_eq [OF assms(1-4)] by simp_all

theorem blocks_disjoint_witness:
  "agb_to_byte geometry_512m 0 16 + blocksize geometry_512m \<le> dblocks geometry_512m * blocksize geometry_512m \<and>
   (agb_to_byte geometry_512m 0 16 + blocksize geometry_512m \<le> agb_to_byte geometry_512m 2 7 \<or>
    agb_to_byte geometry_512m 2 7 + blocksize geometry_512m \<le> agb_to_byte geometry_512m 0 16)"
  by (rule blocks_disjoint [OF geometry_512m_ok])
     (simp_all add: geometry_512m_def ag_blocks_def sub64_def)

end
