(* ===== verification/Superblock.thy ===== *)
theory Superblock
  imports Field_Table Layout
begin

unbundle bit_operations_syntax

section \<open>The superblock (\<^verbatim>\<open>src/structs/sb.rs\<close>)\<close>

text \<open>
  \<open>sb_encode\<close> writes the fields of \<^verbatim>\<open>struct xfs_dsb\<close> in the order of the source; a cast
  \<^verbatim>\<open>as u16\<close> or \<^verbatim>\<open>as u32\<close> is \<open>of_nat\<close> into the word of that width. \<open>sb_fields\<close> is the table
  of what a finished superblock holds, and \<open>sb_encode\<close> meets the encoder contract with it.
\<close>

definition NULL32 :: u32 where "NULL32 = 0xffffffff"
definition NULL64 :: u64 where "NULL64 = - 1"

definition sb_MAGIC :: u32 where "sb_MAGIC = 0x58465342"

subsection \<open>Field offsets\<close>

abbreviation (input) sb_MAGICNUM :: nat where "sb_MAGICNUM \<equiv> 0"
abbreviation (input) sb_BLOCKSIZE :: nat where "sb_BLOCKSIZE \<equiv> 4"
abbreviation (input) sb_DBLOCKS :: nat where "sb_DBLOCKS \<equiv> 8"
abbreviation (input) sb_RBLOCKS :: nat where "sb_RBLOCKS \<equiv> 16"
abbreviation (input) sb_REXTENTS :: nat where "sb_REXTENTS \<equiv> 24"
abbreviation (input) sb_UUID :: nat where "sb_UUID \<equiv> 32"
abbreviation (input) sb_LOGSTART :: nat where "sb_LOGSTART \<equiv> 48"
abbreviation (input) sb_ROOTINO :: nat where "sb_ROOTINO \<equiv> 56"
abbreviation (input) sb_RBMINO :: nat where "sb_RBMINO \<equiv> 64"
abbreviation (input) sb_RSUMINO :: nat where "sb_RSUMINO \<equiv> 72"
abbreviation (input) sb_REXTSIZE :: nat where "sb_REXTSIZE \<equiv> 80"
abbreviation (input) sb_AGBLOCKS :: nat where "sb_AGBLOCKS \<equiv> 84"
abbreviation (input) sb_AGCOUNT :: nat where "sb_AGCOUNT \<equiv> 88"
abbreviation (input) sb_RBMBLOCKS :: nat where "sb_RBMBLOCKS \<equiv> 92"
abbreviation (input) sb_LOGBLOCKS :: nat where "sb_LOGBLOCKS \<equiv> 96"
abbreviation (input) sb_VERSIONNUM :: nat where "sb_VERSIONNUM \<equiv> 100"
abbreviation (input) sb_SECTSIZE :: nat where "sb_SECTSIZE \<equiv> 102"
abbreviation (input) sb_INODESIZE :: nat where "sb_INODESIZE \<equiv> 104"
abbreviation (input) sb_INOPBLOCK :: nat where "sb_INOPBLOCK \<equiv> 106"
abbreviation (input) sb_FNAME :: nat where "sb_FNAME \<equiv> 108"
abbreviation (input) sb_BLOCKLOG :: nat where "sb_BLOCKLOG \<equiv> 120"
abbreviation (input) sb_SECTLOG :: nat where "sb_SECTLOG \<equiv> 121"
abbreviation (input) sb_INODELOG :: nat where "sb_INODELOG \<equiv> 122"
abbreviation (input) sb_INOPBLOG :: nat where "sb_INOPBLOG \<equiv> 123"
abbreviation (input) sb_AGBLKLOG :: nat where "sb_AGBLKLOG \<equiv> 124"
abbreviation (input) sb_REXTSLOG :: nat where "sb_REXTSLOG \<equiv> 125"
abbreviation (input) sb_INPROGRESS :: nat where "sb_INPROGRESS \<equiv> 126"
abbreviation (input) sb_IMAX_PCT :: nat where "sb_IMAX_PCT \<equiv> 127"
abbreviation (input) sb_ICOUNT :: nat where "sb_ICOUNT \<equiv> 128"
abbreviation (input) sb_IFREE :: nat where "sb_IFREE \<equiv> 136"
abbreviation (input) sb_FDBLOCKS :: nat where "sb_FDBLOCKS \<equiv> 144"
abbreviation (input) sb_FREXTENTS :: nat where "sb_FREXTENTS \<equiv> 152"
abbreviation (input) sb_UQUOTINO :: nat where "sb_UQUOTINO \<equiv> 160"
abbreviation (input) sb_GQUOTINO :: nat where "sb_GQUOTINO \<equiv> 168"
abbreviation (input) sb_QFLAGS :: nat where "sb_QFLAGS \<equiv> 176"
abbreviation (input) sb_FLAGS :: nat where "sb_FLAGS \<equiv> 178"
abbreviation (input) sb_SHARED_VN :: nat where "sb_SHARED_VN \<equiv> 179"
abbreviation (input) sb_INOALIGNMT :: nat where "sb_INOALIGNMT \<equiv> 180"
abbreviation (input) sb_UNIT :: nat where "sb_UNIT \<equiv> 184"
abbreviation (input) sb_WIDTH :: nat where "sb_WIDTH \<equiv> 188"
abbreviation (input) sb_DIRBLKLOG :: nat where "sb_DIRBLKLOG \<equiv> 192"
abbreviation (input) sb_LOGSECTLOG :: nat where "sb_LOGSECTLOG \<equiv> 193"
abbreviation (input) sb_LOGSECTSIZE :: nat where "sb_LOGSECTSIZE \<equiv> 194"
abbreviation (input) sb_LOGSUNIT :: nat where "sb_LOGSUNIT \<equiv> 196"
abbreviation (input) sb_FEATURES2 :: nat where "sb_FEATURES2 \<equiv> 200"
abbreviation (input) sb_BAD_FEATURES2 :: nat where "sb_BAD_FEATURES2 \<equiv> 204"
abbreviation (input) sb_FEATURES_COMPAT :: nat where "sb_FEATURES_COMPAT \<equiv> 208"
abbreviation (input) sb_FEATURES_RO_COMPAT :: nat where "sb_FEATURES_RO_COMPAT \<equiv> 212"
abbreviation (input) sb_FEATURES_INCOMPAT :: nat where "sb_FEATURES_INCOMPAT \<equiv> 216"
abbreviation (input) sb_FEATURES_LOG_INCOMPAT :: nat where "sb_FEATURES_LOG_INCOMPAT \<equiv> 220"
abbreviation (input) sb_CRC :: nat where "sb_CRC \<equiv> 224"
abbreviation (input) sb_SPINO_ALIGN :: nat where "sb_SPINO_ALIGN \<equiv> 228"
abbreviation (input) sb_PQUOTINO :: nat where "sb_PQUOTINO \<equiv> 232"
abbreviation (input) sb_LSN :: nat where "sb_LSN \<equiv> 240"
abbreviation (input) sb_META_UUID :: nat where "sb_META_UUID \<equiv> 248"
abbreviation (input) sb_END :: nat where "sb_END \<equiv> 264"

subsection \<open>Version and feature bits\<close>

abbreviation (input) V5 :: u16 where "V5 \<equiv> 5"
abbreviation (input) ATTRBIT :: u16 where "ATTRBIT \<equiv> 0x10"
abbreviation (input) NLINKBIT :: u16 where "NLINKBIT \<equiv> 0x20"
abbreviation (input) ALIGNBIT :: u16 where "ALIGNBIT \<equiv> 0x80"
abbreviation (input) DALIGNBIT :: u16 where "DALIGNBIT \<equiv> 0x100"
abbreviation (input) LOGV2BIT :: u16 where "LOGV2BIT \<equiv> 0x400"
abbreviation (input) SECTORBIT :: u16 where "SECTORBIT \<equiv> 0x800"
abbreviation (input) EXTFLGBIT :: u16 where "EXTFLGBIT \<equiv> 0x1000"
abbreviation (input) DIRV2BIT :: u16 where "DIRV2BIT \<equiv> 0x2000"
abbreviation (input) MOREBITSBIT :: u16 where "MOREBITSBIT \<equiv> 0x8000"
abbreviation (input) F2_LAZYSBCOUNT :: u32 where "F2_LAZYSBCOUNT \<equiv> 0x2"
abbreviation (input) F2_ATTR2 :: u32 where "F2_ATTR2 \<equiv> 0x8"
abbreviation (input) F2_PROJID32 :: u32 where "F2_PROJID32 \<equiv> 0x80"
abbreviation (input) F2_CRC :: u32 where "F2_CRC \<equiv> 0x100"
abbreviation (input) RO_FINOBT :: u32 where "RO_FINOBT \<equiv> 0x1"
abbreviation (input) RO_RMAPBT :: u32 where "RO_RMAPBT \<equiv> 0x2"
abbreviation (input) RO_REFLINK :: u32 where "RO_REFLINK \<equiv> 0x4"
abbreviation (input) RO_INOBTCNT :: u32 where "RO_INOBTCNT \<equiv> 0x8"
abbreviation (input) IN_FTYPE :: u32 where "IN_FTYPE \<equiv> 0x1"
abbreviation (input) IN_SPINODES :: u32 where "IN_SPINODES \<equiv> 0x2"
abbreviation (input) IN_META_UUID :: u32 where "IN_META_UUID \<equiv> 0x4"
abbreviation (input) IN_BIGTIME :: u32 where "IN_BIGTIME \<equiv> 0x8"
abbreviation (input) IN_NEEDSREPAIR :: u32 where "IN_NEEDSREPAIR \<equiv> 0x10"
abbreviation (input) IN_NREXT64 :: u32 where "IN_NREXT64 \<equiv> 0x20"

subsection \<open>State and encoder\<close>

record sb_state =
  s_uuid :: bytes
  s_rootino :: u64
  s_rbmino :: u64
  s_rsumino :: u64
  s_icount :: u64
  s_ifree :: u64
  s_fdblocks :: u64
  s_inprogress :: bool

definition versionnum :: "geometry \<Rightarrow> u16" where
  "versionnum g =
     (let v = V5 OR NLINKBIT OR EXTFLGBIT OR DIRV2BIT;
          v = v OR (ALIGNBIT OR LOGV2BIT);
          v = (if sectsize g > 512 \<or> lsectsize g > 512 then v OR SECTORBIT else v)
      in v OR MOREBITSBIT)"

definition features2 :: "geometry \<Rightarrow> u32" where
  "features2 g = F2_LAZYSBCOUNT OR F2_PROJID32 OR F2_CRC OR F2_ATTR2"

definition ro_compat :: "geometry \<Rightarrow> u32" where
  "ro_compat g =
     (let f = features g;
          r = 0;
          r = (if finobt f then r OR RO_FINOBT else r);
          r = (if rmapbt f then r OR RO_RMAPBT else r);
          r = (if reflink f then r OR RO_REFLINK else r)
      in if inobtcount f then r OR RO_INOBTCNT else r)"

definition incompat :: "geometry \<Rightarrow> u32" where
  "incompat g =
     (let f = features g;
          r = IN_FTYPE;
          r = (if bigtime f then r OR IN_BIGTIME else r);
          r = (if sparse f then r OR IN_SPINODES else r)
      in if nrext64 f then r OR IN_NREXT64 else r)"

definition sb_encode :: "geometry \<Rightarrow> sb_state \<Rightarrow> bytes \<Rightarrow> error + bytes" where
  "sb_encode g s sector =
     and_then (run_edits
      ([put32 sb_MAGICNUM sb_MAGIC,
        put32 sb_BLOCKSIZE (of_nat (blocksize g)),
        put64 sb_DBLOCKS (of_nat (dblocks g)),
        put64 sb_RBLOCKS 0,
        put64 sb_REXTENTS 0,
        write_slice sb_UUID (s_uuid s),
        put64 sb_LOGSTART (of_nat (logstart g)),
        put64 sb_ROOTINO (s_rootino s),
        put64 sb_RBMINO (s_rbmino s),
        put64 sb_RSUMINO (s_rsumino s),
        put32 sb_REXTSIZE (of_nat (rextsize g)),
        put32 sb_AGBLOCKS (of_nat (agsize g)),
        put32 sb_AGCOUNT (of_nat (agcount g)),
        put32 sb_RBMBLOCKS 0,
        put32 sb_LOGBLOCKS (of_nat (logblocks g)),
        put16 sb_VERSIONNUM (versionnum g),
        put16 sb_SECTSIZE (of_nat (sectsize g)),
        put16 sb_INODESIZE (of_nat (inodesize g)),
        put16 sb_INOPBLOCK (of_nat (inopblock g)),
        write_slice sb_FNAME (label g),
        set_byte sb_BLOCKLOG (of_nat (blocklog g)),
        set_byte sb_SECTLOG (of_nat (sectlog g)),
        set_byte sb_INODELOG (of_nat (inodelog g)),
        set_byte sb_INOPBLOG (of_nat (inopblog g)),
        set_byte sb_AGBLKLOG (of_nat (agblklog g)),
        set_byte sb_REXTSLOG 0,
        set_byte sb_INPROGRESS (of_bool (s_inprogress s)),
        set_byte sb_IMAX_PCT (of_nat (imaxpct g)),
        put64 sb_ICOUNT (s_icount s),
        put64 sb_IFREE (s_ifree s),
        put64 sb_FDBLOCKS (s_fdblocks s),
        put64 sb_FREXTENTS 0,
        put64 sb_UQUOTINO 0,
        put64 sb_GQUOTINO 0,
        put32 sb_INOALIGNMT (of_nat (inoalignmt g)),
        put32 sb_UNIT 0,
        put32 sb_WIDTH 0,
        set_byte sb_DIRBLKLOG (of_nat (dirblocklog g) - of_nat (blocklog g))] @
       (if sectsize g > 512 \<or> lsectsize g > 512
        then [set_byte sb_LOGSECTLOG (of_nat (lsectlog g)), put16 sb_LOGSECTSIZE (of_nat (lsectsize g))]
        else []) @
       [put32 sb_LOGSUNIT (of_nat (logsunit g)),
        put32 sb_FEATURES2 (features2 g),
        put32 sb_BAD_FEATURES2 (features2 g),
        put32 sb_FEATURES_COMPAT 0,
        put32 sb_FEATURES_RO_COMPAT (ro_compat g),
        put32 sb_FEATURES_INCOMPAT (incompat g),
        put32 sb_FEATURES_LOG_INCOMPAT 0,
        put32 sb_SPINO_ALIGN (of_nat (spino_align g)),
        put64 sb_PQUOTINO 0,
        put64 sb_LSN 0]) sector)
      (on_slice 0 (sectsize g) (stamp sb_CRC))"

section \<open>The contract\<close>

definition sb_fields :: "geometry \<times> sb_state \<Rightarrow> nat \<Rightarrow> field list" where
  "sb_fields x n =
     (let g = fst x; s = snd x in
      [fld32 sb_MAGICNUM sb_MAGIC,
        fld32 sb_BLOCKSIZE (of_nat (blocksize g)),
        fld64 sb_DBLOCKS (of_nat (dblocks g)),
        fld64 sb_RBLOCKS 0,
        fld64 sb_REXTENTS 0,
        (sb_UUID, s_uuid s),
        fld64 sb_LOGSTART (of_nat (logstart g)),
        fld64 sb_ROOTINO (s_rootino s),
        fld64 sb_RBMINO (s_rbmino s),
        fld64 sb_RSUMINO (s_rsumino s),
        fld32 sb_REXTSIZE (of_nat (rextsize g)),
        fld32 sb_AGBLOCKS (of_nat (agsize g)),
        fld32 sb_AGCOUNT (of_nat (agcount g)),
        fld32 sb_RBMBLOCKS 0,
        fld32 sb_LOGBLOCKS (of_nat (logblocks g)),
        fld16 sb_VERSIONNUM (versionnum g),
        fld16 sb_SECTSIZE (of_nat (sectsize g)),
        fld16 sb_INODESIZE (of_nat (inodesize g)),
        fld16 sb_INOPBLOCK (of_nat (inopblock g)),
        (sb_FNAME, label g),
        fld8 sb_BLOCKLOG (of_nat (blocklog g)),
        fld8 sb_SECTLOG (of_nat (sectlog g)),
        fld8 sb_INODELOG (of_nat (inodelog g)),
        fld8 sb_INOPBLOG (of_nat (inopblog g)),
        fld8 sb_AGBLKLOG (of_nat (agblklog g)),
        fld8 sb_REXTSLOG 0,
        fld8 sb_INPROGRESS (of_bool (s_inprogress s)),
        fld8 sb_IMAX_PCT (of_nat (imaxpct g)),
        fld64 sb_ICOUNT (s_icount s),
        fld64 sb_IFREE (s_ifree s),
        fld64 sb_FDBLOCKS (s_fdblocks s),
        fld64 sb_FREXTENTS 0,
        fld64 sb_UQUOTINO 0,
        fld64 sb_GQUOTINO 0,
        fld32 sb_INOALIGNMT (of_nat (inoalignmt g)),
        fld32 sb_UNIT 0,
        fld32 sb_WIDTH 0,
        fld8 sb_DIRBLKLOG (of_nat (dirblocklog g) - of_nat (blocklog g))] @
       (if sectsize g > 512 \<or> lsectsize g > 512
        then [fld8 sb_LOGSECTLOG (of_nat (lsectlog g)), fld16 sb_LOGSECTSIZE (of_nat (lsectsize g))]
        else []) @
       [fld32 sb_LOGSUNIT (of_nat (logsunit g)),
        fld32 sb_FEATURES2 (features2 g),
        fld32 sb_BAD_FEATURES2 (features2 g),
        fld32 sb_FEATURES_COMPAT 0,
        fld32 sb_FEATURES_RO_COMPAT (ro_compat g),
        fld32 sb_FEATURES_INCOMPAT (incompat g),
        fld32 sb_FEATURES_LOG_INCOMPAT 0,
        fld32 sb_SPINO_ALIGN (of_nat (spino_align g)),
        fld64 sb_PQUOTINO 0,
        fld64 sb_LSN 0])"

definition sb_ok :: "geometry \<times> sb_state \<Rightarrow> nat \<Rightarrow> bool" where
  "sb_ok x n \<longleftrightarrow> n = sectsize (fst x) \<and> 264 \<le> n \<and> length (s_uuid (snd x)) = 16 \<and> length (label (fst x)) = 12"

lemma sb_encode_writes:
  "sb_encode g s b = and_then (run_edits (map field_write (sb_fields (g, s) n)) b)
     (on_slice 0 (sectsize g) (stamp sb_CRC))"
  by (simp only: sb_encode_def sb_fields_def put_field_writes Let_def fst_conv snd_conv
      list.map map_append if_distrib [of "map field_write"])

interpretation sb: stamped_encoder "\<lambda>x. sb_encode (fst x) (snd x)" sb_ok sb_fields sb_CRC
proof (rule plain_encoder)
  fix x and b :: bytes
  assume "sb_ok x (length b)"
  then show "sb_encode (fst x) (snd x) b = and_then (run_edits (map field_write (sb_fields x (length b))) b)
      (on_slice 0 (length b) (stamp sb_CRC))"
    using sb_encode_writes [of "fst x" "snd x" b "length b"] by (simp add: sb_ok_def)
qed (simp_all add: sb_ok_def sb_fields_def fields_inside_def apart_def Let_def)

section \<open>Properties\<close>

lemma geometry_word_bounds:
  assumes "geometry_ok g"
  shows "blocksize g < 2 ^ 16" "sectsize g < 2 ^ 16" "inodesize g < 2 ^ 16" "inopblock g < 2 ^ 16"
    "512 \<le> sectsize g" "dblocks g < 2 ^ 64" "agsize g < 2 ^ 32" "agcount g < 2 ^ 32"
    "logblocks g < 2 ^ 32" "blocklog g < 256" "sectlog g < 256" "inodelog g < 256" "inopblog g < 256"
    "agblklog g < 256" "imaxpct g < 256" "logstart g < 2 ^ 64"
proof -
  note g = geometry_okD [OF assms]
  have two: "(2::nat) ^ k < 2 ^ 16" if "k \<le> 14" for k using that by (intro power_strict_increasing) simp_all
  have "inopblock g = 2 ^ inopblog g" "imaxpct g \<le> 100" using assms unfolding geometry_ok_def by blast+
  with g two show "blocksize g < 2 ^ 16" "sectsize g < 2 ^ 16" "inodesize g < 2 ^ 16" "inopblock g < 2 ^ 16"
    "imaxpct g < 256" by simp_all
  have "(2::nat) ^ 9 \<le> 2 ^ sectlog g" using g by (intro power_increasing) simp_all
  then show "512 \<le> sectsize g" using g by simp
  show "dblocks g < 2 ^ 64" "agsize g < 2 ^ 32" "agcount g < 2 ^ 32" "logblocks g < 2 ^ 32"
    "blocklog g < 256" "sectlog g < 256" "inodelog g < 256" "inopblog g < 256" "agblklog g < 256"
    using g by simp_all
  show "logstart g < 2 ^ 64"
    unfolding logstart_def using agb_to_fsb_eq(3) [OF assms, of "logagno g" "log_agbno g"] g by simp
qed

text \<open>The derived fields fit their words as well; \<open>spino_align\<close> makes its own cast, which is exact.\<close>

lemma derived_word_bounds:
  assumes "geometry_ok g"
  shows "rextsize g < 2 ^ 32" "inoalignmt g < 2 ^ 32" "logsunit g < 2 ^ 32" "cluster_align g < 2 ^ 32"
    "spino_align g = (if sparse (features g) then cluster_align g else 0)"
    "lsectsize g < 2 ^ 16" "lsectlog g < 256" "blocklog g \<le> dirblocklog g" "dirblocklog g < 256"
proof -
  note g = geometry_okD [OF assms]
  have i: "inodesize g \<le> 2 ^ 11" unfolding g(8) using g(10) by (intro power_increasing) simp_all
  have le: "shr64 x n \<le> x" for x n by (simp add: shr64_def)
  have c: "cluster_align g \<le> 65536"
    using le_trans [OF le, of "INODE_BIG_CLUSTER_SIZE * (inodesize g div DINODE_MIN_SIZE)" 65536] i
    by (simp add: cluster_align_def INODE_BIG_CLUSTER_SIZE_def DINODE_MIN_SIZE_def)
  then show "cluster_align g < 2 ^ 32" "spino_align g = (if sparse (features g) then cluster_align g else 0)"
    by (simp_all add: spino_align_def as_u32_def)
  have "chunk_blocks g \<le> 131072"
    using le_trans [OF le, of "INODES_PER_CHUNK * inodesize g" 131072] i by (simp add: chunk_blocks_def INODES_PER_CHUNK_def)
  with c show "inoalignmt g < 2 ^ 32" by (simp add: inoalignmt_def)
  show "rextsize g < 2 ^ 32" using le_less_trans [OF le, of 4096 "2 ^ 32"] by (simp add: rextsize_def)
  show "logsunit g < 2 ^ 32" using geometry_word_bounds(1) [OF assms] by (simp add: logsunit_def lsunit_bytes_def)
  have "lsectlog g = sectlog g" "dirblocklog g = max 12 (blocklog g)" using assms unfolding geometry_ok_def by blast+
  then show "lsectsize g < 2 ^ 16" "lsectlog g < 256" "blocklog g \<le> dirblocklog g" "dirblocklog g < 256"
    using geometry_word_bounds [OF assms] g(7) by simp_all
qed

lemma unat_of_nat_diff_small: "m \<le> n \<Longrightarrow> n < 2 ^ LENGTH('a) \<Longrightarrow> unat (of_nat n - of_nat m :: 'a::len word) = n - m"
  by (metis of_nat_diff unat_of_nat_small diff_le_self le_less_trans)

text \<open>An encoded superblock holds its table, and the bytes that no field covers are those of the sector.\<close>

lemma sb_encoded:
  assumes "geometry_ok g" "length (s_uuid s) = 16" "length sector = sectsize g"
  obtains b where "sb_encode g s sector = Inr b" "length b = sectsize g" "verify b sb_CRC = Inr True"
    "holds (sb_fields (g, s) (length sector)) b"
    "\<And>i. i < length sector \<Longrightarrow> \<not> covers ((sb_CRC, replicate 4 0) # sb_fields (g, s) (length sector)) i \<Longrightarrow> b ! i = sector ! i"
proof -
  have "sb_ok (g, s) (length sector)"
    using assms geometry_word_bounds [OF assms(1)] geometry_okD(27) [OF assms(1)] by (simp add: sb_ok_def)
  from sb.encoded [OF this] show thesis using assms(3) that by (metis fst_conv snd_conv)
qed

lemma sb_untouched:
  assumes "length (s_uuid s) = 16" "length (label g) = 12"
    and "i \<in> {176..<180} \<or> 248 \<le> i \<or> \<not> (sectsize g > 512 \<or> lsectsize g > 512) \<and> i \<in> {193..<196}"
  shows "\<not> covers ((sb_CRC, replicate 4 0) # sb_fields (g, s) n) i"
  using assms by (auto simp: covers_def sb_fields_def Let_def)

text \<open>The fields of the table, read back by their width.\<close>

lemma sb_bytes:
  assumes "holds (sb_fields (g, s) n) b"
  shows "b ! sb_BLOCKLOG = of_nat (blocklog g)" "b ! sb_SECTLOG = of_nat (sectlog g)"
    "b ! sb_INODELOG = of_nat (inodelog g)" "b ! sb_INOPBLOG = of_nat (inopblog g)"
    "b ! sb_AGBLKLOG = of_nat (agblklog g)" "b ! sb_REXTSLOG = 0" "b ! sb_IMAX_PCT = of_nat (imaxpct g)"
    "b ! sb_INPROGRESS = of_bool (s_inprogress s)" "b ! sb_DIRBLKLOG = of_nat (dirblocklog g) - of_nat (blocklog g)"
  by (rule holds_byte(1) [OF assms]; simp add: sb_fields_def Let_def)+

lemma sb_be16s:
  assumes "holds (sb_fields (g, s) n) b"
  shows "be16 b sb_VERSIONNUM = Inr (versionnum g)" "be16 b sb_SECTSIZE = Inr (of_nat (sectsize g))"
    "be16 b sb_INODESIZE = Inr (of_nat (inodesize g))" "be16 b sb_INOPBLOCK = Inr (of_nat (inopblock g))"
  by (rule holds_be16 [OF assms]; simp add: sb_fields_def Let_def)+

lemma sb_be32s:
  assumes "holds (sb_fields (g, s) n) b"
  shows "be32 b sb_MAGICNUM = Inr sb_MAGIC" "be32 b sb_BLOCKSIZE = Inr (of_nat (blocksize g))"
    "be32 b sb_REXTSIZE = Inr (of_nat (rextsize g))" "be32 b sb_AGBLOCKS = Inr (of_nat (agsize g))"
    "be32 b sb_AGCOUNT = Inr (of_nat (agcount g))" "be32 b sb_RBMBLOCKS = Inr 0"
    "be32 b sb_LOGBLOCKS = Inr (of_nat (logblocks g))" "be32 b sb_INOALIGNMT = Inr (of_nat (inoalignmt g))"
    "be32 b sb_UNIT = Inr 0" "be32 b sb_WIDTH = Inr 0" "be32 b sb_LOGSUNIT = Inr (of_nat (logsunit g))"
    "be32 b sb_FEATURES2 = Inr (features2 g)" "be32 b sb_BAD_FEATURES2 = Inr (features2 g)"
    "be32 b sb_FEATURES_COMPAT = Inr 0" "be32 b sb_FEATURES_RO_COMPAT = Inr (ro_compat g)"
    "be32 b sb_FEATURES_INCOMPAT = Inr (incompat g)" "be32 b sb_FEATURES_LOG_INCOMPAT = Inr 0"
    "be32 b sb_SPINO_ALIGN = Inr (of_nat (spino_align g))"
  by (rule holds_be32 [OF assms]; simp add: sb_fields_def Let_def)+

lemma sb_be64s:
  assumes "holds (sb_fields (g, s) n) b"
  shows "be64 b sb_DBLOCKS = Inr (of_nat (dblocks g))" "be64 b sb_RBLOCKS = Inr 0" "be64 b sb_REXTENTS = Inr 0"
    "be64 b sb_LOGSTART = Inr (of_nat (logstart g))" "be64 b sb_ROOTINO = Inr (s_rootino s)"
    "be64 b sb_RBMINO = Inr (s_rbmino s)" "be64 b sb_RSUMINO = Inr (s_rsumino s)" "be64 b sb_ICOUNT = Inr (s_icount s)"
    "be64 b sb_IFREE = Inr (s_ifree s)" "be64 b sb_FDBLOCKS = Inr (s_fdblocks s)" "be64 b sb_FREXTENTS = Inr 0"
    "be64 b sb_UQUOTINO = Inr 0" "be64 b sb_GQUOTINO = Inr 0" "be64 b sb_PQUOTINO = Inr 0" "be64 b sb_LSN = Inr 0"
  by (rule holds_be64 [OF assms]; simp add: sb_fields_def Let_def)+

lemma slice_eqI:
  assumes "length b = length c" "off + n \<le> length c" "\<And>i. off \<le> i \<Longrightarrow> i < off + n \<Longrightarrow> b ! i = c ! i"
  shows "slice off n b = slice off n c"
  using assms by (intro nth_equalityI) (simp_all add: nth_slice slice_def)

text \<open>
  \<^bold>\<open>C36\<close>. The superblock of an accepted geometry is encoded without a panic into its sector,
  its checksum verifies, and every field reads back, in the order of the structure: the geometry and the values
  derived from it lose no bit in a cast to a narrower field, the counters, inode numbers, UUID, label and feature
  words are those of the state, the fields of a realtime device, of quotas, of data striping and of the log
  sequence number are zero, and the log sector fields are written exactly when a sector is larger than 512 bytes.
  The bytes between the fields and after them are those the sector had.
\<close>

theorem superblock_round_trip:
  assumes "geometry_ok g" "length (s_uuid s) = 16" "length sector = sectsize g"
  shows "\<exists>b. sb_encode g s sector = Inr b \<and> length b = sectsize g \<and> verify b sb_CRC = Inr True \<and>
    be32 b sb_MAGICNUM = Inr sb_MAGIC \<and> reads (be32 b sb_BLOCKSIZE) (blocksize g) \<and>
    reads (be64 b sb_DBLOCKS) (dblocks g) \<and> be64 b sb_RBLOCKS = Inr 0 \<and> be64 b sb_REXTENTS = Inr 0 \<and>
    slice sb_UUID 16 b = s_uuid s \<and> reads (be64 b sb_LOGSTART) (logstart g) \<and>
    be64 b sb_ROOTINO = Inr (s_rootino s) \<and> be64 b sb_RBMINO = Inr (s_rbmino s) \<and>
    be64 b sb_RSUMINO = Inr (s_rsumino s) \<and> reads (be32 b sb_REXTSIZE) (rextsize g) \<and>
    reads (be32 b sb_AGBLOCKS) (agsize g) \<and> reads (be32 b sb_AGCOUNT) (agcount g) \<and>
    be32 b sb_RBMBLOCKS = Inr 0 \<and> reads (be32 b sb_LOGBLOCKS) (logblocks g) \<and>
    be16 b sb_VERSIONNUM = Inr (versionnum g) \<and> reads (be16 b sb_SECTSIZE) (sectsize g) \<and>
    reads (be16 b sb_INODESIZE) (inodesize g) \<and> reads (be16 b sb_INOPBLOCK) (inopblock g) \<and>
    slice sb_FNAME 12 b = label g \<and> unat (b ! sb_BLOCKLOG) = blocklog g \<and> unat (b ! sb_SECTLOG) = sectlog g \<and>
    unat (b ! sb_INODELOG) = inodelog g \<and> unat (b ! sb_INOPBLOG) = inopblog g \<and>
    unat (b ! sb_AGBLKLOG) = agblklog g \<and> b ! sb_REXTSLOG = 0 \<and> b ! sb_INPROGRESS = of_bool (s_inprogress s) \<and>
    unat (b ! sb_IMAX_PCT) = imaxpct g \<and> be64 b sb_ICOUNT = Inr (s_icount s) \<and> be64 b sb_IFREE = Inr (s_ifree s) \<and>
    be64 b sb_FDBLOCKS = Inr (s_fdblocks s) \<and> be64 b sb_FREXTENTS = Inr 0 \<and> be64 b sb_UQUOTINO = Inr 0 \<and>
    be64 b sb_GQUOTINO = Inr 0 \<and> slice sb_QFLAGS 4 b = slice sb_QFLAGS 4 sector \<and>
    reads (be32 b sb_INOALIGNMT) (inoalignmt g) \<and> be32 b sb_UNIT = Inr 0 \<and> be32 b sb_WIDTH = Inr 0 \<and>
    unat (b ! sb_DIRBLKLOG) = dirblocklog g - blocklog g \<and>
    (if sectsize g > 512 \<or> lsectsize g > 512
     then unat (b ! sb_LOGSECTLOG) = lsectlog g \<and> reads (be16 b sb_LOGSECTSIZE) (lsectsize g)
     else slice sb_LOGSECTLOG 3 b = slice sb_LOGSECTLOG 3 sector) \<and>
    reads (be32 b sb_LOGSUNIT) (logsunit g) \<and> be32 b sb_FEATURES2 = Inr (features2 g) \<and>
    be32 b sb_BAD_FEATURES2 = Inr (features2 g) \<and> be32 b sb_FEATURES_COMPAT = Inr 0 \<and>
    be32 b sb_FEATURES_RO_COMPAT = Inr (ro_compat g) \<and> be32 b sb_FEATURES_INCOMPAT = Inr (incompat g) \<and>
    be32 b sb_FEATURES_LOG_INCOMPAT = Inr 0 \<and>
    reads (be32 b sb_SPINO_ALIGN) (if sparse (features g) then cluster_align g else 0) \<and>
    be64 b sb_PQUOTINO = Inr 0 \<and> be64 b sb_LSN = Inr 0 \<and>
    slice sb_META_UUID (sectsize g - sb_META_UUID) b = slice sb_META_UUID (sectsize g - sb_META_UUID) sector"
proof -
  note w = geometry_word_bounds [OF assms(1)] and dw = derived_word_bounds [OF assms(1)]
  note m = sb_fields_def Let_def
  obtain b where b: "sb_encode g s sector = Inr b" "length b = sectsize g" "verify b sb_CRC = Inr True"
    and h: "holds (sb_fields (g, s) (length sector)) b"
    and u: "\<And>i. i < length sector \<Longrightarrow> \<not> covers ((sb_CRC, replicate 4 0) # sb_fields (g, s) (length sector)) i \<Longrightarrow> b ! i = sector ! i"
    using sb_encoded [OF assms] by metis
  note free = u [OF _ sb_untouched [OF assms(2) geometry_okD(27) [OF assms(1)]]]
  note bytes = sb_bytes [OF h] and be16s = sb_be16s [OF h] and be32s = sb_be32s [OF h] and be64s = sb_be64s [OF h]
  have slices: "slice sb_UUID 16 b = s_uuid s" "slice sb_FNAME 12 b = label g"
    using holds_member [OF h, of sb_UUID "s_uuid s"] holds_member [OF h, of sb_FNAME "label g"]
      assms(2) geometry_okD(27) [OF assms(1)] by (simp_all add: m)
  have kept: "slice sb_QFLAGS 4 b = slice sb_QFLAGS 4 sector"
    "slice sb_META_UUID (sectsize g - sb_META_UUID) b = slice sb_META_UUID (sectsize g - sb_META_UUID) sector"
    using b(2) assms(3) w(5) by (intro slice_eqI free; simp)+
  have log: "if sectsize g > 512 \<or> lsectsize g > 512
     then unat (b ! sb_LOGSECTLOG) = lsectlog g \<and> reads (be16 b sb_LOGSECTSIZE) (lsectsize g)
     else slice sb_LOGSECTLOG 3 b = slice sb_LOGSECTLOG 3 sector"
  proof (cases "sectsize g > 512 \<or> lsectsize g > 512")
    case True
    have "b ! sb_LOGSECTLOG = of_nat (lsectlog g)" by (rule holds_byte(1) [OF h]) (use True in \<open>simp add: m\<close>)
    moreover have "be16 b sb_LOGSECTSIZE = Inr (of_nat (lsectsize g))" by (rule holds_be16 [OF h]) (use True in \<open>simp add: m\<close>)
    ultimately show ?thesis using True dw by (simp add: unat_of_nat_small)
  next
    case False
    have "slice sb_LOGSECTLOG 3 b = slice sb_LOGSECTLOG 3 sector"
      using b(2) assms(3) w(5) False by (intro slice_eqI free) simp_all
    then show ?thesis by (simp only: False if_False)
  qed
  have spino: "reads (be32 b sb_SPINO_ALIGN) (if sparse (features g) then cluster_align g else 0)"
    using dw(4,5) be32s by simp
  show ?thesis
    using b w dw(1-3) dw(8,9) be16s be32s be64s
    by (intro exI [of _ b] conjI slices kept log spino)
       (simp_all add: bytes unat_of_nat_small unat_of_nat_diff_small)
qed

theorem superblock_round_trip_witness:
  "\<exists>b. sb_encode geometry_512m \<lparr>s_uuid = replicate 16 7, s_rootino = 128, s_rbmino = 129, s_rsumino = 130,
      s_icount = 64, s_ifree = 61, s_fdblocks = 1000, s_inprogress = False\<rparr> (replicate 512 0) = Inr b \<and>
    verify b sb_CRC = Inr True \<and> be64 b sb_ROOTINO = Inr 128 \<and> be64 b sb_IFREE = Inr 61 \<and>
    reads (be32 b sb_LOGBLOCKS) 16384 \<and> slice sb_LOGSECTLOG 3 b = replicate 3 0"
  using superblock_round_trip [OF geometry_512m_ok(1), of "\<lparr>s_uuid = replicate 16 7, s_rootino = 128,
      s_rbmino = 129, s_rsumino = 130, s_icount = 64, s_ifree = 61, s_fdblocks = 1000,
      s_inprogress = False\<rparr>" "replicate 512 0"]
  by (auto simp: geometry_512m_def slice_def)

end
