(* ===== verification/Ag_Headers.thy ===== *)
theory Ag_Headers
  imports Superblock
begin

section \<open>Allocation group headers (\<^verbatim>\<open>src/structs/ag.rs\<close>)\<close>

text \<open>
  The AGF, AGI and AGFL sectors: records with the fields of the source, one encoder each, and
  the field table that each encoder leaves behind. The AGFL encoder first nulls every slot and
  then writes the list, wrapping around the end of the array, so its table is computed by
  the same updates on a function from slots to block numbers.
\<close>

definition AGF_MAGIC :: u32 where "AGF_MAGIC = 0x58414746"
definition AGI_MAGIC :: u32 where "AGI_MAGIC = 0x58414749"
definition AGFL_MAGIC :: u32 where "AGFL_MAGIC = 0x5841464c"
definition AG_VERSION :: u32 where "AG_VERSION = 1"
definition UNLINKED_BUCKETS :: nat where "UNLINKED_BUCKETS = 64"

subsection \<open>Field offsets\<close>

abbreviation (input) agf_MAGICNUM :: nat where "agf_MAGICNUM \<equiv> 0"
abbreviation (input) agf_VERSIONNUM :: nat where "agf_VERSIONNUM \<equiv> 4"
abbreviation (input) agf_SEQNO :: nat where "agf_SEQNO \<equiv> 8"
abbreviation (input) agf_LENGTH :: nat where "agf_LENGTH \<equiv> 12"
abbreviation (input) agf_BNO_ROOT :: nat where "agf_BNO_ROOT \<equiv> 16"
abbreviation (input) agf_CNT_ROOT :: nat where "agf_CNT_ROOT \<equiv> 20"
abbreviation (input) agf_RMAP_ROOT :: nat where "agf_RMAP_ROOT \<equiv> 24"
abbreviation (input) agf_BNO_LEVEL :: nat where "agf_BNO_LEVEL \<equiv> 28"
abbreviation (input) agf_CNT_LEVEL :: nat where "agf_CNT_LEVEL \<equiv> 32"
abbreviation (input) agf_RMAP_LEVEL :: nat where "agf_RMAP_LEVEL \<equiv> 36"
abbreviation (input) agf_FLFIRST :: nat where "agf_FLFIRST \<equiv> 40"
abbreviation (input) agf_FLLAST :: nat where "agf_FLLAST \<equiv> 44"
abbreviation (input) agf_FLCOUNT :: nat where "agf_FLCOUNT \<equiv> 48"
abbreviation (input) agf_FREEBLKS :: nat where "agf_FREEBLKS \<equiv> 52"
abbreviation (input) agf_LONGEST :: nat where "agf_LONGEST \<equiv> 56"
abbreviation (input) agf_BTREEBLKS :: nat where "agf_BTREEBLKS \<equiv> 60"
abbreviation (input) agf_UUID :: nat where "agf_UUID \<equiv> 64"
abbreviation (input) agf_RMAP_BLOCKS :: nat where "agf_RMAP_BLOCKS \<equiv> 80"
abbreviation (input) agf_REFCOUNT_BLOCKS :: nat where "agf_REFCOUNT_BLOCKS \<equiv> 84"
abbreviation (input) agf_REFCOUNT_ROOT :: nat where "agf_REFCOUNT_ROOT \<equiv> 88"
abbreviation (input) agf_REFCOUNT_LEVEL :: nat where "agf_REFCOUNT_LEVEL \<equiv> 92"
abbreviation (input) agf_LSN :: nat where "agf_LSN \<equiv> 208"
abbreviation (input) agf_CRC :: nat where "agf_CRC \<equiv> 216"
abbreviation (input) agf_END :: nat where "agf_END \<equiv> 224"

abbreviation (input) agi_MAGICNUM :: nat where "agi_MAGICNUM \<equiv> 0"
abbreviation (input) agi_VERSIONNUM :: nat where "agi_VERSIONNUM \<equiv> 4"
abbreviation (input) agi_SEQNO :: nat where "agi_SEQNO \<equiv> 8"
abbreviation (input) agi_LENGTH :: nat where "agi_LENGTH \<equiv> 12"
abbreviation (input) agi_COUNT :: nat where "agi_COUNT \<equiv> 16"
abbreviation (input) agi_ROOT :: nat where "agi_ROOT \<equiv> 20"
abbreviation (input) agi_LEVEL :: nat where "agi_LEVEL \<equiv> 24"
abbreviation (input) agi_FREECOUNT :: nat where "agi_FREECOUNT \<equiv> 28"
abbreviation (input) agi_NEWINO :: nat where "agi_NEWINO \<equiv> 32"
abbreviation (input) agi_DIRINO :: nat where "agi_DIRINO \<equiv> 36"
abbreviation (input) agi_UNLINKED :: nat where "agi_UNLINKED \<equiv> 40"
abbreviation (input) agi_UUID :: nat where "agi_UUID \<equiv> 296"
abbreviation (input) agi_CRC :: nat where "agi_CRC \<equiv> 312"
abbreviation (input) agi_LSN :: nat where "agi_LSN \<equiv> 320"
abbreviation (input) agi_FREE_ROOT :: nat where "agi_FREE_ROOT \<equiv> 328"
abbreviation (input) agi_FREE_LEVEL :: nat where "agi_FREE_LEVEL \<equiv> 332"
abbreviation (input) agi_IBLOCKS :: nat where "agi_IBLOCKS \<equiv> 336"
abbreviation (input) agi_FBLOCKS :: nat where "agi_FBLOCKS \<equiv> 340"
abbreviation (input) agi_END :: nat where "agi_END \<equiv> 344"

abbreviation (input) agfl_MAGICNUM :: nat where "agfl_MAGICNUM \<equiv> 0"
abbreviation (input) agfl_SEQNO :: nat where "agfl_SEQNO \<equiv> 4"
abbreviation (input) agfl_UUID :: nat where "agfl_UUID \<equiv> 8"
abbreviation (input) agfl_LSN :: nat where "agfl_LSN \<equiv> 24"
abbreviation (input) agfl_CRC :: nat where "agfl_CRC \<equiv> 32"
abbreviation (input) agfl_BNO :: nat where "agfl_BNO \<equiv> 36"

subsection \<open>AGF\<close>

record agf =
  agf_seqno :: u32
  agf_length :: u32
  agf_bno_root :: u32
  agf_bno_level :: u32
  agf_cnt_root :: u32
  agf_cnt_level :: u32
  agf_rmap_root :: u32
  agf_rmap_level :: u32
  agf_rmap_blocks :: u32
  agf_refcount_root :: u32
  agf_refcount_level :: u32
  agf_refcount_blocks :: u32
  agf_flfirst :: u32
  agf_fllast :: u32
  agf_flcount :: u32
  agf_freeblks :: u32
  agf_longest :: u32
  agf_btreeblks :: u32

definition agf_encode :: "agf \<Rightarrow> bytes \<Rightarrow> bytes \<Rightarrow> error + bytes" where
  "agf_encode a uuid sector =
     and_then (run_edits
      [put32 agf_MAGICNUM AGF_MAGIC,
       put32 agf_VERSIONNUM AG_VERSION,
       put32 agf_SEQNO (agf_seqno a),
       put32 agf_LENGTH (agf_length a),
       put32 agf_BNO_ROOT (agf_bno_root a),
       put32 agf_CNT_ROOT (agf_cnt_root a),
       put32 agf_RMAP_ROOT (agf_rmap_root a),
       put32 agf_BNO_LEVEL (agf_bno_level a),
       put32 agf_CNT_LEVEL (agf_cnt_level a),
       put32 agf_RMAP_LEVEL (agf_rmap_level a),
       put32 agf_FLFIRST (agf_flfirst a),
       put32 agf_FLLAST (agf_fllast a),
       put32 agf_FLCOUNT (agf_flcount a),
       put32 agf_FREEBLKS (agf_freeblks a),
       put32 agf_LONGEST (agf_longest a),
       put32 agf_BTREEBLKS (agf_btreeblks a),
       write_slice agf_UUID uuid,
       put32 agf_RMAP_BLOCKS (agf_rmap_blocks a),
       put32 agf_REFCOUNT_BLOCKS (agf_refcount_blocks a),
       put32 agf_REFCOUNT_ROOT (agf_refcount_root a),
       put32 agf_REFCOUNT_LEVEL (agf_refcount_level a),
       put64 agf_LSN 0] sector)
      (\<lambda>b. on_slice 0 (length b) (stamp agf_CRC) b)"

subsection \<open>AGI\<close>

record agi =
  agi_seqno :: u32
  agi_length :: u32
  agi_count :: u32
  agi_root :: u32
  agi_level :: u32
  agi_freecount :: u32
  agi_newino :: u32
  agi_free_root :: u32
  agi_free_level :: u32
  agi_iblocks :: u32
  agi_fblocks :: u32

definition agi_encode :: "agi \<Rightarrow> bytes \<Rightarrow> bytes \<Rightarrow> error + bytes" where
  "agi_encode a uuid sector =
     and_then (run_edits
      ([put32 agi_MAGICNUM AGI_MAGIC,
        put32 agi_VERSIONNUM AG_VERSION,
        put32 agi_SEQNO (agi_seqno a),
        put32 agi_LENGTH (agi_length a),
        put32 agi_COUNT (agi_count a),
        put32 agi_ROOT (agi_root a),
        put32 agi_LEVEL (agi_level a),
        put32 agi_FREECOUNT (agi_freecount a),
        put32 agi_NEWINO (agi_newino a),
        put32 agi_DIRINO NULL32] @
       map (\<lambda>i. put32 (agi_UNLINKED + 4 * i) NULL32) [0..<UNLINKED_BUCKETS] @
       [write_slice agi_UUID uuid,
        put64 agi_LSN 0,
        put32 agi_FREE_ROOT (agi_free_root a),
        put32 agi_FREE_LEVEL (agi_free_level a),
        put32 agi_IBLOCKS (agi_iblocks a),
        put32 agi_FBLOCKS (agi_fblocks a)]) sector)
      (\<lambda>b. on_slice 0 (length b) (stamp agi_CRC) b)"

subsection \<open>AGFL\<close>

text \<open>
  A list in an array of no slots panics in \<^verbatim>\<open>%\<close>; a buffer shorter than the header has
  panicked before the slots are counted.
\<close>

definition agfl_put :: "nat \<Rightarrow> u32 \<Rightarrow> nat \<times> u32 \<Rightarrow> bytes \<Rightarrow> error + bytes" where
  "agfl_put slots first e b =
     (if slots = 0 then Inl Panicked
      else put32 (agfl_BNO + 4 * ((unat first + fst e) mod slots)) (snd e) b)"

definition encode_agfl :: "u32 \<Rightarrow> bytes \<Rightarrow> u32 \<Rightarrow> u32 list \<Rightarrow> bytes \<Rightarrow> error + bytes" where
  "encode_agfl seqno uuid first list sector =
     and_then (run_edits
      [put32 agfl_MAGICNUM AGFL_MAGIC,
       put32 agfl_SEQNO seqno,
       write_slice agfl_UUID uuid,
       put64 agfl_LSN 0] sector) (\<lambda>b.
     let slots = sub64 (length b) agfl_BNO div 4 in
     and_then (run_edits (map (\<lambda>i. put32 (agfl_BNO + 4 * i) NULL32) [0..<slots]) b) (\<lambda>b.
     and_then (run_edits (map (agfl_put slots first) (enumerate 0 list)) b) (\<lambda>b.
     on_slice 0 (length b) (stamp agfl_CRC) b)))"

section \<open>Contracts\<close>

definition agf_fields :: "agf \<times> bytes \<Rightarrow> nat \<Rightarrow> field list" where
  "agf_fields x n =
     (let a = fst x in
      [fld32 agf_MAGICNUM AGF_MAGIC,
       fld32 agf_VERSIONNUM AG_VERSION,
       fld32 agf_SEQNO (agf_seqno a),
       fld32 agf_LENGTH (agf_length a),
       fld32 agf_BNO_ROOT (agf_bno_root a),
       fld32 agf_CNT_ROOT (agf_cnt_root a),
       fld32 agf_RMAP_ROOT (agf_rmap_root a),
       fld32 agf_BNO_LEVEL (agf_bno_level a),
       fld32 agf_CNT_LEVEL (agf_cnt_level a),
       fld32 agf_RMAP_LEVEL (agf_rmap_level a),
       fld32 agf_FLFIRST (agf_flfirst a),
       fld32 agf_FLLAST (agf_fllast a),
       fld32 agf_FLCOUNT (agf_flcount a),
       fld32 agf_FREEBLKS (agf_freeblks a),
       fld32 agf_LONGEST (agf_longest a),
       fld32 agf_BTREEBLKS (agf_btreeblks a),
       (agf_UUID, snd x),
       fld32 agf_RMAP_BLOCKS (agf_rmap_blocks a),
       fld32 agf_REFCOUNT_BLOCKS (agf_refcount_blocks a),
       fld32 agf_REFCOUNT_ROOT (agf_refcount_root a),
       fld32 agf_REFCOUNT_LEVEL (agf_refcount_level a),
       fld64 agf_LSN 0])"

definition agi_fields :: "agi \<times> bytes \<Rightarrow> nat \<Rightarrow> field list" where
  "agi_fields x n =
     (let a = fst x in
      [fld32 agi_MAGICNUM AGI_MAGIC,
       fld32 agi_VERSIONNUM AG_VERSION,
       fld32 agi_SEQNO (agi_seqno a),
       fld32 agi_LENGTH (agi_length a),
       fld32 agi_COUNT (agi_count a),
       fld32 agi_ROOT (agi_root a),
       fld32 agi_LEVEL (agi_level a),
       fld32 agi_FREECOUNT (agi_freecount a),
       fld32 agi_NEWINO (agi_newino a),
       fld32 agi_DIRINO NULL32] @
      map (\<lambda>i. fld32 (agi_UNLINKED + 4 * i) NULL32) [0..<UNLINKED_BUCKETS] @
      [(agi_UUID, snd x),
       fld64 agi_LSN 0,
       fld32 agi_FREE_ROOT (agi_free_root a),
       fld32 agi_FREE_LEVEL (agi_free_level a),
       fld32 agi_IBLOCKS (agi_iblocks a),
       fld32 agi_FBLOCKS (agi_fblocks a)])"

definition agf_ok :: "agf \<times> bytes \<Rightarrow> nat \<Rightarrow> bool" where
  "agf_ok x n \<longleftrightarrow> 224 \<le> n \<and> length (snd x) = 16"

definition agi_ok :: "agi \<times> bytes \<Rightarrow> nat \<Rightarrow> bool" where
  "agi_ok x n \<longleftrightarrow> 344 \<le> n \<and> length (snd x) = 16"

lemma and_then_length:
  assumes "fields_inside (length b) fs"
  shows "and_then (run_edits (map field_write fs) b) (\<lambda>c. on_slice 0 (length c) (stamp off) c) =
    and_then (run_edits (map field_write fs) b) (on_slice 0 (length b) (stamp off))"
  using assms by (simp add: run_field_writes length_apply_fields)

lemma agf_encode_writes:
  "agf_encode (fst x) (snd x) b = and_then (run_edits (map field_write (agf_fields x n)) b)
     (\<lambda>c. on_slice 0 (length c) (stamp agf_CRC) c)"
  by (simp only: agf_encode_def agf_fields_def put_field_writes Let_def list.map)

lemma agf_fields_inside: "agf_ok x n \<Longrightarrow> fields_inside n (agf_fields x m)"
  by (simp add: agf_ok_def agf_fields_def fields_inside_def Let_def)

interpretation agf: stamped_encoder "\<lambda>x. agf_encode (fst x) (snd x)" agf_ok agf_fields agf_CRC
proof (rule plain_encoder)
  fix x and b :: bytes
  assume "agf_ok x (length b)"
  then show "agf_encode (fst x) (snd x) b = and_then (run_edits (map field_write (agf_fields x (length b))) b)
      (on_slice 0 (length b) (stamp agf_CRC))"
    by (simp only: agf_encode_writes [of x b "length b"] and_then_length agf_fields_inside)
qed (simp_all add: agf_ok_def agf_fields_def fields_inside_def apart_def Let_def)

lemma agi_encode_writes:
  "agi_encode (fst x) (snd x) b = and_then (run_edits (map field_write (agi_fields x n)) b)
     (\<lambda>c. on_slice 0 (length c) (stamp agi_CRC) c)"
  by (simp only: agi_encode_def agi_fields_def put_field_writes Let_def list.map map_append map_map o_def)

lemma agi_fields_inside: "agi_ok x n \<Longrightarrow> fields_inside n (agi_fields x m)"
  by (auto simp: agi_ok_def agi_fields_def fields_inside_def Let_def list_all_iff UNLINKED_BUCKETS_def)

lemma fields_apart_append:
  "fields_apart (fs @ hs) \<longleftrightarrow> fields_apart fs \<and> fields_apart hs \<and> (\<forall>f\<in>set fs. list_all (apart f) hs)"
  by (induction fs) (auto simp: list_all_iff)

lemma fields_apart_array:
  "fields_apart (map (\<lambda>i. fld32 (off + 4 * i) (h i)) [0..<n])"
proof (induction n)
  case (Suc n)
  then show ?case by (auto simp: fields_apart_append apart_def)
qed simp

interpretation agi: stamped_encoder "\<lambda>x. agi_encode (fst x) (snd x)" agi_ok agi_fields agi_CRC
proof (rule plain_encoder)
  fix x and b :: bytes
  assume "agi_ok x (length b)"
  then show "agi_encode (fst x) (snd x) b = and_then (run_edits (map field_write (agi_fields x (length b))) b)
      (on_slice 0 (length b) (stamp agi_CRC))"
    by (simp only: agi_encode_writes [of x b "length b"] and_then_length agi_fields_inside)
next
  fix x n
  assume ok: "agi_ok x n"
  show "fields_inside n ((agi_CRC, replicate 4 0) # agi_fields x n)"
    using agi_fields_inside [OF ok, of n] ok by (simp add: agi_ok_def fields_inside_def)
  show "fields_apart ((agi_CRC, replicate 4 0) # agi_fields x n)"
    using ok fields_apart_array [of agi_UNLINKED "\<lambda>_. NULL32" UNLINKED_BUCKETS]
    by (auto simp: agi_ok_def agi_fields_def Let_def fields_apart_append list_all_iff apart_def UNLINKED_BUCKETS_def)
qed

subsection \<open>The free list\<close>

text \<open>\<open>agfl_slots n first list\<close> is what each of the \<open>n\<close> slots holds after the two loops.\<close>

definition slot_update :: "nat \<Rightarrow> nat \<Rightarrow> nat \<times> u32 \<Rightarrow> (nat \<Rightarrow> u32) \<Rightarrow> nat \<Rightarrow> u32" where
  "slot_update n first e h = h((first + fst e) mod n := snd e)"

definition agfl_slots :: "nat \<Rightarrow> nat \<Rightarrow> u32 list \<Rightarrow> nat \<Rightarrow> u32" where
  "agfl_slots n first list = fold (slot_update n first) (enumerate 0 list) (\<lambda>_. NULL32)"

definition slot_table :: "nat \<Rightarrow> nat \<Rightarrow> (nat \<Rightarrow> u32) \<Rightarrow> field list" where
  "slot_table off n h = map (\<lambda>i. fld32 (off + 4 * i) (h i)) [0..<n]"

type_synonym agfl_args = "u32 \<times> bytes \<times> u32 \<times> u32 list"

definition agfl_header :: "u32 \<Rightarrow> bytes \<Rightarrow> field list" where
  "agfl_header seqno uuid =
     [fld32 agfl_MAGICNUM AGFL_MAGIC, fld32 agfl_SEQNO seqno, (agfl_UUID, uuid), fld64 agfl_LSN 0]"

definition agfl_fields :: "agfl_args \<Rightarrow> nat \<Rightarrow> field list" where
  "agfl_fields x len =
     (case x of (seqno, uuid, first, list) \<Rightarrow>
        agfl_header seqno uuid @
        slot_table agfl_BNO ((len - 36) div 4) (agfl_slots ((len - 36) div 4) (unat first) list))"

definition agfl_ok :: "agfl_args \<Rightarrow> nat \<Rightarrow> bool" where
  "agfl_ok x len \<longleftrightarrow> (case x of (seqno, uuid, first, list) \<Rightarrow>
     length uuid = 16 \<and> 40 \<le> len \<and> len < 2 ^ 64)"

lemma fields_inside_append: "fields_inside n (fs @ hs) \<longleftrightarrow> fields_inside n fs \<and> fields_inside n hs"
  by (simp add: fields_inside_def)

lemma fields_inside_mono: "fields_inside m fs \<Longrightarrow> m \<le> n \<Longrightarrow> fields_inside n fs"
  by (auto simp: fields_inside_def list_all_iff)

lemma holds_append: "holds (fs @ hs) b \<longleftrightarrow> holds fs b \<and> holds hs b"
  by (simp add: holds_def)

lemma covers_append: "covers (fs @ hs) i \<longleftrightarrow> covers fs i \<or> covers hs i"
  by (simp add: covers_def)

lemma covers_slot_table: "covers (slot_table off n h) i \<longleftrightarrow> off \<le> i \<and> i < off + 4 * n"
proof
  assume "off \<le> i \<and> i < off + 4 * n"
  then have "(i - off) div 4 < n" "off + 4 * ((i - off) div 4) \<le> i" "i < off + 4 * ((i - off) div 4) + 4"
    by linarith+
  then show "covers (slot_table off n h) i"
    by (auto simp: covers_def slot_table_def list_ex_iff intro!: bexI [of _ "(i - off) div 4"])
qed (auto simp: covers_def slot_table_def list_ex_iff)

lemma slot_table_inside: "off + 4 * n \<le> len \<Longrightarrow> fields_inside len (slot_table off n h)"
  by (auto simp: slot_table_def fields_inside_def list_all_iff)

lemma holds_slot_table_update:
  assumes "holds (slot_table off n h) b" "j < n"
  shows "holds (slot_table off n (h(j := v))) (splice (off + 4 * j) (to_be 4 v) b)"
proof -
  have old: "off + 4 * i + 4 \<le> length b" "slice (off + 4 * i) 4 b = to_be 4 (h i)" if "i < n" for i
    using holds_member [OF assms(1), of "off + 4 * i" "to_be 4 (h i)"] that
    by (auto simp: slot_table_def)
  have j: "off + 4 * j + 4 \<le> length b" using old(1) [OF assms(2)] .
  have new: "slice (off + 4 * i) 4 (splice (off + 4 * j) (to_be 4 v) b) = to_be 4 ((h(j := v)) i)"
    if "i < n" for i
  proof (cases "i = j")
    case True
    then show ?thesis using j by (simp add: slice_simps)
  next
    case False
    then have "4 * i + 4 \<le> 4 * j \<or> 4 * j + 4 \<le> 4 * i" by linarith
    then show ?thesis using False old [OF that] j by (auto simp: slice_simps)
  qed
  show ?thesis
    unfolding holds_def list_all_iff slot_table_def using old(1) new j by (auto simp: slice_simps)
qed

lemma holds_header_update:
  assumes "holds fs b" "fields_inside off fs" "off \<le> at" "at + length src \<le> length b"
  shows "holds fs (splice at src b)"
proof -
  have "o' + length s' \<le> length (splice at src b) \<and> slice o' (length s') (splice at src b) = s'"
    if "(o', s') \<in> set fs" for o' s'
  proof -
    have "o' + length s' \<le> at" using that assms(2,3) by (auto simp: fields_inside_def list_all_iff)
    then show ?thesis using holds_member [OF assms(1) that] assms(4) by (simp add: slice_simps)
  qed
  then show ?thesis by (auto simp: holds_def list_all_iff)
qed

lemma agfl_put_loop:
  assumes "holds (slot_table agfl_BNO n h) b" "holds fs b" "fields_inside agfl_BNO fs" "0 < n"
    and "agfl_BNO + 4 * n \<le> length b"
  shows "\<exists>c. run_edits (map (agfl_put n first) es) b = Inr c \<and> length c = length b \<and> holds fs c \<and>
    holds (slot_table agfl_BNO n (fold (slot_update n (unat first)) es h)) c \<and>
    (\<forall>i<length b. i < agfl_BNO \<or> agfl_BNO + 4 * n \<le> i \<longrightarrow> c ! i = b ! i)"
  using assms
proof (induction es arbitrary: h b)
  case (Cons e es)
  obtain k v where e: "e = (k, v)" by force
  define j where "j = (unat first + k) mod n"
  have j: "j < n" using Cons.prems(4) by (simp add: j_def)
  then have in': "agfl_BNO + 4 * j + 4 \<le> length b" using Cons.prems(5) by simp
  define b1 where "b1 = splice (agfl_BNO + 4 * j) (to_be 4 v) b"
  have len: "length b1 = length b" using in' by (simp add: b1_def slice_simps)
  have "agfl_put n first e b = Inr b1"
    using in' Cons.prems(4) by (simp add: agfl_put_def e j_def [symmetric] b1_def slice_simps)
  moreover have "holds (slot_table agfl_BNO n (slot_update n (unat first) e h)) b1"
    unfolding b1_def slot_update_def e fst_conv snd_conv j_def [symmetric]
    using Cons.prems(1) j by (rule holds_slot_table_update)
  moreover have "holds fs b1"
    unfolding b1_def using Cons.prems(2,3) in' by (intro holds_header_update [of fs b agfl_BNO]) simp_all
  moreover have "b1 ! i = b ! i" if "i < length b" "i < agfl_BNO \<or> agfl_BNO + 4 * n \<le> i" for i
    using that in' j by (auto simp: b1_def nth_splice)
  moreover have "\<exists>c. run_edits (map (agfl_put n first) es) b1 = Inr c \<and> length c = length b1 \<and> holds fs c \<and>
    holds (slot_table agfl_BNO n (fold (slot_update n (unat first)) es (slot_update n (unat first) e h))) c \<and>
    (\<forall>i<length b1. i < agfl_BNO \<or> agfl_BNO + 4 * n \<le> i \<longrightarrow> c ! i = b1 ! i)"
    using Cons.prems(3-5) calculation(2,3) unfolding len [symmetric] by (intro Cons.IH)
  then obtain c where "run_edits (map (agfl_put n first) es) b1 = Inr c" "length c = length b1" "holds fs c"
    "holds (slot_table agfl_BNO n (fold (slot_update n (unat first)) es (slot_update n (unat first) e h))) c"
    "\<forall>i<length b1. i < agfl_BNO \<or> agfl_BNO + 4 * n \<le> i \<longrightarrow> c ! i = b1 ! i"
    by blast
  ultimately show ?case using len by (intro exI [of _ c]) simp
qed simp

interpretation agfl: stamped_encoder
  "\<lambda>(seqno, uuid, first, list). encode_agfl seqno uuid first list" agfl_ok agfl_fields agfl_CRC
proof
  fix x :: agfl_args and n
  assume "agfl_ok x n"
  then show "list_all (apart (agfl_CRC, replicate 4 0)) (agfl_fields x n)" "agfl_CRC + 4 \<le> n"
    by (auto simp: agfl_ok_def agfl_fields_def agfl_header_def slot_table_def apart_def list_all_iff
        split: prod.splits)
next
  fix x :: agfl_args and b :: bytes
  assume ok: "agfl_ok x (length b)"
  obtain seqno uuid first list where x: "x = (seqno, uuid, first, list)" by (cases x) auto
  define n where "n = (length b - 36) div 4"
  have n: "0 < n" "agfl_BNO + 4 * n \<le> length b" and len: "length b < 2 ^ 64" and u: "length uuid = 16"
    using ok by (auto simp: agfl_ok_def x n_def)
  define hd where "hd = agfl_header seqno uuid"
  have hd: "fields_apart hd" "fields_inside 32 hd"
    using u by (simp_all add: hd_def agfl_header_def fields_inside_def apart_def)
  define all where "all = hd @ slot_table agfl_BNO n (\<lambda>_. NULL32)"
  have ins: "fields_inside (length b) all"
    using n hd(2) slot_table_inside [of agfl_BNO n "length b"] fields_inside_mono [of 32 hd]
    by (simp add: all_def fields_inside_append)
  have ap: "fields_apart all"
    using hd fields_apart_array [of agfl_BNO "\<lambda>_. NULL32" n]
    by (auto simp: all_def fields_apart_append slot_table_def list_all_iff apart_def fields_inside_def)
  define b1 where "b1 = apply_fields all b"
  have b1: "length b1 = length b" "holds all b1" "\<forall>i<length b. \<not> covers all i \<longrightarrow> b1 ! i = b ! i"
    using ins ap by (simp_all add: b1_def length_apply_fields holds_apply_fields nth_apply_fields)
  show "\<exists>c. (case x of (seqno, uuid, first, list) \<Rightarrow> encode_agfl seqno uuid first list) b = stamp agfl_CRC c \<and>
      length c = length b \<and> holds (agfl_fields x (length b)) c \<and>
      (\<forall>i<length b. \<not> covers (agfl_fields x (length b)) i \<longrightarrow> c ! i = b ! i)"
  proof -
    define fin where "fin = agfl_slots n (unat first) list"
    have "holds (slot_table agfl_BNO n (\<lambda>_. NULL32)) b1" "holds hd b1"
      using b1(2) by (simp_all add: all_def holds_append)
    then obtain c where c: "run_edits (map (agfl_put n first) (enumerate 0 list)) b1 = Inr c"
      "length c = length b1" "holds hd c" "holds (slot_table agfl_BNO n fin) c"
      "\<forall>i<length b1. i < agfl_BNO \<or> agfl_BNO + 4 * n \<le> i \<longrightarrow> c ! i = b1 ! i"
      using agfl_put_loop [of n "\<lambda>_. NULL32" b1 hd first "enumerate 0 list"] n b1(1)
        fields_inside_mono [OF hd(2)] unfolding fin_def agfl_slots_def by auto
    have ff: "agfl_fields x (length b) = hd @ slot_table agfl_BNO n fin"
      by (simp add: agfl_fields_def x hd_def n_def fin_def)
    have cov: "covers (agfl_fields x (length b)) i \<longleftrightarrow> covers all i" for i
      by (simp add: ff all_def covers_append covers_slot_table)
    have c36: "i < agfl_BNO \<or> agfl_BNO + 4 * n \<le> i" if "\<not> covers all i" for i
      using that by (auto simp: all_def covers_append covers_slot_table)
    have e1: "run_edits (map field_write hd) b = Inr (apply_fields hd b)" "length (apply_fields hd b) = length b"
      using ins by (simp_all add: run_field_writes length_apply_fields all_def fields_inside_append)
    have e2: "run_edits (map field_write (slot_table agfl_BNO n (\<lambda>_. NULL32))) (apply_fields hd b) = Inr b1"
      using ins e1(2) by (simp add: run_field_writes all_def fields_inside_append b1_def apply_fields_def)
    have sl: "sub64 (length b) agfl_BNO div 4 = n" using len n by (simp add: nowrap n_def)
    have m: "map field_write hd = [put32 agfl_MAGICNUM AGFL_MAGIC, put32 agfl_SEQNO seqno,
        write_slice agfl_UUID uuid, put64 agfl_LSN 0]"
      "map field_write (slot_table agfl_BNO n (\<lambda>_. NULL32)) = map (\<lambda>i. put32 (agfl_BNO + 4 * i) NULL32) [0..<n]"
      by (simp_all only: hd_def agfl_header_def slot_table_def put_field_writes list.map map_map o_def)
    have "encode_agfl seqno uuid first list b = on_slice 0 (length c) (stamp agfl_CRC) c"
      by (simp only: encode_agfl_def m [symmetric] e1 e2 sl c(1) and_then_simps Let_def)
    also have "\<dots> = stamp agfl_CRC c" using c(2) b1(1) n by (intro on_slice_all) simp_all
    finally have "encode_agfl seqno uuid first list b = stamp agfl_CRC c" .
    moreover have "c ! i = b ! i" if "i < length b" "\<not> covers (agfl_fields x (length b)) i" for i
      using that c(5) b1(1,3) c36 unfolding cov by metis
    moreover have "holds (agfl_fields x (length b)) c" "length c = length b"
      using c(2-4) b1(1) by (simp_all add: ff holds_append)
    ultimately show ?thesis unfolding x prod.case by blast
  qed
qed

lemma offset_mod_inj:
  assumes "i < n" "m < n"
  shows "(first + i) mod n = (first + m) mod n \<longleftrightarrow> i = (m::nat)"
proof -
  have "a = b" if "(first + a) mod n = (first + b) mod n" "a \<le> b" "b < n" for a b
  proof -
    have "n dvd (first + b) - (first + a)"
      using that by (subst mod_eq_dvd_iff_nat [symmetric]) simp_all
    then have "n dvd b - a" by simp
    then show ?thesis using that nat_dvd_not_less [of "b - a" n] by (cases "a = b") auto
  qed
  then show ?thesis using assms by (metis nat_le_linear)
qed

lemma agfl_slots_at:
  assumes "length list \<le> n" "k < length list"
  shows "agfl_slots n first list ((first + k) mod n) = list ! k"
proof -
  have "fold (slot_update n first) (enumerate m xs) h ((first + i) mod n) =
      (if m \<le> i \<and> i < m + length xs then xs ! (i - m) else h ((first + i) mod n))"
    if "m + length xs \<le> n" "i < n" for m xs i h
    using that
  proof (induction xs arbitrary: m h)
    case (Cons y ys)
    have "(first + i) mod n = (first + m) mod n \<longleftrightarrow> i = m"
      using Cons.prems by (intro offset_mod_inj) simp_all
    moreover have "i - m = Suc (i - Suc m)" if "m < i" using that by simp
    ultimately show ?case using Cons.IH [of "Suc m"] Cons.prems
      by (cases "m < i") (auto simp: slot_update_def)
  qed auto
  from this [of 0 list k] assms show ?thesis by (simp add: agfl_slots_def)
qed

section \<open>Properties\<close>

text \<open>
  The free list sector is encoded without a panic, verifies, and block \<open>k\<close> of the
  list is read back in slot \<open>(first + k) mod slots\<close>, for every list that fits the array.
\<close>

theorem agfl_round_trip:
  assumes "length uuid = 16" "40 \<le> length sector" "length sector < 2 ^ 64"
    and "length list \<le> (length sector - 36) div 4" "k < length list"
  shows "\<exists>b. encode_agfl seqno uuid first list sector = Inr b \<and> length b = length sector \<and>
    verify b agfl_CRC = Inr True \<and> be32 b agfl_MAGICNUM = Inr AGFL_MAGIC \<and> be32 b agfl_SEQNO = Inr seqno \<and>
    slice agfl_UUID 16 b = uuid \<and>
    be32 b (agfl_BNO + 4 * ((unat first + k) mod ((length sector - 36) div 4))) = Inr (list ! k)"
proof -
  define n where "n = (length sector - 36) div 4"
  have n: "0 < n" using assms(2) by (simp add: n_def)
  have ok: "agfl_ok (seqno, uuid, first, list) (length sector)" using assms by (simp add: agfl_ok_def)
  obtain b where b: "encode_agfl seqno uuid first list sector = Inr b" "length b = length sector"
    "verify b agfl_CRC = Inr True" and h: "holds (agfl_fields (seqno, uuid, first, list) (length sector)) b"
    using agfl.encoded [OF ok] by (metis case_prod_conv)
  have h1: "holds (agfl_header seqno uuid) b" and
    h2: "holds (slot_table agfl_BNO n (agfl_slots n (unat first) list)) b"
    using h by (simp_all add: agfl_fields_def holds_append n_def)
  have "be32 b agfl_MAGICNUM = Inr AGFL_MAGIC" "be32 b agfl_SEQNO = Inr seqno"
    by (rule holds_be32 [OF h1]; simp add: agfl_header_def)+
  moreover have "slice agfl_UUID 16 b = uuid"
    using holds_member [OF h1, of agfl_UUID uuid] assms(1) by (simp add: agfl_header_def)
  moreover have "be32 b (agfl_BNO + 4 * ((unat first + k) mod n)) = Inr (list ! k)"
    by (rule holds_be32 [OF h2])
       (use n assms agfl_slots_at [of list n k "unat first"] in \<open>auto simp: slot_table_def n_def\<close>)
  ultimately show ?thesis using b unfolding n_def by blast
qed

theorem agfl_round_trip_witness:
  "\<exists>b. encode_agfl 0 (replicate 16 7) 1 [7, 8, 9, 10, 11, 12] (replicate 512 0) = Inr b \<and> length b = 512 \<and>
    verify b agfl_CRC = Inr True \<and> be32 b (agfl_BNO + 4 * 6) = Inr 12"
  using agfl_round_trip [of "replicate 16 7" "replicate 512 0" "[7, 8, 9, 10, 11, 12]" 5 0 1] by auto

end
