(* ===== verification/Btree_Blocks.thy ===== *)
theory Btree_Blocks
  imports Ag_Headers
begin

unbundle bit_operations_syntax

section \<open>Per-AG btree blocks (\<^verbatim>\<open>src/structs/btree.rs\<close>)\<close>

text \<open>
  Leaf roots of the short-form btrees and the encodings of their records. A block number or a
  length of a record is a natural below \<open>2 ^ 32\<close>; a cast \<^verbatim>\<open>as u32\<close> that makes one is \<open>as_u32\<close> in
  the code that builds records. Owners, masks and bitmaps are words.
\<close>

abbreviation (input) btree_magic_BNO :: u32 where "btree_magic_BNO \<equiv> 0x41423342"
abbreviation (input) btree_magic_CNT :: u32 where "btree_magic_CNT \<equiv> 0x41423343"
abbreviation (input) btree_magic_INO :: u32 where "btree_magic_INO \<equiv> 0x49414233"
abbreviation (input) btree_magic_FINO :: u32 where "btree_magic_FINO \<equiv> 0x46494233"
abbreviation (input) btree_magic_RMAP :: u32 where "btree_magic_RMAP \<equiv> 0x524d4233"
abbreviation (input) btree_magic_REFC :: u32 where "btree_magic_REFC \<equiv> 0x52334643"

abbreviation (input) btree_MAGIC :: nat where "btree_MAGIC \<equiv> 0"
abbreviation (input) btree_LEVEL :: nat where "btree_LEVEL \<equiv> 4"
abbreviation (input) btree_NUMRECS :: nat where "btree_NUMRECS \<equiv> 6"
abbreviation (input) btree_LEFTSIB :: nat where "btree_LEFTSIB \<equiv> 8"
abbreviation (input) btree_RIGHTSIB :: nat where "btree_RIGHTSIB \<equiv> 12"
abbreviation (input) btree_BLKNO :: nat where "btree_BLKNO \<equiv> 16"
abbreviation (input) btree_LSN :: nat where "btree_LSN \<equiv> 24"
abbreviation (input) btree_UUID :: nat where "btree_UUID \<equiv> 32"
abbreviation (input) btree_OWNER :: nat where "btree_OWNER \<equiv> 48"
abbreviation (input) btree_CRC :: nat where "btree_CRC \<equiv> 52"
abbreviation (input) btree_RECS :: nat where "btree_RECS \<equiv> 56"

definition ALLOC_REC :: nat where "ALLOC_REC = 8"
definition INOBT_REC :: nat where "INOBT_REC = 16"
definition RMAP_REC :: nat where "RMAP_REC = 24"
definition REFC_REC :: nat where "REFC_REC = 12"

definition OWN_FS :: u64 where "OWN_FS = - 3"
definition OWN_LOG :: u64 where "OWN_LOG = - 4"
definition OWN_AG :: u64 where "OWN_AG = - 5"
definition OWN_INOBT :: u64 where "OWN_INOBT = - 6"
definition OWN_INODES :: u64 where "OWN_INODES = - 7"
definition OWN_REFC :: u64 where "OWN_REFC = - 8"

datatype alloc_rec = AllocRec (ar_start: nat) (ar_count: nat)

datatype inobt_rec =
  InobtRec (ir_startino: u32) (ir_holemask: u16) (ir_count: u8) (ir_freecount: u8) (ir_free: u64)

datatype rmap_rec = RmapRec (rr_start: nat) (rr_count: nat) (rr_owner: u64)

text \<open>The derived order of \<^verbatim>\<open>AllocRec\<close>: by start, then by count.\<close>

instantiation alloc_rec :: linorder
begin

definition less_eq_alloc_rec :: "alloc_rec \<Rightarrow> alloc_rec \<Rightarrow> bool" where
  "less_eq_alloc_rec a b \<longleftrightarrow> ar_start a < ar_start b \<or> ar_start a = ar_start b \<and> ar_count a \<le> ar_count b"

definition less_alloc_rec :: "alloc_rec \<Rightarrow> alloc_rec \<Rightarrow> bool" where
  "less_alloc_rec a b \<longleftrightarrow> ar_start a < ar_start b \<or> ar_start a = ar_start b \<and> ar_count a < ar_count b"

instance
  by standard (auto simp: less_eq_alloc_rec_def less_alloc_rec_def alloc_rec.expand)

end

subsection \<open>Leaf blocks\<close>

definition leaf_edits :: "u32 \<Rightarrow> u64 \<Rightarrow> u32 \<Rightarrow> bytes \<Rightarrow> bytes \<Rightarrow> u16 \<Rightarrow> (bytes \<Rightarrow> error + bytes) list" where
  "leaf_edits magic daddr agno uuid recs numrecs =
     [put32 btree_MAGIC magic,
      put16 btree_LEVEL 0,
      put16 btree_NUMRECS numrecs,
      put32 btree_LEFTSIB NULL32,
      put32 btree_RIGHTSIB NULL32,
      put64 btree_BLKNO daddr,
      put64 btree_LSN 0,
      write_slice btree_UUID uuid,
      put32 btree_OWNER agno,
      write_slice btree_RECS recs]"

definition leaf_block :: "u32 \<Rightarrow> u64 \<Rightarrow> u32 \<Rightarrow> bytes \<Rightarrow> bytes \<Rightarrow> u16 \<Rightarrow> nat \<Rightarrow> error + bytes" where
  "leaf_block magic daddr agno uuid recs numrecs bsize =
     and_then (run_edits (leaf_edits magic daddr agno uuid recs numrecs) (replicate bsize 0))
       (stamp btree_CRC)"

subsection \<open>Records\<close>

text \<open>\<open>encode_recs sz edits recs\<close> is the loop the three encoders share: a zeroed buffer and
  the edits of record \<open>i\<close> at \<open>i * sz\<close>.\<close>

definition encode_recs :: "nat \<Rightarrow> (nat \<Rightarrow> 'r \<Rightarrow> (bytes \<Rightarrow> error + bytes) list) \<Rightarrow> 'r list \<Rightarrow> error + bytes" where
  "encode_recs sz edits recs =
     run_edits (concat (map (\<lambda>(i, r). edits (i * sz) r) (enumerate 0 recs))) (replicate (length recs * sz) 0)"

definition alloc_edits :: "nat \<Rightarrow> alloc_rec \<Rightarrow> (bytes \<Rightarrow> error + bytes) list" where
  "alloc_edits off r = [put32 off (of_nat (ar_start r)), put32 (off + 4) (of_nat (ar_count r))]"

definition alloc_recs :: "alloc_rec list \<Rightarrow> error + bytes" where
  "alloc_recs recs = encode_recs ALLOC_REC alloc_edits recs"

definition inobt_edits :: "bool \<Rightarrow> nat \<Rightarrow> inobt_rec \<Rightarrow> (bytes \<Rightarrow> error + bytes) list" where
  "inobt_edits sp off r =
     put32 off (ir_startino r) #
     (if sp then [put16 (off + 4) (ir_holemask r), set_byte (off + 6) (ir_count r), set_byte (off + 7) (ir_freecount r)]
      else [put32 (off + 4) (ucast (ir_freecount r))]) @
     [put64 (off + 8) (ir_free r)]"

definition inobt_recs :: "inobt_rec list \<Rightarrow> bool \<Rightarrow> error + bytes" where
  "inobt_recs recs sp = encode_recs INOBT_REC (inobt_edits sp) recs"

definition rmap_edits :: "nat \<Rightarrow> rmap_rec \<Rightarrow> (bytes \<Rightarrow> error + bytes) list" where
  "rmap_edits off r =
     [put32 off (of_nat (rr_start r)), put32 (off + 4) (of_nat (rr_count r)),
      put64 (off + 8) (rr_owner r), put64 (off + 16) 0]"

definition rmap_recs :: "rmap_rec list \<Rightarrow> error + bytes" where
  "rmap_recs recs = encode_recs RMAP_REC rmap_edits recs"

section \<open>Contracts\<close>

type_synonym leaf_args = "u32 \<times> u64 \<times> u32 \<times> bytes \<times> bytes \<times> u16"

definition leaf_encode :: "leaf_args \<Rightarrow> bytes \<Rightarrow> error + bytes" where
  "leaf_encode x b = (case x of (magic, daddr, agno, uuid, recs, numrecs) \<Rightarrow>
     and_then (run_edits (leaf_edits magic daddr agno uuid recs numrecs) b) (stamp btree_CRC))"

definition leaf_fields :: "leaf_args \<Rightarrow> nat \<Rightarrow> field list" where
  "leaf_fields x n = (case x of (magic, daddr, agno, uuid, recs, numrecs) \<Rightarrow>
     [fld32 btree_MAGIC magic, fld16 btree_LEVEL 0, fld16 btree_NUMRECS numrecs,
      fld32 btree_LEFTSIB NULL32, fld32 btree_RIGHTSIB NULL32, fld64 btree_BLKNO daddr,
      fld64 btree_LSN 0, (btree_UUID, uuid), fld32 btree_OWNER agno, (btree_RECS, recs)])"

definition leaf_ok :: "leaf_args \<Rightarrow> nat \<Rightarrow> bool" where
  "leaf_ok x n \<longleftrightarrow> (case x of (magic, daddr, agno, uuid, recs, numrecs) \<Rightarrow>
     length uuid = 16 \<and> btree_RECS + length recs \<le> n)"

lemma and_then_stamp:
  assumes "fields_inside (length b) fs" "off + 4 \<le> length b"
  shows "and_then (run_edits (map field_write fs) b) (stamp off) =
    and_then (run_edits (map field_write fs) b) (on_slice 0 (length b) (stamp off))"
  using assms by (simp add: run_field_writes on_slice_all length_apply_fields)

lemma leaf_fields_inside: "leaf_ok x n \<Longrightarrow> fields_inside n (leaf_fields x m)"
  by (auto simp: leaf_ok_def leaf_fields_def fields_inside_def split: prod.splits)

interpretation leaf: stamped_encoder leaf_encode leaf_ok leaf_fields btree_CRC
proof (rule plain_encoder)
  fix x :: leaf_args and b :: bytes
  assume ok: "leaf_ok x (length b)"
  have "leaf_encode x b = and_then (run_edits (map field_write (leaf_fields x (length b))) b) (stamp btree_CRC)"
    by (cases x) (simp only: leaf_encode_def leaf_edits_def leaf_fields_def put_field_writes prod.case list.map)
  then show "leaf_encode x b = and_then (run_edits (map field_write (leaf_fields x (length b))) b)
      (on_slice 0 (length b) (stamp btree_CRC))"
    using ok by (subst and_then_stamp [symmetric]) (auto simp: leaf_fields_inside leaf_ok_def split: prod.splits)
qed (auto simp: leaf_ok_def leaf_fields_def fields_inside_def apart_def split: prod.splits)

lemma leaf_block_encode:
  "leaf_block magic daddr agno uuid recs numrecs n = leaf_encode (magic, daddr, agno, uuid, recs, numrecs) (replicate n 0)"
  by (simp add: leaf_block_def leaf_encode_def)

subsection \<open>Records in a row\<close>

lemma splice_append_zeros:
  assumes "length xs = off" "length src = sz" "sz \<le> m"
  shows "splice off src (xs @ replicate m 0) = (xs @ src) @ replicate (m - sz) 0"
  using assms by (simp add: splice_def)

text \<open>
  When the edits of one record turn a run of zeros into the bytes \<open>enc r\<close>, the loop
  writes the encodings of the records one after the other.
\<close>

lemma encode_recs_concat:
  assumes len: "\<And>r. length (enc r) = sz"
    and step: "\<And>r off b. off + sz \<le> length b \<Longrightarrow> slice off sz b = replicate sz 0 \<Longrightarrow>
      run_edits (edits off r) b = Inr (splice off (enc r) b)"
  shows "encode_recs sz edits recs = Inr (concat (map enc recs))"
proof -
  have "run_edits (concat (map (\<lambda>(i, r). edits (i * sz) r) (enumerate k rs)))
      (xs @ replicate (length rs * sz) 0) = Inr (xs @ concat (map enc rs))"
    if "length xs = k * sz" for k xs rs
    using that
  proof (induction rs arbitrary: k xs)
    case (Cons r rs)
    define b where "b = xs @ replicate (sz + length rs * sz) (0 :: u8)"
    have "slice (k * sz) sz b = replicate sz 0" using Cons.prems by (simp add: b_def slice_def)
    then have "run_edits (edits (k * sz) r) b = Inr (splice (k * sz) (enc r) b)"
      using Cons.prems by (intro step) (simp_all add: b_def)
    also have "splice (k * sz) (enc r) b = (xs @ enc r) @ replicate (length rs * sz) 0"
      using splice_append_zeros [of xs "k * sz" "enc r" sz "sz + length rs * sz"] Cons.prems len
      by (simp add: b_def)
    finally show ?case
      using Cons.IH [of "xs @ enc r" "Suc k"] Cons.prems len by (simp add: run_edits_append b_def)
  qed simp
  from this [of "[]" 0 recs] show ?thesis by (simp add: encode_recs_def)
qed

lemma splice_adjacent:
  assumes "length a = k" "off + k + length c \<le> length b"
  shows "splice (off + k) c (splice off a b) = splice off (a @ c) b"
  using assms by (intro nth_equalityI) (auto simp: nth_splice nth_append slice_simps)

definition alloc_bytes :: "alloc_rec \<Rightarrow> bytes" where
  "alloc_bytes r = to_be 4 (of_nat (ar_start r) :: u32) @ to_be 4 (of_nat (ar_count r) :: u32)"

definition inobt_bytes :: "bool \<Rightarrow> inobt_rec \<Rightarrow> bytes" where
  "inobt_bytes sp r =
     to_be 4 (ir_startino r) @
     (if sp then to_be 2 (ir_holemask r) @ [ir_count r, ir_freecount r] else to_be 4 (ucast (ir_freecount r) :: u32)) @
     to_be 8 (ir_free r)"

definition rmap_bytes :: "rmap_rec \<Rightarrow> bytes" where
  "rmap_bytes r =
     to_be 4 (of_nat (rr_start r) :: u32) @ to_be 4 (of_nat (rr_count r) :: u32) @
     to_be 8 (rr_owner r) @ to_be 8 (0 :: u64)"

lemma length_rec_bytes [simp]:
  "length (alloc_bytes r) = 8" "length (inobt_bytes sp i) = 16" "length (rmap_bytes m) = 24"
  by (simp_all add: alloc_bytes_def inobt_bytes_def rmap_bytes_def)

lemma alloc_recs_eq: "alloc_recs recs = Inr (concat (map alloc_bytes recs))"
  unfolding alloc_recs_def
  by (rule encode_recs_concat)
     (simp_all add: alloc_edits_def alloc_bytes_def ALLOC_REC_def slice_simps splice_adjacent)

lemma inobt_recs_eq: "inobt_recs recs sp = Inr (concat (map (inobt_bytes sp) recs))"
  unfolding inobt_recs_def
  by (rule encode_recs_concat; cases sp)
     (simp_all add: inobt_edits_def inobt_bytes_def INOBT_REC_def slice_simps splice_adjacent)

lemma rmap_recs_eq: "rmap_recs recs = Inr (concat (map rmap_bytes recs))"
  unfolding rmap_recs_def
  by (rule encode_recs_concat)
     (simp_all add: rmap_edits_def rmap_bytes_def RMAP_REC_def slice_simps splice_adjacent)

text \<open>Record \<open>i\<close> of a run of equal-sized encodings.\<close>

lemma slice_concat:
  assumes "\<And>r. length (enc r) = sz" "i < length recs"
  shows "slice (i * sz) sz (concat (map enc recs)) = enc (recs ! i)"
  using assms(2)
proof (induction recs arbitrary: i)
  case (Cons r recs)
  show ?case
  proof (cases i)
    case (Suc k)
    then have "slice (i * sz) sz (enc r @ concat (map enc recs)) = slice (k * sz) sz (concat (map enc recs))"
      using assms(1) by (simp add: slice_def)
    then show ?thesis using Cons Suc by simp
  qed (simp add: slice_def assms(1))
qed simp

lemma length_concat_enc: "(\<And>r. length (enc r) = sz) \<Longrightarrow> length (concat (map enc recs)) = length recs * sz"
  by (induction recs) simp_all

lemma alloc_bytes_parts:
  "slice 0 4 (alloc_bytes r) = to_be 4 (of_nat (ar_start r) :: u32)"
  "slice 4 4 (alloc_bytes r) = to_be 4 (of_nat (ar_count r) :: u32)"
  by (simp_all add: alloc_bytes_def slice_def)

section \<open>Properties\<close>

text \<open>
  A leaf block of free space records is built without a panic, its checksum verifies,
  and record \<open>i\<close> is read back at its place: the start and the count as two 32-bit fields
  after the header.
\<close>

theorem alloc_leaf_round_trip:
  assumes "length uuid = 16" "btree_RECS + 8 * length recs \<le> bsize" "i < length recs"
    and "ar_start (recs ! i) < 2 ^ 32" "ar_count (recs ! i) < 2 ^ 32"
  shows "\<exists>rs b. alloc_recs recs = Inr rs \<and> leaf_block magic daddr agno uuid rs numrecs bsize = Inr b \<and>
    length b = bsize \<and> verify b btree_CRC = Inr True \<and> be32 b btree_MAGIC = Inr magic \<and>
    be16 b btree_NUMRECS = Inr numrecs \<and> be64 b btree_BLKNO = Inr daddr \<and> be32 b btree_OWNER = Inr agno \<and>
    reads (be32 b (btree_RECS + 8 * i)) (ar_start (recs ! i)) \<and>
    reads (be32 b (btree_RECS + 8 * i + 4)) (ar_count (recs ! i))"
proof -
  define rs where "rs = concat (map alloc_bytes recs)"
  have rs: "alloc_recs recs = Inr rs" "length rs = 8 * length recs"
    by (simp_all add: rs_def alloc_recs_eq length_concat_enc [of alloc_bytes 8] del: length_concat)
  define x where "x = (magic, daddr, agno, uuid, rs, numrecs)"
  have ok: "leaf_ok x (length (replicate bsize (0 :: u8)))" using assms rs by (simp add: leaf_ok_def x_def)
  obtain b where b: "leaf_encode x (replicate bsize 0) = Inr b" "length b = bsize" "verify b btree_CRC = Inr True"
    and h: "holds (leaf_fields x bsize) b"
    using leaf.encoded [OF ok] by (metis length_replicate)
  have f: "be32 b btree_MAGIC = Inr magic" "be32 b btree_OWNER = Inr agno"
    "be16 b btree_NUMRECS = Inr numrecs" "be64 b btree_BLKNO = Inr daddr"
    by (rule holds_be32 [OF h] holds_be16 [OF h] holds_be64 [OF h]; simp add: leaf_fields_def x_def)+
  have "slice btree_RECS (length rs) b = rs" "btree_RECS + length rs \<le> length b"
    using holds_member [OF h, of btree_RECS rs] by (simp_all add: leaf_fields_def x_def)
  moreover have "slice (i * 8) 8 rs = alloc_bytes (recs ! i)"
    unfolding rs_def using assms(3) by (intro slice_concat) simp_all
  moreover have i8: "i * 8 + 8 \<le> length rs" using assms(3) rs by simp
  ultimately have r: "slice (btree_RECS + 8 * i) 8 b = alloc_bytes (recs ! i)" "btree_RECS + 8 * i + 8 \<le> length b"
    using slice_slice [of "i * 8" 8 "length rs" btree_RECS b] by (simp_all add: mult.commute)
  have "slice (btree_RECS + 8 * i) 4 b = to_be 4 (of_nat (ar_start (recs ! i)) :: u32)"
    "slice (btree_RECS + 8 * i + 4) 4 b = to_be 4 (of_nat (ar_count (recs ! i)) :: u32)"
    using slice_slice [of 0 4 8 "btree_RECS + 8 * i" b] slice_slice [of 4 4 8 "btree_RECS + 8 * i" b] r
      alloc_bytes_parts [of "recs ! i"] by simp_all
  then have "be32 b (btree_RECS + 8 * i) = Inr (of_nat (ar_start (recs ! i)))"
    "be32 b (btree_RECS + 8 * i + 4) = Inr (of_nat (ar_count (recs ! i)))"
    using r(2) by (simp_all add: slice_simps)
  then show ?thesis
    using rs b f assms(4,5) by (intro exI [of _ rs] exI [of _ b]) (simp add: leaf_block_encode x_def)
qed

theorem alloc_leaf_round_trip_witness:
  "\<exists>rs b. alloc_recs [AllocRec 13 3, AllocRec 24 32744] = Inr rs \<and>
    leaf_block btree_magic_BNO 8 0 (replicate 16 7) rs 2 4096 = Inr b \<and> verify b btree_CRC = Inr True \<and>
    reads (be32 b (btree_RECS + 8 * 1)) 24"
  using alloc_leaf_round_trip [of "replicate 16 7" "[AllocRec 13 3, AllocRec 24 32744]" 4096 1 btree_magic_BNO 8 0 2]
  by auto

end
