(* ===== verification/Inodes.thy ===== *)
theory Inodes
  imports Btree_Blocks
begin

unbundle bit_operations_syntax

section \<open>On-disk inodes (\<^verbatim>\<open>src/structs/inode.rs\<close>)\<close>

text \<open>
  The v3 inode core: timestamps in both formats, an allocated inode with its data fork, a
  never-allocated inode, and the empty short-form directory. Seconds are an \<^verbatim>\<open>i64\<close>, here the
  64-bit word of the same bits, so that the arithmetic wraps as the machine does.
\<close>

definition di_magic :: u16 where "di_magic = 0x494e"
definition CORE_SIZE :: nat where "CORE_SIZE = 176"

abbreviation (input) di_MAGIC :: nat where "di_MAGIC \<equiv> 0"
abbreviation (input) di_MODE :: nat where "di_MODE \<equiv> 2"
abbreviation (input) di_VERSION :: nat where "di_VERSION \<equiv> 4"
abbreviation (input) di_FORMAT :: nat where "di_FORMAT \<equiv> 5"
abbreviation (input) di_METATYPE :: nat where "di_METATYPE \<equiv> 6"
abbreviation (input) di_UID :: nat where "di_UID \<equiv> 8"
abbreviation (input) di_GID :: nat where "di_GID \<equiv> 12"
abbreviation (input) di_NLINK :: nat where "di_NLINK \<equiv> 16"
abbreviation (input) di_PROJID_LO :: nat where "di_PROJID_LO \<equiv> 20"
abbreviation (input) di_PROJID_HI :: nat where "di_PROJID_HI \<equiv> 22"
abbreviation (input) di_BIG_NEXTENTS :: nat where "di_BIG_NEXTENTS \<equiv> 24"
abbreviation (input) di_ATIME :: nat where "di_ATIME \<equiv> 32"
abbreviation (input) di_MTIME :: nat where "di_MTIME \<equiv> 40"
abbreviation (input) di_CTIME :: nat where "di_CTIME \<equiv> 48"
abbreviation (input) di_SIZE :: nat where "di_SIZE \<equiv> 56"
abbreviation (input) di_NBLOCKS :: nat where "di_NBLOCKS \<equiv> 64"
abbreviation (input) di_EXTSIZE :: nat where "di_EXTSIZE \<equiv> 72"
abbreviation (input) di_NEXTENTS :: nat where "di_NEXTENTS \<equiv> 76"
abbreviation (input) di_ANEXTENTS :: nat where "di_ANEXTENTS \<equiv> 80"
abbreviation (input) di_FORKOFF :: nat where "di_FORKOFF \<equiv> 82"
abbreviation (input) di_AFORMAT :: nat where "di_AFORMAT \<equiv> 83"
abbreviation (input) di_DMEVMASK :: nat where "di_DMEVMASK \<equiv> 84"
abbreviation (input) di_DMSTATE :: nat where "di_DMSTATE \<equiv> 88"
abbreviation (input) di_FLAGS :: nat where "di_FLAGS \<equiv> 90"
abbreviation (input) di_GEN :: nat where "di_GEN \<equiv> 92"
abbreviation (input) di_NEXT_UNLINKED :: nat where "di_NEXT_UNLINKED \<equiv> 96"
abbreviation (input) di_CRC :: nat where "di_CRC \<equiv> 100"
abbreviation (input) di_CHANGECOUNT :: nat where "di_CHANGECOUNT \<equiv> 104"
abbreviation (input) di_LSN :: nat where "di_LSN \<equiv> 112"
abbreviation (input) di_FLAGS2 :: nat where "di_FLAGS2 \<equiv> 120"
abbreviation (input) di_COWEXTSIZE :: nat where "di_COWEXTSIZE \<equiv> 128"
abbreviation (input) di_CRTIME :: nat where "di_CRTIME \<equiv> 144"
abbreviation (input) di_INO :: nat where "di_INO \<equiv> 152"
abbreviation (input) di_UUID :: nat where "di_UUID \<equiv> 160"

abbreviation (input) FMT_DEV :: u8 where "FMT_DEV \<equiv> 0"
abbreviation (input) FMT_LOCAL :: u8 where "FMT_LOCAL \<equiv> 1"
abbreviation (input) FMT_EXTENTS :: u8 where "FMT_EXTENTS \<equiv> 2"
abbreviation (input) FMT_BTREE :: u8 where "FMT_BTREE \<equiv> 3"

definition DIFLAG_NEWRTBM :: u16 where "DIFLAG_NEWRTBM = 4"
definition DIFLAG2_BIGTIME :: u64 where "DIFLAG2_BIGTIME = 8"
definition DIFLAG2_NREXT64 :: u64 where "DIFLAG2_NREXT64 = 16"
definition BIGTIME_EPOCH_OFFSET :: u64 where "BIGTIME_EPOCH_OFFSET = 2 ^ 31"

subsection \<open>Timestamps\<close>

definition encode_time :: "timestamp \<Rightarrow> bool \<Rightarrow> u64" where
  "encode_time t big =
     (if big then (secs t + BIGTIME_EPOCH_OFFSET) * 1000000000 + ucast (nsecs t)
      else push_bit 32 (ucast (ucast (secs t) :: u32)) OR ucast (nsecs t))"

definition decode_time :: "u64 \<Rightarrow> bool \<Rightarrow> timestamp" where
  "decode_time raw big =
     (if big then \<lparr>secs = raw div 1000000000 - BIGTIME_EPOCH_OFFSET, nsecs = ucast (raw mod 1000000000)\<rparr>
      else \<lparr>secs = scast (ucast (drop_bit 32 raw) :: u32), nsecs = ucast raw\<rparr>)"

subsection \<open>Inodes\<close>

record dinode =
  d_ino :: u64
  d_mode :: u16
  d_format :: u8
  d_nlink :: u32
  d_size :: u64
  d_flags :: u16
  d_flags2 :: u64
  d_gen :: u32
  d_changecount :: u64
  d_atime :: timestamp
  d_mtime :: timestamp
  d_ctime :: timestamp
  d_crtime :: timestamp
  d_data :: bytes

definition dinode_encode :: "dinode \<Rightarrow> bytes \<Rightarrow> bytes \<Rightarrow> error + bytes" where
  "dinode_encode d uuid slot =
     (let big = d_flags2 d AND DIFLAG2_BIGTIME \<noteq> 0 in
      and_then (run_edits
       [put16 di_MAGIC di_magic,
        put16 di_MODE (d_mode d),
        set_byte di_VERSION 3,
        set_byte di_FORMAT (d_format d),
        put32 di_NLINK (d_nlink d),
        put64 di_ATIME (encode_time (d_atime d) big),
        put64 di_MTIME (encode_time (d_mtime d) big),
        put64 di_CTIME (encode_time (d_ctime d) big),
        put64 di_SIZE (d_size d),
        set_byte di_FORKOFF 0,
        set_byte di_AFORMAT FMT_EXTENTS,
        put16 di_FLAGS (d_flags d),
        put32 di_GEN (d_gen d),
        put32 di_NEXT_UNLINKED NULL32,
        put64 di_CHANGECOUNT (d_changecount d),
        put64 di_FLAGS2 (d_flags2 d),
        put64 di_CRTIME (encode_time (d_crtime d) big),
        put64 di_INO (d_ino d),
        write_slice di_UUID uuid,
        write_slice CORE_SIZE (d_data d)] slot)
       (stamp di_CRC))"

definition encode_free :: "u64 \<Rightarrow> u32 \<Rightarrow> bytes \<Rightarrow> bytes \<Rightarrow> error + bytes" where
  "encode_free inum gen uuid slot =
     and_then (run_edits
      [put16 di_MAGIC di_magic,
       set_byte di_VERSION 3,
       put32 di_GEN gen,
       put32 di_NEXT_UNLINKED NULL32,
       put64 di_INO inum,
       write_slice di_UUID uuid] slot)
      (stamp di_CRC)"

definition empty_sf_dir :: "u64 \<Rightarrow> error + bytes" where
  "empty_sf_dir parent =
     (if parent > 0xffffffff
      then run_edits [set_byte 1 1, write_slice 2 (to_be 8 parent)] (replicate 10 0)
      else run_edits [write_slice 2 (to_be 4 (ucast parent :: u32))] (replicate 6 0))"

section \<open>Contracts\<close>

definition dinode_fields :: "dinode \<times> bytes \<Rightarrow> nat \<Rightarrow> field list" where
  "dinode_fields x n =
     (let d = fst x; big = d_flags2 d AND DIFLAG2_BIGTIME \<noteq> 0 in
      [fld16 di_MAGIC di_magic,
       fld16 di_MODE (d_mode d),
       fld8 di_VERSION 3,
       fld8 di_FORMAT (d_format d),
       fld32 di_NLINK (d_nlink d),
       fld64 di_ATIME (encode_time (d_atime d) big),
       fld64 di_MTIME (encode_time (d_mtime d) big),
       fld64 di_CTIME (encode_time (d_ctime d) big),
       fld64 di_SIZE (d_size d),
       fld8 di_FORKOFF 0,
       fld8 di_AFORMAT FMT_EXTENTS,
       fld16 di_FLAGS (d_flags d),
       fld32 di_GEN (d_gen d),
       fld32 di_NEXT_UNLINKED NULL32,
       fld64 di_CHANGECOUNT (d_changecount d),
       fld64 di_FLAGS2 (d_flags2 d),
       fld64 di_CRTIME (encode_time (d_crtime d) big),
       fld64 di_INO (d_ino d),
       (di_UUID, snd x),
       (CORE_SIZE, d_data d)])"

definition dinode_ok :: "dinode \<times> bytes \<Rightarrow> nat \<Rightarrow> bool" where
  "dinode_ok x n \<longleftrightarrow> length (snd x) = 16 \<and> 176 + length (d_data (fst x)) \<le> n"

definition free_fields :: "u64 \<times> u32 \<times> bytes \<Rightarrow> nat \<Rightarrow> field list" where
  "free_fields x n = (case x of (inum, gen, uuid) \<Rightarrow>
     [fld16 di_MAGIC di_magic, fld8 di_VERSION 3, fld32 di_GEN gen, fld32 di_NEXT_UNLINKED NULL32,
      fld64 di_INO inum, (di_UUID, uuid)])"

definition free_ok :: "u64 \<times> u32 \<times> bytes \<Rightarrow> nat \<Rightarrow> bool" where
  "free_ok x n \<longleftrightarrow> length (snd (snd x)) = 16 \<and> 176 \<le> n"

lemma dinode_fields_inside: "dinode_ok x n \<Longrightarrow> fields_inside n (dinode_fields x m)"
  by (simp add: dinode_ok_def dinode_fields_def fields_inside_def Let_def CORE_SIZE_def)

lemma free_fields_inside: "free_ok x n \<Longrightarrow> fields_inside n (free_fields x m)"
  by (auto simp: free_ok_def free_fields_def fields_inside_def split: prod.splits)

interpretation dinode: stamped_encoder "\<lambda>x. dinode_encode (fst x) (snd x)" dinode_ok dinode_fields di_CRC
proof (rule plain_encoder)
  fix x and b :: bytes
  assume ok: "dinode_ok x (length b)"
  have "dinode_encode (fst x) (snd x) b = and_then (run_edits (map field_write (dinode_fields x (length b))) b) (stamp di_CRC)"
    by (simp only: dinode_encode_def dinode_fields_def put_field_writes Let_def list.map)
  then show "dinode_encode (fst x) (snd x) b = and_then (run_edits (map field_write (dinode_fields x (length b))) b)
      (on_slice 0 (length b) (stamp di_CRC))"
    using ok by (subst and_then_stamp [symmetric]) (auto simp: dinode_fields_inside dinode_ok_def)
qed (simp_all add: dinode_ok_def dinode_fields_def fields_inside_def apart_def Let_def CORE_SIZE_def)

interpretation free_inode: stamped_encoder "\<lambda>(inum, gen, uuid). encode_free inum gen uuid" free_ok free_fields di_CRC
proof (rule plain_encoder)
  fix x :: "u64 \<times> u32 \<times> bytes" and b :: bytes
  assume ok: "free_ok x (length b)"
  have "(case x of (inum, gen, uuid) \<Rightarrow> encode_free inum gen uuid) b =
      and_then (run_edits (map field_write (free_fields x (length b))) b) (stamp di_CRC)"
    by (cases x) (simp only: encode_free_def free_fields_def put_field_writes prod.case list.map)
  then show "(case x of (inum, gen, uuid) \<Rightarrow> encode_free inum gen uuid) b =
      and_then (run_edits (map field_write (free_fields x (length b))) b) (on_slice 0 (length b) (stamp di_CRC))"
    using ok by (subst and_then_stamp [symmetric]) (auto simp: free_fields_inside free_ok_def)
qed (auto simp: free_ok_def free_fields_def fields_inside_def apart_def split: prod.splits)

subsection \<open>Timestamps\<close>

lemma uint_bigtime:
  assumes "- (2 ^ 31) \<le> sint (secs t)"
    and "(sint (secs t) + 2 ^ 31) * 1000000000 + uint (nsecs t) < 2 ^ 64"
  shows "uint (encode_time t True) = (sint (secs t) + 2 ^ 31) * 1000000000 + uint (nsecs t)"
proof -
  define s where "s = sint (secs t)"
  have "secs t = word_of_int s" by (simp add: s_def)
  moreover have "ucast (nsecs t) = (word_of_int (uint (nsecs t)) :: u64)"
    by (metis of_int_uint ucast_eq)
  ultimately have "encode_time t True = word_of_int ((s + 2 ^ 31) * 1000000000 + uint (nsecs t))"
    by (simp add: encode_time_def BIGTIME_EPOCH_OFFSET_def)
  moreover have "0 \<le> (s + 2 ^ 31) * 1000000000 + uint (nsecs t)" using assms(1) by (simp add: s_def)
  moreover have "uint (word_of_int k :: u64) = k" if "0 \<le> k" "k < 2 ^ 64" for k
    using that by (simp add: uint_word_of_int)
  ultimately show ?thesis using assms(2) unfolding s_def by metis
qed

lemma bigtime_round_trip:
  assumes "- (2 ^ 31) \<le> sint (secs t)" "uint (nsecs t) < 1000000000"
    and "(sint (secs t) + 2 ^ 31) * 1000000000 + uint (nsecs t) < 2 ^ 64"
  shows "decode_time (encode_time t True) True = t"
proof -
  define s n where "s = sint (secs t)" and "n = uint (nsecs t)"
  have n: "0 \<le> n" "n < 1000000000" using assms(2) by (simp_all add: n_def)
  define r where "r = encode_time t True"
  have r: "uint r = (s + 2 ^ 31) * 1000000000 + n"
    unfolding r_def s_def n_def by (rule uint_bigtime [OF assms(1,3)])
  have qr: "(k * m + n) div m = k" "(k * m + n) mod m = n" if "n < m" for k m :: int
    using that n by simp_all
  have "uint (r div 1000000000) = uint r div 1000000000" "uint (r mod 1000000000) = uint r mod 1000000000"
    by (simp_all add: uint_div uint_mod)
  then have "uint (r div 1000000000) = s + 2 ^ 31" "uint (r mod 1000000000) = n"
    unfolding r qr [OF n(2)] by simp_all
  then have "r div 1000000000 = word_of_int (s + 2 ^ 31)" "r mod 1000000000 = word_of_int n"
    by (metis word_of_int_uint)+
  moreover have "word_of_int (s + 2 ^ 31) - BIGTIME_EPOCH_OFFSET = secs t"
  proof -
    have "BIGTIME_EPOCH_OFFSET = word_of_int (2 ^ 31)" by (simp add: BIGTIME_EPOCH_OFFSET_def)
    then have "word_of_int (s + 2 ^ 31) - BIGTIME_EPOCH_OFFSET = word_of_int s"
      by (metis add_diff_cancel_right' of_int_diff)
    then show ?thesis by (simp add: s_def)
  qed
  moreover have "ucast (word_of_int n :: u64) = nsecs t"
    unfolding n_def by (rule bit_word_eqI) (auto simp: bit_simps bit_uint_iff)
  ultimately have "r div 1000000000 - BIGTIME_EPOCH_OFFSET = secs t" "ucast (r mod 1000000000) = nsecs t"
    by metis+
  then show ?thesis by (simp add: decode_time_def r_def [symmetric])
qed

lemma scast_ucast_small:
  assumes "- (2 ^ 31) \<le> sint w" "sint w < 2 ^ 31"
  shows "scast (ucast w :: u32) = (w :: u64)"
proof -
  define s where "s = sint w"
  have w: "w = word_of_int s" by (simp add: s_def)
  have "(ucast w :: u32) = word_of_int s" unfolding w by (rule bit_word_eqI) (auto simp: bit_simps)
  moreover have "sint (word_of_int s :: u32) = s"
    using assms unfolding s_def [symmetric] by (simp add: signed_of_int signed_take_bit_int_eq_self)
  ultimately show ?thesis by (metis w scast_eq)
qed

lemma smalltime_round_trip:
  assumes "- (2 ^ 31) \<le> sint (secs t)" "sint (secs t) < 2 ^ 31"
  shows "decode_time (encode_time t False) False = t"
proof -
  have 1: "ucast (drop_bit 32 (push_bit 32 (ucast (ucast (secs t) :: u32)) OR ucast (nsecs t) :: u64)) = (ucast (secs t) :: u32)"
    by (rule bit_word_eqI) (auto simp: bit_simps dest: bit_imp_le_length)
  have 2: "ucast (push_bit 32 (ucast (ucast (secs t) :: u32)) OR ucast (nsecs t) :: u64) = nsecs t"
    by (rule bit_word_eqI) (auto simp: bit_simps)
  show ?thesis
    by (simp only: decode_time_def encode_time_def 1 2 if_False) (simp add: scast_ucast_small [OF assms])
qed

section \<open>Properties\<close>

text \<open>
  A timestamp survives encoding and decoding: in the bigtime format from the minimum
  32-bit time as long as the nanosecond counter fits 64 bits, in the classic format for every
  time whose seconds fit 32 bits.
\<close>

theorem time_round_trip:
  assumes "if big then - (2 ^ 31) \<le> sint (secs t) \<and> uint (nsecs t) < 1000000000 \<and>
      (sint (secs t) + 2 ^ 31) * 1000000000 + uint (nsecs t) < 2 ^ 64
    else - (2 ^ 31) \<le> sint (secs t) \<and> sint (secs t) < 2 ^ 31"
  shows "decode_time (encode_time t big) big = t"
  using assms bigtime_round_trip [of t] smalltime_round_trip [of t] by (cases big) simp_all

theorem time_round_trip_witness:
  "decode_time (encode_time \<lparr>secs = 1700000000, nsecs = 999999999\<rparr> True) True = \<lparr>secs = 1700000000, nsecs = 999999999\<rparr> \<and>
   decode_time (encode_time \<lparr>secs = - 1, nsecs = 7\<rparr> False) False = \<lparr>secs = - 1, nsecs = 7\<rparr>"
  using time_round_trip [of True "\<lparr>secs = 1700000000, nsecs = 999999999\<rparr>"]
    time_round_trip [of False "\<lparr>secs = - 1, nsecs = 7\<rparr>"]
  by simp

text \<open>An encoded inode holds its table, and no byte outside the table and the checksum changes.\<close>

lemma dinode_encoded:
  assumes "length uuid = 16" "176 + length (d_data d) \<le> length slot"
  obtains b where "dinode_encode d uuid slot = Inr b" "length b = length slot" "verify b di_CRC = Inr True"
    "holds (dinode_fields (d, uuid) (length slot)) b"
    "\<And>i. i < length slot \<Longrightarrow> \<not> covers ((di_CRC, replicate 4 0) # dinode_fields (d, uuid) (length slot)) i \<Longrightarrow> b ! i = slot ! i"
proof -
  have "dinode_ok (d, uuid) (length slot)" using assms by (simp add: dinode_ok_def)
  from dinode.encoded [OF this] show thesis using that by (metis fst_conv snd_conv)
qed

lemma dinode_untouched:
  assumes "length uuid = 16"
    and "i \<in> {6..<16} \<or> i \<in> {20..<32} \<or> i \<in> {64..<82} \<or> i \<in> {84..<90} \<or> i \<in> {112..<120} \<or> i \<in> {128..<144} \<or>
      176 + length (d_data d) \<le> i"
  shows "\<not> covers ((di_CRC, replicate 4 0) # dinode_fields (d, uuid) n) i"
  using assms by (auto simp: covers_def dinode_fields_def Let_def CORE_SIZE_def)

text \<open>\<open>time_fits big t\<close>: the format can store the time without a loss.\<close>

definition time_fits :: "bool \<Rightarrow> timestamp \<Rightarrow> bool" where
  "time_fits big t \<longleftrightarrow>
     (if big then - (2 ^ 31) \<le> sint (secs t) \<and> uint (nsecs t) < 1000000000 \<and>
        (sint (secs t) + 2 ^ 31) * 1000000000 + uint (nsecs t) < 2 ^ 64
      else - (2 ^ 31) \<le> sint (secs t) \<and> sint (secs t) < 2 ^ 31)"

lemma decode_time_fits: "time_fits big t \<Longrightarrow> decode_time (encode_time t big) big = t"
  using bigtime_round_trip [of t] smalltime_round_trip [of t] by (cases big) (simp_all add: time_fits_def)

text \<open>
  \<^bold>\<open>C37\<close>. An allocated inode is encoded without a panic into any slot that holds its core and
  data fork and verifies. Every field reads back: number, mode, version, fork formats, links, size, both flag words,
  generation, change count, UUID, the end of the unlinked list and the data fork. Each of the four timestamps is
  stored in the format that the inode's own flags select, and is decoded to the time it was given whenever that
  format can store it. The bytes of the fields that are not written, and those after the data fork, are those the slot had.
\<close>

theorem dinode_round_trip:
  assumes "length uuid = 16" "176 + length (d_data d) \<le> length slot"
    and "big \<longleftrightarrow> d_flags2 d AND DIFLAG2_BIGTIME \<noteq> 0"
  shows "\<exists>b. dinode_encode d uuid slot = Inr b \<and> length b = length slot \<and> verify b di_CRC = Inr True \<and>
    be16 b di_MAGIC = Inr di_magic \<and> be16 b di_MODE = Inr (d_mode d) \<and> b ! di_VERSION = 3 \<and>
    b ! di_FORMAT = d_format d \<and> be32 b di_NLINK = Inr (d_nlink d) \<and>
    be64 b di_ATIME = Inr (encode_time (d_atime d) big) \<and>
    be64 b di_MTIME = Inr (encode_time (d_mtime d) big) \<and>
    be64 b di_CTIME = Inr (encode_time (d_ctime d) big) \<and>
    be64 b di_SIZE = Inr (d_size d) \<and> b ! di_FORKOFF = 0 \<and> b ! di_AFORMAT = FMT_EXTENTS \<and>
    be16 b di_FLAGS = Inr (d_flags d) \<and> be32 b di_GEN = Inr (d_gen d) \<and> be32 b di_NEXT_UNLINKED = Inr NULL32 \<and>
    be64 b di_CHANGECOUNT = Inr (d_changecount d) \<and> be64 b di_FLAGS2 = Inr (d_flags2 d) \<and>
    be64 b di_CRTIME = Inr (encode_time (d_crtime d) big) \<and>
    be64 b di_INO = Inr (d_ino d) \<and> slice di_UUID 16 b = uuid \<and>
    slice CORE_SIZE (length (d_data d)) b = d_data d \<and>
    (\<forall>t \<in> {d_atime d, d_mtime d, d_ctime d, d_crtime d}. time_fits big t \<longrightarrow> decode_time (encode_time t big) big = t) \<and>
    (\<forall>i<length slot. (i \<in> {6..<16} \<or> i \<in> {20..<32} \<or> i \<in> {64..<82} \<or> i \<in> {84..<90} \<or> i \<in> {112..<120} \<or>
       i \<in> {128..<144} \<or> 176 + length (d_data d) \<le> i) \<longrightarrow> b ! i = slot ! i)"
proof -
  obtain b where b: "dinode_encode d uuid slot = Inr b" "length b = length slot" "verify b di_CRC = Inr True"
    and h: "holds (dinode_fields (d, uuid) (length slot)) b"
    and u: "\<And>i. i < length slot \<Longrightarrow> \<not> covers ((di_CRC, replicate 4 0) # dinode_fields (d, uuid) (length slot)) i \<Longrightarrow> b ! i = slot ! i"
    using dinode_encoded [OF assms(1,2)] by metis
  note m = dinode_fields_def Let_def
  have slices: "slice di_UUID 16 b = uuid" "slice CORE_SIZE (length (d_data d)) b = d_data d"
    using holds_member [OF h, of di_UUID uuid] holds_member [OF h, of CORE_SIZE "d_data d"] assms(1)
    by (simp_all add: m)
  have bytes: "b ! di_VERSION = 3" "b ! di_FORMAT = d_format d" "b ! di_FORKOFF = 0" "b ! di_AFORMAT = FMT_EXTENTS"
    by (rule holds_byte(1) [OF h]; simp add: m)+
  have be16s: "be16 b di_MAGIC = Inr di_magic" "be16 b di_MODE = Inr (d_mode d)" "be16 b di_FLAGS = Inr (d_flags d)"
    by (rule holds_be16 [OF h]; simp add: m)+
  have be32s: "be32 b di_NLINK = Inr (d_nlink d)" "be32 b di_GEN = Inr (d_gen d)" "be32 b di_NEXT_UNLINKED = Inr NULL32"
    by (rule holds_be32 [OF h]; simp add: m)+
  have times: "be64 b di_ATIME = Inr (encode_time (d_atime d) big)" "be64 b di_MTIME = Inr (encode_time (d_mtime d) big)"
    "be64 b di_CTIME = Inr (encode_time (d_ctime d) big)" "be64 b di_CRTIME = Inr (encode_time (d_crtime d) big)"
    unfolding assms(3) by (rule holds_be64 [OF h]; simp add: m)+
  have be64s: "be64 b di_SIZE = Inr (d_size d)" "be64 b di_CHANGECOUNT = Inr (d_changecount d)"
    "be64 b di_FLAGS2 = Inr (d_flags2 d)" "be64 b di_INO = Inr (d_ino d)"
    by (rule holds_be64 [OF h]; simp add: m)+
  have kept: "\<forall>i<length slot. (i \<in> {6..<16} \<or> i \<in> {20..<32} \<or> i \<in> {64..<82} \<or> i \<in> {84..<90} \<or> i \<in> {112..<120} \<or>
       i \<in> {128..<144} \<or> 176 + length (d_data d) \<le> i) \<longrightarrow> b ! i = slot ! i"
    using u [OF _ dinode_untouched [OF assms(1), of _ d "length slot"]] by blast
  show ?thesis
    by (intro exI [of _ b] conjI b slices bytes be16s be32s be64s times kept ballI impI decode_time_fits)
qed

definition root_sample :: dinode where
  "root_sample = \<lparr>d_ino = 128, d_mode = 16877, d_format = 1, d_nlink = 2, d_size = 6, d_flags = 0, d_flags2 = 24,
     d_gen = 0, d_changecount = 2, d_atime = \<lparr>secs = 0, nsecs = 0\<rparr>, d_mtime = \<lparr>secs = 0, nsecs = 0\<rparr>,
     d_ctime = \<lparr>secs = 3, nsecs = 4\<rparr>, d_crtime = \<lparr>secs = 0, nsecs = 0\<rparr>, d_data = [0, 0, 0, 0, 0, 128]\<rparr>"

theorem dinode_round_trip_witness:
  "\<exists>b. dinode_encode root_sample (replicate 16 7) (replicate 512 0) = Inr b \<and> verify b di_CRC = Inr True \<and>
    slice CORE_SIZE 6 b = [0, 0, 0, 0, 0, 128] \<and> be64 b di_CHANGECOUNT = Inr 2 \<and> b ! 511 = 0 \<and>
    (\<exists>t. be64 b di_CTIME = Inr t \<and> decode_time t True = \<lparr>secs = 3, nsecs = 4\<rparr>)"
proof -
  have big: "True \<longleftrightarrow> d_flags2 root_sample AND DIFLAG2_BIGTIME \<noteq> 0" by (simp add: root_sample_def DIFLAG2_BIGTIME_def)
  have fits: "time_fits True (d_ctime root_sample)" by (simp add: root_sample_def time_fits_def)
  have d: "d_data root_sample = [0, 0, 0, 0, 0, 128]" "d_changecount root_sample = 2"
    "d_ctime root_sample = \<lparr>secs = 3, nsecs = 4\<rparr>"
    by (simp_all add: root_sample_def)
  have "length (replicate 16 (7 :: u8)) = 16" "176 + length (d_data root_sample) \<le> length (replicate 512 (0 :: u8))"
    by (simp_all add: d)
  from dinode_round_trip [OF this big] obtain b
    where b: "dinode_encode root_sample (replicate 16 7) (replicate 512 0) = Inr b" "verify b di_CRC = Inr True"
      "slice CORE_SIZE (length (d_data root_sample)) b = d_data root_sample"
      "be64 b di_CHANGECOUNT = Inr (d_changecount root_sample)"
      "be64 b di_CTIME = Inr (encode_time (d_ctime root_sample) True)"
      "decode_time (encode_time (d_ctime root_sample) True) True = d_ctime root_sample"
    and k: "\<forall>i<length (replicate 512 (0 :: u8)). (i \<in> {6..<16} \<or> i \<in> {20..<32} \<or> i \<in> {64..<82} \<or> i \<in> {84..<90} \<or>
       i \<in> {112..<120} \<or> i \<in> {128..<144} \<or> 176 + length (d_data root_sample) \<le> i) \<longrightarrow> b ! i = replicate 512 0 ! i"
    using fits by blast
  have "b ! 511 = replicate 512 0 ! 511" using k by (simp add: d)
  moreover have "slice CORE_SIZE 6 b = [0, 0, 0, 0, 0, 128]" using b(3) by (simp add: d eval_nat_numeral)
  ultimately show ?thesis using b(4-6) by (intro exI [of _ b] conjI exI [of _ "encode_time (d_ctime root_sample) True"] b(1,2)) (simp_all add: d)
qed

text \<open>
  The data fork of an empty directory names its parent in four bytes when the number
  fits 32 bits and in eight otherwise, and the 64-bit count says which.
\<close>

theorem empty_directory_parent:
  "\<exists>f. empty_sf_dir parent = Inr f \<and>
     (if f ! 1 = 1 then length f = 10 \<and> be64 f 2 = Inr parent
      else length f = 6 \<and> map_sum id ucast (be32 f 2) = (Inr parent :: error + u64))"
proof (cases "parent > 0xffffffff")
  case True
  define f where "f = splice 2 (to_be 8 parent) (splice 1 [1 :: u8] (replicate 10 0))"
  have "empty_sf_dir parent = Inr f" using True by (simp add: empty_sf_dir_def slice_simps f_def)
  moreover have "length f = 10" "f ! 1 = 1" "be64 f 2 = Inr parent"
    by (simp_all add: f_def slice_simps nth_splice)
  ultimately show ?thesis by simp
next
  case False
  define f where "f = splice 2 (to_be 4 (ucast parent :: u32)) (replicate 6 0)"
  have "empty_sf_dir parent = Inr f" using False by (simp add: empty_sf_dir_def slice_simps f_def)
  moreover have "length f = 6" "f ! 1 = 0" "be32 f 2 = Inr (ucast parent)"
    by (simp_all add: f_def slice_simps nth_splice)
  moreover have "ucast (ucast parent :: u32) = parent"
  proof -
    have "uint parent \<le> uint (0xffffffff :: u64)" using False by (simp only: word_le_def not_less)
    then have "uint parent < 2 ^ 32" by simp
    then have "take_bit 32 parent = parent" by (intro word_uint_eqI) (simp add: unsigned_take_bit_eq take_bit_int_eq_self)
    moreover have "ucast (ucast parent :: u32) = take_bit 32 parent"
      by (rule bit_word_eqI) (auto simp: bit_simps)
    ultimately show ?thesis by simp
  qed
  ultimately show ?thesis by simp
qed

end
