(* ===== verification/Log_Record.thy ===== *)
theory Log_Record
  imports Inodes
begin

unbundle bit_operations_syntax

section \<open>Log records (\<^verbatim>\<open>src/structs/log.rs\<close>)\<close>

text \<open>
  The one record a formatted log holds: the header, extended headers when the stripe unit is
  over 32 KiB, the unmount record, and the cycle number at the start of every basic block,
  with the word the cycle number displaced kept in the header. \<^verbatim>\<open>record\<close> and \<^verbatim>\<open>lsn\<close> are
  \<open>log_record\<close> and \<open>log_lsn\<close> here; the stripe unit is a natural below \<open>2 ^ 32\<close>.
\<close>

definition HEADER_MAGIC :: u32 where "HEADER_MAGIC = 0xfeedbabe"
definition BIG_RECORD_BSIZE :: nat where "BIG_RECORD_BSIZE = 32 * 1024"
definition HEADER_CYCLE_SIZE :: nat where "HEADER_CYCLE_SIZE = 32 * 1024"
definition FMT_LINUX_LE :: u32 where "FMT_LINUX_LE = 1"
definition UNMOUNT_TYPE :: u16 where "UNMOUNT_TYPE = 0x556e"
definition UNMOUNT_TID :: u32 where "UNMOUNT_TID = 0xb0c0d0d0"
definition CLIENT_LOG :: u8 where "CLIENT_LOG = 0xaa"
definition UNMOUNT_TRANS :: u8 where "UNMOUNT_TRANS = 0x20"
definition BBSIZE :: nat where "BBSIZE = 512"

lemmas log_consts = BIG_RECORD_BSIZE_def HEADER_CYCLE_SIZE_def BBSIZE_def

abbreviation (input) lr_MAGICNO :: nat where "lr_MAGICNO \<equiv> 0"
abbreviation (input) lr_CYCLE :: nat where "lr_CYCLE \<equiv> 4"
abbreviation (input) lr_VERSION :: nat where "lr_VERSION \<equiv> 8"
abbreviation (input) lr_LEN :: nat where "lr_LEN \<equiv> 12"
abbreviation (input) lr_LSN :: nat where "lr_LSN \<equiv> 16"
abbreviation (input) lr_TAIL_LSN :: nat where "lr_TAIL_LSN \<equiv> 24"
abbreviation (input) lr_CRC :: nat where "lr_CRC \<equiv> 32"
abbreviation (input) lr_PREV_BLOCK :: nat where "lr_PREV_BLOCK \<equiv> 36"
abbreviation (input) lr_NUM_LOGOPS :: nat where "lr_NUM_LOGOPS \<equiv> 40"
abbreviation (input) lr_CYCLE_DATA :: nat where "lr_CYCLE_DATA \<equiv> 44"
abbreviation (input) lr_FMT :: nat where "lr_FMT \<equiv> 300"
abbreviation (input) lr_FS_UUID :: nat where "lr_FS_UUID \<equiv> 304"
abbreviation (input) lr_SIZE :: nat where "lr_SIZE \<equiv> 320"

definition clear_sunit :: "nat \<Rightarrow> nat \<Rightarrow> nat" where
  "clear_sunit unit logsectsize = (if unit = 1 then logsectsize else unit)"

definition log_lsn :: "u32 \<Rightarrow> u32 \<Rightarrow> u64" where
  "log_lsn cycle block = push_bit 32 (ucast cycle) OR ucast block"

text \<open>Headers of a record and basic blocks of a record.\<close>

definition record_hdrs :: "nat \<Rightarrow> nat" where
  "record_hdrs sunit = (if sunit > HEADER_CYCLE_SIZE then div_ceil sunit HEADER_CYCLE_SIZE else 1)"

definition record_bbs :: "nat \<Rightarrow> nat" where
  "record_bbs sunit = max (if sunit > 0 then div_ceil sunit BBSIZE else 1) (record_hdrs sunit + 1)"

definition header_edits :: "bytes \<Rightarrow> nat \<Rightarrow> u64 \<Rightarrow> u64 \<Rightarrow> (bytes \<Rightarrow> error + bytes) list" where
  "header_edits uuid sunit l tail_lsn =
     [put32 lr_MAGICNO HEADER_MAGIC,
      put32 lr_CYCLE (ucast (drop_bit 32 l)),
      put32 lr_VERSION 2,
      put32 lr_CRC 0,
      put32 lr_PREV_BLOCK 0xffffffff,
      put32 lr_NUM_LOGOPS 1,
      put32 lr_FMT FMT_LINUX_LE,
      put32 lr_SIZE (of_nat (max sunit BIG_RECORD_BSIZE)),
      put64 lr_LSN l,
      put64 lr_TAIL_LSN tail_lsn,
      write_slice lr_FS_UUID uuid,
      put32 lr_LEN (of_nat (sub32 (max (BBSIZE * 2) sunit) (record_hdrs sunit * BBSIZE)))]"

definition put32_from :: "nat \<Rightarrow> u32 \<Rightarrow> bytes \<Rightarrow> error + bytes" where
  "put32_from off v b = on_slice off (length b - off) (put32 0 v) b"

definition log_record :: "bytes \<Rightarrow> nat \<Rightarrow> u64 \<Rightarrow> u64 \<Rightarrow> error + bytes" where
  "log_record uuid sunit l tail_lsn =
     (let cycle = ucast (drop_bit 32 l);
          hdrs = record_hdrs sunit;
          len_bb = record_bbs sunit;
          u = hdrs * BBSIZE in
      and_then (on_slice 0 BBSIZE (run_edits (header_edits uuid sunit l tail_lsn)) (replicate (len_bb * BBSIZE) 0)) (\<lambda>b.
      and_then (run_edits (map (\<lambda>i. put32_from (i * BBSIZE) cycle) [1..<hdrs]) b) (\<lambda>b.
      and_then (run_edits
        [put32 u UNMOUNT_TID,
         put32 (u + 4) 8,
         set_byte (u + 8) CLIENT_LOG,
         set_byte (u + 9) UNMOUNT_TRANS,
         write_slice (u + 12) (to_le 2 UNMOUNT_TYPE)] b) (\<lambda>b.
      and_then (be32 b u) (\<lambda>first.
      run_edits
        (put32 lr_CYCLE_DATA first # put32 u cycle #
         map (\<lambda>bb. put32 (bb * BBSIZE) cycle) [hdrs + 1..<len_bb]) b)))))"

definition first_record :: "bytes \<Rightarrow> nat \<Rightarrow> error + bytes" where
  "first_record uuid sunit = (let l = log_lsn 1 0 in log_record uuid sunit l l)"

section \<open>Lemmas\<close>

lemma put32_from_eq:
  assumes "off + 4 \<le> length b"
  shows "put32_from off v b = put32 off v b"
proof -
  have "on_slice off (length b - off) (put32 0 v) b
      = Inr (splice off (splice 0 (to_be 4 v) (slice off (length b - off) b)) b)"
    using assms by (simp add: on_slice_def slice_simps)
  also have "splice off (splice 0 (to_be 4 v) (slice off (length b - off) b)) b = splice off (to_be 4 v) b"
    using assms by (intro nth_equalityI) (auto simp: slice_simps nth_splice nth_slice)
  finally show ?thesis using assms by (simp add: put32_from_def slice_simps)
qed

text \<open>Fields survive writes elsewhere.\<close>

lemma holds_apply_other:
  assumes "holds fs b" "fields_inside (length b) ws" "\<forall>f\<in>set fs. list_all (apart f) ws"
  shows "holds fs (apply_fields ws b)"
proof -
  have "off + length src \<le> length (apply_fields ws b) \<and> slice off (length src) (apply_fields ws b) = src"
    if "(off, src) \<in> set fs" for off src
    using holds_member [OF assms(1) that] assms(2,3) that
    by (auto simp: length_apply_fields slice_apply_fields_apart)
  then show ?thesis by (auto simp: holds_def list_all_iff)
qed

lemma holds_sub: "holds fs b \<Longrightarrow> set hs \<subseteq> set fs \<Longrightarrow> holds hs b"
  by (auto simp: holds_def list_all_iff)

lemma holds_splice_front:
  assumes "holds fs s" "length s \<le> length b"
  shows "holds fs (splice 0 s b)"
  using assms unfolding holds_def list_all_iff
  by (auto simp: slice_splice_inside slice_simps)

lemma record_hdrs_bounds:
  assumes "sunit < 2 ^ 31"
  shows "1 \<le> record_hdrs sunit" "record_hdrs sunit * 512 \<le> max 1024 sunit" "record_hdrs sunit < record_bbs sunit"
    "record_hdrs sunit \<le> 2 ^ 16"
proof -
  have pos: "0 < HEADER_CYCLE_SIZE" by (simp add: HEADER_CYCLE_SIZE_def)
  note d = div_ceil_bounds [OF pos, of sunit]
  show "record_hdrs sunit < record_bbs sunit" by (simp add: record_bbs_def)
  show one: "1 \<le> record_hdrs sunit"
    using div_ceil_pos [of sunit HEADER_CYCLE_SIZE] by (simp add: record_hdrs_def HEADER_CYCLE_SIZE_def Suc_le_eq)
  show "record_hdrs sunit * 512 \<le> max 1024 sunit"
  proof (cases "sunit > HEADER_CYCLE_SIZE")
    case True
    then have "(record_hdrs sunit - 1) * 32768 < sunit" using d(2) by (simp add: record_hdrs_def HEADER_CYCLE_SIZE_def)
    then show ?thesis using one True by (simp add: HEADER_CYCLE_SIZE_def)
  qed (simp add: record_hdrs_def)
  show "record_hdrs sunit \<le> 2 ^ 16"
  proof (cases "sunit > HEADER_CYCLE_SIZE")
    case True
    then have "(record_hdrs sunit - 1) * 32768 < sunit" using d(2) by (simp add: record_hdrs_def HEADER_CYCLE_SIZE_def)
    then show ?thesis using assms by simp
  qed (simp add: record_hdrs_def)
qed

definition header_fields :: "bytes \<Rightarrow> nat \<Rightarrow> u64 \<Rightarrow> u64 \<Rightarrow> field list" where
  "header_fields uuid sunit l tail_lsn =
     [fld32 lr_MAGICNO HEADER_MAGIC, fld32 lr_CYCLE (ucast (drop_bit 32 l)), fld32 lr_VERSION 2,
      fld32 lr_CRC 0, fld32 lr_PREV_BLOCK 0xffffffff, fld32 lr_NUM_LOGOPS 1, fld32 lr_FMT FMT_LINUX_LE,
      fld32 lr_SIZE (of_nat (max sunit BIG_RECORD_BSIZE)), fld64 lr_LSN l, fld64 lr_TAIL_LSN tail_lsn,
      (lr_FS_UUID, uuid),
      fld32 lr_LEN (of_nat (sub32 (max (BBSIZE * 2) sunit) (record_hdrs sunit * BBSIZE)))]"

definition unmount_fields :: "nat \<Rightarrow> field list" where
  "unmount_fields u =
     [fld32 (u + 4) 8, fld8 (u + 8) CLIENT_LOG, fld8 (u + 9) UNMOUNT_TRANS, (u + 12, to_le 2 UNMOUNT_TYPE)]"

text \<open>The table of a finished record: the header, the cycle numbers, the unmount record.\<close>

definition record_fields :: "bytes \<Rightarrow> nat \<Rightarrow> u64 \<Rightarrow> u64 \<Rightarrow> field list" where
  "record_fields uuid sunit l tail_lsn =
     header_fields uuid sunit l tail_lsn @ [fld32 lr_CYCLE_DATA UNMOUNT_TID] @
     map (\<lambda>bb. fld32 (bb * 512) (ucast (drop_bit 32 l))) [1..<record_bbs sunit] @
     unmount_fields (record_hdrs sunit * 512)"

lemma run_put32_from:
  assumes "\<forall>off\<in>set offs. off + 4 \<le> length b"
  shows "run_edits (map (\<lambda>off. put32_from off v) offs) b = Inr (apply_fields (map (\<lambda>off. fld32 off v) offs) b)"
  using assms by (induction offs arbitrary: b) (simp_all add: put32_from_eq slice_simps apply_fields_def)

lemma header_on_slice:
  assumes "length uuid = 16" "512 \<le> length b"
  shows "\<exists>c. on_slice 0 BBSIZE (run_edits (header_edits uuid sunit l tail)) b = Inr c \<and> length c = length b \<and>
    holds (header_fields uuid sunit l tail) c"
proof -
  define fs where "fs = header_fields uuid sunit l tail"
  define s where "s = apply_fields fs (slice 0 512 b)"
  have len: "length (slice 0 512 b) = 512" using assms(2) by simp
  have ins: "fields_inside (length (slice 0 512 b)) fs" and ap: "fields_apart fs"
    using assms(1) unfolding len by (simp_all add: fs_def header_fields_def fields_inside_def apart_def)
  have "map field_write fs = header_edits uuid sunit l tail"
    by (simp only: fs_def header_fields_def header_edits_def put_field_writes list.map)
  then have "run_edits (header_edits uuid sunit l tail) (slice 0 512 b) = Inr s"
    using run_field_writes [OF ins] by (simp add: s_def)
  moreover have s: "length s = 512" "holds fs s"
    using length_apply_fields [OF ins] holds_apply_fields [OF ins ap] len by (simp_all add: s_def)
  ultimately have "on_slice 0 BBSIZE (run_edits (header_edits uuid sunit l tail)) b = Inr (splice 0 s b)"
    using assms(2) by (simp add: on_slice_def BBSIZE_def slice_simps)
  then show ?thesis using s assms(2) holds_splice_front [OF s(2)]
    by (intro exI [of _ "splice 0 s b"]) (simp add: slice_simps fs_def)
qed

lemma blocks_apart:
  assumes "i \<noteq> j" "d + length s \<le> 512" "e + length t \<le> 512"
  shows "apart (i * 512 + d, s) (j * 512 + e, t)"
proof -
  have "(i + 1) * 512 \<le> j * 512 \<or> (j + 1) * 512 \<le> i * 512"
    using assms(1) by (cases "i < j") (simp_all only: mult_le_cancel2, simp_all)
  then show ?thesis using assms(2,3) by (auto simp: apart_def)
qed

text \<open>\<open>cycle_fields c i j\<close>: the cycle number in the basic blocks from \<open>i\<close> up to \<open>j\<close>.\<close>

definition cycle_fields :: "u32 \<Rightarrow> nat \<Rightarrow> nat \<Rightarrow> field list" where
  "cycle_fields c i j = map (\<lambda>bb. fld32 (bb * 512) c) [i..<j]"

lemma cycle_fields_inside:
  assumes "j \<le> n"
  shows "fields_inside (n * 512) (cycle_fields c i j)"
proof -
  have "k * 512 + 4 \<le> n * 512" if "k < j" for k
  proof -
    have "(k + 1) * 512 \<le> n * 512" using that assms by (intro mult_le_mono1) simp
    then show ?thesis by simp
  qed
  then show ?thesis by (auto simp: cycle_fields_def fields_inside_def list_all_iff)
qed

lemma cycle_fields_other:
  assumes "d + length s \<le> 512" "k < i \<or> j \<le> k"
  shows "list_all (apart (k * 512 + d, s)) (cycle_fields c i j)"
proof -
  have "apart (k * 512 + d, s) (bb * 512 + 0, to_be 4 c)" if "i \<le> bb" "bb < j" for bb
    using assms that by (intro blocks_apart) auto
  then show ?thesis by (auto simp: cycle_fields_def list_all_iff)
qed

lemma cycle_fields_apart: "fields_apart (cycle_fields c i j)"
proof (induction "j - i" arbitrary: i)
  case (Suc m)
  then have "cycle_fields c i j = fld32 (i * 512) c # cycle_fields c (Suc i) j"
    by (simp add: cycle_fields_def upt_conv_Cons)
  then show ?case
    using Suc cycle_fields_other [of 0 "to_be 4 c" i "Suc i" j c] by simp
qed (simp add: cycle_fields_def)

lemma header_fields_low:
  assumes "length uuid = 16" "f \<in> set (header_fields uuid sunit l tail)"
  shows "fst f + length (snd f) \<le> 512" "apart f (fld32 lr_CYCLE_DATA v)"
  using assms by (auto simp: header_fields_def apart_def)

text \<open>What the edits after the header leave behind, for \<open>h\<close> headers and \<open>n\<close> basic blocks.\<close>

lemma record_body:
  fixes c :: u32 and b :: bytes and H :: "field list" and h n :: nat
  assumes b: "length b = n * 512" "holds H b" and hn: "1 \<le> h" "h < n"
    and H: "\<And>f v. f \<in> set H \<Longrightarrow> fst f + length (snd f) \<le> 512 \<and> apart f (fld32 lr_CYCLE_DATA v)"
  defines "u \<equiv> h * 512"
  defines "b2 \<equiv> apply_fields (cycle_fields c 1 h) b"
  defines "b3 \<equiv> apply_fields (fld32 u UNMOUNT_TID # unmount_fields u) b2"
  defines "b4 \<equiv> apply_fields (fld32 lr_CYCLE_DATA UNMOUNT_TID # cycle_fields c h n) b3"
  shows "length b2 = n * 512" "length b3 = n * 512" "be32 b3 u = Inr UNMOUNT_TID" "length b4 = n * 512"
    "holds (H @ [fld32 lr_CYCLE_DATA UNMOUNT_TID] @ cycle_fields c 1 n @ unmount_fields u) b4"
proof -
  define U where "U = fld32 u UNMOUNT_TID # unmount_fields u"
  define W where "W = fld32 lr_CYCLE_DATA UNMOUNT_TID # cycle_fields c h n"
  have room: "u + 512 \<le> n * 512"
  proof -
    have "(h + 1) * 512 \<le> n * 512" using hn by (intro mult_le_mono1) simp
    then show ?thesis by (simp add: u_def)
  qed
  have ins: "fields_inside (n * 512) (cycle_fields c 1 h)" "fields_inside (n * 512) U" "fields_inside (n * 512) W"
    using cycle_fields_inside [of h n c 1] cycle_fields_inside [of n n c h] hn room
    by (simp_all add: U_def W_def unmount_fields_def fields_inside_def)
  show l2: "length b2 = n * 512" and l3: "length b3 = n * 512" and l4: "length b4 = n * 512"
    using b(1) ins unfolding b4_def b3_def b2_def U_def W_def by (simp_all add: length_apply_fields)
  have hU: "holds U b3"
    unfolding b3_def U_def [symmetric] using ins(2) l2
    by (intro holds_apply_fields) (simp_all add: U_def unmount_fields_def apart_def)
  then show "be32 b3 u = Inr UNMOUNT_TID" by (rule holds_be32) (simp add: U_def)
  have keep: "holds fs b4" if "holds fs b3" "\<forall>f\<in>set fs. list_all (apart f) W" for fs
    unfolding b4_def W_def [symmetric] using that ins(3) l3 by (intro holds_apply_other) simp_all
  have keep3: "holds fs b3" if "holds fs b2" "\<forall>f\<in>set fs. list_all (apart f) U" for fs
    unfolding b3_def U_def [symmetric] using that ins(2) l2 by (intro holds_apply_other) simp_all
  have hE: "holds (cycle_fields c 1 h) b2"
    unfolding b2_def using ins(1) b(1) by (intro holds_apply_fields cycle_fields_apart) simp
  have offU: "list_all (apart (k * 512 + d, s)) U" if "k \<noteq> h" "d + length s \<le> 512" for k d s
    using blocks_apart [OF that(1,2), of 0 "to_be 4 UNMOUNT_TID"] blocks_apart [OF that(1,2), of 4 "to_be 4 (8 :: u32)"]
      blocks_apart [OF that(1,2), of 8 "[CLIENT_LOG]"] blocks_apart [OF that(1,2), of 9 "[UNMOUNT_TRANS]"]
      blocks_apart [OF that(1,2), of 12 "to_le 2 UNMOUNT_TYPE"]
    by (simp add: U_def unmount_fields_def u_def)
  have offW: "list_all (apart (k * 512 + d, s)) W" if "1 \<le> k" "k < h" "d + length s \<le> 512" for k d s
    using blocks_apart [of k 0 d s 44 "to_be 4 UNMOUNT_TID"] cycle_fields_other [of d s k h n c] that
    by (simp add: W_def)
  have "holds (cycle_fields c 1 h) b4"
    using hE offU [of _ 0 "to_be 4 c"] offW [of _ 0 "to_be 4 c"] by (intro keep keep3) (auto simp: cycle_fields_def)
  moreover have "holds H b4"
  proof -
    have "list_all (apart f) (cycle_fields c 1 h)" "list_all (apart f) U" "list_all (apart f) W"
      if "f \<in> set H" for f
      using H [OF that] hn cycle_fields_other [of "fst f" "snd f" 0 1 h c]
        cycle_fields_other [of "fst f" "snd f" 0 h n c] offU [of 0 "fst f" "snd f"] by (simp_all add: W_def)
    then have "holds H b2" "\<forall>f\<in>set H. list_all (apart f) U" "\<forall>f\<in>set H. list_all (apart f) W"
      unfolding b2_def using b ins(1) by (simp_all add: holds_apply_other)
    then show ?thesis by (intro keep keep3)
  qed
  moreover have "holds (unmount_fields u) b4"
  proof (rule keep)
    show "holds (unmount_fields u) b3" using hU by (rule holds_sub) (auto simp: U_def)
    have "cycle_fields c h n = fld32 u c # cycle_fields c (Suc h) n"
      using hn by (simp add: cycle_fields_def u_def upt_conv_Cons)
    then have "list_all (apart (u + d, s)) W" if "4 \<le> d" "d + length s \<le> 512" for d s
      using that hn blocks_apart [of h 0 d s 44 "to_be 4 UNMOUNT_TID"] cycle_fields_other [of d s h "Suc h" n c]
      by (simp add: W_def u_def apart_def)
    then show "\<forall>f\<in>set (unmount_fields u). list_all (apart f) W" by (simp add: unmount_fields_def)
  qed
  moreover have "holds W b4"
    unfolding b4_def W_def [symmetric] using ins(3) l3 cycle_fields_apart [of c h n]
      cycle_fields_other [of 44 "to_be 4 UNMOUNT_TID" 0 h n c] hn
    by (intro holds_apply_fields) (simp_all add: W_def)
  moreover have "cycle_fields c 1 n = cycle_fields c 1 h @ cycle_fields c h n"
    using hn upt_add_eq_append [of 1 h "n - h"] by (simp add: cycle_fields_def flip: map_append)
  ultimately show "holds (H @ [fld32 lr_CYCLE_DATA UNMOUNT_TID] @ cycle_fields c 1 n @ unmount_fields u) b4"
    by (auto simp: holds_append W_def holds_def)
qed

lemma log_record_holds:
  assumes u: "length uuid = 16" and su: "sunit < 2 ^ 31"
  shows "\<exists>b. log_record uuid sunit l tail = Inr b \<and> length b = record_bbs sunit * 512 \<and>
    holds (record_fields uuid sunit l tail) b"
proof -
  define c :: u32 where "c = ucast (drop_bit 32 l)"
  define h n where "h = record_hdrs sunit" and "n = record_bbs sunit"
  have hn: "1 \<le> h" "h < n" using record_hdrs_bounds [OF su] by (simp_all add: h_def n_def)
  have "1 * 512 \<le> n * 512" using hn by (intro mult_le_mono1) simp
  then obtain b1 where b1: "on_slice 0 BBSIZE (run_edits (header_edits uuid sunit l tail)) (replicate (n * BBSIZE) 0) = Inr b1"
    "length b1 = n * 512" "holds (header_fields uuid sunit l tail) b1"
    using header_on_slice [OF u, of "replicate (n * BBSIZE) 0" sunit l tail] by (auto simp: BBSIZE_def)
  define b2 where "b2 = apply_fields (cycle_fields c 1 h) b1"
  define b3 where "b3 = apply_fields (fld32 (h * 512) UNMOUNT_TID # unmount_fields (h * 512)) b2"
  define b4 where "b4 = apply_fields (fld32 lr_CYCLE_DATA UNMOUNT_TID # cycle_fields c h n) b3"
  note body = record_body [OF b1(2,3) hn, of c, folded b2_def, folded b3_def, folded b4_def]
  have len: "length b2 = n * 512" "length b3 = n * 512" "length b4 = n * 512" "be32 b3 (h * 512) = Inr UNMOUNT_TID"
    and fin: "holds (record_fields uuid sunit l tail) b4"
    using body header_fields_low [OF u]
    by (auto simp: record_fields_def cycle_fields_def c_def h_def n_def)
  have in2: "fields_inside (length b1) (cycle_fields c 1 h)" "fields_inside (length b3) (cycle_fields c h n)"
    using cycle_fields_inside [of h n c 1] cycle_fields_inside [of n n c h] hn b1(2) len by simp_all
  then have "run_edits (map (\<lambda>i. put32_from (i * BBSIZE) c) [1..<h]) b1 = Inr b2"
    using run_put32_from [of "map (\<lambda>i. i * 512) [1..<h]" b1 c]
    by (auto simp: b2_def cycle_fields_def BBSIZE_def o_def fields_inside_def list_all_iff)
  moreover have "run_edits [put32 (h * 512) UNMOUNT_TID, put32 (h * 512 + 4) 8, set_byte (h * 512 + 8) CLIENT_LOG,
      set_byte (h * 512 + 9) UNMOUNT_TRANS, write_slice (h * 512 + 12) (to_le 2 UNMOUNT_TYPE)] b2 = Inr b3"
  proof -
    have "(h + 1) * 512 \<le> n * 512" using hn by (intro mult_le_mono1) simp
    then have "fields_inside (length b2) (fld32 (h * 512) UNMOUNT_TID # unmount_fields (h * 512))"
      by (simp add: unmount_fields_def fields_inside_def len)
    from run_field_writes [OF this] show ?thesis
      by (simp only: b3_def unmount_fields_def put_field_writes list.map)
  qed
  moreover have "run_edits (put32 lr_CYCLE_DATA UNMOUNT_TID # put32 (h * 512) c #
      map (\<lambda>bb. put32 (bb * 512) c) [h + 1..<n]) b3 = Inr b4"
  proof -
    have "fields_inside (length b3) (fld32 lr_CYCLE_DATA UNMOUNT_TID # cycle_fields c h n)"
      using in2(2) hn len by (simp add: fields_inside_def)
    from run_field_writes [OF this] show ?thesis using hn
      by (simp add: b4_def cycle_fields_def put_field_writes upt_conv_Cons [of h n] o_def)
  qed
  ultimately have "log_record uuid sunit l tail = Inr b4"
    unfolding log_record_def Let_def c_def [symmetric] h_def [symmetric] n_def [symmetric]
    using b1(1) len(4) by (simp add: BBSIZE_def)
  then show ?thesis using fin len(3) by (auto simp: n_def)
qed

lemma log_lsn_parts:
  "ucast (drop_bit 32 (log_lsn cycle block)) = cycle" "ucast (log_lsn cycle block) = block"
  unfolding log_lsn_def by (rule bit_word_eqI, auto simp: bit_simps dest: bit_imp_le_length)+

section \<open>Properties\<close>

text \<open>
  A log record of any stripe unit below 2 GiB is built without a panic: it has the
  promised number of basic blocks, a header with its sequence numbers and UUID, the unmount
  record after the headers, and in every basic block after the first the cycle number as its
  first word, the word it displaced being kept in the header.
\<close>

theorem log_record_shape:
  assumes "length uuid = 16" "sunit < 2 ^ 31"
  shows "\<exists>b. log_record uuid sunit (log_lsn cycle block) tail = Inr b \<and> length b = record_bbs sunit * 512 \<and>
    be32 b lr_MAGICNO = Inr HEADER_MAGIC \<and> be32 b lr_CYCLE = Inr cycle \<and>
    be64 b lr_LSN = Inr (log_lsn cycle block) \<and> be64 b lr_TAIL_LSN = Inr tail \<and> slice lr_FS_UUID 16 b = uuid \<and>
    be32 b lr_CYCLE_DATA = Inr UNMOUNT_TID \<and>
    slice (record_hdrs sunit * 512 + 12) 2 b = to_le 2 UNMOUNT_TYPE \<and>
    (\<forall>bb. 1 \<le> bb \<and> bb < record_bbs sunit \<longrightarrow> be32 b (bb * 512) = Inr cycle)"
proof -
  obtain b where b: "log_record uuid sunit (log_lsn cycle block) tail = Inr b" "length b = record_bbs sunit * 512"
    and h: "holds (record_fields uuid sunit (log_lsn cycle block) tail) b"
    using log_record_holds [OF assms] by blast
  note m = record_fields_def header_fields_def unmount_fields_def log_lsn_parts
  have "be32 b lr_MAGICNO = Inr HEADER_MAGIC" "be32 b lr_CYCLE = Inr cycle" "be32 b lr_CYCLE_DATA = Inr UNMOUNT_TID"
    by (rule holds_be32 [OF h]; simp add: m)+
  moreover have "be64 b lr_LSN = Inr (log_lsn cycle block)" "be64 b lr_TAIL_LSN = Inr tail"
    by (rule holds_be64 [OF h]; simp add: m)+
  moreover have "slice lr_FS_UUID 16 b = uuid" "slice (record_hdrs sunit * 512 + 12) 2 b = to_le 2 UNMOUNT_TYPE"
    using holds_member [OF h, of lr_FS_UUID uuid] assms(1)
      holds_member [OF h, of "record_hdrs sunit * 512 + 12" "to_le 2 UNMOUNT_TYPE"] by (simp_all add: m)
  moreover have "be32 b (bb * 512) = Inr cycle" if "1 \<le> bb" "bb < record_bbs sunit" for bb
    by (rule holds_be32 [OF h]) (use that in \<open>simp add: m\<close>)
  ultimately show ?thesis using b by blast
qed

theorem log_record_shape_witness:
  "\<exists>b. log_record (replicate 16 7) 4096 (log_lsn 1 0) (log_lsn 1 0) = Inr b \<and> length b = record_bbs 4096 * 512 \<and>
    be32 b lr_CYCLE = Inr 1 \<and> be32 b (3 * 512) = Inr 1"
proof -
  have "record_bbs 4096 = 8" by (simp add: record_bbs_def record_hdrs_def log_consts div_ceil_def)
  moreover obtain b where b: "log_record (replicate 16 7) 4096 (log_lsn 1 0) (log_lsn 1 0) = Inr b"
    "length b = record_bbs 4096 * 512" "be32 b lr_CYCLE = Inr 1"
    "\<forall>bb. 1 \<le> bb \<and> bb < record_bbs 4096 \<longrightarrow> be32 b (bb * 512) = Inr 1"
    using log_record_shape [of "replicate 16 7" 4096 1 0 "log_lsn 1 0"] by auto
  ultimately show ?thesis using spec [OF b(4), of 3] by (intro exI [of _ b]) simp
qed

end
