(* ===== verification/Device.thy ===== *)
theory Device
  imports Bytes "HOL-Library.Mapping"
begin

section \<open>The device seam (\<^verbatim>\<open>src/device.rs\<close>)\<close>

text \<open>
  \<^verbatim>\<open>BlockDevice\<close> is a record of operations over a device state: an operation that changes the
  device returns the new state. The trait's default \<^verbatim>\<open>write_zeroes\<close> is written over any such
  record. \<open>mem_device\<close> is \<^verbatim>\<open>MemDevice\<close>, a sparse map of 64 KiB chunks. The locale \<open>block_device\<close>
  is what the formatter relies on: a device behaves as one flat array of bytes for the
  requests it accepts, and \<^verbatim>\<open>MemDevice\<close> is shown to meet it. \<^verbatim>\<open>FileDevice\<close> is in the theory \<open>File_Device\<close>.
\<close>

record 'd dev_ops =
  dev_size :: "'d \<Rightarrow> nat"
  dev_logical :: "'d \<Rightarrow> nat"
  dev_physical :: "'d \<Rightarrow> nat"
  dev_read_at :: "'d \<Rightarrow> nat \<Rightarrow> nat \<Rightarrow> error + bytes"
  dev_write_at :: "'d \<Rightarrow> nat \<Rightarrow> bytes \<Rightarrow> error + 'd"
  dev_flush :: "'d \<Rightarrow> error + 'd"
  dev_write_zeroes :: "'d \<Rightarrow> nat \<Rightarrow> nat \<Rightarrow> error + 'd"

subsection \<open>The default \<^verbatim>\<open>write_zeroes\<close>\<close>

definition ZERO_CHUNK :: nat where "ZERO_CHUNK = 2 ^ 20"

function zero_loop :: "('d \<Rightarrow> nat \<Rightarrow> bytes \<Rightarrow> error + 'd) \<Rightarrow> nat \<Rightarrow> nat \<Rightarrow> nat \<Rightarrow> nat \<Rightarrow> 'd \<Rightarrow> error + 'd" where
  "zero_loop wr off len buflen done d =
     (if done < len \<and> 0 < buflen then
        let n = min (len - done) buflen in
        and_then (wr d (add64 off done) (replicate n 0)) (zero_loop wr off len buflen (done + n))
      else Inr d)"
  by pat_completeness auto
termination
  by (relation "measure (\<lambda>(wr, off, len, buflen, done, d). len - done)") auto

declare zero_loop.simps [simp del]

definition default_write_zeroes :: "('d \<Rightarrow> nat \<Rightarrow> bytes \<Rightarrow> error + 'd) \<Rightarrow> 'd \<Rightarrow> nat \<Rightarrow> nat \<Rightarrow> error + 'd" where
  "default_write_zeroes wr d off len = zero_loop wr off len (max (min ZERO_CHUNK len) 1) 0 d"

subsection \<open>Bounds\<close>

definition check_bounds :: "nat \<Rightarrow> nat \<Rightarrow> nat \<Rightarrow> error + unit" where
  "check_bounds off len sz =
     (if off + len < 2 ^ 64 \<and> off + len \<le> sz then Inr () else Inl (OutOfBounds off len sz))"

subsection \<open>\<^verbatim>\<open>MemDevice\<close>\<close>

definition CHUNK :: nat where "CHUNK = 64 * 1024"

type_synonym chunk_map = "(nat, bytes) mapping"

record mem_device =
  md_chunks :: chunk_map
  md_size :: nat
  md_logical :: nat
  md_physical :: nat
  md_strict :: bool

definition md_with_sector_size :: "nat \<Rightarrow> nat \<Rightarrow> mem_device" where
  "md_with_sector_size sz sector =
     \<lparr>md_chunks = Mapping.empty, md_size = sz, md_logical = sector, md_physical = sector, md_strict = False\<rparr>"

definition md_new :: "nat \<Rightarrow> mem_device" where
  "md_new sz = md_with_sector_size sz 512"

definition md_strict_new :: "nat \<Rightarrow> nat \<Rightarrow> mem_device" where
  "md_strict_new sz sector = (md_with_sector_size sz sector)\<lparr>md_strict := True\<rparr>"

text \<open>A strict device with a logical sector of 0 bytes panics in \<^verbatim>\<open>%\<close>.\<close>

definition check_aligned :: "mem_device \<Rightarrow> nat \<Rightarrow> nat \<Rightarrow> error + unit" where
  "check_aligned d off len =
     (if \<not> md_strict d then Inr ()
      else if md_logical d = 0 then Inl Panicked
      else if off mod md_logical d \<noteq> 0 \<or> len mod md_logical d \<noteq> 0 then Inl (Io off)
      else Inr ())"

definition nonzero_chunks :: "mem_device \<Rightarrow> (nat \<times> bytes) list" where
  "nonzero_chunks d =
     map (\<lambda>i. (i * CHUNK, case Mapping.lookup (md_chunks d) i of Some c \<Rightarrow> c | None \<Rightarrow> []))
       (filter (\<lambda>i. case Mapping.lookup (md_chunks d) i of Some c \<Rightarrow> list_ex (\<lambda>b. b \<noteq> 0) c | None \<Rightarrow> False)
         (Mapping.ordered_keys (md_chunks d)))"

definition resident :: "mem_device \<Rightarrow> nat" where
  "resident d = Mapping.size (md_chunks d) * CHUNK"

function copy_out_loop :: "chunk_map \<Rightarrow> nat \<Rightarrow> nat \<Rightarrow> bytes \<Rightarrow> error + bytes" where
  "copy_out_loop chunks off done buf =
     (if done < length buf then
        let pos = add64 off done;
            idx = pos div CHUNK;
            within = pos mod CHUNK;
            n = min (length buf - done) (CHUNK - within) in
        and_then
          (case Mapping.lookup chunks idx of
             Some c \<Rightarrow> and_then (read_slice within n c) (\<lambda>s. write_slice done s buf)
           | None \<Rightarrow> write_slice done (replicate n 0) buf)
          (\<lambda>buf'. copy_out_loop chunks off (done + n) buf')
      else Inr buf)"
  by pat_completeness auto
termination
proof (relation "measure (\<lambda>(chunks, off, done, buf). length buf - done)", simp)
  fix chunks :: chunk_map and off k :: nat and buf buf' :: bytes and pos idx within n
  assume d: "k < length buf" and pos: "pos = add64 off k" and w: "within = pos mod CHUNK"
    and n: "n = min (length buf - k) (CHUNK - within)"
    and r: "(case Mapping.lookup chunks idx of
             Some c \<Rightarrow> and_then (read_slice within n c) (\<lambda>s. write_slice k s buf)
           | None \<Rightarrow> write_slice k (replicate n 0) buf) = Inr buf'"
  have "length buf' = length buf"
    using r by (auto simp: write_slice_def splice_def split: option.splits if_splits)
  moreover have "0 < n" using d w by (simp add: n CHUNK_def)
  ultimately show "((chunks, off, k + n, buf'), chunks, off, k, buf)
      \<in> measure (\<lambda>(chunks, off, k, buf). length buf - k)"
    using d by simp
qed

declare copy_out_loop.simps [simp del]

definition copy_out :: "mem_device \<Rightarrow> nat \<Rightarrow> bytes \<Rightarrow> error + bytes" where
  "copy_out d off buf = copy_out_loop (md_chunks d) off 0 buf"

text \<open>One round of \<^verbatim>\<open>copy_in\<close>: the source bytes that fall into chunk \<open>idx\<close>.\<close>

definition copy_in_chunk :: "nat \<Rightarrow> nat \<Rightarrow> bytes \<Rightarrow> chunk_map \<Rightarrow> error + chunk_map" where
  "copy_in_chunk idx within src chunks =
     (if list_all (\<lambda>b. b = 0) src then
        (if length src = CHUNK then Inr (Mapping.delete idx chunks)
         else case Mapping.lookup chunks idx of
             Some c \<Rightarrow> and_then (write_slice within (replicate (length src) 0) c)
               (\<lambda>c'. Inr (Mapping.update idx c' chunks))
           | None \<Rightarrow> Inr chunks)
      else
        let c = (case Mapping.lookup chunks idx of Some c \<Rightarrow> c | None \<Rightarrow> replicate CHUNK 0) in
        and_then (write_slice within src c) (\<lambda>c'. Inr (Mapping.update idx c' chunks)))"

function copy_in_loop :: "nat \<Rightarrow> bytes \<Rightarrow> nat \<Rightarrow> chunk_map \<Rightarrow> error + chunk_map" where
  "copy_in_loop off buf done chunks =
     (if done < length buf then
        let pos = add64 off done;
            idx = pos div CHUNK;
            within = pos mod CHUNK;
            n = min (length buf - done) (CHUNK - within) in
        and_then (copy_in_chunk idx within (slice done n buf) chunks)
          (copy_in_loop off buf (done + n))
      else Inr chunks)"
  by pat_completeness auto
termination
  by (relation "measure (\<lambda>(off, buf, done, chunks). length buf - done)") (auto simp: CHUNK_def)

declare copy_in_loop.simps [simp del]

definition copy_in :: "mem_device \<Rightarrow> nat \<Rightarrow> bytes \<Rightarrow> error + mem_device" where
  "copy_in d off buf =
     and_then (copy_in_loop off buf 0 (md_chunks d)) (\<lambda>ch. Inr (d\<lparr>md_chunks := ch\<rparr>))"

definition md_read_at :: "mem_device \<Rightarrow> nat \<Rightarrow> nat \<Rightarrow> error + bytes" where
  "md_read_at d off len =
     and_then (check_bounds off len (md_size d)) (\<lambda>_.
     and_then (check_aligned d off len) (\<lambda>_.
     copy_out d off (replicate len 0)))"

definition md_write_at :: "mem_device \<Rightarrow> nat \<Rightarrow> bytes \<Rightarrow> error + mem_device" where
  "md_write_at d off buf =
     and_then (check_bounds off (length buf) (md_size d)) (\<lambda>_.
     and_then (check_aligned d off (length buf)) (\<lambda>_.
     copy_in d off buf))"

definition md_flush :: "mem_device \<Rightarrow> error + mem_device" where
  "md_flush d = Inr d"

definition zero_chunk :: "nat \<Rightarrow> nat \<Rightarrow> nat \<Rightarrow> chunk_map \<Rightarrow> error + chunk_map" where
  "zero_chunk off stop idx chunks =
     (let cs = mul64 idx CHUNK;
          ce = mul64 (add64 idx 1) CHUNK;
          zs = max off cs;
          ze = min stop ce in
      if zs = cs \<and> ze = ce then Inr (Mapping.delete idx chunks)
      else case Mapping.lookup chunks idx of
          Some c \<Rightarrow> and_then (write_slice (sub64 zs cs) (replicate (sub64 (sub64 ze cs) (sub64 zs cs)) 0) c)
            (\<lambda>c'. Inr (Mapping.update idx c' chunks))
        | None \<Rightarrow> Inr chunks)"

definition md_write_zeroes :: "mem_device \<Rightarrow> nat \<Rightarrow> nat \<Rightarrow> error + mem_device" where
  "md_write_zeroes d off len =
     and_then (check_bounds off len (md_size d)) (\<lambda>_.
     and_then (check_aligned d off len) (\<lambda>_.
     let stop = add64 off len;
         first = off div CHUNK;
         last = div_ceil stop CHUNK;
         keys = filter (\<lambda>k. first \<le> k \<and> k < last) (Mapping.ordered_keys (md_chunks d)) in
     and_then (try_fold (zero_chunk off stop) keys (md_chunks d)) (\<lambda>ch. Inr (d\<lparr>md_chunks := ch\<rparr>))))"

definition mem_ops :: "mem_device dev_ops" where
  "mem_ops = \<lparr>dev_size = md_size, dev_logical = md_logical, dev_physical = md_physical,
     dev_read_at = md_read_at, dev_write_at = md_write_at, dev_flush = md_flush,
     dev_write_zeroes = md_write_zeroes\<rparr>"

section \<open>The device as a flat array of bytes\<close>

definition byte_at :: "chunk_map \<Rightarrow> nat \<Rightarrow> u8" where
  "byte_at ch i = (case Mapping.lookup ch (i div CHUNK) of Some c \<Rightarrow> c ! (i mod CHUNK) | None \<Rightarrow> 0)"

definition chunks_ok :: "chunk_map \<Rightarrow> bool" where
  "chunks_ok ch \<longleftrightarrow> finite (Mapping.keys ch) \<and> (\<forall>k c. Mapping.lookup ch k = Some c \<longrightarrow> length c = CHUNK)"

definition overwrite :: "(nat \<Rightarrow> u8) \<Rightarrow> nat \<Rightarrow> bytes \<Rightarrow> nat \<Rightarrow> u8" where
  "overwrite f off buf i = (if off \<le> i \<and> i < off + length buf then buf ! (i - off) else f i)"

lemma CHUNK_pos [simp]: "0 < CHUNK" "CHUNK \<noteq> 0"
  by (simp_all add: CHUNK_def)

lemma in_chunk:
  assumes "within + n \<le> CHUNK" "pos = idx * CHUNK + within"
  shows "i div CHUNK = idx \<and> within \<le> i mod CHUNK \<and> i mod CHUNK < within + n \<longleftrightarrow> pos \<le> i \<and> i < pos + n"
proof
  assume "i div CHUNK = idx \<and> within \<le> i mod CHUNK \<and> i mod CHUNK < within + n"
  then show "pos \<le> i \<and> i < pos + n"
    using assms(2) div_mult_mod_eq [of i CHUNK] by simp
next
  assume i: "pos \<le> i \<and> i < pos + n"
  then obtain d where d: "i = idx * CHUNK + (within + d)" "d < n"
    using assms(2) by (metis add.assoc le_iff_add nat_add_left_cancel_less)
  then have "i div CHUNK = idx" "i mod CHUNK = within + d" using assms(1) by simp_all
  then show "i div CHUNK = idx \<and> within \<le> i mod CHUNK \<and> i mod CHUNK < within + n" using d by simp
qed

lemma lookup_delete_if: "Mapping.lookup (Mapping.delete k m) i = (if i = k then None else Mapping.lookup m i)"
  by (cases "i = k") (simp_all add: lookup_delete lookup_delete_neq)

lemma chunks_ok_update: "chunks_ok ch \<Longrightarrow> length c = CHUNK \<Longrightarrow> chunks_ok (Mapping.update k c ch)"
  by (auto simp: chunks_ok_def lookup_update' split: if_splits)

lemma chunks_ok_delete: "chunks_ok ch \<Longrightarrow> chunks_ok (Mapping.delete k ch)"
  by (auto simp: chunks_ok_def lookup_delete_if split: if_splits)

lemma byte_at_update:
  "byte_at (Mapping.update k c ch) i = (if i div CHUNK = k then c ! (i mod CHUNK) else byte_at ch i)"
  by (simp add: byte_at_def lookup_update')

lemma byte_at_delete:
  "byte_at (Mapping.delete k ch) i = (if i div CHUNK = k then 0 else byte_at ch i)"
  by (simp add: byte_at_def lookup_delete_if)

lemma copy_in_chunk_ok:
  assumes ok: "chunks_ok ch" and w: "within + length src \<le> CHUNK"
  shows "\<exists>ch'. copy_in_chunk idx within src ch = Inr ch' \<and> chunks_ok ch' \<and>
    byte_at ch' = overwrite (byte_at ch) (idx * CHUNK + within) src"
proof -
  define upd where "upd c = Mapping.update idx (splice within src c) ch" for c
  have U: "chunks_ok (upd c)" "byte_at (upd c) = overwrite (byte_at ch) (idx * CHUNK + within) src"
    if c: "length c = CHUNK" "\<And>i. i < CHUNK \<Longrightarrow> c ! i = byte_at ch (idx * CHUNK + i)" for c
  proof -
    show "chunks_ok (upd c)" using ok w c(1) by (simp add: upd_def chunks_ok_update slice_simps)
    have "byte_at (upd c) i = overwrite (byte_at ch) (idx * CHUNK + within) src i" for i
    proof -
      have i: "i = i div CHUNK * CHUNK + i mod CHUNK" by simp
      note ic = in_chunk [OF w refl, of i idx]
      show ?thesis
      proof (cases "idx * CHUNK + within \<le> i \<and> i < idx * CHUNK + within + length src")
        case True
        then have "i div CHUNK = idx" "i mod CHUNK - within = i - (idx * CHUNK + within)"
          using ic i by (simp, metis add_diff_cancel_left' diff_diff_left)
        then show ?thesis using True ic w c(1) by (simp add: upd_def byte_at_update overwrite_def nth_splice)
      next
        case False
        have "splice within src c ! (i mod CHUNK) = byte_at ch i" if "i div CHUNK = idx"
        proof -
          have "\<not> (within \<le> i mod CHUNK \<and> i mod CHUNK < within + length src)" using ic False that by blast
          then have "splice within src c ! (i mod CHUNK) = c ! (i mod CHUNK)"
            using w c(1) by (subst nth_splice) auto
          also have "\<dots> = byte_at ch (idx * CHUNK + i mod CHUNK)" by (rule c(2)) simp
          also have "idx * CHUNK + i mod CHUNK = i" unfolding that [symmetric] by simp
          finally show ?thesis .
        qed
        then show ?thesis using False by (simp only: upd_def byte_at_update overwrite_def if_False) simp
      qed
    qed
    then show "byte_at (upd c) = overwrite (byte_at ch) (idx * CHUNK + within) src" by blast
  qed
  have z: "replicate (length src) 0 = src" if "list_all (\<lambda>b. b = 0) src"
    by (rule replicate_length_same) (use that in \<open>simp add: list_all_iff\<close>)
  have z0: "src ! j = 0" if "list_all (\<lambda>b. b = 0) src" "j < length src" for j
    using that by (simp add: list_all_length)
  consider (gone) "list_all (\<lambda>b. b = 0) src" "length src = CHUNK"
    | (none) "list_all (\<lambda>b. b = 0) src" "length src \<noteq> CHUNK" "Mapping.lookup ch idx = None"
    | (upd) c where "length c = CHUNK" "\<And>i. i < CHUNK \<Longrightarrow> c ! i = byte_at ch (idx * CHUNK + i)"
        "copy_in_chunk idx within src ch = Inr (upd c)"
  proof (cases "Mapping.lookup ch idx")
    case None
    have "byte_at ch (idx * CHUNK + i) = 0" if "i < CHUNK" for i using that None by (simp add: byte_at_def)
    then show thesis
      using None gone none upd [of "replicate CHUNK 0"] w
      by (cases "list_all (\<lambda>b. b = 0) src"; cases "length src = CHUNK")
         (simp_all add: copy_in_chunk_def upd_def slice_simps)
  next
    case (Some c)
    then have "byte_at ch (idx * CHUNK + i) = c ! i" if "i < CHUNK" for i
      using that by (simp add: byte_at_def)
    moreover have "length c = CHUNK" using Some ok by (auto simp: chunks_ok_def)
    ultimately show thesis
      using Some gone upd [of c] w z
      by (cases "list_all (\<lambda>b. b = 0) src"; cases "length src = CHUNK")
         (simp_all add: copy_in_chunk_def upd_def slice_simps)
  qed
  then show ?thesis
  proof cases
    case gone
    then have w0: "within = 0" using w by simp
    have "byte_at (Mapping.delete idx ch) i = overwrite (byte_at ch) (idx * CHUNK + within) src i" for i
      using in_chunk [OF w refl, of i idx] gone w0 z0 [OF gone(1), of "i mod CHUNK"]
      by (auto simp: byte_at_delete overwrite_def minus_div_mult_eq_mod)
    then show ?thesis using gone ok by (auto simp: copy_in_chunk_def chunks_ok_delete)
  next
    case none
    have "byte_at ch i = overwrite (byte_at ch) (idx * CHUNK + within) src i" for i
      using in_chunk [OF w refl, of i idx] none z0 [OF none(1), of "i - (idx * CHUNK + within)"]
      by (auto simp: overwrite_def byte_at_def)
    then show ?thesis using none ok by (auto simp: copy_in_chunk_def)
  next
    case upd
    then show ?thesis using U [of c] by blast
  qed
qed

lemma position_split: "pos div CHUNK * CHUNK + pos mod CHUNK = pos"
  by simp

lemma overwrite_overwrite_next:
  assumes "k + n \<le> length buf"
  shows "overwrite (overwrite f (off + k) (slice k n buf)) (off + (k + n)) (drop (k + n) buf) =
    overwrite f (off + k) (drop k buf)"
proof
  fix i
  show "overwrite (overwrite f (off + k) (slice k n buf)) (off + (k + n)) (drop (k + n) buf) i =
      overwrite f (off + k) (drop k buf) i"
  proof (cases "i < off + (k + n)")
    case True
    then show ?thesis using assms by (auto simp: overwrite_def nth_slice)
  next
    case False
    then obtain j where "i = off + (k + n) + j" by (metis le_iff_add not_less)
    then show ?thesis using assms by (auto simp: overwrite_def add.assoc)
  qed
qed

lemma copy_in_loop_ok:
  assumes "chunks_ok ch" "k \<le> length buf" "off + length buf < 2 ^ 64"
  shows "\<exists>ch'. copy_in_loop off buf k ch = Inr ch' \<and> chunks_ok ch' \<and>
    byte_at ch' = overwrite (byte_at ch) (off + k) (drop k buf)"
  using assms
proof (induction "length buf - k" arbitrary: k ch rule: less_induct)
  case less
  show ?case
  proof (cases "k < length buf")
    case False
    then have "byte_at ch = overwrite (byte_at ch) (off + k) (drop k buf)"
      by (auto simp: overwrite_def fun_eq_iff)
    then show ?thesis using False less.prems by (subst copy_in_loop.simps) auto
  next
    case True
    define w where "w = (off + k) mod CHUNK"
    define n where "n = min (length buf - k) (CHUNK - w)"
    have w: "w < CHUNK" by (simp add: w_def)
    have n: "0 < n" "k + n \<le> length buf" "w + n \<le> CHUNK" using True w by (auto simp: n_def)
    then have less_rem: "length buf - (k + n) < length buf - k" by linarith
    have pos: "add64 off k = off + k" using True less.prems(3) by (intro nowrap) simp
    obtain ch1 where ch1: "copy_in_chunk ((off + k) div CHUNK) w (slice k n buf) ch = Inr ch1" "chunks_ok ch1"
      "byte_at ch1 = overwrite (byte_at ch) (off + k) (slice k n buf)"
      using copy_in_chunk_ok [OF less.prems(1), of w "slice k n buf" "(off + k) div CHUNK"] n
      by (auto simp: w_def position_split)
    obtain ch2 where ch2: "copy_in_loop off buf (k + n) ch1 = Inr ch2" "chunks_ok ch2"
      "byte_at ch2 = overwrite (byte_at ch1) (off + (k + n)) (drop (k + n) buf)"
      using less.hyps [OF less_rem ch1(2) n(2) less.prems(3)] by blast
    have "copy_in_loop off buf k ch = Inr ch2"
      using True ch1(1) ch2(1) by (subst copy_in_loop.simps) (simp add: pos Let_def w_def [symmetric] n_def [symmetric])
    then show ?thesis using ch2 ch1(3) overwrite_overwrite_next [OF n(2)] by simp
  qed
qed

lemma copy_out_loop_ok:
  assumes "chunks_ok ch" "k \<le> length buf" "off + length buf < 2 ^ 64"
  shows "copy_out_loop ch off k buf = Inr (take k buf @ map (byte_at ch) [off + k..<off + length buf])"
  using assms(2,3)
proof (induction "length buf - k" arbitrary: k buf rule: less_induct)
  case less
  show ?case
  proof (cases "k < length buf")
    case False
    then show ?thesis using less.prems by (subst copy_out_loop.simps) simp
  next
    case True
    define w where "w = (off + k) mod CHUNK"
    define n where "n = min (length buf - k) (CHUNK - w)"
    have w: "w < CHUNK" by (simp add: w_def)
    have n: "0 < n" "k + n \<le> length buf" "w + n \<le> CHUNK" using True w by (auto simp: n_def)
    then have less_rem: "length buf - (k + n) < length buf - k" by linarith
    have pos: "add64 off k = off + k" using True less.prems(2) by (intro nowrap) simp
    define s where "s = map (byte_at ch) [off + k..<off + k + n]"
    have s: "(case Mapping.lookup ch ((off + k) div CHUNK) of
        Some c \<Rightarrow> and_then (read_slice w n c) (\<lambda>s. write_slice k s buf)
      | None \<Rightarrow> write_slice k (replicate n 0) buf) = Inr (splice k s buf)"
    proof -
      have at: "byte_at ch (off + k + i) = (case Mapping.lookup ch ((off + k) div CHUNK) of Some c \<Rightarrow> c ! (w + i) | None \<Rightarrow> 0)"
        if "i < n" for i
      proof -
        define q where "q = (off + k) div CHUNK"
        have e: "off + k + i = q * CHUNK + (w + i)" by (simp add: q_def w_def)
        have "(off + k + i) div CHUNK = q" "(off + k + i) mod CHUNK = w + i"
          unfolding e using that n(3) by simp_all
        then show ?thesis by (simp only: byte_at_def q_def [symmetric])
      qed
      show ?thesis
      proof (cases "Mapping.lookup ch ((off + k) div CHUNK)")
        case None
        then have "s = replicate n 0" using at by (intro nth_equalityI) (simp_all add: s_def)
        then show ?thesis using None n by (simp add: slice_simps)
      next
        case (Some c)
        then have "length c = CHUNK" using assms(1) by (simp add: chunks_ok_def)
        moreover from this have "s = slice w n c" using at Some n by (intro nth_equalityI) (simp_all add: s_def nth_slice)
        ultimately show ?thesis using Some n by (simp add: slice_simps)
      qed
    qed
    have len: "length (splice k s buf) = length buf" using n by (simp add: s_def slice_simps)
    have "copy_out_loop ch off k buf = copy_out_loop ch off (k + n) (splice k s buf)"
      by (subst copy_out_loop.simps)
         (simp only: True if_True pos Let_def w_def [symmetric] n_def [symmetric] s and_then_simps)
    also have "\<dots> = Inr (take (k + n) (splice k s buf) @ map (byte_at ch) [off + (k + n)..<off + length buf])"
      using less.hyps [of "splice k s buf" "k + n"] n less_rem len less.prems(2) by simp
    also have "take (k + n) (splice k s buf) = take k buf @ s" using n by (simp add: splice_def s_def)
    also have "(take k buf @ s) @ map (byte_at ch) [off + (k + n)..<off + length buf] =
        take k buf @ map (byte_at ch) [off + k..<off + length buf]"
      using upt_add_eq_append [of "off + k" "off + k + n" "length buf - (k + n)"] n
      by (simp add: s_def add.assoc)
    finally show ?thesis .
  qed
qed

subsection \<open>Zeroing\<close>

definition zeroed :: "(nat \<Rightarrow> u8) \<Rightarrow> nat \<Rightarrow> nat \<Rightarrow> nat \<Rightarrow> u8" where
  "zeroed f off len i = (if off \<le> i \<and> i < off + len then 0 else f i)"

lemma zero_chunk_ok:
  assumes ok: "chunks_ok ch" and le: "off \<le> stop" "stop \<le> 2 ^ 63" and idx: "off div CHUNK \<le> idx" "idx < div_ceil stop CHUNK"
  shows "\<exists>ch'. zero_chunk off stop idx ch = Inr ch' \<and> chunks_ok ch' \<and>
    (\<forall>i. byte_at ch' i = (if i div CHUNK = idx \<and> off \<le> i \<and> i < stop then 0 else byte_at ch i))"
proof -
  define cs ce where "cs = idx * CHUNK" and "ce = (idx + 1) * CHUNK"
  have "stop \<noteq> 0" using idx(2) by (cases "stop = 0") (simp_all add: div_ceil_def)
  have "idx \<le> div_ceil stop CHUNK - 1" using idx(2) by simp
  then have "idx * CHUNK \<le> (div_ceil stop CHUNK - 1) * CHUNK" by (rule mult_le_mono1)
  then have cs: "cs < stop"
    using le_less_trans div_ceil_bounds(2) [OF CHUNK_pos(1) \<open>stop \<noteq> 0\<close>] unfolding cs_def by blast
  have ce: "off < ce" using idx(1) by (simp add: ce_def) (metis add.commute div_less_iff_less_mult CHUNK_pos(1) le_imp_less_Suc mult_Suc)
  have ceq: "ce = cs + CHUNK" by (simp add: cs_def ce_def)
  have small: "ce < 2 ^ 64" using cs le by (simp add: ceq CHUNK_def)
  have "idx \<le> cs" by (simp add: cs_def CHUNK_def)
  then have "idx + 1 < 2 ^ 64" using cs le by simp
  then have w: "mul64 idx CHUNK = cs" "mul64 (add64 idx 1) CHUNK = ce"
    using cs le small by (simp_all add: add64_nowrap [unfolded One_nat_def] mul64_def cs_def ce_def)
  define zs ze where "zs = max off cs" and "ze = min stop ce"
  have z: "cs \<le> zs" "zs \<le> ze" "ze \<le> ce" "ze < 2 ^ 64" using cs ce le small by (auto simp: zs_def ze_def ceq)
  then have sub: "sub64 zs cs = zs - cs" "sub64 (sub64 ze cs) (zs - cs) = ze - zs"
    by (simp_all add: nowrap)
  have in': "i div CHUNK = idx \<and> off \<le> i \<and> i < stop \<longleftrightarrow> zs \<le> i \<and> i < ze" for i
    using in_chunk [of 0 CHUNK cs idx i] by (auto simp: cs_def ceq zs_def ze_def)
  have def: "zero_chunk off stop idx ch =
      (if zs = cs \<and> ze = ce then Inr (Mapping.delete idx ch)
       else case Mapping.lookup ch idx of
           Some c \<Rightarrow> and_then (write_slice (zs - cs) (replicate (ze - zs) 0) c) (\<lambda>c'. Inr (Mapping.update idx c' ch))
         | None \<Rightarrow> Inr ch)"
    unfolding zero_chunk_def Let_def w zs_def [symmetric] ze_def [symmetric] sub by (rule refl)
  consider (all) "zs = cs \<and> ze = ce" | (none) "\<not> (zs = cs \<and> ze = ce)" "Mapping.lookup ch idx = None"
    | (some) c where "\<not> (zs = cs \<and> ze = ce)" "Mapping.lookup ch idx = Some c" by (cases "Mapping.lookup ch idx") auto
  then show ?thesis
  proof cases
    case all
    then have "byte_at (Mapping.delete idx ch) i = (if zs \<le> i \<and> i < ze then 0 else byte_at ch i)" for i
      using in_chunk [of 0 CHUNK cs idx i] by (auto simp: byte_at_delete cs_def ceq)
    then show ?thesis using all ok def unfolding in' by (auto simp: chunks_ok_delete)
  next
    case none
    then have "byte_at ch i = 0" if "zs \<le> i" "i < ze" for i
      using in' [of i] that by (simp add: byte_at_def)
    then show ?thesis using none ok def unfolding in' by auto
  next
    case some
    have len: "length c = CHUNK" using some ok by (simp add: chunks_ok_def)
    define c' where "c' = splice (zs - cs) (replicate (ze - zs) 0) c"
    have fits: "zs - cs + (ze - zs) \<le> CHUNK" using z ceq by simp
    have "byte_at (Mapping.update idx c' ch) i = (if zs \<le> i \<and> i < ze then 0 else byte_at ch i)" for i
    proof (cases "i div CHUNK = idx")
      case True
      define j where "j = i mod CHUNK"
      have i: "i = cs + j" "j < CHUNK" using True div_mult_mod_eq [of i CHUNK] by (simp_all add: j_def cs_def)
      have "c' ! j = (if zs - cs \<le> j \<and> j < zs - cs + (ze - zs) then 0 else c ! j)"
        using fits len i(2) by (auto simp: c'_def nth_splice)
      moreover have "zs - cs \<le> j \<and> j < zs - cs + (ze - zs) \<longleftrightarrow> zs \<le> i \<and> i < ze" using z i by auto
      ultimately show ?thesis using True some by (simp add: byte_at_update j_def [symmetric] byte_at_def)
    next
      case False
      then show ?thesis using in' [of i] by (auto simp: byte_at_update)
    qed
    moreover have "chunks_ok (Mapping.update idx c' ch)"
      using ok len fits by (simp add: chunks_ok_update c'_def slice_simps)
    moreover have "zero_chunk off stop idx ch = Inr (Mapping.update idx c' ch)"
      using def some len fits by (simp add: slice_simps c'_def)
    ultimately show ?thesis unfolding in' by blast
  qed
qed

lemma zero_chunks_ok:
  assumes "chunks_ok ch" "off \<le> stop" "stop \<le> 2 ^ 63"
    and "\<forall>k\<in>set keys. off div CHUNK \<le> k \<and> k < div_ceil stop CHUNK"
  shows "\<exists>ch'. try_fold (zero_chunk off stop) keys ch = Inr ch' \<and> chunks_ok ch' \<and>
    (\<forall>i. byte_at ch' i = (if i div CHUNK \<in> set keys \<and> off \<le> i \<and> i < stop then 0 else byte_at ch i))"
  using assms(1,4)
proof (induction keys arbitrary: ch)
  case (Cons k keys)
  obtain ch1 where ch1: "zero_chunk off stop k ch = Inr ch1" "chunks_ok ch1"
    "\<forall>i. byte_at ch1 i = (if i div CHUNK = k \<and> off \<le> i \<and> i < stop then 0 else byte_at ch i)"
    using zero_chunk_ok [of ch off stop k] Cons.prems assms(2,3) by auto
  obtain ch2 where "try_fold (zero_chunk off stop) keys ch1 = Inr ch2" "chunks_ok ch2"
    "\<forall>i. byte_at ch2 i = (if i div CHUNK \<in> set keys \<and> off \<le> i \<and> i < stop then 0 else byte_at ch1 i)"
    using Cons.IH [of ch1] ch1(2) Cons.prems(2) by auto
  then show ?case using ch1 by (intro exI [of _ ch2]) auto
qed simp

text \<open>The chunks outside the key range of a zeroing hold no byte of its byte range.\<close>

lemma keys_cover:
  assumes "off \<le> i" "i < stop"
  shows "off div CHUNK \<le> i div CHUNK" "i div CHUNK < div_ceil stop CHUNK"
proof -
  show "off div CHUNK \<le> i div CHUNK" using assms(1) by (rule div_le_mono)
  have "i < div_ceil stop CHUNK * CHUNK" using assms(2) div_ceil_bounds(1) [of CHUNK stop] by simp
  then show "i div CHUNK < div_ceil stop CHUNK" by (simp add: div_less_iff_less_mult)
qed

section \<open>The contract of a device\<close>

text \<open>
  A device in a good state takes the requests \<open>accepts\<close> describes: inside the device and whole
  sectors at a sector boundary, for a sector that divides 1 MiB. What it then does is
  what a flat array would do: \<open>array_device\<close> for reads, writes and flushes, which is enough for the default zeroing;
  \<open>block_device\<close> for the device's own zeroing as well.
\<close>

definition accepts :: "'d dev_ops \<Rightarrow> ('d \<Rightarrow> nat) \<Rightarrow> 'd \<Rightarrow> nat \<Rightarrow> nat \<Rightarrow> bool" where
  "accepts D sector d off len \<longleftrightarrow> off + len \<le> dev_size D d \<and> sector d dvd off \<and> sector d dvd len"

definition same_device :: "'d dev_ops \<Rightarrow> ('d \<Rightarrow> nat) \<Rightarrow> 'd \<Rightarrow> 'd \<Rightarrow> bool" where
  "same_device D sector d d' \<longleftrightarrow> dev_size D d' = dev_size D d \<and> sector d' = sector d \<and>
     dev_logical D d' = dev_logical D d \<and> dev_physical D d' = dev_physical D d"

locale array_device =
  fixes D :: "'d dev_ops"
    and good :: "'d \<Rightarrow> bool"
    and content :: "'d \<Rightarrow> nat \<Rightarrow> u8"
    and sector :: "'d \<Rightarrow> nat"
  assumes sector_dvd: "good d \<Longrightarrow> sector d dvd ZERO_CHUNK"
    and size_le: "good d \<Longrightarrow> dev_size D d \<le> 2 ^ 63"
    and sector_logical: "good d \<Longrightarrow> sector d dvd max (dev_logical D d) 512"
    and read_at: "good d \<Longrightarrow> accepts D sector d off len \<Longrightarrow>
      dev_read_at D d off len = Inr (map (content d) [off..<off + len])"
    and write_at: "good d \<Longrightarrow> accepts D sector d off (length buf) \<Longrightarrow>
      \<exists>d'. dev_write_at D d off buf = Inr d' \<and> good d' \<and> same_device D sector d d' \<and>
        content d' = overwrite (content d) off buf"
    and flush: "good d \<Longrightarrow>
      \<exists>d'. dev_flush D d = Inr d' \<and> good d' \<and> same_device D sector d d' \<and> content d' = content d"
begin

lemma read_after_write:
  assumes "good d" "accepts D sector d off (length buf)" "dev_write_at D d off buf = Inr d'"
  shows "dev_read_at D d' off (length buf) = Inr buf"
proof -
  obtain e where "dev_write_at D d off buf = Inr e" "good e" "same_device D sector d e"
    "content e = overwrite (content d) off buf"
    using write_at [OF assms(1,2)] by blast
  then have e: "good d'" "accepts D sector d' off (length buf)" "content d' = overwrite (content d) off buf"
    using assms by (auto simp: accepts_def same_device_def)
  have "map (content d') [off..<off + length buf] = buf"
    by (rule nth_equalityI) (simp_all add: e(3) overwrite_def)
  then show ?thesis using read_at [OF e(1,2)] by simp
qed

text \<open>The default zeroing loop does what the contract of \<^verbatim>\<open>write_zeroes\<close> asks for.\<close>

lemma zero_loop_ok:
  assumes "good d" "accepts D sector d off len" "sector d dvd buflen" "0 < buflen" "sector d dvd k" "k \<le> len"
  shows "\<exists>d'. zero_loop (dev_write_at D) off len buflen k d = Inr d' \<and> good d' \<and> same_device D sector d d' \<and>
    content d' = zeroed (content d) (off + k) (len - k)"
  using assms
proof (induction "len - k" arbitrary: k d rule: less_induct)
  case less
  show ?case
  proof (cases "k < len")
    case False
    then have "content d = zeroed (content d) (off + k) (len - k)" by (auto simp: zeroed_def fun_eq_iff)
    then show ?thesis using False less.prems(1) by (subst zero_loop.simps) (auto simp: same_device_def)
  next
    case True
    define n where "n = min (len - k) buflen"
    have n: "0 < n" "k + n \<le> len" "sector d dvd n" "n \<le> buflen"
      using True less.prems by (auto simp: n_def accepts_def min_def dvd_diff_nat)
    have "off + k < 2 ^ 64" using less.prems(2) size_le [OF less.prems(1)] True by (simp add: accepts_def)
    then have pos: "add64 off k = off + k" by (rule add64_nowrap)
    have "accepts D sector d (off + k) (length (replicate n (0 :: u8)))"
      using less.prems n by (simp add: accepts_def)
    then obtain d1 where d1: "dev_write_at D d (off + k) (replicate n 0) = Inr d1" "good d1" "same_device D sector d d1"
      "content d1 = overwrite (content d) (off + k) (replicate n 0)"
      using write_at [OF less.prems(1)] by blast
    have same: "sector d1 = sector d" "dev_size D d1 = dev_size D d" using d1(3) by (simp_all add: same_device_def)
    have rem: "len - (k + n) < len - k" using n by linarith
    obtain d2 where d2: "zero_loop (dev_write_at D) off len buflen (k + n) d1 = Inr d2" "good d2"
      "same_device D sector d1 d2" "content d2 = zeroed (content d1) (off + (k + n)) (len - (k + n))"
      using less.hyps [OF rem d1(2)] less.prems n same by (auto simp: accepts_def)
    have "zero_loop (dev_write_at D) off len buflen k d = Inr d2"
      using True less.prems(4) d1(1) d2(1)
      by (subst zero_loop.simps) (simp add: pos Let_def n_def [symmetric])
    moreover have "content d2 = zeroed (content d) (off + k) (len - k)"
      using n(2) by (auto simp: d2(4) d1(4) zeroed_def overwrite_def fun_eq_iff)
    ultimately show ?thesis using d1(3) d2(2,3) by (auto simp: same_device_def)
  qed
qed

lemma default_zeroes_ok:
  assumes "good d" "accepts D sector d off len"
  shows "\<exists>d'. default_write_zeroes (dev_write_at D) d off len = Inr d' \<and> good d' \<and> same_device D sector d d' \<and>
    content d' = zeroed (content d) off len"
proof (cases "len = 0")
  case True
  then have "default_write_zeroes (dev_write_at D) d off len = Inr d" "content d = zeroed (content d) off len"
    by (auto simp: default_write_zeroes_def zero_loop.simps zeroed_def fun_eq_iff)
  then show ?thesis using assms(1) by (auto simp: same_device_def)
next
  case False
  then have "max (min ZERO_CHUNK len) 1 = min ZERO_CHUNK len" by (simp add: ZERO_CHUNK_def)
  moreover have "sector d dvd min ZERO_CHUNK len"
    using sector_dvd [OF assms(1)] assms(2) by (simp add: min_def accepts_def)
  ultimately show ?thesis
    using zero_loop_ok [OF assms, of "min ZERO_CHUNK len" 0] False
    by (simp add: default_write_zeroes_def ZERO_CHUNK_def)
qed

end

locale block_device = array_device D good content sector
  for D :: "'d dev_ops"
    and good :: "'d \<Rightarrow> bool"
    and content :: "'d \<Rightarrow> nat \<Rightarrow> u8"
    and sector :: "'d \<Rightarrow> nat" +
  assumes write_zeroes: "good d \<Longrightarrow> accepts D sector d off len \<Longrightarrow>
      \<exists>d'. dev_write_zeroes D d off len = Inr d' \<and> good d' \<and> same_device D sector d d' \<and>
        content d' = zeroed (content d) off len"

section \<open>\<^verbatim>\<open>MemDevice\<close> meets the contract\<close>

definition md_good :: "mem_device \<Rightarrow> bool" where
  "md_good d \<longleftrightarrow> chunks_ok (md_chunks d) \<and> md_size d \<le> 2 ^ 63 \<and> (md_strict d \<longrightarrow> md_logical d dvd ZERO_CHUNK)"

definition md_content :: "mem_device \<Rightarrow> nat \<Rightarrow> u8" where
  "md_content d = byte_at (md_chunks d)"

definition md_sector :: "mem_device \<Rightarrow> nat" where
  "md_sector d = (if md_strict d then md_logical d else 1)"

lemma mem_ops_simps [simp]:
  "dev_size mem_ops = md_size" "dev_logical mem_ops = md_logical" "dev_physical mem_ops = md_physical"
  "dev_read_at mem_ops = md_read_at" "dev_write_at mem_ops = md_write_at" "dev_flush mem_ops = md_flush"
  "dev_write_zeroes mem_ops = md_write_zeroes"
  by (simp_all add: mem_ops_def)

lemma md_checks:
  assumes "md_good d" "accepts mem_ops md_sector d off len"
  shows "check_bounds off len (md_size d) = Inr ()" "check_aligned d off len = Inr ()" "off + len \<le> 2 ^ 63"
proof -
  show "off + len \<le> 2 ^ 63" using assms by (simp add: accepts_def md_good_def)
  then show "check_bounds off len (md_size d) = Inr ()" using assms(2) by (simp add: check_bounds_def accepts_def)
  show "check_aligned d off len = Inr ()"
    using assms by (auto simp: check_aligned_def accepts_def md_sector_def md_good_def dvd_eq_mod_eq_0 ZERO_CHUNK_def)
qed

lemma md_good_chunks: "md_good d \<Longrightarrow> chunks_ok ch \<Longrightarrow> md_good (d\<lparr>md_chunks := ch\<rparr>)"
  by (simp add: md_good_def)

lemma same_device_chunks [simp]: "same_device mem_ops md_sector d (d\<lparr>md_chunks := ch\<rparr>)"
  by (simp add: same_device_def md_sector_def)

lemma zeroed_by_keys:
  assumes "finite (Mapping.keys ch)" "off \<le> stop"
    and "\<And>i. byte_at ch' i = (if i div CHUNK \<in> Mapping.keys ch \<and> off div CHUNK \<le> i div CHUNK \<and>
      i div CHUNK < div_ceil stop CHUNK \<and> off \<le> i \<and> i < stop then 0 else byte_at ch i)"
  shows "byte_at ch' = zeroed (byte_at ch) off (stop - off)"
proof
  fix i
  have "byte_at ch i = 0" if "i div CHUNK \<notin> Mapping.keys ch"
    using that by (simp add: byte_at_def keys_dom_lookup domIff)
  then show "byte_at ch' i = zeroed (byte_at ch) off (stop - off) i"
    using assms(2) keys_cover [of off i stop] by (auto simp: assms(3) zeroed_def)
qed

interpretation mem: block_device mem_ops md_good md_content md_sector
proof
  fix d :: mem_device
  assume good: "md_good d"
  then have ok: "chunks_ok (md_chunks d)" by (simp add: md_good_def)
  show "md_sector d dvd ZERO_CHUNK" "dev_size mem_ops d \<le> 2 ^ 63"
    using good by (simp_all add: md_good_def md_sector_def)
  show "md_sector d dvd max (dev_logical mem_ops d) 512"
  proof (cases "md_strict d")
    case True
    then have "md_logical d dvd 2 ^ 20" using good by (simp add: md_good_def ZERO_CHUNK_def)
    then obtain i where i: "md_logical d = 2 ^ i" by (rule divisor_of_power_two)
    have "(2::nat) ^ i dvd 2 ^ 9" if "(2::nat) ^ i \<le> 2 ^ 9"
      using power_le_imp_le_exp [OF _ that] by (intro le_imp_power_dvd) simp
    then show ?thesis using i True by (auto simp: md_sector_def max_def)
  qed (simp add: md_sector_def)
  show "\<exists>d'. dev_flush mem_ops d = Inr d' \<and> md_good d' \<and> same_device mem_ops md_sector d d' \<and> md_content d' = md_content d"
    using good by (simp add: md_flush_def same_device_def)
  show "dev_read_at mem_ops d off len = Inr (map (md_content d) [off..<off + len])"
    if "accepts mem_ops md_sector d off len" for off len
    using md_checks [OF good that] copy_out_loop_ok [OF ok, of 0 "replicate len 0" off]
    by (simp add: md_read_at_def copy_out_def md_content_def)
  show "\<exists>d'. dev_write_at mem_ops d off buf = Inr d' \<and> md_good d' \<and> same_device mem_ops md_sector d d' \<and>
      md_content d' = overwrite (md_content d) off buf"
    if acc: "accepts mem_ops md_sector d off (length buf)" for off buf
  proof -
    note c = md_checks [OF good acc]
    have "off + length buf < 2 ^ 64" using c(3) by simp
    then obtain ch where "copy_in_loop off buf 0 (md_chunks d) = Inr ch" "chunks_ok ch"
      "byte_at ch = overwrite (byte_at (md_chunks d)) off buf"
      using copy_in_loop_ok [OF ok, of 0 buf off] by auto
    then show ?thesis using c good
      by (intro exI [of _ "d\<lparr>md_chunks := ch\<rparr>"]) (simp add: md_write_at_def copy_in_def md_content_def md_good_chunks)
  qed
  show "\<exists>d'. dev_write_zeroes mem_ops d off len = Inr d' \<and> md_good d' \<and> same_device mem_ops md_sector d d' \<and>
      md_content d' = zeroed (md_content d) off len"
    if acc: "accepts mem_ops md_sector d off len" for off len
  proof -
    note c = md_checks [OF good acc]
    have fin: "finite (Mapping.keys (md_chunks d))" using ok by (simp add: chunks_ok_def)
    define keys where "keys = filter (\<lambda>k. off div CHUNK \<le> k \<and> k < div_ceil (off + len) CHUNK) (Mapping.ordered_keys (md_chunks d))"
    obtain ch where ch: "try_fold (zero_chunk off (off + len)) keys (md_chunks d) = Inr ch" "chunks_ok ch"
      "\<forall>i. byte_at ch i = (if i div CHUNK \<in> set keys \<and> off \<le> i \<and> i < off + len then 0 else byte_at (md_chunks d) i)"
      using zero_chunks_ok [OF ok, of off "off + len" keys] c(3) by (auto simp: keys_def)
    have "byte_at ch = zeroed (byte_at (md_chunks d)) off (off + len - off)"
      using fin ch(3) by (intro zeroed_by_keys) (auto simp: keys_def)
    then show ?thesis using c good ch add64_nowrap [of off len]
      by (intro exI [of _ "d\<lparr>md_chunks := ch\<rparr>"])
        (simp add: md_write_zeroes_def keys_def [symmetric] Let_def md_content_def md_good_chunks)
  qed
qed

section \<open>Properties\<close>

text \<open>
  \<^bold>\<open>C29\<close>. The sparse in-memory device refines a flat array of bytes: a read returns the bytes of
  the array, a write replaces exactly its range, and zeroing clears exactly its range, for every
  request inside the device that keeps to the sectors a strict device insists on.
\<close>

theorem mem_device_refines_array:
  assumes "md_good d" "accepts mem_ops md_sector d off (length buf)"
  shows "md_read_at d off (length buf) = Inr (map (md_content d) [off..<off + length buf]) \<and>
    (\<exists>d'. md_write_at d off buf = Inr d' \<and> md_good d' \<and> md_content d' = overwrite (md_content d) off buf \<and>
      md_read_at d' off (length buf) = Inr buf) \<and>
    (\<exists>d'. md_write_zeroes d off (length buf) = Inr d' \<and> md_good d' \<and>
      md_content d' = zeroed (md_content d) off (length buf))"
proof -
  obtain d' where d': "md_write_at d off buf = Inr d'" "md_good d'" "md_content d' = overwrite (md_content d) off buf"
    using mem.write_at [OF assms] by auto
  moreover have "md_read_at d' off (length buf) = Inr buf" using mem.read_after_write [OF assms] d'(1) by simp
  ultimately show ?thesis using mem.read_at [OF assms] mem.write_zeroes [OF assms] by (simp, metis)
qed

lemma md_new_good: "sz \<le> 2 ^ 63 \<Longrightarrow> md_good (md_new sz)"
  by (simp add: md_good_def md_new_def md_with_sector_size_def chunks_ok_def)

theorem mem_device_refines_array_witness:
  "md_read_at (md_new (2 ^ 20)) 65534 (length [1 :: u8, 2, 3, 4]) =
     Inr (map (md_content (md_new (2 ^ 20))) [65534..<65534 + length [1 :: u8, 2, 3, 4]]) \<and>
   (\<exists>d'. md_write_at (md_new (2 ^ 20)) 65534 [1, 2, 3, 4] = Inr d' \<and> md_good d' \<and>
     md_content d' = overwrite (md_content (md_new (2 ^ 20))) 65534 [1, 2, 3, 4] \<and>
     md_read_at d' 65534 (length [1 :: u8, 2, 3, 4]) = Inr [1, 2, 3, 4]) \<and>
   (\<exists>d'. md_write_zeroes (md_new (2 ^ 20)) 65534 (length [1 :: u8, 2, 3, 4]) = Inr d' \<and> md_good d' \<and>
     md_content d' = zeroed (md_content (md_new (2 ^ 20))) 65534 (length [1 :: u8, 2, 3, 4]))"
  by (rule mem_device_refines_array)
     (rule md_new_good, simp, simp add: accepts_def md_sector_def md_new_def md_with_sector_size_def)

text \<open>
  The trait's default \<^verbatim>\<open>write_zeroes\<close>, which writes zeroes a mebibyte at a time, leaves the
  same bytes as the in-memory device's own, which drops chunks.
\<close>

theorem default_zeroes_agree:
  assumes "md_good d" "accepts mem_ops md_sector d off len"
  shows "\<exists>d1 d2. default_write_zeroes md_write_at d off len = Inr d1 \<and> md_write_zeroes d off len = Inr d2 \<and>
    md_content d1 = md_content d2 \<and> md_good d1 \<and> md_good d2"
  using mem.default_zeroes_ok [OF assms] mem.write_zeroes [OF assms] by (simp, metis)

theorem default_zeroes_agree_witness:
  "\<exists>d1 d2. default_write_zeroes md_write_at (md_new (2 ^ 30)) 4096 (3 * 2 ^ 20) = Inr d1 \<and>
     md_write_zeroes (md_new (2 ^ 30)) 4096 (3 * 2 ^ 20) = Inr d2 \<and> md_content d1 = md_content d2"
  using default_zeroes_agree [OF md_new_good [of "2 ^ 30"], of 4096 "3 * 2 ^ 20"]
  by (auto simp: accepts_def md_sector_def md_new_def md_with_sector_size_def)

text \<open>
  A request the contract does not allow is refused with an error that says why: past the
  end of the device, or, on a strict device, not whole sectors.
\<close>

theorem mem_device_refuses:
  assumes "md_good d" "\<not> accepts mem_ops md_sector d off (length buf)"
  shows "md_write_at d off buf =
    Inl (if md_size d < off + length buf then OutOfBounds off (length buf) (md_size d) else Io off)"
proof (cases "md_size d < off + length buf")
  case True
  then have "check_bounds off (length buf) (md_size d) = Inl (OutOfBounds off (length buf) (md_size d))"
    by (simp add: check_bounds_def)
  then show ?thesis using True by (simp add: md_write_at_def)
next
  case False
  then have "check_bounds off (length buf) (md_size d) = Inr ()"
    using assms(1) by (simp add: check_bounds_def md_good_def)
  moreover have "check_aligned d off (length buf) = Inl (Io off)"
  proof -
    have "md_strict d" and nd: "\<not> (md_logical d dvd off \<and> md_logical d dvd length buf)"
      using assms(2) False by (auto simp: accepts_def md_sector_def split: if_splits)
    moreover have "md_logical d \<noteq> 0"
    proof
      assume "md_logical d = 0"
      then have "0 dvd ZERO_CHUNK" using assms(1) \<open>md_strict d\<close> by (simp add: md_good_def)
      then show False by (simp only: dvd_0_left_iff) (simp add: ZERO_CHUNK_def)
    qed
    ultimately show ?thesis unfolding check_aligned_def mod_eq_0_iff_dvd by simp
  qed
  ultimately show ?thesis using False by (simp add: md_write_at_def)
qed

theorem mem_device_refuses_witness:
  "md_write_at (md_strict_new 1048576 4096) 512 [7, 7] =
     Inl (if md_size (md_strict_new 1048576 4096) < 512 + length [7 :: u8, 7]
          then OutOfBounds 512 (length [7 :: u8, 7]) (md_size (md_strict_new 1048576 4096)) else Io 512)"
proof (rule mem_device_refuses)
  have "ZERO_CHUNK = 4096 * 256" by (simp add: ZERO_CHUNK_def)
  then have "4096 dvd ZERO_CHUNK" by (rule dvdI)
  then show "md_good (md_strict_new 1048576 4096)"
    by (simp add: md_good_def md_strict_new_def md_with_sector_size_def chunks_ok_def)
  have "\<not> 4096 dvd (512 :: nat)" by (rule nat_dvd_not_less) simp_all
  then show "\<not> accepts mem_ops md_sector (md_strict_new 1048576 4096) 512 (length [7 :: u8, 7])"
    by (simp only: accepts_def md_sector_def md_strict_new_def md_with_sector_size_def mem_device.simps) simp
qed

end
