(* ===== verification/Ag_Plan.thy ===== *)
theory Ag_Plan
  imports Log_Record "HOL-Library.Product_Lexorder"
begin

section \<open>The plan of an allocation group (\<^verbatim>\<open>src/format.rs\<close>)\<close>

text \<open>
  The end state of one allocation group: its free extents, its free list, its reverse
  mappings and, in group 0, the root inode chunk. \<open>rmap_insert\<close>, \<open>take_extent\<close> (\<^verbatim>\<open>take\<close>) and
  \<open>plan_ag\<close> follow the source; \<^verbatim>\<open>partition_point\<close> is the length of the longest prefix, which is what
  it returns on the sorted lists it is called with. \<^verbatim>\<open>Vec::remove\<close> and \<^verbatim>\<open>Vec::insert\<close> are
  \<open>vec_remove\<close> and \<open>vec_insert\<close>, \<^verbatim>\<open>min_by_key\<close> returns the first least element and \<^verbatim>\<open>max_by_key\<close>
  the last greatest.
\<close>

subsection \<open>Vectors and iterators\<close>

definition vec_remove :: "nat \<Rightarrow> 'a list \<Rightarrow> 'a list" where
  "vec_remove i xs = take i xs @ drop (Suc i) xs"

definition vec_insert :: "nat \<Rightarrow> 'a \<Rightarrow> 'a list \<Rightarrow> 'a list" where
  "vec_insert i x xs = take i xs @ [x] @ drop i xs"

fun position :: "('a \<Rightarrow> bool) \<Rightarrow> 'a list \<Rightarrow> nat option" where
  "position P [] = None"
| "position P (x # xs) = (if P x then Some 0 else map_option Suc (position P xs))"

fun min_by_key :: "('a \<Rightarrow> 'k::linorder) \<Rightarrow> 'a list \<Rightarrow> 'a option" where
  "min_by_key key [] = None"
| "min_by_key key (x # xs) =
     (case min_by_key key xs of None \<Rightarrow> Some x | Some y \<Rightarrow> Some (if key y < key x then y else x))"

fun max_by_key :: "('a \<Rightarrow> 'k::linorder) \<Rightarrow> 'a list \<Rightarrow> 'a option" where
  "max_by_key key [] = None"
| "max_by_key key (x # xs) =
     (case max_by_key key xs of None \<Rightarrow> Some x | Some y \<Rightarrow> Some (if key x \<le> key y then y else x))"

subsection \<open>Plans\<close>

record ag_plan =
  ap_agno :: nat
  ap_length :: nat
  ap_free :: "alloc_rec list"
  ap_agfl :: "nat list"
  ap_rmap :: "rmap_rec list"
  ap_chunk :: "nat option"

definition freeblks :: "ag_plan \<Rightarrow> nat" where
  "freeblks p = foldl add64 0 (map ar_count (ap_free p))"

definition longest :: "ag_plan \<Rightarrow> nat" where
  "longest p = (case max_by_key id (map ar_count (ap_free p)) of Some n \<Rightarrow> n | None \<Rightarrow> 0)"

subsection \<open>Reverse mappings\<close>

definition add_count :: "nat \<Rightarrow> rmap_rec \<Rightarrow> rmap_rec" where
  "add_count n r = RmapRec (rr_start r) (add32 (rr_count r) n) (rr_owner r)"

definition rmap_insert :: "rmap_rec list \<Rightarrow> rmap_rec \<Rightarrow> rmap_rec list" where
  "rmap_insert rmap rec =
     (let pos = length (takeWhile (\<lambda>r. rr_start r < rr_start rec) rmap);
          left = (if pos = 0 then None
                  else let l = rmap ! (pos - 1) in
                    if rr_owner l = rr_owner rec \<and> add32 (rr_start l) (rr_count l) = rr_start rec
                    then Some (pos - 1) else None);
          right = (if pos < length rmap \<and> rr_owner (rmap ! pos) = rr_owner rec \<and>
                      add32 (rr_start rec) (rr_count rec) = rr_start (rmap ! pos)
                   then Some pos else None) in
      case (left, right) of
        (Some l, Some r) \<Rightarrow>
          vec_remove r (rmap[l := add_count (add32 (rr_count rec) (rr_count (rmap ! r))) (rmap ! l)])
      | (Some l, None) \<Rightarrow> rmap[l := add_count (rr_count rec) (rmap ! l)]
      | (None, Some r) \<Rightarrow>
          rmap[r := RmapRec (rr_start rec) (add32 (rr_count (rmap ! r)) (rr_count rec)) (rr_owner (rmap ! r))]
      | (None, None) \<Rightarrow> vec_insert pos rec rmap)"

subsection \<open>Free extents\<close>

definition take_extent :: "alloc_rec list \<Rightarrow> nat \<Rightarrow> nat \<Rightarrow> error + alloc_rec list" where
  "take_extent free start len =
     (case position (\<lambda>r. ar_start r \<le> start \<and> add64 start len \<le> add64 (ar_start r) (ar_count r)) free of
        None \<Rightarrow> Inl (InvalidParams (BlocksNotFree start len))
      | Some i \<Rightarrow>
          let r = free ! i;
              free = vec_remove i free;
              rs = ar_start r;
              re = add64 (ar_start r) (ar_count r);
              (free, at) = (if start > rs then (vec_insert i (AllocRec (as_u32 rs) (as_u32 (start - rs))) free, i + 1)
                            else (free, i)) in
          Inr (if add64 start len < re
               then vec_insert at (AllocRec (as_u32 (add64 start len)) (as_u32 (sub64 (sub64 re start) len))) free
               else free))"

definition pick_extent :: "alloc_rec list \<Rightarrow> nat \<Rightarrow> alloc_rec option" where
  "pick_extent free want =
     (case min_by_key (\<lambda>r. (ar_count r, ar_start r)) (filter (\<lambda>r. ar_count r \<ge> want) free) of
        Some r \<Rightarrow> Some r
      | None \<Rightarrow> max_by_key (\<lambda>r. (ar_count r, - int (ar_start r))) free)"

section \<open>Lemmas on the iterators\<close>

lemma position_SomeD:
  "position P xs = Some i \<Longrightarrow> i < length xs \<and> P (xs ! i) \<and> (\<forall>j<i. \<not> P (xs ! j))"
proof (induction xs arbitrary: i)
  case (Cons x xs)
  then show ?case by (cases i) (auto split: if_splits simp: less_Suc_eq_0_disj)
qed simp

lemma position_None_iff: "position P xs = None \<longleftrightarrow> (\<forall>x\<in>set xs. \<not> P x)"
  by (induction xs) auto

lemma min_by_key_None_iff [simp]: "min_by_key key xs = None \<longleftrightarrow> xs = []"
  by (cases xs) (auto split: option.splits)

lemma max_by_key_None_iff [simp]: "max_by_key key xs = None \<longleftrightarrow> xs = []"
  by (cases xs) (auto split: option.splits)

lemma min_by_key_SomeD:
  "min_by_key key xs = Some y \<Longrightarrow> y \<in> set xs \<and> (\<forall>x\<in>set xs. key y \<le> key x)"
  by (induction xs arbitrary: y) (fastforce split: option.splits if_splits)+

lemma max_by_key_SomeD:
  "max_by_key key xs = Some y \<Longrightarrow> y \<in> set xs \<and> (\<forall>x\<in>set xs. key x \<le> key y)"
  by (induction xs arbitrary: y) (fastforce split: option.splits if_splits)+

lemma pick_extent_None_iff: "pick_extent free want = None \<longleftrightarrow> free = []"
  by (auto simp: pick_extent_def split: option.splits)

lemma pick_extent_SomeD:
  assumes "pick_extent free want = Some r"
  shows "r \<in> set free" and "ar_count r < want \<Longrightarrow> x \<in> set free \<Longrightarrow> ar_count x \<le> ar_count r"
    and "ar_count r < want \<Longrightarrow> x \<in> set free \<Longrightarrow> ar_count x = ar_count r \<Longrightarrow> ar_start r \<le> ar_start x"
proof -
  show "r \<in> set free"
    using assms by (auto simp: pick_extent_def split: option.splits dest!: min_by_key_SomeD max_by_key_SomeD)
  assume l: "ar_count r < want" and x: "x \<in> set free"
  have "max_by_key (\<lambda>r. (ar_count r, - int (ar_start r))) free = Some r"
    using assms l by (auto simp: pick_extent_def split: option.splits dest!: min_by_key_SomeD)
  from max_by_key_SomeD [OF this] x
  have m: "(ar_count x, - int (ar_start x)) \<le> (ar_count r, - int (ar_start r))" by blast
  then show "ar_count x \<le> ar_count r" by auto
  show "ar_start r \<le> ar_start x" if "ar_count x = ar_count r" using m that by auto
qed

section \<open>Taking an extent\<close>

lemma take_extent_NoneD:
  assumes "take_extent free start len = Inl e"
  shows "e = InvalidParams (BlocksNotFree start len)"
    "r \<in> set free \<Longrightarrow> \<not> (ar_start r \<le> start \<and> add64 start len \<le> add64 (ar_start r) (ar_count r))"
  using assms by (auto simp: take_extent_def Let_def position_None_iff split: option.splits prod.splits)

lemma take_extent_InrD:
  assumes "take_extent free start len = Inr free'"
  obtains us r vs where "free = us @ r # vs" "ar_start r \<le> start"
    "add64 start len \<le> add64 (ar_start r) (ar_count r)"
    "free' = us @ (if ar_start r < start then [AllocRec (as_u32 (ar_start r)) (as_u32 (start - ar_start r))] else [])
       @ (if add64 start len < add64 (ar_start r) (ar_count r)
          then [AllocRec (as_u32 (add64 start len))
                  (as_u32 (sub64 (sub64 (add64 (ar_start r) (ar_count r)) start) len))] else []) @ vs"
proof -
  obtain i where i: "position (\<lambda>r. ar_start r \<le> start \<and> add64 start len \<le> add64 (ar_start r) (ar_count r)) free = Some i"
    using assms by (auto simp: take_extent_def split: option.splits)
  note p = position_SomeD [OF i]
  show thesis
  proof (rule that [of "take i free" "free ! i" "drop (Suc i) free"])
    show "free = take i free @ free ! i # drop (Suc i) free"
      using p by (simp add: id_take_nth_drop)
    have l: "length (take i free) = i" using p by simp
    show "free' = take i free @
       (if ar_start (free ! i) < start then [AllocRec (as_u32 (ar_start (free ! i))) (as_u32 (start - ar_start (free ! i)))] else [])
       @ (if add64 start len < add64 (ar_start (free ! i)) (ar_count (free ! i))
          then [AllocRec (as_u32 (add64 start len))
                  (as_u32 (sub64 (sub64 (add64 (ar_start (free ! i)) (ar_count (free ! i))) start) len))] else [])
       @ drop (Suc i) free"
      using assms l by (auto simp: take_extent_def i Let_def vec_remove_def vec_insert_def split: if_splits)
  qed (use p in auto)
qed


section \<open>Sorted, disjoint extents\<close>

fun extents_in :: "nat \<Rightarrow> (nat \<times> nat) list \<Rightarrow> nat \<Rightarrow> bool" where
  "extents_in lo [] hi \<longleftrightarrow> lo \<le> hi"
| "extents_in lo ((s, c) # xs) hi \<longleftrightarrow> lo \<le> s \<and> 0 < c \<and> extents_in (s + c) xs hi"

definition ext_blocks :: "(nat \<times> nat) list \<Rightarrow> nat set" where
  "ext_blocks xs = (\<Union>(s, c)\<in>set xs. {s..<s + c})"

definition ar_ext :: "alloc_rec \<Rightarrow> nat \<times> nat" where
  "ar_ext r = (ar_start r, ar_count r)"

definition rr_ext :: "rmap_rec \<Rightarrow> nat \<times> nat" where
  "rr_ext r = (rr_start r, rr_count r)"

abbreviation free_blocks :: "alloc_rec list \<Rightarrow> nat set" where
  "free_blocks free \<equiv> ext_blocks (map ar_ext free)"

abbreviation space_ok :: "nat \<Rightarrow> alloc_rec list \<Rightarrow> nat \<Rightarrow> bool" where
  "space_ok lo free hi \<equiv> extents_in lo (map ar_ext free) hi"

lemma ext_blocks_simps [simp]:
  "ext_blocks [] = {}"
  "ext_blocks ((s, c) # xs) = {s..<s + c} \<union> ext_blocks xs"
  "ext_blocks (xs @ ys) = ext_blocks xs \<union> ext_blocks ys"
  by (auto simp: ext_blocks_def)

lemma ext_simps [simp]: "ar_ext (AllocRec s c) = (s, c)" "rr_ext (RmapRec s c w) = (s, c)"
  by (simp_all add: ar_ext_def rr_ext_def)

lemma extents_in_le: "extents_in lo xs hi \<Longrightarrow> lo \<le> hi"
  by (induction lo xs hi rule: extents_in.induct) auto

lemma extents_in_mono: "extents_in lo xs hi \<Longrightarrow> lo' \<le> lo \<Longrightarrow> hi \<le> hi' \<Longrightarrow> extents_in lo' xs hi'"
  by (induction lo xs hi arbitrary: lo' rule: extents_in.induct) auto

lemma extents_in_append:
  "extents_in lo (xs @ ys) hi \<longleftrightarrow> (\<exists>m. extents_in lo xs m \<and> extents_in m ys hi)"
proof (induction xs arbitrary: lo)
  case Nil
  show ?case using extents_in_mono by (auto dest: extents_in_mono [OF _ _ order.refl])
qed auto

lemma extents_in_blocks: "extents_in lo xs hi \<Longrightarrow> ext_blocks xs \<subseteq> {lo..<hi}"
proof (induction lo xs hi rule: extents_in.induct)
  case (2 lo s c xs hi)
  then show ?case using extents_in_le [of "s + c" xs hi] by fastforce
qed simp

lemma extents_in_card:
  "extents_in lo xs hi \<Longrightarrow> finite (ext_blocks xs) \<and> card (ext_blocks xs) = sum_list (map snd xs)"
proof (induction lo xs hi rule: extents_in.induct)
  case (2 lo s c xs hi)
  then have "ext_blocks xs \<subseteq> {s + c..<hi}" by (auto dest: extents_in_blocks)
  then have "{s..<s + c} \<inter> ext_blocks xs = {}" by fastforce
  then show ?case using 2 by (simp add: card_Un_disjoint)
qed simp

lemma extents_in_member:
  assumes "extents_in lo xs hi" "(s, c) \<in> set xs"
  shows "lo \<le> s" "s + c \<le> hi" "0 < c"
proof -
  obtain us vs where "xs = us @ (s, c) # vs" using assms(2) split_list by fastforce
  then obtain m where "extents_in lo us m" "extents_in m ((s, c) # vs) hi"
    using assms(1) by (auto simp: extents_in_append)
  then show "lo \<le> s" "s + c \<le> hi" "0 < c"
    using extents_in_le [of lo us m] extents_in_le [of "s + c" vs hi] by auto
qed

text \<open>
  \<open>take_extent\<close> on a sorted list of 32-bit extents: it fails exactly when no extent holds the
  blocks, and otherwise removes those blocks and keeps the list sorted and disjoint.
\<close>

lemma free_rec_member:
  assumes "space_ok lo free hi" "r \<in> set free"
  shows "lo \<le> ar_start r" "ar_start r + ar_count r \<le> hi" "0 < ar_count r"
  using extents_in_member [OF assms(1), of "ar_start r" "ar_count r"] assms(2) by (auto simp: ar_ext_def)

lemma take_extent_free:
  assumes ok: "space_ok lo free hi" and hi: "hi < 2 ^ 32" and tk: "take_extent free start len = Inr free'"
    and w: "start + len < 2 ^ 64"
  shows "space_ok lo free' hi \<and> free_blocks free' = free_blocks free - {start..<start + len}"
proof -
  obtain us r vs where f: "free = us @ r # vs" and s: "ar_start r \<le> start"
    and e: "add64 start len \<le> add64 (ar_start r) (ar_count r)"
    and f': "free' = us @ (if ar_start r < start then [AllocRec (as_u32 (ar_start r)) (as_u32 (start - ar_start r))] else [])
       @ (if add64 start len < add64 (ar_start r) (ar_count r)
          then [AllocRec (as_u32 (add64 start len))
                  (as_u32 (sub64 (sub64 (add64 (ar_start r) (ar_count r)) start) len))] else []) @ vs"
    by (rule take_extent_InrD [OF tk])
  define rs re where "rs = ar_start r" and "re = ar_start r + ar_count r"
  have r: "re < 2 ^ 32" "rs < re"
    using free_rec_member [OF ok, of r] hi by (auto simp: f rs_def re_def)
  have a: "add64 (ar_start r) (ar_count r) = re" "add64 start len = start + len"
    using r w by (auto simp: re_def intro: nowrap)
  have le: "start + len \<le> re" using e by (simp add: a)
  have sb: "sub64 re start = re - start" using r le by (intro nowrap) simp_all
  moreover have "sub64 (re - start) len = re - start - len" using r le by (intro nowrap) simp_all
  ultimately have sb2: "sub64 (sub64 re start) len = re - start - len" by simp
  have u: "as_u32 rs = rs" "as_u32 (start - rs) = start - rs" "as_u32 (start + len) = start + len"
    "as_u32 (re - start - len) = re - start - len"
    using r le s by (auto intro!: as_u32_small)
  have f'': "free' = us @ (if rs < start then [AllocRec rs (start - rs)] else [])
      @ (if start + len < re then [AllocRec (start + len) (re - start - len)] else []) @ vs"
    unfolding f' a sb2 unfolding rs_def [symmetric] u ..
  have rx: "ar_ext r = (rs, re - rs)" using r by (simp add: ar_ext_def rs_def re_def)
  obtain m where m: "extents_in lo (map ar_ext us) m" "m \<le> rs" and v: "extents_in re (map ar_ext vs) hi"
    using ok r by (auto simp: f extents_in_append rx)
  have "extents_in rs (map ar_ext ((if rs < start then [AllocRec rs (start - rs)] else [])
      @ (if start + len < re then [AllocRec (start + len) (re - start - len)] else []) @ vs)) hi"
    using extents_in_mono [OF v] r le s [folded rs_def] by simp
  then have "space_ok lo free' hi"
    using extents_in_mono [OF m(1) order.refl m(2)] unfolding f'' map_append [of ar_ext us] extents_in_append by blast
  moreover have "free_blocks free' = free_blocks free - {start..<start + len}"
    using extents_in_blocks [OF m(1)] extents_in_blocks [OF v] m(2) r le s [folded rs_def]
    by (auto simp: f f'' rx; fastforce)
  ultimately show ?thesis ..
qed

lemma take_extent_fails:
  assumes ok: "space_ok lo free hi" and hi: "hi < 2 ^ 32" and w: "start + len < 2 ^ 64"
  shows "(\<exists>e. take_extent free start len = Inl e) \<longleftrightarrow>
         (\<forall>r\<in>set free. \<not> (ar_start r \<le> start \<and> start + len \<le> ar_start r + ar_count r))"
proof -
  have "add64 (ar_start r) (ar_count r) = ar_start r + ar_count r" if "r \<in> set free" for r
    using free_rec_member [OF ok that] hi by (intro nowrap) simp
  moreover have "add64 start len = start + len" using w by (rule nowrap)
  ultimately show ?thesis
    by (auto simp: take_extent_def Let_def position_None_iff split: option.splits prod.splits
        dest!: position_SomeD)
qed


section \<open>Reverse mappings as a map from blocks to owners\<close>

definition owner_of :: "rmap_rec list \<Rightarrow> nat \<rightharpoonup> u64" where
  "owner_of rmap b = map_option rr_owner (find (\<lambda>r. rr_start r \<le> b \<and> b < rr_start r + rr_count r) rmap)"

definition joins :: "rmap_rec \<Rightarrow> rmap_rec \<Rightarrow> bool" where
  "joins a b \<longleftrightarrow> rr_owner a = rr_owner b \<and> rr_start a + rr_count a = rr_start b"

text \<open>A reverse map is sorted, disjoint and merged: no two neighbours could be one record.\<close>

definition rmap_ok :: "nat \<Rightarrow> rmap_rec list \<Rightarrow> nat \<Rightarrow> bool" where
  "rmap_ok lo rmap hi \<longleftrightarrow> extents_in lo (map rr_ext rmap) hi \<and> successively (\<lambda>a b. \<not> joins a b) rmap"

abbreviation rmap_blocks :: "rmap_rec list \<Rightarrow> nat set" where
  "rmap_blocks rmap \<equiv> ext_blocks (map rr_ext rmap)"

lemma owner_of_Nil [simp]: "owner_of [] b = None"
  by (simp add: owner_of_def)

lemma owner_of_Cons:
  "owner_of (r # rmap) b = (if b \<in> {rr_start r..<rr_start r + rr_count r} then Some (rr_owner r) else owner_of rmap b)"
  by (simp add: owner_of_def)

lemma owner_of_append:
  "owner_of (xs @ ys) b = (case owner_of xs b of None \<Rightarrow> owner_of ys b | Some w \<Rightarrow> Some w)"
  by (induction xs) (simp_all add: owner_of_Cons)

lemma owner_of_dom: "owner_of rmap b = None \<longleftrightarrow> b \<notin> rmap_blocks rmap"
  by (induction rmap) (auto simp: owner_of_Cons rr_ext_def)

lemma vec_ops_split [simp]:
  "length us = i \<Longrightarrow> vec_remove i (us @ x # vs) = us @ vs"
  "length us = i \<Longrightarrow> vec_insert i y (us @ vs) = us @ y # vs"
  by (auto simp: vec_remove_def vec_insert_def)

text \<open>
  What \<open>rmap_insert\<close> leaves, with the list split at the insertion point: the record, widened by
  the neighbours it joins.
\<close>

definition rmap_joined :: "rmap_rec list \<Rightarrow> rmap_rec \<Rightarrow> rmap_rec list \<Rightarrow> rmap_rec list" where
  "rmap_joined us rec vs =
     (let l = us \<noteq> [] \<and> joins (last us) rec; r = vs \<noteq> [] \<and> joins rec (hd vs) in
      (if l then butlast us else us) @
      RmapRec (if l then rr_start (last us) else rr_start rec)
        ((if l then rr_count (last us) else 0) + rr_count rec + (if r then rr_count (hd vs) else 0)) (rr_owner rec) #
      (if r then tl vs else vs))"

lemma rmap_insert_joined:
  assumes hi: "hi < 2 ^ 32"
    and us: "extents_in lo (map rr_ext us) (rr_start rec)"
    and vs: "extents_in (rr_start rec + rr_count rec) (map rr_ext vs) hi" and c: "0 < rr_count rec"
  shows "rmap_insert (us @ vs) rec = rmap_joined us rec vs"
proof -
  have lt: "rr_start r < rr_start rec \<and> rr_start r + rr_count r \<le> rr_start rec" if "r \<in> set us" for r
    using extents_in_member [OF us, of "rr_start r" "rr_count r"] that by (force simp: rr_ext_def)
  have ge: "rr_start rec + rr_count rec \<le> rr_start r \<and> rr_start r + rr_count r \<le> hi" if "r \<in> set vs" for r
    using extents_in_member [OF vs, of "rr_start r" "rr_count r"] that by (force simp: rr_ext_def)
  have h: "rr_start rec + rr_count rec \<le> hi" using extents_in_le [OF vs] .
  have tw: "takeWhile (\<lambda>r. rr_start r < rr_start rec) (us @ vs) = us"
    using lt ge c by (cases vs) (force simp: takeWhile_append)+
  have re: "add32 (rr_start rec) (rr_count rec) = rr_start rec + rr_count rec"
    using h hi by (intro nowrap) simp
  show ?thesis
  proof (cases us rule: rev_cases)
    case Nil
    show ?thesis
    proof (cases vs)
      case (Cons v vs')
      have "add32 (rr_count v) (rr_count rec) = rr_count v + rr_count rec"
        using ge [of v] Cons hi by (intro nowrap) simp
      then show ?thesis using Nil Cons tw
        by (auto simp: rmap_insert_def rmap_joined_def joins_def re vec_insert_def Let_def)
    qed (use Nil in \<open>simp add: rmap_insert_def rmap_joined_def vec_insert_def Let_def; cases rec; simp\<close>)
  next
    case (snoc us' u)
    have ue: "add32 (rr_start u) (rr_count u) = rr_start u + rr_count u"
      using lt [of u] snoc h hi by (intro nowrap) simp
    have p: "length us = Suc (length us')" "(us @ vs) ! length us' = u" by (simp_all add: snoc nth_append)
    show ?thesis
    proof (cases vs)
      case Nil
      show ?thesis using tw snoc Nil lt [of u] h hi ue
        by (auto simp: rmap_insert_def rmap_joined_def joins_def Let_def add_count_def nowrap vec_insert_def
            list_update_append nth_append)
    next
      case (Cons v vs')
      have *: "add32 (rr_count v) (rr_count rec) = rr_count v + rr_count rec"
        "add32 (rr_count rec) (rr_count v) = rr_count rec + rr_count v"
        using ge [of v] Cons hi by (auto intro!: nowrap)
      show ?thesis using tw snoc Cons lt [of u] ge [of v] h hi ue *
        by (auto simp: rmap_insert_def rmap_joined_def joins_def Let_def add_count_def nowrap re
            list_update_append nth_append vec_insert_def vec_remove_def)
    qed
  qed
qed


lemma extents_in_gap:
  assumes "extents_in lo xs hi" "{s..<s + c} \<inter> ext_blocks xs = {}" "lo \<le> s" "s + c \<le> hi" "0 < c"
  shows "\<exists>us vs. xs = us @ vs \<and> extents_in lo us s \<and> extents_in (s + c) vs hi"
  using assms
proof (induction lo xs hi rule: extents_in.induct)
  case (1 lo hi)
  then show ?case by (intro exI [of _ "[]"]) simp
next
  case (2 lo t d xs hi)
  have "max s t \<notin> {s..<s + c} \<inter> ext_blocks ((t, d) # xs)" by (simp only: 2(3) empty_iff not_False_eq_True)
  then have dj: "\<not> (max s t < s + c \<and> max s t < t + d)" "{s..<s + c} \<inter> ext_blocks xs = {}"
    using 2(3) by auto
  show ?case
  proof (cases "s < t")
    case True
    then have "s + c \<le> t" using dj(1) 2(2,6) by auto
    then show ?thesis using 2(2,4,6)
      by - (rule exI [of _ "[]"], rule exI [of _ "(t, d) # xs"], simp)
  next
    case False
    then have "t + d \<le> s" using dj(1) 2(6) by auto
    then obtain us vs where "xs = us @ vs" "extents_in (t + d) us s" "extents_in (s + c) vs hi"
      using 2 dj(2) by auto
    then show ?thesis using 2(2) by - (rule exI [of _ "(t, d) # us"], rule exI [of _ vs], simp)
  qed
qed

lemma rmap_joined_extents:
  assumes us: "extents_in lo (map rr_ext us) (rr_start rec)" and c: "0 < rr_count rec"
    and vs: "extents_in (rr_start rec + rr_count rec) (map rr_ext vs) hi"
  shows "extents_in lo (map rr_ext (rmap_joined us rec vs)) hi"
proof -
  define l r where "l \<longleftrightarrow> us \<noteq> [] \<and> joins (last us) rec" and "r \<longleftrightarrow> vs \<noteq> [] \<and> joins rec (hd vs)"
  define s where "s = (if l then rr_start (last us) else rr_start rec)"
  define e where "e = rr_start rec + rr_count rec + (if r then rr_count (hd vs) else 0)"
  have u: "extents_in lo (map rr_ext (if l then butlast us else us)) s \<and> s \<le> rr_start rec \<and>
      (l \<longrightarrow> s + rr_count (last us) = rr_start rec)"
    using us by (cases us rule: rev_cases) (auto simp: s_def l_def joins_def extents_in_append rr_ext_def
        intro: extents_in_mono)
  have v: "extents_in e (map rr_ext (if r then tl vs else vs)) hi"
    using vs by (cases vs) (auto simp: e_def r_def joins_def rr_ext_def intro: extents_in_mono)
  have j: "rmap_joined us rec vs = (if l then butlast us else us) @
      RmapRec s (e - s) (rr_owner rec) # (if r then tl vs else vs)"
    using u by (auto simp: rmap_joined_def Let_def s_def e_def simp flip: l_def r_def)
  have "s < e" "s + (e - s) = e" using u c by (auto simp: e_def)
  then show ?thesis using u v unfolding j by (auto simp: extents_in_append simp del: if_split)
qed

lemma joins_merged:
  "joins b rec \<Longrightarrow> joins a (RmapRec (rr_start b) n (rr_owner rec)) \<longleftrightarrow> joins a b"
  "joins a (RmapRec (rr_start rec) n (rr_owner rec)) \<longleftrightarrow> joins a rec"
  "joins (RmapRec (rr_start rec) (rr_count rec) (rr_owner rec)) c \<longleftrightarrow> joins rec c"
  "joins b rec \<Longrightarrow> joins (RmapRec (rr_start b) (rr_count b + rr_count rec) (rr_owner rec)) c \<longleftrightarrow> joins rec c"
  "joins rec b \<Longrightarrow> joins (RmapRec (rr_start rec) (rr_count rec + rr_count b) (rr_owner rec)) c \<longleftrightarrow> joins b c"
  "joins a rec \<Longrightarrow> joins rec b \<Longrightarrow>
     joins (RmapRec (rr_start a) (rr_count a + rr_count rec + rr_count b) (rr_owner rec)) c \<longleftrightarrow> joins b c"
  by (auto simp: joins_def)

lemma rmap_joined_merged:
  assumes "successively (\<lambda>a b. \<not> joins a b) (us @ vs)"
  shows "successively (\<lambda>a b. \<not> joins a b) (rmap_joined us rec vs)"
  using assms
  by (cases us rule: rev_cases; cases vs)
     (simp_all add: rmap_joined_def Let_def successively_append_iff successively_Cons joins_merged
       split: if_split)

lemma owner_of_SomeD:
  assumes "extents_in lo (map rr_ext rmap) hi" "owner_of rmap b = Some w"
  shows "lo \<le> b" "b < hi"
  using extents_in_blocks [OF assms(1)] owner_of_dom [of rmap b] assms(2) by fastforce+

lemma rmap_joined_owner:
  assumes us: "extents_in lo (map rr_ext us) (rr_start rec)"
    and vs: "extents_in (rr_start rec + rr_count rec) (map rr_ext vs) hi"
  shows "owner_of (rmap_joined us rec vs) b =
    (if b \<in> {rr_start rec..<rr_start rec + rr_count rec} then Some (rr_owner rec) else owner_of (us @ vs) b)"
proof -
  define l r where "l \<longleftrightarrow> us \<noteq> [] \<and> joins (last us) rec" and "r \<longleftrightarrow> vs \<noteq> [] \<and> joins rec (hd vs)"
  define s where "s = (if l then rr_start (last us) else rr_start rec)"
  define e where "e = rr_start rec + rr_count rec + (if r then rr_count (hd vs) else 0)"
  have u: "owner_of us b = (if s \<le> b \<and> b < rr_start rec then Some (rr_owner rec)
      else owner_of (if l then butlast us else us) b) \<and>
    (owner_of (if l then butlast us else us) b \<noteq> None \<longrightarrow> b < s) \<and> s \<le> rr_start rec"
  proof (cases l)
    case True
    then obtain us' u where "us = us' @ [u]" "joins u rec" by (cases us rule: rev_cases) (auto simp: l_def)
    moreover from this have "extents_in lo (map rr_ext us') (rr_start u)"
      using us by (auto simp: extents_in_append rr_ext_def intro: extents_in_mono)
    ultimately show ?thesis using owner_of_SomeD(2) [of lo us' "rr_start u" b] True
      by (cases "owner_of us' b") (auto simp: s_def joins_def owner_of_append owner_of_Cons)
  qed (use owner_of_SomeD(2) [OF us] in \<open>auto simp: s_def\<close>)
  have v: "owner_of vs b = (if rr_start rec + rr_count rec \<le> b \<and> b < e then Some (rr_owner rec)
      else owner_of (if r then tl vs else vs) b) \<and>
    (owner_of (if r then tl vs else vs) b \<noteq> None \<longrightarrow> e \<le> b)"
  proof (cases r)
    case True
    then obtain v vs' where "vs = v # vs'" "joins rec v" by (cases vs) (auto simp: r_def)
    then show ?thesis using vs owner_of_SomeD(1) [of e vs' hi b] True
      by (cases "owner_of vs' b") (auto simp: e_def joins_def owner_of_Cons rr_ext_def)
  qed (use owner_of_SomeD(1) [OF vs] in \<open>auto simp: e_def\<close>)
  have j: "rmap_joined us rec vs = (if l then butlast us else us) @
      RmapRec s (e - s) (rr_owner rec) # (if r then tl vs else vs)"
    by (auto simp: rmap_joined_def Let_def s_def e_def l_def r_def joins_def)
  define U V where "U = owner_of (if l then butlast us else us) b" and "V = owner_of (if r then tl vs else vs) b"
  have e: "s + (e - s) = e" "rr_start rec + rr_count rec \<le> e" using u by (simp_all add: e_def)
  have "owner_of (rmap_joined us rec vs) b =
      (case U of None \<Rightarrow> if s \<le> b \<and> b < e then Some (rr_owner rec) else V | Some w \<Rightarrow> Some w)"
    unfolding j owner_of_append owner_of_Cons U_def V_def by (simp only: rmap_rec.sel e atLeastLessThan_iff)
  then show ?thesis using u v e(2) unfolding owner_of_append U_def [symmetric] V_def [symmetric]
    by (cases U; cases V) (auto simp del: e_def)
qed

text \<open>\<open>rmap_insert\<close> refines an update of the map from blocks to owners.\<close>

lemma rmap_insert_ok:
  assumes ok: "rmap_ok lo rmap hi" and hi: "hi < 2 ^ 32" and c: "0 < rr_count rec"
    and b: "lo \<le> rr_start rec" "rr_start rec + rr_count rec \<le> hi"
    and d: "{rr_start rec..<rr_start rec + rr_count rec} \<inter> rmap_blocks rmap = {}"
  shows "rmap_ok lo (rmap_insert rmap rec) hi"
    and "owner_of (rmap_insert rmap rec) b =
      (if b \<in> {rr_start rec..<rr_start rec + rr_count rec} then Some (rr_owner rec) else owner_of rmap b)"
proof -
  obtain us vs where s: "rmap = us @ vs" "extents_in lo (map rr_ext us) (rr_start rec)"
    "extents_in (rr_start rec + rr_count rec) (map rr_ext vs) hi"
    using extents_in_gap [OF _ d b c] ok unfolding rmap_ok_def map_eq_append_conv by blast
  note j = rmap_insert_joined [OF hi s(2,3) c]
  show "rmap_ok lo (rmap_insert rmap rec) hi"
    using rmap_joined_extents [OF s(2) c s(3)] rmap_joined_merged ok
    by (simp add: rmap_ok_def s(1) j)
  show "owner_of (rmap_insert rmap rec) b =
      (if b \<in> {rr_start rec..<rr_start rec + rr_count rec} then Some (rr_owner rec) else owner_of rmap b)"
    using rmap_joined_owner [OF s(2,3)] by (simp add: s(1) j)
qed


lemma rmap_insert_blocks:
  assumes "rmap_ok lo rmap hi" "hi < 2 ^ 32" "0 < rr_count rec" "lo \<le> rr_start rec" "rr_start rec + rr_count rec \<le> hi"
    and "{rr_start rec..<rr_start rec + rr_count rec} \<inter> rmap_blocks rmap = {}"
  shows "rmap_blocks (rmap_insert rmap rec) = {rr_start rec..<rr_start rec + rr_count rec} \<union> rmap_blocks rmap"
proof -
  have "b \<in> rmap_blocks (rmap_insert rmap rec) \<longleftrightarrow>
      b \<in> {rr_start rec..<rr_start rec + rr_count rec} \<union> rmap_blocks rmap" for b
    using rmap_insert_ok(2) [OF assms, of b] owner_of_dom [of rmap b] owner_of_dom [of "rmap_insert rmap rec" b]
    by (auto split: if_split_asm)
  then show ?thesis by blast
qed

section \<open>The free list loop and the plan\<close>

text \<open>
  The loop that fills the free list. It ends: a turn that picks an extent with a block makes the
  list longer, and a turn that picks an empty extent removes one from the free extents.
\<close>

function fill_agfl ::
  "bool \<Rightarrow> nat \<Rightarrow> nat \<Rightarrow> alloc_rec list \<Rightarrow> nat list \<Rightarrow> rmap_rec list \<Rightarrow> error + alloc_rec list \<times> nat list \<times> rmap_rec list" where
  "fill_agfl rm agno need free agfl rmap =
     (if length agfl < need then
        let want = need - length agfl in
        case pick_extent free want of
          None \<Rightarrow> Inl (InvalidParams (NoSpaceForFreeList agno))
        | Some pick \<Rightarrow>
            let len = min want (ar_count pick) in
            and_then (take_extent free (ar_start pick) len) (\<lambda>free.
            fill_agfl rm agno need free
              (agfl @ map (\<lambda>i. add32 (ar_start pick) (as_u32 i)) [0..<len])
              (if rm then rmap_insert rmap (RmapRec (ar_start pick) (as_u32 len) OWN_AG) else rmap))
      else Inr (free, agfl, rmap))"
  by pat_completeness auto

lemma take_empty_extent:
  assumes p: "pick_extent free want = Some r" "0 < want" "ar_count r = 0"
    and t: "take_extent free (ar_start r) 0 = Inr free'"
  shows "length free' < length free"
proof -
  obtain us x vs where x: "free = us @ x # vs" "ar_start x \<le> ar_start r"
    and f': "free' = us @ (if ar_start x < ar_start r then [AllocRec (as_u32 (ar_start x)) (as_u32 (ar_start r - ar_start x))] else [])
       @ (if add64 (ar_start r) 0 < add64 (ar_start x) (ar_count x)
          then [AllocRec (as_u32 (add64 (ar_start r) 0))
                  (as_u32 (sub64 (sub64 (add64 (ar_start x) (ar_count x)) (ar_start r)) 0))] else []) @ vs"
    by (rule take_extent_InrD [OF t])
  have "ar_count x = 0" "ar_start r \<le> ar_start x"
    using pick_extent_SomeD(2,3) [OF p(1), of x] p(2,3) x(1) by auto
  then show ?thesis using x(2) by (simp add: x(1) f')
qed

termination fill_agfl
proof (relation "measures [\<lambda>(rm, agno, need, free, agfl, rmap). need - length agfl,
    \<lambda>(rm, agno, need, free, agfl, rmap). length free]", goal_cases)
  case (2 rm agno need free agfl rmap want pick len free')
  then show ?case
    using take_empty_extent [of free want pick free']
    by (cases "ar_count pick") auto
qed simp

declare fill_agfl.simps [simp del]

definition static_rmap :: "geometry \<Rightarrow> rmap_rec list" where
  "static_rmap g =
     (let rec = \<lambda>start count owner. RmapRec (as_u32 start) (as_u32 count) owner in
      [rec 0 (bno_block g) OWN_FS,
       rec (bno_block g) 2 OWN_AG,
       rec (ibt_block g) (rmap_block g - ibt_block g) OWN_INOBT,
       rec (rmap_block g) 1 OWN_AG] @
      (if reflink (features g) then [rec (refc_block g) 1 OWN_REFC] else []))"

definition initial_free :: "geometry \<Rightarrow> nat \<Rightarrow> alloc_rec list" where
  "initial_free g agno =
     (let length = ag_blocks g agno; p = prealloc_blocks g in
      if agno = logagno g
      then let ls = log_agbno g; le = add64 (log_agbno g) (logblocks g) in
        (if ls > p then [AllocRec (as_u32 p) (as_u32 (ls - p))] else []) @
        (if le < length then [AllocRec (as_u32 le) (as_u32 (length - le))] else [])
      else [AllocRec (as_u32 p) (as_u32 (sub64 length p))])"

definition initial_rmap :: "geometry \<Rightarrow> nat \<Rightarrow> rmap_rec list" where
  "initial_rmap g agno =
     (if rmapbt (features g)
      then static_rmap g @
        (if agno = logagno g then [RmapRec (as_u32 (log_agbno g)) (as_u32 (logblocks g)) OWN_LOG] else [])
      else [])"

definition plan_ag :: "geometry \<Rightarrow> nat \<Rightarrow> error + ag_plan" where
  "plan_ag g agno =
     (let f = features g in
      and_then (fill_agfl (rmapbt f) agno (min_freelist g) (initial_free g agno) [] (initial_rmap g agno))
        (\<lambda>(free, agfl, rmap).
      and_then
        (if agno = 0
         then let at = root_chunk_agbno g in
           case take_extent free at (chunk_blocks g) of
             Inl _ \<Rightarrow> Inl (InvalidParams (RootChunkNotFree at))
           | Inr free \<Rightarrow> Inr (free,
               if rmapbt f then rmap_insert rmap (RmapRec (as_u32 at) (as_u32 (chunk_blocks g)) OWN_INODES) else rmap,
               Some at)
         else Inr (free, rmap, None))
        (\<lambda>(free, rmap, chunk).
      Inr \<lparr>ap_agno = agno, ap_length = ag_blocks g agno, ap_free = free, ap_agfl = agfl, ap_rmap = rmap,
           ap_chunk = chunk\<rparr>)))"


section \<open>The free list loop fills the list or says there is no space\<close>

text \<open>
  \<open>filled\<close> is what the loop owes its caller: \<open>ys\<close> are blocks that were free and are now on the
  list, once each, and with a reverse map, owned by the group.
\<close>

definition rmap_fits :: "bool \<Rightarrow> rmap_rec list \<Rightarrow> nat set \<Rightarrow> nat \<Rightarrow> bool" where
  "rmap_fits rm rmap F hi \<longleftrightarrow> (rm \<longrightarrow> rmap_ok 0 rmap hi \<and> rmap_blocks rmap \<inter> F = {})"

definition filled ::
  "bool \<Rightarrow> nat \<Rightarrow> nat \<Rightarrow> alloc_rec list \<Rightarrow> rmap_rec list \<Rightarrow> nat list \<Rightarrow> alloc_rec list \<Rightarrow> rmap_rec list \<Rightarrow> bool" where
  "filled rm lo hi free rmap ys free' rmap' \<longleftrightarrow>
     distinct ys \<and> set ys \<subseteq> free_blocks free \<and> space_ok lo free' hi \<and>
     free_blocks free' = free_blocks free - set ys \<and> rmap_fits rm rmap' (free_blocks free') hi \<and>
     (if rm then \<forall>b. owner_of rmap' b = (if b \<in> set ys then Some OWN_AG else owner_of rmap b)
      else rmap' = rmap)"

lemma take_front:
  assumes ok: "space_ok lo free hi" "hi < 2 ^ 32" and r: "r \<in> set free" "n \<le> ar_count r"
  obtains free' where "take_extent free (ar_start r) n = Inr free'" "space_ok lo free' hi"
    "free_blocks free' = free_blocks free - {ar_start r..<ar_start r + n}"
    "{ar_start r..<ar_start r + n} \<subseteq> free_blocks free"
proof -
  have m: "ar_start r + ar_count r \<le> hi" using free_rec_member [OF ok(1) r(1)] by simp
  then have w: "ar_start r + n < 2 ^ 64" using r(2) ok(2) by simp
  have "\<not> (\<exists>e. take_extent free (ar_start r) n = Inl e)"
    using take_extent_fails [OF ok w] r by auto
  then obtain free' where t: "take_extent free (ar_start r) n = Inr free'"
    by (cases "take_extent free (ar_start r) n") auto
  have "{ar_start r..<ar_start r + n} \<subseteq> free_blocks free"
    using r by (force simp: ext_blocks_def ar_ext_def)
  then show thesis using that t take_extent_free [OF ok t w] by blast
qed

lemma agfl_blocks:
  assumes "s + n < 2 ^ 32"
  shows "map (\<lambda>i. add32 s (as_u32 i)) [0..<n] = [s..<s + n]"
  using assms by (intro nth_equalityI) (simp_all add: nowrap)

lemma free_blocks_card:
  assumes "space_ok lo free hi"
  shows "card (free_blocks free) = sum_list (map ar_count free)" "finite (free_blocks free)"
  using extents_in_card [OF assms] by (simp_all add: o_def ar_ext_def)

lemma fill_step:
  assumes ok: "space_ok lo free hi" "hi < 2 ^ 32" and rm: "rmap_fits rm rmap (free_blocks free) hi"
    and pk: "pick_extent free want = Some r" and n: "n = min want (ar_count r)" "0 < want"
  obtains free' where "take_extent free (ar_start r) n = Inr free'" "0 < n"
    "filled rm lo hi free rmap [ar_start r..<ar_start r + n] free'
       (if rm then rmap_insert rmap (RmapRec (ar_start r) (as_u32 n) OWN_AG) else rmap)"
    "map (\<lambda>i. add32 (ar_start r) (as_u32 i)) [0..<n] = [ar_start r..<ar_start r + n]"
proof -
  have r: "r \<in> set free" using pick_extent_SomeD(1) [OF pk] .
  have m: "ar_start r + ar_count r \<le> hi" "0 < ar_count r" using free_rec_member [OF ok(1) r] by simp_all
  have h: "ar_start r + n \<le> hi" "0 < n" using m n by simp_all
  obtain free' where t: "take_extent free (ar_start r) n = Inr free'" "space_ok lo free' hi"
    "free_blocks free' = free_blocks free - {ar_start r..<ar_start r + n}"
    "{ar_start r..<ar_start r + n} \<subseteq> free_blocks free"
    using take_front [OF ok r, of n] n by auto
  have u: "as_u32 n = n" using h ok(2) by (intro nowrap) simp
  let ?rec = "RmapRec (ar_start r) n OWN_AG"
  have "filled rm lo hi free rmap [ar_start r..<ar_start r + n] free'
       (if rm then rmap_insert rmap (RmapRec (ar_start r) (as_u32 n) OWN_AG) else rmap)"
  proof (cases rm)
    case True
    have f: "rmap_ok 0 rmap hi" "{ar_start r..<ar_start r + n} \<inter> rmap_blocks rmap = {}"
      using rm t(4) True by (auto simp: rmap_fits_def)
    show ?thesis
      using rmap_insert_ok [OF f(1) ok(2), of ?rec] rmap_insert_blocks [OF f(1) ok(2), of ?rec] f(2) h t rm True
      by (auto simp: filled_def rmap_fits_def u)
  qed (use t in \<open>auto simp: filled_def rmap_fits_def\<close>)
  moreover have "map (\<lambda>i. add32 (ar_start r) (as_u32 i)) [0..<n] = [ar_start r..<ar_start r + n]"
    using h ok(2) by (intro agfl_blocks) simp
  ultimately show thesis using that t(1) h(2) by blast
qed

lemma filled_trans:
  assumes "filled rm lo hi free rmap as free' rmap'" "filled rm lo hi free' rmap' ys free'' rmap''"
  shows "filled rm lo hi free rmap (as @ ys) free'' rmap''"
  using assms unfolding filled_def by auto

lemma fill_agfl_result:
  assumes "space_ok lo free hi" "hi < 2 ^ 32" "rmap_fits rm rmap (free_blocks free) hi" "length agfl \<le> need"
  shows "if need - length agfl \<le> card (free_blocks free)
    then \<exists>free' ys rmap'. fill_agfl rm agno need free agfl rmap = Inr (free', agfl @ ys, rmap') \<and>
      length ys = need - length agfl \<and> filled rm lo hi free rmap ys free' rmap'
    else fill_agfl rm agno need free agfl rmap = Inl (InvalidParams (NoSpaceForFreeList agno))"
  using assms
proof (induction rm agno need free agfl rmap rule: fill_agfl.induct)
  case (1 rm agno need free agfl rmap)
  show ?case
  proof (cases "length agfl < need")
    case False
    then show ?thesis using 1(2,4,5)
      by (intro if_P [THEN iffD2]) (auto simp: fill_agfl.simps [of rm agno need free] filled_def)
  next
    case need: True
    define want where "want = need - length agfl"
    show ?thesis
    proof (cases "pick_extent free want")
      case None
      then have "free = []" by (simp add: pick_extent_None_iff)
      then show ?thesis using need None by (simp add: fill_agfl.simps [of rm agno need "[]"] want_def)
    next
      case (Some r)
      define n where "n = min want (ar_count r)"
      define rmap1 where "rmap1 = (if rm then rmap_insert rmap (RmapRec (ar_start r) (as_u32 n) OWN_AG) else rmap)"
      obtain free1 where t: "take_extent free (ar_start r) n = Inr free1" "0 < n"
        "filled rm lo hi free rmap [ar_start r..<ar_start r + n] free1 rmap1"
        "map (\<lambda>i. add32 (ar_start r) (as_u32 i)) [0..<n] = [ar_start r..<ar_start r + n]"
        using fill_step [OF 1(2,3,4) Some n_def] need unfolding rmap1_def want_def by auto
      define agfl1 where "agfl1 = agfl @ [ar_start r..<ar_start r + n]"
      have l: "need - length agfl1 = need - length agfl - n" "length agfl1 \<le> need" "n \<le> need - length agfl"
        using need by (auto simp: agfl1_def n_def want_def)
      have e: "fill_agfl rm agno need free agfl rmap = fill_agfl rm agno need free1 agfl1 rmap1"
        using need Some t(1,4) by (simp add: fill_agfl.simps [of rm agno need free] want_def [symmetric]
            n_def [symmetric] rmap1_def agfl1_def Let_def)
      have f1: "space_ok lo free1 hi" "rmap_fits rm rmap1 (free_blocks free1) hi"
        "free_blocks free1 = free_blocks free - {ar_start r..<ar_start r + n}"
        "{ar_start r..<ar_start r + n} \<subseteq> free_blocks free"
        using t(3) by (auto simp: filled_def)
      have c: "card (free_blocks free1) = card (free_blocks free) - n" "n \<le> card (free_blocks free)"
        using card_Diff_subset [OF _ f1(4)] card_mono [OF free_blocks_card(2) [OF 1(2)] f1(4)]
        unfolding f1(3) by simp_all
      have ih: "if need - length agfl1 \<le> card (free_blocks free1)
        then \<exists>free' ys rmap'. fill_agfl rm agno need free1 agfl1 rmap1 = Inr (free', agfl1 @ ys, rmap') \<and>
          length ys = need - length agfl1 \<and> filled rm lo hi free1 rmap1 ys free' rmap'
        else fill_agfl rm agno need free1 agfl1 rmap1 = Inl (InvalidParams (NoSpaceForFreeList agno))"
        by (rule 1(1) [OF need want_def Some n_def t(1), unfolded t(4), folded rmap1_def agfl1_def, OF f1(1) 1(3) f1(2) l(2)])
      have "need - length agfl1 \<le> card (free_blocks free1) \<longleftrightarrow> need - length agfl \<le> card (free_blocks free)"
        using l c by linarith
      then show ?thesis
        using ih filled_trans [OF t(3)] l unfolding e agfl1_def
        by (auto split: if_split_asm)
    qed
  qed
qed


section \<open>Properties\<close>

text \<open>
  \<^verbatim>\<open>take\<close> on sorted, disjoint free extents succeeds exactly when one extent holds all the blocks
  asked for; it then removes those blocks and no other, and leaves the extents sorted, disjoint
  and not empty. Otherwise it returns the error that names the blocks.
\<close>

theorem take_removes_blocks:
  assumes "space_ok lo free hi" "hi < 2 ^ 32" "start + len < 2 ^ 64"
  shows "if \<exists>r\<in>set free. ar_start r \<le> start \<and> start + len \<le> ar_start r + ar_count r
    then \<exists>free'. take_extent free start len = Inr free' \<and> space_ok lo free' hi \<and>
      free_blocks free' = free_blocks free - {start..<start + len}
    else take_extent free start len = Inl (InvalidParams (BlocksNotFree start len))"
proof (cases "take_extent free start len")
  case (Inl e)
  then show ?thesis using take_extent_fails [OF assms] take_extent_NoneD(1) [OF Inl] by auto
next
  case (Inr free')
  then have "\<not> (\<exists>e. take_extent free start len = Inl e)" by simp
  then show ?thesis using take_extent_fails [OF assms] take_extent_free [OF assms(1,2) Inr assms(3)] Inr by auto
qed

theorem take_removes_blocks_witness:
  "\<exists>free'. take_extent [AllocRec 13 3, AllocRec 24 100] 30 10 = Inr free' \<and> space_ok 7 free' 124 \<and>
     free_blocks free' = free_blocks [AllocRec 13 3, AllocRec 24 100] - {30..<40}"
  using take_removes_blocks [of 7 "[AllocRec 13 3, AllocRec 24 100]" 124 30 10] by simp

text \<open>
  \<^bold>\<open>C28\<close>. \<^verbatim>\<open>rmap_insert\<close> refines the update of a map from blocks to owners: the blocks of the new record
  get its owner, every other block keeps its own, and the records stay sorted, disjoint and
  merged, so that no two neighbours of one owner touch.
\<close>

theorem rmap_insert_refines:
  assumes "rmap_ok lo rmap hi" "hi < 2 ^ 32" "0 < rr_count rec" "lo \<le> rr_start rec" "rr_start rec + rr_count rec \<le> hi"
    and "{rr_start rec..<rr_start rec + rr_count rec} \<inter> rmap_blocks rmap = {}"
  shows "rmap_ok lo (rmap_insert rmap rec) hi \<and>
    owner_of (rmap_insert rmap rec) =
      (\<lambda>b. if b \<in> {rr_start rec..<rr_start rec + rr_count rec} then Some (rr_owner rec) else owner_of rmap b)"
  using rmap_insert_ok [OF assms] by blast

theorem rmap_insert_refines_witness:
  "rmap_ok 0 (rmap_insert [RmapRec 4 1 OWN_AG, RmapRec 11 2 OWN_AG] (RmapRec 5 6 OWN_AG)) 20 \<and>
   owner_of (rmap_insert [RmapRec 4 1 OWN_AG, RmapRec 11 2 OWN_AG] (RmapRec 5 6 OWN_AG)) 7 = Some OWN_AG"
proof -
  let ?rmap = "[RmapRec 4 1 OWN_AG, RmapRec 11 2 OWN_AG]" and ?rec = "RmapRec 5 6 OWN_AG"
  have "rmap_ok 0 (rmap_insert ?rmap ?rec) 20 \<and> owner_of (rmap_insert ?rmap ?rec) =
      (\<lambda>b. if b \<in> {rr_start ?rec..<rr_start ?rec + rr_count ?rec} then Some (rr_owner ?rec) else owner_of ?rmap b)"
    by (rule rmap_insert_refines) (auto simp: rmap_ok_def joins_def)
  then show ?thesis by (simp del: One_nat_def)
qed

text \<open>
  \<^bold>\<open>C27\<close>. The loop of \<^verbatim>\<open>plan_ag\<close> that fills the free list always ends: when the free extents hold enough
  blocks it returns a list of the length wanted, of distinct blocks that were free and no longer are,
  with their reverse mappings; when they do not, it returns the error that the group has no space.
\<close>

theorem free_list_filled:
  assumes "space_ok lo free hi" "hi < 2 ^ 32" "rmap_fits rm rmap (free_blocks free) hi"
  shows "if need \<le> sum_list (map ar_count free)
    then \<exists>free' agfl rmap'. fill_agfl rm agno need free [] rmap = Inr (free', agfl, rmap') \<and>
      length agfl = need \<and> filled rm lo hi free rmap agfl free' rmap'
    else fill_agfl rm agno need free [] rmap = Inl (InvalidParams (NoSpaceForFreeList agno))"
  using fill_agfl_result [OF assms, of "[]" need agno]
  unfolding free_blocks_card(1) [OF assms(1)] append_Nil list.size diff_zero by simp

theorem free_list_filled_witness:
  "\<exists>free' agfl rmap'. fill_agfl True 3 6 [AllocRec 10 4, AllocRec 20 3] [] [] = Inr (free', agfl, rmap') \<and>
     length agfl = 6 \<and> filled True 7 30 [AllocRec 10 4, AllocRec 20 3] [] agfl free' rmap'"
  using free_list_filled [of 7 "[AllocRec 10 4, AllocRec 20 3]" 30 True "[]" 6 3]
  by (simp add: rmap_fits_def rmap_ok_def)

end
