(* ===== verification/Group_Plan.thy ===== *)
theory Group_Plan
  imports Ag_Plan
begin

section \<open>What the plan of a group holds\<close>

text \<open>
  The plan of every group of an accepted geometry, in closed form: where its free list is, which
  blocks stay free and who owns each of the others. The plan exists exactly when the group has
  room for its free list after the preallocated blocks and the log.
\<close>

definition group_start :: "geometry \<Rightarrow> nat \<Rightarrow> nat" where
  "group_start g agno = prealloc_blocks g + (if agno = logagno g then logblocks g else 0)"

definition chunk_set :: "geometry \<Rightarrow> nat \<Rightarrow> nat set" where
  "chunk_set g agno = (if agno = 0 then {root_chunk_agbno g..<root_chunk_agbno g + chunk_blocks g} else {})"

definition plan_owner :: "geometry \<Rightarrow> nat \<Rightarrow> nat \<rightharpoonup> u64" where
  "plan_owner g agno b =
     (let s = group_start g agno in
      if b < bno_block g then Some OWN_FS
      else if b < ibt_block g then Some OWN_AG
      else if b < rmap_block g then Some OWN_INOBT
      else if b < rmap_block g + 1 then Some OWN_AG
      else if b < prealloc_blocks g then Some OWN_REFC
      else if b < s then Some OWN_LOG
      else if b < s + min_freelist g then Some OWN_AG
      else if b \<in> chunk_set g agno then Some OWN_INODES
      else None)"

subsection \<open>Sizes\<close>

lemma min_freelist_bounds: "4 \<le> min_freelist g" "min_freelist g \<le> 6"
  by (simp_all add: min_freelist_def)

lemma group_prealloc:
  assumes g: "geometry_ok g"
  shows "1 \<le> header_blocks g" "4 \<le> prealloc_blocks g" "prealloc_blocks g \<le> 10"
proof -
  have "sectsize g \<le> blocksize g" "0 < sectsize g"
    unfolding geometry_okD(1,4) [OF g] using geometry_okD(6) [OF g] by (auto intro: power_increasing)
  note h = header_blocks_bounds [OF this]
  then show "1 \<le> header_blocks g" "4 \<le> prealloc_blocks g" "prealloc_blocks g \<le> 10"
    using prealloc_blocks_le [of g] by (simp_all add: prealloc_blocks_eq)
qed

lemma inode_chunk_sizes:
  assumes g: "geometry_ok g"
  shows "0 < chunk_blocks g" "chunk_blocks g \<le> 32" "0 < inoalignmt g" "inoalignmt g \<le> 32"
proof -
  define d where "d = blocklog g - inodelog g"
  have d: "blocklog g = inodelog g + d" "0 < d" "d \<le> 5"
    using geometry_okD(3,9,11) [OF g] by (simp_all add: d_def)
  have bl: "blocklog g < 64" using geometry_okD(3) [OF g] by simp
  have p: "2 ^ (k + inodelog g) div 2 ^ blocklog g = (2::nat) ^ (k - d)" if "5 \<le> k" for k
    using that d by (simp add: d(1) power_add power_diff)
  have "64 * 2 ^ inodelog g = (2::nat) ^ (6 + inodelog g)" by (simp add: power_add)
  then have c: "chunk_blocks g = 2 ^ (6 - d)"
    using p [of 6] by (simp add: chunk_blocks_def INODES_PER_CHUNK_def shr64_small bl geometry_okD(8) [OF g])
  have "2 ^ inodelog g div 256 = (2::nat) ^ (inodelog g - 8)"
    using geometry_okD(9) [OF g] power_diff [of "2::nat" 8 "inodelog g"] by simp
  moreover have "8192 * 2 ^ (inodelog g - 8) = (2::nat) ^ (5 + inodelog g)"
    using geometry_okD(9) [OF g] power_add [of "2::nat" 13 "inodelog g - 8"] by simp
  ultimately have a: "cluster_align g = 2 ^ (5 - d)"
    using p [of 5] by (simp add: cluster_align_def INODE_BIG_CLUSTER_SIZE_def DINODE_MIN_SIZE_def shr64_small bl
        geometry_okD(8) [OF g])
  have "(2::nat) ^ (6 - d) \<le> 2 ^ 5" "(2::nat) ^ (5 - d) \<le> 2 ^ 5"
    using d by (intro power_increasing; simp)+
  then show "0 < chunk_blocks g" "chunk_blocks g \<le> 32" "0 < inoalignmt g" "inoalignmt g \<le> 32"
    by (simp_all add: inoalignmt_def c a)
qed

lemma roundup_bounds:
  assumes "0 < m" "n + m < 2 ^ 64" "0 < n"
  shows "n \<le> roundup n m" "roundup n m < n + m"
proof -
  note b = div_ceil_bounds [OF assms(1), of n]
  have "0 < div_ceil n m" using assms by (intro div_ceil_pos) simp_all
  then have "div_ceil n m * m = (div_ceil n m - 1) * m + m" by (cases "div_ceil n m") auto
  then have u: "div_ceil n m * m < n + m" using b(2) assms(3) by simp
  then have "roundup n m = div_ceil n m * m" using assms(2) by (simp add: roundup_def nowrap)
  then show "n \<le> roundup n m" "roundup n m < n + m" using b(1) u by simp_all
qed

lemma root_chunk_bounds:
  assumes g: "geometry_ok g"
  shows "prealloc_blocks g + min_freelist g \<le> root_chunk_agbno g"
    "root_chunk_agbno g + chunk_blocks g \<le> 80"
proof -
  define first where "first = prealloc_blocks g + min_freelist g"
  have f0: "first = Suc (Suc (Suc (header_blocks g + min_freelist g + (u64_of_bool (finobt (features g))
      + u64_of_bool (rmapbt (features g)) + u64_of_bool (reflink (features g))))))"
    by (simp add: first_def prealloc_blocks_eq)
  have "logagno g \<noteq> 0" using geometry_okD(15,23) [OF g] by simp
  then have e: "root_chunk_agbno g = (if 1 < inoalignmt g then roundup first (inoalignmt g) else first)"
    unfolding root_chunk_agbno_def Let_def by (simp add: f0 [symmetric])
  have f: "0 < first" "first \<le> 16"
    using group_prealloc [OF g] min_freelist_bounds [of g] by (simp_all add: first_def)
  note s = inode_chunk_sizes [OF g]
  have "first \<le> root_chunk_agbno g \<and> root_chunk_agbno g < first + inoalignmt g"
    using roundup_bounds [of "inoalignmt g" first] s f unfolding e by auto
  then show "prealloc_blocks g + min_freelist g \<le> root_chunk_agbno g"
    "root_chunk_agbno g + chunk_blocks g \<le> 80"
    using f s unfolding first_def by linarith+
qed


subsection \<open>The starting point\<close>

lemma group_start_small:
  assumes g: "geometry_ok g" and t: "tiles g" and a: "agno < agcount g"
  shows "group_start g agno < 2 ^ 30" "agno \<noteq> logagno g \<Longrightarrow> group_start g agno + 1000 \<le> ag_blocks g agno"
  using geometry_okD(17,26) [OF g] group_prealloc [OF g] ag_blocks_bounds(1) [OF g t a]
  by (auto simp: group_start_def)

lemma initial_free_eq:
  assumes g: "geometry_ok g" and t: "tiles g" and a: "agno < agcount g"
  shows "initial_free g agno =
    (if group_start g agno < ag_blocks g agno
     then [AllocRec (group_start g agno) (ag_blocks g agno - group_start g agno)] else [])"
proof -
  have b: "ag_blocks g agno < 2 ^ 30" by (rule ag_blocks_bounds(3) [OF g t a])
  note s = group_start_small [OF g t a]
  show ?thesis
  proof (cases "agno = logagno g")
    case True
    then have "add64 (log_agbno g) (logblocks g) = group_start g agno"
      using s geometry_okD(24) [OF g] by (simp add: group_start_def nowrap)
    then show ?thesis
      using True b s geometry_okD(24) [OF g] by (simp add: initial_free_def Let_def nowrap)
  next
    case False
    then show ?thesis
      using s b by (simp add: initial_free_def Let_def nowrap group_start_def)
  qed
qed

lemma static_rmap_ok:
  assumes g: "geometry_ok g" and r: "rmapbt (features g)"
  shows "rmap_ok 0 (static_rmap g) (prealloc_blocks g)"
    and "owner_of (static_rmap g) b =
      (if b < bno_block g then Some OWN_FS else if b < ibt_block g then Some OWN_AG
       else if b < rmap_block g then Some OWN_INOBT else if b < rmap_block g + 1 then Some OWN_AG
       else if b < prealloc_blocks g then Some OWN_REFC else None)"
proof -
  have h: "0 < header_blocks g" "header_blocks g < 100" using group_prealloc [OF g] by (simp_all add: prealloc_blocks_eq)
  have e: "static_rmap g = [RmapRec 0 (header_blocks g) OWN_FS, RmapRec (header_blocks g) 2 OWN_AG,
      RmapRec (header_blocks g + 2) (rmap_block g - (header_blocks g + 2)) OWN_INOBT, RmapRec (rmap_block g) 1 OWN_AG] @
      (if reflink (features g) then [RmapRec (rmap_block g + 1) 1 OWN_REFC] else [])"
    using h r by (simp add: static_rmap_def Let_def nowrap bno_block_def ibt_block_def cnt_block_def rmap_block_def
        fibt_block_def refc_block_def)
  have m: "header_blocks g + 2 < rmap_block g"
    by (simp add: rmap_block_def fibt_block_def ibt_block_def cnt_block_def bno_block_def)
  have p: "prealloc_blocks g = (if reflink (features g) then rmap_block g + 2 else rmap_block g + 1)"
    using r by (simp add: prealloc_blocks_def refc_block_def)
  have b: "bno_block g = header_blocks g" "ibt_block g = header_blocks g + 2"
    by (simp_all add: bno_block_def ibt_block_def cnt_block_def)
  show "rmap_ok 0 (static_rmap g) (prealloc_blocks g)"
    using m h unfolding e p
    by (auto simp: rmap_ok_def joins_def OWN_FS_def OWN_AG_def OWN_INOBT_def OWN_REFC_def)
  show "owner_of (static_rmap g) b =
      (if b < bno_block g then Some OWN_FS else if b < ibt_block g then Some OWN_AG
       else if b < rmap_block g then Some OWN_INOBT else if b < rmap_block g + 1 then Some OWN_AG
       else if b < prealloc_blocks g then Some OWN_REFC else None)"
    using m unfolding e p b by (auto simp: owner_of_Cons)
qed

lemma initial_rmap_ok:
  assumes g: "geometry_ok g" and r: "rmapbt (features g)"
  shows "rmap_ok 0 (initial_rmap g agno) (group_start g agno)"
    and "owner_of (initial_rmap g agno) b = (if b < group_start g agno then plan_owner g agno b else None)"
proof -
  note st = static_rmap_ok [OF g r]
  have lg: "as_u32 (log_agbno g) = prealloc_blocks g" "as_u32 (logblocks g) = logblocks g"
    using geometry_okD(24,25) [OF g] group_prealloc [OF g] by (simp_all add: as_u32_def)
  have pos: "0 < logblocks g" using g by (auto simp: geometry_ok_def intro: Nat.gr0I)
  have e: "initial_rmap g agno = static_rmap g @
      (if agno = logagno g then [RmapRec (prealloc_blocks g) (logblocks g) OWN_LOG] else [])"
    using r by (simp add: initial_rmap_def lg)
  have last: "x \<in> set (static_rmap g) \<Longrightarrow> rr_owner x \<noteq> OWN_LOG" for x
    by (auto simp: static_rmap_def Let_def OWN_FS_def OWN_AG_def OWN_INOBT_def OWN_REFC_def OWN_LOG_def)
  show "rmap_ok 0 (initial_rmap g agno) (group_start g agno)"
    using st(1) pos last [OF last_in_set] unfolding e
    by (auto simp: rmap_ok_def group_start_def extents_in_append successively_append_iff joins_def)
  have "prealloc_blocks g = (if reflink (features g) then rmap_block g + 2 else rmap_block g + 1)"
    using r by (simp add: prealloc_blocks_def refc_block_def)
  moreover have "bno_block g < ibt_block g" "ibt_block g < rmap_block g"
    by (simp_all add: rmap_block_def fibt_block_def ibt_block_def cnt_block_def bno_block_def)
  ultimately show "owner_of (initial_rmap g agno) b = (if b < group_start g agno then plan_owner g agno b else None)"
    unfolding e owner_of_append st(2) by (auto simp: owner_of_Cons plan_owner_def group_start_def Let_def)
qed


lemma initial_fits:
  assumes g: "geometry_ok g" and t: "tiles g" and a: "agno < agcount g"
  shows "rmap_fits (rmapbt (features g)) (initial_rmap g agno) (free_blocks (initial_free g agno))
    (max (group_start g agno) (ag_blocks g agno))"
proof (cases "rmapbt (features g)")
  case True
  note r = initial_rmap_ok(1) [OF g True, of agno, unfolded rmap_ok_def]
  then show ?thesis using extents_in_blocks [OF conjunct1 [OF r]]
    by (auto simp: rmap_fits_def rmap_ok_def initial_free_eq [OF g t a] intro: extents_in_mono)
qed (simp add: rmap_fits_def)

lemma prealloc_order:
  assumes "rmapbt (features g)"
  shows "bno_block g < ibt_block g" "ibt_block g < rmap_block g" "rmap_block g + 1 \<le> prealloc_blocks g"
    "prealloc_blocks g \<le> group_start g agno"
  using assms by (simp_all add: rmap_block_def fibt_block_def ibt_block_def cnt_block_def bno_block_def
      prealloc_blocks_def refc_block_def group_start_def)

subsection \<open>The plan\<close>

lemma fill_single:
  assumes "0 < need" "need \<le> n" "s + n < 2 ^ 32"
  shows "fill_agfl rm agno need [AllocRec s n] [] rmap =
    Inr (if need < n then [AllocRec (s + need) (n - need)] else [], [s..<s + need],
      if rm then rmap_insert rmap (RmapRec s (as_u32 need) OWN_AG) else rmap)"
proof -
  have p: "pick_extent [AllocRec s n] need = Some (AllocRec s n)"
    using assms by (simp add: pick_extent_def)
  have "sub64 (sub64 (s + n) s) need = n - need" using assms by (simp add: nowrap)
  then have t: "take_extent [AllocRec s n] s need = Inr (if need < n then [AllocRec (s + need) (n - need)] else [])"
    using assms by (simp add: take_extent_def vec_remove_def vec_insert_def nowrap Let_def)
  have m: "map (\<lambda>i. add32 s (as_u32 i)) [0..<need] = [s..<s + need]"
    using assms by (intro agfl_blocks) simp
  show ?thesis
    using assms p t m
    by (subst fill_agfl.simps) (simp add: Let_def min_absorb1 fill_agfl.simps [of _ _ _ _ "[s..<s + need]"])
qed

text \<open>What a plan must be: the free list at the start of the group's space, the rest free but
  for the root inode chunk, and the reverse map of every block.\<close>

definition good_plan :: "geometry \<Rightarrow> nat \<Rightarrow> ag_plan \<Rightarrow> bool" where
  "good_plan g agno p \<longleftrightarrow>
     (let s = group_start g agno + min_freelist g; n = ag_blocks g agno in
      ap_agno p = agno \<and> ap_length p = n \<and>
      ap_agfl p = [group_start g agno..<s] \<and>
      space_ok s (ap_free p) n \<and> free_blocks (ap_free p) = {s..<n} - chunk_set g agno \<and>
      length (ap_free p) \<le> 2 \<and> length (ap_rmap p) \<le> 8 \<and>
      ap_chunk p = (if agno = 0 then Some (root_chunk_agbno g) else None) \<and>
      (if rmapbt (features g)
       then rmap_ok 0 (ap_rmap p) n \<and> (\<forall>b. owner_of (ap_rmap p) b = plan_owner g agno b)
       else ap_rmap p = []))"

lemma length_rmap_insert: "length (rmap_insert rmap rec) \<le> Suc (length rmap)"
  by (auto simp: rmap_insert_def Let_def vec_remove_def vec_insert_def split: option.split)

lemma length_take_extent: "take_extent free start len = Inr free' \<Longrightarrow> length free' \<le> Suc (length free)"
  by (erule take_extent_InrD) simp

lemma length_initial_rmap: "length (initial_rmap g agno) \<le> 6"
  by (simp add: initial_rmap_def static_rmap_def Let_def)

lemma group_filled:
  assumes g: "geometry_ok g" and t: "tiles g" and a: "agno < agcount g"
  defines "s \<equiv> group_start g agno" and "n \<equiv> ag_blocks g agno" and "need \<equiv> min_freelist g"
  assumes r: "s + need \<le> n"
  obtains rmap where
    "fill_agfl (rmapbt (features g)) agno need (initial_free g agno) [] (initial_rmap g agno) =
       Inr (if s + need < n then [AllocRec (s + need) (n - (s + need))] else [], [s..<s + need], rmap)"
    "rmapbt (features g) \<Longrightarrow> rmap_ok 0 rmap n \<and> (\<forall>b. owner_of rmap b =
       (if b < s + need then plan_owner g agno b else None))"
    "\<not> rmapbt (features g) \<Longrightarrow> rmap = []" "length rmap \<le> 7"
proof -
  have n0: "0 < need" and nb: "n < 2 ^ 30"
    using min_freelist_bounds [of g] ag_blocks_bounds(3) [OF g t a] by (simp_all add: need_def n_def)
  have sn: "s < n" and ns: "need \<le> n - s" "s + (n - s) < 2 ^ 32" using r n0 nb by simp_all
  have e: "initial_free g agno = [AllocRec s (n - s)]"
    using initial_free_eq [OF g t a] sn by (simp add: s_def n_def)
  define rmap where "rmap = (if rmapbt (features g)
    then rmap_insert (initial_rmap g agno) (RmapRec s (as_u32 need) OWN_AG) else initial_rmap g agno)"
  have f: "fill_agfl (rmapbt (features g)) agno need [AllocRec s (n - s)] [] (initial_rmap g agno) =
      Inr (if need < n - s then [AllocRec (s + need) (n - s - need)] else [], [s..<s + need], rmap)"
    unfolding rmap_def by (rule fill_single [OF n0 ns])
  have fits: "rmap_fits (rmapbt (features g)) (initial_rmap g agno) (free_blocks [AllocRec s (n - s)]) n"
    using initial_fits [OF g t a] sn by (simp add: e max_absorb2 flip: s_def n_def)
  have "need \<le> card (free_blocks [AllocRec s (n - s)])" using r by simp
  then have fl: "filled (rmapbt (features g)) s n [AllocRec s (n - s)] (initial_rmap g agno) [s..<s + need]
      (if need < n - s then [AllocRec (s + need) (n - s - need)] else []) rmap"
    using fill_agfl_result [of s "[AllocRec s (n - s)]" n "rmapbt (features g)" "initial_rmap g agno" "[]" need agno]
      fits sn nb by (auto simp: f)
  show thesis
  proof (rule that)
    show "fill_agfl (rmapbt (features g)) agno need (initial_free g agno) [] (initial_rmap g agno) =
       Inr (if s + need < n then [AllocRec (s + need) (n - (s + need))] else [], [s..<s + need], rmap)"
      using f by (simp add: e less_diff_conv add.commute)
    show "rmap_ok 0 rmap n \<and> (\<forall>b. owner_of rmap b = (if b < s + need then plan_owner g agno b else None))"
      if rm: "rmapbt (features g)"
    proof -
      have ag: "s \<le> b \<Longrightarrow> b < s + need \<Longrightarrow> plan_owner g agno b = Some OWN_AG" for b
        using prealloc_order(1,2,3) [OF rm] prealloc_order(4) [OF rm, of agno] by (auto simp: plan_owner_def Let_def simp flip: s_def need_def)
      show ?thesis
        using fl rm ag initial_rmap_ok(2) [OF g rm, of agno]
        by (auto simp: filled_def rmap_fits_def simp flip: s_def)
    qed
    show "rmap = []" if "\<not> rmapbt (features g)"
      using fl that by (auto simp: filled_def initial_rmap_def)
    show "length rmap \<le> 7"
      using length_rmap_insert [of "initial_rmap g agno" "RmapRec s (as_u32 need) OWN_AG"] length_initial_rmap [of g agno]
      by (simp add: rmap_def)
  qed
qed


lemma chunk_taken:
  assumes g: "geometry_ok g" and t: "tiles g"
  defines "s \<equiv> prealloc_blocks g + min_freelist g" and "n \<equiv> ag_blocks g 0" and "at \<equiv> root_chunk_agbno g"
  obtains free where "take_extent [AllocRec s (n - s)] at (chunk_blocks g) = Inr free"
    "space_ok s free n" "free_blocks free = {s..<n} - {at..<at + chunk_blocks g}" "s \<le> at" "at + chunk_blocks g \<le> n"
    "at + chunk_blocks g < 100" "0 < chunk_blocks g"
proof -
  have n: "1024 \<le> n" "n < 2 ^ 30"
    using ag_blocks_bounds(1,3) [OF g t, of 0] geometry_okD(15) [OF g] by (simp_all add: n_def)
  have b: "s \<le> at" "at + chunk_blocks g \<le> 80" "s < 100" "0 < chunk_blocks g"
    using root_chunk_bounds [OF g] inode_chunk_sizes(1) [OF g] by (simp_all add: s_def at_def)
  have ok: "space_ok s [AllocRec s (n - s)] n" "n < 2 ^ 32" "at + chunk_blocks g < 2 ^ 64" using n b by auto
  have "\<not> (\<exists>e. take_extent [AllocRec s (n - s)] at (chunk_blocks g) = Inl e)"
    using take_extent_fails [OF ok] b n by auto
  then obtain free where f: "take_extent [AllocRec s (n - s)] at (chunk_blocks g) = Inr free"
    by (cases "take_extent [AllocRec s (n - s)] at (chunk_blocks g)") auto
  show thesis using that [OF f] take_extent_free [OF ok(1,2) f ok(3)] b n by auto
qed

lemma plan_ag_zero:
  assumes g: "geometry_ok g" and t: "tiles g"
  shows "\<exists>p. plan_ag g 0 = Inr p \<and> good_plan g 0 p"
proof -
  define s n need at where "s = prealloc_blocks g" and "n = ag_blocks g 0" and "need = min_freelist g"
    and "at = root_chunk_agbno g"
  have a: "0 < agcount g" and l: "logagno g \<noteq> 0" using geometry_okD(15,23) [OF g] by simp_all
  have st: "group_start g 0 = s" using l by (simp add: group_start_def s_def)
  obtain free where f: "take_extent [AllocRec (s + need) (n - (s + need))] at (chunk_blocks g) = Inr free"
    "space_ok (s + need) free n" "free_blocks free = {s + need..<n} - {at..<at + chunk_blocks g}"
    "s + need \<le> at" "at + chunk_blocks g \<le> n" "at + chunk_blocks g < 100" "0 < chunk_blocks g"
    using chunk_taken [OF g t] unfolding s_def n_def need_def at_def by blast
  have sn: "s + need < n" using f by simp
  obtain rmap where r: "fill_agfl (rmapbt (features g)) 0 need (initial_free g 0) [] (initial_rmap g 0) =
       Inr (if s + need < n then [AllocRec (s + need) (n - (s + need))] else [], [s..<s + need], rmap)"
    "rmapbt (features g) \<Longrightarrow> rmap_ok 0 rmap n \<and> (\<forall>b. owner_of rmap b =
       (if b < s + need then plan_owner g 0 b else None))"
    "\<not> rmapbt (features g) \<Longrightarrow> rmap = []" "length rmap \<le> 7"
    using group_filled [OF g t a] sn unfolding st s_def [symmetric] n_def [symmetric] need_def [symmetric] by auto
  let ?rec = "RmapRec at (chunk_blocks g) OWN_INODES"
  have u: "as_u32 at = at" "as_u32 (chunk_blocks g) = chunk_blocks g" using f by (simp_all add: as_u32_def)
  have nb: "n < 2 ^ 32" using ag_blocks_bounds(3) [OF g t a] by (simp add: n_def)
  define rmap' where "rmap' = (if rmapbt (features g) then rmap_insert rmap ?rec else rmap)"
  have rm: "rmap_ok 0 rmap' n \<and> (\<forall>b. owner_of rmap' b = plan_owner g 0 b)" if m: "rmapbt (features g)"
  proof -
    note r2 = r(2) [OF m]
    have ow: "owner_of rmap b = None" if "s + need \<le> b" for b using r2 that by auto
    have d: "{at..<at + chunk_blocks g} \<inter> rmap_blocks rmap = {}"
      using ow f(4) by (fastforce simp: owner_of_dom)
    have c: "s + need \<le> b \<Longrightarrow> plan_owner g 0 b = (if b \<in> {at..<at + chunk_blocks g} then Some OWN_INODES else None)" for b
      using prealloc_order(1,2,3) [OF m] prealloc_order(4) [OF m, of 0] by (auto simp: plan_owner_def chunk_set_def st Let_def simp flip: at_def need_def s_def)
    show ?thesis
      using rmap_insert_ok [OF conjunct1 [OF r2] nb, of ?rec] f d r2 c m by (auto simp: rmap'_def)
  qed
  have "plan_ag g 0 = Inr \<lparr>ap_agno = 0, ap_length = n, ap_free = free, ap_agfl = [s..<s + need],
      ap_rmap = rmap', ap_chunk = Some at\<rparr>"
    using r(1) sn f(1) by (simp add: plan_ag_def Let_def rmap'_def u flip: need_def at_def n_def)
  moreover have "length rmap' \<le> 8" "length free \<le> 2"
    using r(4) length_rmap_insert [of rmap ?rec] length_take_extent [OF f(1)] by (auto simp: rmap'_def)
  ultimately show ?thesis
    using f(2,3) rm r(3) by (auto simp: good_plan_def Let_def chunk_set_def st rmap'_def simp flip: n_def need_def at_def)
qed

lemma plan_ag_result:
  assumes g: "geometry_ok g" and t: "tiles g" and a: "agno < agcount g"
  shows "if group_start g agno + min_freelist g \<le> ag_blocks g agno
    then \<exists>p. plan_ag g agno = Inr p \<and> good_plan g agno p
    else plan_ag g agno = Inl (InvalidParams (NoSpaceForFreeList agno))"
proof (cases "group_start g agno + min_freelist g \<le> ag_blocks g agno")
  case False
  define h where "h = max (group_start g agno) (ag_blocks g agno)"
  have h: "h < 2 ^ 32" "space_ok 0 (initial_free g agno) h"
    "card (free_blocks (initial_free g agno)) = ag_blocks g agno - group_start g agno"
    using ag_blocks_bounds(3) [OF g t a] group_start_small(1) [OF g t a]
    by (auto simp: h_def initial_free_eq [OF g t a])
  have "\<not> min_freelist g \<le> ag_blocks g agno - group_start g agno"
    using False min_freelist_bounds(1) [of g] by linarith
  then have "fill_agfl (rmapbt (features g)) agno (min_freelist g) (initial_free g agno) [] (initial_rmap g agno) =
      Inl (InvalidParams (NoSpaceForFreeList agno))"
    using fill_agfl_result [OF h(2,1) initial_fits [OF g t a, folded h_def], of "[]" "min_freelist g" agno]
    unfolding h(3) by simp
  then show ?thesis using False by (simp add: plan_ag_def)
next
  case True
  show ?thesis
  proof (cases "agno = 0")
    case False
    define s n need where "s = group_start g agno" and "n = ag_blocks g agno" and "need = min_freelist g"
    obtain rmap where r: "fill_agfl (rmapbt (features g)) agno need (initial_free g agno) [] (initial_rmap g agno) =
       Inr (if s + need < n then [AllocRec (s + need) (n - (s + need))] else [], [s..<s + need], rmap)"
      "rmapbt (features g) \<Longrightarrow> rmap_ok 0 rmap n \<and> (\<forall>b. owner_of rmap b =
         (if b < s + need then plan_owner g agno b else None))"
      "\<not> rmapbt (features g) \<Longrightarrow> rmap = []" "length rmap \<le> 7"
      using group_filled [OF g t a] True unfolding s_def [symmetric] n_def [symmetric] need_def [symmetric] by auto
    have c: "plan_owner g agno b = None" if "s + need \<le> b" "rmapbt (features g)" for b
      using prealloc_order(1,2,3) [OF that(2)] prealloc_order(4) [OF that(2), of agno] that(1) False
      by (auto simp: plan_owner_def chunk_set_def Let_def simp flip: s_def need_def)
    have "plan_ag g agno = Inr \<lparr>ap_agno = agno, ap_length = n,
        ap_free = (if s + need < n then [AllocRec (s + need) (n - (s + need))] else []),
        ap_agfl = [s..<s + need], ap_rmap = rmap, ap_chunk = None\<rparr>"
      using r(1) False by (simp add: plan_ag_def Let_def flip: need_def n_def)
    moreover have "s + need \<le> n" using True by (simp add: s_def n_def need_def)
    ultimately show ?thesis
      using r(2,3,4) c False True
      by (auto simp: good_plan_def Let_def chunk_set_def simp flip: n_def need_def s_def)
  qed (use plan_ag_zero [OF g t] True in simp)
qed


subsection \<open>Counting free blocks\<close>

lemma foldl_add64: "a + sum_list xs < 2 ^ 64 \<Longrightarrow> foldl add64 a xs = a + sum_list xs"
  by (induction xs arbitrary: a) (simp_all add: nowrap add.assoc)

lemma freeblks_card:
  assumes "space_ok lo (ap_free p) hi" "hi < 2 ^ 32"
  shows "freeblks p = card (free_blocks (ap_free p))"
proof -
  have "card (free_blocks (ap_free p)) \<le> card {lo..<hi}"
    using extents_in_blocks [OF assms(1)] by (intro card_mono) simp_all
  then have "sum_list (map ar_count (ap_free p)) < 2 ^ 64"
    using free_blocks_card(1) [OF assms(1)] assms(2) by simp
  then show ?thesis
    using foldl_add64 [of 0 "map ar_count (ap_free p)"] free_blocks_card(1) [OF assms(1)] by (simp add: freeblks_def)
qed

lemma chunk_set_card:
  assumes g: "geometry_ok g" and t: "tiles g"
  shows "card (chunk_set g agno) = (if agno = 0 then chunk_blocks g else 0)"
    "chunk_set g agno \<subseteq> {group_start g agno + min_freelist g..<ag_blocks g agno}"
proof -
  have l: "logagno g \<noteq> 0" using geometry_okD(15,23) [OF g] by simp
  have "1024 \<le> ag_blocks g 0" using ag_blocks_bounds(1) [OF g t, of 0] geometry_okD(15) [OF g] by simp
  then show "card (chunk_set g agno) = (if agno = 0 then chunk_blocks g else 0)"
    "chunk_set g agno \<subseteq> {group_start g agno + min_freelist g..<ag_blocks g agno}"
    using root_chunk_bounds [OF g] l by (auto simp: chunk_set_def group_start_def)
qed

lemma good_plan_free:
  assumes g: "geometry_ok g" and t: "tiles g" and a: "agno < agcount g" and p: "good_plan g agno p"
    and r: "group_start g agno + min_freelist g \<le> ag_blocks g agno"
  shows "freeblks p + length (ap_agfl p) + group_start g agno + (if agno = 0 then chunk_blocks g else 0) = ag_blocks g agno"
proof -
  define s where "s = group_start g agno + min_freelist g"
  have "freeblks p = card ({s..<ag_blocks g agno} - chunk_set g agno)"
    using freeblks_card [of s p "ag_blocks g agno"] p ag_blocks_bounds(3) [OF g t a] by (simp add: good_plan_def Let_def s_def)
  also have "\<dots> = ag_blocks g agno - s - card (chunk_set g agno)"
    using chunk_set_card [OF g t, of agno] by (subst card_Diff_subset) (auto simp: s_def intro: finite_subset)
  finally have "freeblks p + card (chunk_set g agno) = ag_blocks g agno - s"
    using card_mono [OF _ chunk_set_card(2) [OF g t, of agno]] by (simp add: s_def)
  moreover have "length (ap_agfl p) = min_freelist g" using p by (simp add: good_plan_def Let_def)
  ultimately show ?thesis using chunk_set_card(1) [OF g t, of agno] r by (simp add: s_def)
qed

subsection \<open>A log that leaves no room for the free list\<close>

text \<open>
  \<open>tight_params\<close> asks for groups of 65 MiB on a device of 200 GiB: the log is clipped to what a group
  has free, less four blocks kept for the free list, and the free list needs six.
\<close>

definition tight_params :: params where
  "tight_params = params_new\<lparr>p_agsize := Some (65 * 2 ^ 20)\<rparr>"

lemma tight_stages:
  "validate_blocksize tight_params = Inr 4096"
  "validate_sectorsize tight_params 4096 512 512 = Inr 512"
  "validate_inodesize tight_params 4096 = Inr 512"
  "label_bytes tight_params = Inr (replicate 12 0)"
  "p_features tight_params = default_features"
  "validate_datadev tight_params (200 * 2 ^ 30) 12 = Inr 52428800"
  "initial_ag_geometry tight_params 4096 12 52428800 = Inr (16640, 3151)"
  "align_ag_geometry tight_params 12 52428800 16640 3151 = Inr (52428800, 3151)"
  "validate_ag_geometry 12 52428800 16640 3151 = Inr ()"
  "calculate_imaxpct tight_params 12 52428800 = Inr 25"
  "log2_roundup 16640 = Some 15"
  by (simp_all add: tight_params_def params_new_def validate_blocksize_def validate_sectorsize_def
      default_sectorsize_def validate_inodesize_def label_bytes_def geometry_consts
      is_power_of_two.simps validate_datadev_def shr64_def ag_min_blocks_def initial_ag_geometry_def
      div_ceil_def align_ag_geometry_def validate_ag_geometry_def ag_max_blocks_def
      calculate_imaxpct_def log2_roundup_def log2_roundup_from.simps shl64_def)

lemma tight_geometry:
  obtains g where "compute tight_params (200 * 2 ^ 30) 512 512 = Inr g"
    "agcount g = 3151" "agsize g = 16640" "logagno g = 1575" "logblocks g = 16628" "prealloc_blocks g = 7"
    "features g = default_features"
proof -
  define G where "G = start_geometry tight_params 4096 512 512 52428800 16640 3151 15 25 (replicate 12 0)"
  have G: "blocklog G = 12" "blocksize G = 4096" "sectsize G = 512" "agsize G = 16640" "agcount G = 3151"
    "dblocks G = 52428800" "prealloc_blocks G = 7" "features G = default_features"
    by (simp_all add: G_def start_geometry_def default_stages tight_stages prealloc_blocks_eq
        header_blocks_def bs_def div_ceil_def u64_of_bool_def)
  note c = compute_stages [of tight_params, unfolded tight_stages(5), OF default_stages(1)
      tight_stages(1-3), unfolded default_stages(6), OF tight_stages(6-10,4,11), folded G_def]
  have l: "log_size_spec G = 16628" by (simp add: log_size_spec_def G geometry_consts)
  have "calculate_log_size G = Inr (G\<lparr>logagno := 1575, logblocks := 16628, log_agbno := 7\<rparr>)"
    using calculate_log_size_eq(1) [of G] G l by simp
  moreover define H where "H = G\<lparr>logagno := 1575, logblocks := 16628, log_agbno := 7\<rparr>"
  ultimately have e: "compute tight_params (200 * 2 ^ 30) 512 512 = Inr H"
    unfolding c using G(1-7) by (simp add: validate_supported_def shr64_def geometry_consts)
  have "prealloc_blocks H = prealloc_blocks G" by (rule prealloc_blocks_cong) (simp_all add: H_def)
  moreover have "agcount H = agcount G" "agsize H = agsize G" "logagno H = 1575" "logblocks H = 16628"
    "features H = features G"
    by (simp_all add: H_def)
  ultimately show thesis by (intro that [of H] e) (simp_all only: G)
qed

section \<open>Properties\<close>

text \<open>
  \<^bold>\<open>C23\<close>. \<^verbatim>\<open>plan_ag\<close> on an accepted geometry: the plan exists exactly when the group holds the preallocated
  blocks, its log and its free list, and it is then the end state the format promises: the free
  list first, every other block free but for the root inode chunk of group 0, and the owner of every
  block in the reverse map. Otherwise the error is that the group has no space for its free list.
\<close>

theorem plan_ag_good:
  assumes "geometry_ok g" "tiles g" "agno < agcount g"
  shows "if group_start g agno + min_freelist g \<le> ag_blocks g agno
    then \<exists>p. plan_ag g agno = Inr p \<and> good_plan g agno p
    else plan_ag g agno = Inl (InvalidParams (NoSpaceForFreeList agno))"
  by (rule plan_ag_result [OF assms])

theorem plan_ag_good_witness:
  "\<exists>p. plan_ag geometry_512m 2 = Inr p \<and> good_plan geometry_512m 2 p"
proof -
  have a: "2 < agcount geometry_512m" by (simp add: geometry_512m_def)
  have "group_start geometry_512m 2 + min_freelist geometry_512m \<le> ag_blocks geometry_512m 2"
    by (simp add: geometry_512m_def group_start_def min_freelist_def ag_blocks_def prealloc_blocks_eq header_blocks_def
        bs_def div_ceil_def u64_of_bool_def sub64_def)
  then show ?thesis using plan_ag_good [OF geometry_512m_ok a] by simp
qed

text \<open>
  \<^bold>\<open>C24\<close>. In a plan no block is both free and owned and no block of the group is lost: with a reverse
  map, a block is free exactly when it has no owner, and the blocks of the free list belong to the
  group.
\<close>

theorem plan_partitions_group:
  assumes "geometry_ok g" "tiles g" "agno < agcount g" "rmapbt (features g)" "plan_ag g agno = Inr p" "b < ag_blocks g agno"
  shows "(b \<in> free_blocks (ap_free p) \<longleftrightarrow> owner_of (ap_rmap p) b = None) \<and>
    (b \<in> set (ap_agfl p) \<longrightarrow> owner_of (ap_rmap p) b = Some OWN_AG)"
proof -
  have p: "good_plan g agno p" using plan_ag_result [OF assms(1-3)] assms(5) by (auto split: if_split_asm)
  then show ?thesis
    using assms(4,6) prealloc_order(1,2,3) [OF assms(4)] prealloc_order(4) [OF assms(4), of agno]
    by (auto simp: good_plan_def plan_owner_def Let_def)
qed

theorem plan_partitions_group_witness:
  "\<exists>p. plan_ag geometry_512m 0 = Inr p \<and>
     (20 \<in> free_blocks (ap_free p) \<longleftrightarrow> owner_of (ap_rmap p) 20 = None)"
proof -
  obtain p where p: "plan_ag geometry_512m 0 = Inr p" using plan_ag_zero [OF geometry_512m_ok] by blast
  have "20 < ag_blocks geometry_512m 0" "0 < agcount geometry_512m" "rmapbt (features geometry_512m)"
    by (simp_all add: geometry_512m_def ag_blocks_def sub64_def)
  then show ?thesis using plan_partitions_group [OF geometry_512m_ok _ _ p] p by blast
qed

text \<open>
  \<^bold>\<open>C26\<close>. A geometry that \<^verbatim>\<open>Geometry::compute\<close> accepts and \<^verbatim>\<open>plan_ag\<close> then refuses: groups of 65 MiB on a
  device of 200 GiB leave five blocks after the log, one short of the free list.
\<close>

theorem accepted_geometry_refused:
  "\<exists>g. compute tight_params (200 * 2 ^ 30) 512 512 = Inr g \<and>
     plan_ag g (logagno g) = Inl (InvalidParams (NoSpaceForFreeList 1575))"
proof -
  obtain g where g: "compute tight_params (200 * 2 ^ 30) 512 512 = Inr g"
    "agcount g = 3151" "agsize g = 16640" "logagno g = 1575" "logblocks g = 16628" "prealloc_blocks g = 7"
    "features g = default_features"
    by (rule tight_geometry)
  have ok: "geometry_ok g" "tiles g" using compute_geometry(1,4) [OF g(1)] by (simp_all add: tight_params_def params_new_def)
  have a: "logagno g < agcount g" using g by simp
  have "\<not> group_start g (logagno g) + min_freelist g \<le> ag_blocks g (logagno g)"
    using g ag_blocks_eq [OF ok a] by (simp add: group_start_def min_freelist_def)
  then show ?thesis using plan_ag_result [OF ok a] g by auto
qed

end
