(* ===== verification/Format.thy ===== *)
theory Format
  imports Group_Plan Device Inodes
begin

unbundle bit_operations_syntax

section \<open>The formatter (\<^verbatim>\<open>src/format.rs\<close>)\<close>

text \<open>
  The headers and btree roots of a group, the root inode chunk, and the sequence of device
  operations of \<^verbatim>\<open>format\<close>. The operations are a list of steps on the device, so that a format
  that stops half way is a prefix of it. The groups are written concurrently in the source: the order in
  which their writes reach the device is the parameter \<open>order\<close>, any permutation of the groups. The writers themselves are in
  \<open>Group_Writers\<close>.
  The UUID, the time and the generator seed that the source takes from the system when the
  parameters do not give them are parameters too.
\<close>

definition WHACK_SIZE :: nat where "WHACK_SIZE = 128 * 1024"

record report =
  r_geometry :: geometry
  r_uuid :: bytes
  r_rootino :: u64
  r_fdblocks :: nat

subsection \<open>Generation numbers\<close>

definition gen_next :: "u64 \<Rightarrow> u32 \<times> u64" where
  "gen_next s =
     (let s = s + 0x9e3779b97f4a7c15;
          z = s;
          z = (z XOR drop_bit 30 z) * 0xbf58476d1ce4e5b9;
          z = (z XOR drop_bit 27 z) * 0x94d049bb133111eb
      in (ucast (z XOR drop_bit 31 z), s))"

subsection \<open>The root inode chunk\<close>

definition size_from_data :: "dinode \<Rightarrow> dinode" where
  "size_from_data d = d\<lparr>d_size := of_nat (length (d_data d))\<rparr>"

definition chunk_flags2 :: "geometry \<Rightarrow> u64" where
  "chunk_flags2 g =
     (let flags2 = 0;
          flags2 = (if bigtime (features g) then flags2 OR DIFLAG2_BIGTIME else flags2)
      in if nrext64 (features g) then flags2 OR DIFLAG2_NREXT64 else flags2)"

definition base_inode :: "geometry \<Rightarrow> u64 \<Rightarrow> timestamp \<Rightarrow> dinode" where
  "base_inode g first time =
     \<lparr>d_ino = first, d_mode = 0, d_format = FMT_EXTENTS, d_nlink = 1, d_size = 0, d_flags = 0,
      d_flags2 = chunk_flags2 g, d_gen = 0, d_changecount = 2, d_atime = time, d_mtime = time,
      d_ctime = time, d_crtime = time, d_data = []\<rparr>"

definition root_chunk :: "geometry \<Rightarrow> nat \<Rightarrow> bytes \<Rightarrow> timestamp \<Rightarrow> u64 \<Rightarrow> error + bytes" where
  "root_chunk g agbno uuid time gen =
     (let isz = inodesize g;
          len = mul64 (chunk_blocks g) (bs g);
          first = of_nat (ino g 0 agbno 0);
          (chunk_gen, gen) = gen_next gen;
          base = base_inode g first time;
          (rbm_gen, gen) = gen_next gen;
          (rsum_gen, gen) = gen_next gen in
      if isz = 0 then Inl Panicked
      else
        and_then (empty_sf_dir first) (\<lambda>data.
        let root = base\<lparr>d_mode := 0x41ed, d_format := FMT_LOCAL, d_nlink := 2, d_data := data\<rparr>;
            rbm = base\<lparr>d_ino := first + 1, d_mode := 0x8000, d_flags := DIFLAG_NEWRTBM, d_gen := rbm_gen,
                       d_atime := \<lparr>secs = 0, nsecs = 0\<rparr>\<rparr>;
            rsum = base\<lparr>d_ino := first + 2, d_mode := 0x8000, d_gen := rsum_gen\<rparr> in
        run_edits
          (map (\<lambda>i. on_slice (i * isz) (min isz (len - i * isz)) (encode_free (first + of_nat i) chunk_gen uuid))
             [0..<div_ceil len isz] @
           [on_slice 0 isz (dinode_encode (size_from_data root) uuid),
            on_slice isz isz (dinode_encode rbm uuid),
            on_slice (2 * isz) isz (dinode_encode rsum uuid)])
          (replicate len 0)))"

subsection \<open>The head of a group\<close>

definition plan_agf :: "geometry \<Rightarrow> ag_plan \<Rightarrow> agf" where
  "plan_agf g plan =
     (let f = features g; agfl_len = length (ap_agfl plan) in
      \<lparr>agf_seqno = of_nat (ap_agno plan), agf_length = of_nat (ap_length plan),
       agf_bno_root = of_nat (bno_block g), agf_bno_level = 1,
       agf_cnt_root = of_nat (cnt_block g), agf_cnt_level = 1,
       agf_rmap_root = (if rmapbt f then of_nat (rmap_block g) else 0),
       agf_rmap_level = of_bool (rmapbt f), agf_rmap_blocks = of_bool (rmapbt f),
       agf_refcount_root = (if reflink f then of_nat (refc_block g) else 0),
       agf_refcount_level = of_bool (reflink f), agf_refcount_blocks = of_bool (reflink f),
       agf_flfirst = 1, agf_fllast = of_nat (agfl_len mod agfl_size g), agf_flcount = of_nat agfl_len,
       agf_freeblks = of_nat (freeblks plan), agf_longest = of_nat (longest plan), agf_btreeblks = 0\<rparr>)"

definition plan_startino :: "geometry \<Rightarrow> ag_plan \<Rightarrow> u32 option" where
  "plan_startino g plan = map_option (\<lambda>c. of_nat (shl64 c (inopblog g))) (ap_chunk plan)"

definition plan_agi :: "geometry \<Rightarrow> ag_plan \<Rightarrow> agi" where
  "plan_agi g plan =
     (let f = features g;
          chunk = plan_startino g plan;
          (count, freecount) = (if chunk \<noteq> None then (64, 61) else (0, 0)) in
      \<lparr>agi_seqno = of_nat (ap_agno plan), agi_length = of_nat (ap_length plan), agi_count = count,
       agi_root = of_nat (ibt_block g), agi_level = 1, agi_freecount = freecount,
       agi_newino = (case chunk of Some c \<Rightarrow> c | None \<Rightarrow> NULL32),
       agi_free_root = (if finobt f then of_nat (fibt_block g) else 0),
       agi_free_level = of_bool (finobt f),
       agi_iblocks = of_bool (inobtcount f), agi_fblocks = of_bool (inobtcount f \<and> finobt f)\<rparr>)"

definition put_leaf ::
  "geometry \<Rightarrow> nat \<Rightarrow> bytes \<Rightarrow> u32 \<Rightarrow> nat \<Rightarrow> error + bytes \<Rightarrow> nat \<Rightarrow> bytes \<Rightarrow> error + bytes" where
  "put_leaf g agno uuid magic agbno recs n buf =
     and_then recs (\<lambda>recs.
     and_then (leaf_block magic (of_nat (agb_to_daddr g agno agbno)) (of_nat agno) uuid recs (of_nat n) (bs g)) (\<lambda>block.
     write_slice (agbno * bs g) block buf))"

definition by_size :: "alloc_rec list \<Rightarrow> alloc_rec list" where
  "by_size free = sort_key (\<lambda>r. (ar_count r, ar_start r)) free"

definition plan_inodes :: "geometry \<Rightarrow> ag_plan \<Rightarrow> inobt_rec list" where
  "plan_inodes g plan =
     (case plan_startino g plan of
        None \<Rightarrow> []
      | Some startino \<Rightarrow> [InobtRec startino 0 64 61 (NOT 7)])"

definition ag_head :: "geometry \<Rightarrow> ag_plan \<Rightarrow> bytes \<Rightarrow> sb_state \<Rightarrow> error + bytes" where
  "ag_head g plan uuid sbs =
     (let ss = sectsize g;
          f = features g;
          agno = ap_agno plan;
          leaf = put_leaf g agno uuid;
          inodes = plan_inodes g plan;
          irecs = inobt_recs inodes (sparse f) in
      if agfl_size g = 0 then Inl Panicked
      else run_edits
        ([on_slice 0 ss (sb_encode g sbs),
          on_slice ss ss (agf_encode (plan_agf g plan) uuid),
          on_slice (2 * ss) ss (agi_encode (plan_agi g plan) uuid),
          on_slice (3 * ss) ss (encode_agfl (of_nat agno) uuid 1 (map of_nat (ap_agfl plan))),
          leaf btree_magic_BNO (bno_block g) (alloc_recs (ap_free plan)) (length (ap_free plan)),
          leaf btree_magic_CNT (cnt_block g) (alloc_recs (by_size (ap_free plan))) (length (by_size (ap_free plan))),
          leaf btree_magic_INO (ibt_block g) irecs (length inodes)] @
         (if finobt f then [leaf btree_magic_FINO (fibt_block g) irecs (length inodes)] else []) @
         (if rmapbt f then [leaf btree_magic_RMAP (rmap_block g) (rmap_recs (ap_rmap plan)) (length (ap_rmap plan))] else []) @
         (if reflink f then [leaf btree_magic_REFC (refc_block g) (Inr []) 0] else []))
        (replicate (prealloc_blocks g * bs g) 0))"

subsection \<open>The format\<close>

definition secondary_sb :: "geometry \<Rightarrow> bytes \<Rightarrow> sb_state" where
  "secondary_sb g uuid =
     \<lparr>s_uuid = uuid, s_rootino = NULL64, s_rbmino = NULL64, s_rsumino = NULL64, s_icount = 0, s_ifree = 0,
      s_fdblocks = of_nat (initial_fdblocks g), s_inprogress = True\<rparr>"

definition total_fdblocks :: "ag_plan list \<Rightarrow> nat" where
  "total_fdblocks plans = foldl add64 0 (map (\<lambda>p. add64 (freeblks p) (length (ap_agfl p))) plans)"

definition finished_sb :: "geometry \<Rightarrow> bytes \<Rightarrow> ag_plan list \<Rightarrow> sb_state" where
  "finished_sb g uuid plans =
     (let rootino = of_nat (rootino g) in
      (secondary_sb g uuid)
        \<lparr>s_rootino := rootino, s_rbmino := rootino + 1, s_rsumino := rootino + 2, s_icount := 64, s_ifree := 61,
         s_fdblocks := of_nat (total_fdblocks plans), s_inprogress := False\<rparr>)"

definition group_sb :: "geometry \<Rightarrow> bytes \<Rightarrow> ag_plan list \<Rightarrow> nat \<Rightarrow> sb_state" where
  "group_sb g uuid plans agno =
     (let middle = (if agcount g > 2 then Some (sub64 (agcount g) 1 div 2) else None) in
      if agno = 0 then (finished_sb g uuid plans)\<lparr>s_inprogress := True\<rparr>
      else if agno = sub64 (agcount g) 1 \<or> Some agno = middle
      then (secondary_sb g uuid)\<lparr>s_rootino := of_nat (rootino g)\<rparr>
      else secondary_sb g uuid)"

definition zero_head :: "'d dev_ops \<Rightarrow> geometry \<Rightarrow> 'd \<Rightarrow> error + 'd" where
  "zero_head D g d =
     (let dev_blocks_end = dev_size D d div bs g * bs g in dev_write_zeroes D d 0 (min WHACK_SIZE dev_blocks_end))"

definition zero_tail :: "'d dev_ops \<Rightarrow> geometry \<Rightarrow> 'd \<Rightarrow> error + 'd" where
  "zero_tail D g d =
     (let dev_blocks_end = dev_size D d div bs g * bs g;
          tail = (dev_blocks_end - WHACK_SIZE) div bs g * bs g in
      dev_write_zeroes D d tail (dev_blocks_end - tail))"

definition log_at :: "geometry \<Rightarrow> nat" where
  "log_at g = agb_to_byte g (logagno g) (log_agbno g)"

definition zero_log :: "'d dev_ops \<Rightarrow> geometry \<Rightarrow> 'd \<Rightarrow> error + 'd" where
  "zero_log D g d = dev_write_zeroes D d (log_at g) (mul64 (logblocks g) (bs g))"

definition first_log_block :: "geometry \<Rightarrow> bytes \<Rightarrow> error + bytes" where
  "first_log_block g uuid =
     (let logsectsize = (if sectsize g > 512 then lsectsize g else 0) in
      and_then (first_record uuid (clear_sunit (logsunit g) logsectsize)) (\<lambda>rec.
      write_slice 0 rec (replicate (bs g) 0)))"

definition write_log :: "'d dev_ops \<Rightarrow> geometry \<Rightarrow> bytes \<Rightarrow> 'd \<Rightarrow> error + 'd" where
  "write_log D g uuid d = and_then (first_log_block g uuid) (dev_write_at D d (log_at g))"

definition write_group :: "'d dev_ops \<Rightarrow> geometry \<Rightarrow> ag_plan list \<Rightarrow> bytes \<Rightarrow> nat \<Rightarrow> 'd \<Rightarrow> error + 'd" where
  "write_group D g plans uuid agno d =
     (if agno < length plans
      then and_then (ag_head g (plans ! agno) uuid (group_sb g uuid plans agno)) (dev_write_at D d (agb_to_byte g agno 0))
      else Inl Panicked)"

definition write_chunk :: "'d dev_ops \<Rightarrow> geometry \<Rightarrow> ag_plan list \<Rightarrow> bytes \<Rightarrow> timestamp \<Rightarrow> u64 \<Rightarrow> 'd \<Rightarrow> error + 'd" where
  "write_chunk D g plans uuid time gen d =
     (if plans = [] then Inl Panicked
      else case ap_chunk (plans ! 0) of
        None \<Rightarrow> Inl Panicked
      | Some chunk \<Rightarrow> and_then (root_chunk g chunk uuid time gen) (dev_write_at D d (agb_to_byte g 0 chunk)))"

definition write_finished :: "'d dev_ops \<Rightarrow> geometry \<Rightarrow> ag_plan list \<Rightarrow> bytes \<Rightarrow> 'd \<Rightarrow> error + 'd" where
  "write_finished D g plans uuid d =
     (if plans = [] then Inl Panicked
      else and_then (ag_head g (plans ! 0) uuid (finished_sb g uuid plans)) (\<lambda>head.
           and_then (read_slice 0 (mul64 (header_blocks g) (bs g)) head) (dev_write_at D d 0)))"

definition format_steps ::
  "'d dev_ops \<Rightarrow> geometry \<Rightarrow> ag_plan list \<Rightarrow> bytes \<Rightarrow> timestamp \<Rightarrow> u64 \<Rightarrow> nat list \<Rightarrow> ('d \<Rightarrow> error + 'd) list" where
  "format_steps D g plans uuid time gen order =
     [zero_head D g, zero_tail D g, zero_log D g, write_log D g uuid] @
     map (write_group D g plans uuid) order @
     [write_chunk D g plans uuid time gen, dev_flush D, write_finished D g plans uuid, dev_flush D]"

definition format ::
  "'d dev_ops \<Rightarrow> params \<Rightarrow> bytes \<Rightarrow> timestamp \<Rightarrow> u64 \<Rightarrow> nat list \<Rightarrow> 'd \<Rightarrow> error + 'd \<times> report" where
  "format D p new_uuid now new_seed order d =
     and_then (compute p (dev_size D d) (dev_logical D d) (dev_physical D d)) (\<lambda>g.
     let uuid = (case p_uuid p of Some u \<Rightarrow> u | None \<Rightarrow> new_uuid);
         time = (case p_time p of Some t \<Rightarrow> t | None \<Rightarrow> now);
         gen = (case p_gen_seed p of Some s \<Rightarrow> s | None \<Rightarrow> new_seed) in
     and_then (try_map (plan_ag g) [0..<agcount g]) (\<lambda>plans.
     and_then (run_edits (format_steps D g plans uuid time gen order) d) (\<lambda>d.
     Inr (d, \<lparr>r_geometry = g, r_uuid = uuid, r_rootino = of_nat (rootino g), r_fdblocks = total_fdblocks plans\<rparr>))))"

end
