(* ===== verification/Group_Head.thy ===== *)
theory Group_Head
  imports Format
begin

section \<open>The head of a group holds all its structures\<close>

text \<open>
  \<open>ag_head\<close> fills a zeroed buffer region by region: the superblock, the three header sectors and
  one block for each btree root. Each region is written by an encoder with a contract, the
  regions do not overlap, so each is found in the result as its encoder left it, and only
  the first one depends on the state of the superblock.
\<close>

subsection \<open>Regions of a buffer\<close>

fun chain :: "nat \<Rightarrow> field list \<Rightarrow> nat \<Rightarrow> bool" where
  "chain lo [] hi \<longleftrightarrow> lo \<le> hi"
| "chain lo ((off, c) # fs) hi \<longleftrightarrow> lo \<le> off \<and> chain (off + length c) fs hi"

lemma chain_le: "chain lo fs hi \<Longrightarrow> lo \<le> hi"
  by (induction lo fs hi rule: chain.induct) auto

lemma chain_mono: "chain lo fs hi \<Longrightarrow> lo' \<le> lo \<Longrightarrow> chain lo' fs hi"
  by (cases fs) auto

lemma chain_append: "chain lo (fs @ hs) hi \<longleftrightarrow> (\<exists>m. chain lo fs m \<and> chain m hs hi)"
proof (induction fs arbitrary: lo)
  case Nil
  show ?case using chain_mono by auto
qed auto

lemma chain_member: "chain lo fs hi \<Longrightarrow> (off, c) \<in> set fs \<Longrightarrow> lo \<le> off \<and> off + length c \<le> hi"
proof (induction lo fs hi rule: chain.induct)
  case (2 lo off' c' fs hi)
  then show ?case using chain_le [of "off' + length c'" fs hi] by fastforce
qed simp

lemma chain_fields: "chain lo fs hi \<Longrightarrow> fields_inside hi fs \<and> fields_apart fs"
proof (induction lo fs hi rule: chain.induct)
  case (2 lo off c fs hi)
  then show ?case using chain_member [of "off + length c" fs hi] chain_le [of "off + length c" fs hi]
    by (auto simp: fields_inside_def list_all_iff apart_def)
qed (simp add: fields_inside_def)

text \<open>\<open>fills e f\<close>: on a buffer that is zero in the region of \<open>f\<close>, the edit \<open>e\<close> writes \<open>f\<close>.\<close>

definition fills :: "nat \<Rightarrow> (bytes \<Rightarrow> error + bytes) \<Rightarrow> field \<Rightarrow> bool" where
  "fills n e f \<longleftrightarrow> (\<forall>b. length b = n \<longrightarrow> slice (fst f) (length (snd f)) b = replicate (length (snd f)) 0 \<longrightarrow>
     e b = Inr (splice (fst f) (snd f) b))"

lemma run_fills:
  assumes "list_all2 (fills n) es fs" "chain lo fs n" "length b = n" "slice lo (n - lo) b = replicate (n - lo) 0"
  shows "run_edits es b = Inr (apply_fields fs b)"
  using assms
proof (induction fs arbitrary: es lo b rule: list.induct)
  case (Cons f fs)
  obtain off c where f: "f = (off, c)" by force
  obtain e es' where es: "es = e # es'" "fills n e f" "list_all2 (fills n) es' fs"
    using Cons.prems(1) by (auto simp: list_all2_Cons2)
  have ch: "lo \<le> off" "chain (off + length c) fs n" "off + length c \<le> n"
    using Cons.prems(2) chain_le [of "off + length c" fs n] by (auto simp: f)
  have z: "b ! i = 0" if "lo \<le> i" "i < n" for i
  proof -
    have "slice lo (n - lo) b ! (i - lo) = b ! i" using that Cons.prems(3) by (subst nth_slice) auto
    then show ?thesis using that Cons.prems(4) by simp
  qed
  have "slice off (length c) b = replicate (length c) 0"
    using z ch Cons.prems(3) by (intro nth_equalityI) (auto simp: nth_slice slice_simps)
  then have e: "e b = Inr (splice off c b)" using es(2) Cons.prems(3) by (simp add: fills_def f)
  have "run_edits es' (splice off c b) = Inr (apply_fields fs (splice off c b))"
  proof (rule Cons.IH [OF es(3) ch(2)])
    show "slice (off + length c) (n - (off + length c)) (splice off c b) = replicate (n - (off + length c)) 0"
      using z ch Cons.prems(3) by (intro nth_equalityI) (auto simp: nth_slice nth_splice slice_simps)
  qed (use Cons.prems(3) ch in \<open>simp add: slice_simps\<close>)
  then show ?case by (simp add: es(1) e f apply_fields_def)
qed (simp add: apply_fields_def)

lemma fills_on_slice:
  assumes "f (replicate n 0) = Inr c" "length c = n" "off + n \<le> m"
  shows "fills m (on_slice off n f) (off, c)"
  using assms by (simp add: fills_def on_slice_def slice_simps)

text \<open>The first region apart from the rest.\<close>

lemma apply_fields_first:
  assumes "chain (length c) fs n" "length b = n"
  shows "apply_fields ((0, c) # fs) b = c @ drop (length c) (apply_fields fs b)"
proof -
  have l: "length c \<le> n" using chain_le [OF assms(1)] .
  note fs = chain_fields [OF assms(1)]
  have "apply_fields fs (splice 0 c b) ! i = (if i < length c then c ! i else apply_fields fs b ! i)" if "i < n" for i
  proof (cases "covers fs i")
    case True
    then obtain off s where m: "(off, s) \<in> set fs" "off \<le> i" "i < off + length s" by (auto simp: covers_def list_ex_iff)
    have "x ! i = s ! (i - off)" if "holds fs x" for x
      using holds_member [OF that m(1)] m(2,3) nth_slice [of off "length s" x "i - off"] by (simp add: le_add_diff_inverse)
    moreover have "holds fs (apply_fields fs (splice 0 c b))" "holds fs (apply_fields fs b)"
      using fs l assms(2) by (simp_all add: holds_apply_fields slice_simps)
    ultimately show ?thesis using chain_member [OF assms(1) m(1)] m(2) by simp
  next
    case False
    then show ?thesis using fs l assms(2) that by (simp add: nth_apply_fields nth_splice slice_simps)
  qed
  moreover have "length (apply_fields fs (splice 0 c b)) = n" "length (apply_fields fs b) = n"
    using fs l assms(2) by (simp_all add: length_apply_fields slice_simps)
  ultimately show ?thesis
    using l by (intro nth_equalityI) (auto simp: apply_fields_def nth_append)
qed


subsection \<open>The btree roots\<close>

definition head_leaves :: "geometry \<Rightarrow> ag_plan \<Rightarrow> (u32 \<times> nat \<times> bytes \<times> nat) list" where
  "head_leaves g plan =
     (let f = features g; inodes = plan_inodes g plan; irecs = concat (map (inobt_bytes (sparse f)) inodes) in
      [(btree_magic_BNO, bno_block g, concat (map alloc_bytes (ap_free plan)), length (ap_free plan)),
       (btree_magic_CNT, cnt_block g, concat (map alloc_bytes (by_size (ap_free plan))), length (by_size (ap_free plan))),
       (btree_magic_INO, ibt_block g, irecs, length inodes)] @
      (if finobt f then [(btree_magic_FINO, fibt_block g, irecs, length inodes)] else []) @
      (if rmapbt f then [(btree_magic_RMAP, rmap_block g, concat (map rmap_bytes (ap_rmap plan)), length (ap_rmap plan))] else []) @
      (if reflink f then [(btree_magic_REFC, refc_block g, [], 0)] else []))"

definition leaf_of :: "geometry \<Rightarrow> nat \<Rightarrow> bytes \<Rightarrow> u32 \<times> nat \<times> bytes \<times> nat \<Rightarrow> leaf_args" where
  "leaf_of g agno uuid l = (case l of (magic, agbno, recs, n) \<Rightarrow>
     (magic, of_nat (agb_to_daddr g agno agbno), of_nat agno, uuid, recs, of_nat n))"

definition leaf_bytes :: "geometry \<Rightarrow> nat \<Rightarrow> bytes \<Rightarrow> u32 \<times> nat \<times> bytes \<times> nat \<Rightarrow> bytes" where
  "leaf_bytes g agno uuid l =
     (case leaf_encode (leaf_of g agno uuid l) (replicate (bs g) 0) of Inr b \<Rightarrow> b | Inl _ \<Rightarrow> [])"

definition leaf_region :: "geometry \<Rightarrow> nat \<Rightarrow> bytes \<Rightarrow> u32 \<times> nat \<times> bytes \<times> nat \<Rightarrow> field" where
  "leaf_region g agno uuid l = (fst (snd l) * bs g, leaf_bytes g agno uuid l)"

definition small_plan :: "ag_plan \<Rightarrow> bool" where
  "small_plan plan \<longleftrightarrow> length (ap_free plan) \<le> 2 \<and> length (ap_rmap plan) \<le> 8"

lemma head_leaves_ok:
  assumes "small_plan plan" "1024 \<le> bs g" "length uuid = 16" "l \<in> set (head_leaves g plan)"
  shows "leaf_ok (leaf_of g agno uuid l) (bs g)"
proof -
  have "length (plan_inodes g plan) \<le> 1" by (simp add: plan_inodes_def split: option.split)
  then have "length (fst (snd (snd l))) \<le> 200"
    using assms(1,4)
    by (auto simp: head_leaves_def Let_def small_plan_def by_size_def length_concat_enc [of alloc_bytes 8]
        length_concat_enc [of rmap_bytes 24] length_concat_enc [of "inobt_bytes b" 16 for b]
        simp del: length_concat split: if_split_asm)
  then show ?thesis using assms(2,3) by (auto simp: leaf_ok_def leaf_of_def split: prod.split)
qed

lemma leaf_bytes_ok:
  assumes "small_plan plan" "1024 \<le> bs g" "length uuid = 16" "l \<in> set (head_leaves g plan)"
  shows "leaf_encode (leaf_of g agno uuid l) (replicate (bs g) 0) = Inr (leaf_bytes g agno uuid l)"
    "length (leaf_bytes g agno uuid l) = bs g" "verify (leaf_bytes g agno uuid l) btree_CRC = Inr True"
    "holds (leaf_fields (leaf_of g agno uuid l) (bs g)) (leaf_bytes g agno uuid l)"
proof -
  have "leaf_ok (leaf_of g agno uuid l) (length (replicate (bs g) (0 :: u8)))"
    using head_leaves_ok [OF assms] by simp
  from leaf.encoded [OF this] obtain b where b: "leaf_encode (leaf_of g agno uuid l) (replicate (bs g) 0) = Inr b"
    "length b = bs g" "verify b btree_CRC = Inr True" "holds (leaf_fields (leaf_of g agno uuid l) (bs g)) b"
    by (metis length_replicate)
  moreover have "leaf_bytes g agno uuid l = b" by (simp add: leaf_bytes_def b)
  ultimately show "leaf_encode (leaf_of g agno uuid l) (replicate (bs g) 0) = Inr (leaf_bytes g agno uuid l)"
    "length (leaf_bytes g agno uuid l) = bs g" "verify (leaf_bytes g agno uuid l) btree_CRC = Inr True"
    "holds (leaf_fields (leaf_of g agno uuid l) (bs g)) (leaf_bytes g agno uuid l)"
    by simp_all
qed

definition leaf_edit :: "geometry \<Rightarrow> nat \<Rightarrow> bytes \<Rightarrow> u32 \<times> nat \<times> bytes \<times> nat \<Rightarrow> bytes \<Rightarrow> error + bytes" where
  "leaf_edit g agno uuid l = (case l of (magic, agbno, recs, n) \<Rightarrow> put_leaf g agno uuid magic agbno (Inr recs) n)"

lemma ag_head_leaves:
  "ag_head g plan uuid sbs =
     (if agfl_size g = 0 then Inl Panicked
      else run_edits
        ([on_slice 0 (sectsize g) (sb_encode g sbs),
          on_slice (sectsize g) (sectsize g) (agf_encode (plan_agf g plan) uuid),
          on_slice (2 * sectsize g) (sectsize g) (agi_encode (plan_agi g plan) uuid),
          on_slice (3 * sectsize g) (sectsize g) (encode_agfl (of_nat (ap_agno plan)) uuid 1 (map of_nat (ap_agfl plan)))] @
         map (leaf_edit g (ap_agno plan) uuid) (head_leaves g plan))
        (replicate (prealloc_blocks g * bs g) 0))"
  by (simp add: ag_head_def head_leaves_def leaf_edit_def Let_def alloc_recs_eq inobt_recs_eq rmap_recs_eq)

lemma leaf_edit_fills:
  assumes "leaf_encode (leaf_of g agno uuid l) (replicate (bs g) 0) = Inr (leaf_bytes g agno uuid l)"
    "length (leaf_bytes g agno uuid l) = bs g" "(fst (snd l) + 1) * bs g \<le> n"
  shows "fills n (leaf_edit g agno uuid l) (leaf_region g agno uuid l)"
  using assms
  by (cases l) (auto simp: fills_def leaf_edit_def put_leaf_def leaf_block_encode leaf_of_def leaf_region_def
      write_slice_ok algebra_simps)

lemma chain_leaves:
  assumes "\<And>l. l \<in> set ls \<Longrightarrow> length (leaf_bytes g agno uuid l) = bs g"
    and "map (fst \<circ> snd) ls = [a..<a + length ls]" "a + length ls \<le> p"
  shows "chain (a * bs g) (map (leaf_region g agno uuid) ls) (p * bs g)"
  using assms
proof (induction ls arbitrary: a)
  case (Cons l ls)
  have u: "[a..<a + length (l # ls)] = a # [Suc a..<Suc a + length ls]" by (subst upt_conv_Cons) simp_all
  have a: "fst (snd l) = a" "map (fst \<circ> snd) ls = [Suc a..<Suc a + length ls]"
    using Cons.prems(2) unfolding u list.map list.inject by simp_all
  have "chain (Suc a * bs g) (map (leaf_region g agno uuid) ls) (p * bs g)"
    using Cons.prems(1,3) by (intro Cons.IH a(2)) simp_all
  moreover have "leaf_region g agno uuid l = (a * bs g, leaf_bytes g agno uuid l)" by (simp add: leaf_region_def a(1))
  ultimately show ?case using Cons.prems(1) [of l] by (simp add: add.commute)
qed simp

lemma head_leaf_blocks:
  "map (fst \<circ> snd) (head_leaves g plan) = [header_blocks g..<prealloc_blocks g]"
  "header_blocks g + length (head_leaves g plan) = prealloc_blocks g"
  by (auto simp: head_leaves_def Let_def prealloc_blocks_def refc_block_def rmap_block_def fibt_block_def
      ibt_block_def cnt_block_def bno_block_def upt_conv_Cons)


subsection \<open>The whole head\<close>

text \<open>
  \<open>head_parts\<close> are the three header sectors after the superblock; \<open>head_rest\<close> is all of the head
  after the superblock.
\<close>

definition agfl_of :: "ag_plan \<Rightarrow> bytes \<Rightarrow> agfl_args" where
  "agfl_of plan uuid = (of_nat (ap_agno plan), uuid, 1, map of_nat (ap_agfl plan))"

lemma head_sizes:
  assumes g: "geometry_ok g"
  shows "512 \<le> sectsize g" "sectsize g < 2 ^ 16" "1024 \<le> bs g" "4 * sectsize g \<le> header_blocks g * bs g"
    "header_blocks g < prealloc_blocks g" "agfl_size g \<noteq> 0"
proof -
  show s: "512 \<le> sectsize g" "sectsize g < 2 ^ 16" using geometry_word_bounds(2,5) [OF g] by simp_all
  have "(2::nat) ^ 10 \<le> 2 ^ blocklog g" using geometry_okD(2) [OF g] by (intro power_increasing) simp_all
  then show b: "1024 \<le> bs g" using geometry_okD(1) [OF g] by (simp add: bs_def)
  show "4 * sectsize g \<le> header_blocks g * bs g"
    using div_ceil_bounds(1) [of "bs g" "4 * sectsize g"] b by (simp add: header_blocks_def)
  show "header_blocks g < prealloc_blocks g" by (simp add: prealloc_blocks_eq)
  have "sub32 (sectsize g) 36 = sectsize g - 36" using s by (intro nowrap) simp_all
  then show "agfl_size g \<noteq> 0" using s by (simp add: agfl_size_def AGFL_HEADER_def div_eq_0_iff)
qed

lemma header_sectors:
  assumes g: "geometry_ok g" and u: "length uuid = 16"
  obtains f i l where
    "agf_encode (plan_agf g plan) uuid (replicate (sectsize g) 0) = Inr f" "length f = sectsize g"
    "agi_encode (plan_agi g plan) uuid (replicate (sectsize g) 0) = Inr i" "length i = sectsize g"
    "encode_agfl (of_nat (ap_agno plan)) uuid 1 (map of_nat (ap_agfl plan)) (replicate (sectsize g) 0) = Inr l"
    "length l = sectsize g"
proof -
  note z = head_sizes [OF g]
  have ok: "agf_ok (plan_agf g plan, uuid) (length (replicate (sectsize g) (0 :: u8)))"
    "agi_ok (plan_agi g plan, uuid) (length (replicate (sectsize g) (0 :: u8)))"
    "agfl_ok (agfl_of plan uuid) (length (replicate (sectsize g) (0 :: u8)))"
    using z u by (simp_all add: agf_ok_def agi_ok_def agfl_ok_def agfl_of_def)
  obtain f where f: "agf_encode (plan_agf g plan) uuid (replicate (sectsize g) 0) = Inr f" "length f = sectsize g"
    using agf.encoded [OF ok(1)] by (metis fst_conv snd_conv length_replicate)
  obtain i where i: "agi_encode (plan_agi g plan) uuid (replicate (sectsize g) 0) = Inr i" "length i = sectsize g"
    using agi.encoded [OF ok(2)] by (metis fst_conv snd_conv length_replicate)
  obtain l where l: "encode_agfl (of_nat (ap_agno plan)) uuid 1 (map of_nat (ap_agfl plan)) (replicate (sectsize g) 0) = Inr l"
    "length l = sectsize g"
    using agfl.encoded [OF ok(3)] unfolding agfl_of_def by (metis case_prod_conv length_replicate)
  show thesis by (rule that [OF f i l])
qed

lemma leaf_edits_fill:
  assumes g: "geometry_ok g" and p: "small_plan plan" and u: "length uuid = 16"
  shows "list_all2 (fills (prealloc_blocks g * bs g)) (map (leaf_edit g (ap_agno plan) uuid) (head_leaves g plan))
      (map (leaf_region g (ap_agno plan) uuid) (head_leaves g plan))"
    and "chain (header_blocks g * bs g) (map (leaf_region g (ap_agno plan) uuid) (head_leaves g plan))
      (prealloc_blocks g * bs g)"
proof -
  note lf = leaf_bytes_ok [OF p head_sizes(3) [OF g] u]
  show "chain (header_blocks g * bs g) (map (leaf_region g (ap_agno plan) uuid) (head_leaves g plan))
      (prealloc_blocks g * bs g)"
    using lf(2) head_leaf_blocks [of g plan] by (intro chain_leaves) simp_all
  have "(fst (snd x) + 1) * bs g \<le> prealloc_blocks g * bs g" if "x \<in> set (head_leaves g plan)" for x
  proof -
    have "fst (snd x) \<in> set (map (fst \<circ> snd) (head_leaves g plan))" using that by simp
    then have "fst (snd x) < prealloc_blocks g" unfolding head_leaf_blocks(1) by simp
    then show ?thesis by (intro mult_le_mono1) simp
  qed
  then show "list_all2 (fills (prealloc_blocks g * bs g)) (map (leaf_edit g (ap_agno plan) uuid) (head_leaves g plan))
      (map (leaf_region g (ap_agno plan) uuid) (head_leaves g plan))"
    using leaf_edit_fills lf(1,2) by (auto simp: list_all2_conv_all_nth)
qed

lemma group_head_regions:
  assumes g: "geometry_ok g" and p: "small_plan plan" and u: "length uuid = 16"
  obtains f i l rest where
    "agf_encode (plan_agf g plan) uuid (replicate (sectsize g) 0) = Inr f" "length f = sectsize g"
    "agi_encode (plan_agi g plan) uuid (replicate (sectsize g) 0) = Inr i" "length i = sectsize g"
    "encode_agfl (of_nat (ap_agno plan)) uuid 1 (map of_nat (ap_agfl plan)) (replicate (sectsize g) 0) = Inr l"
    "length l = sectsize g"
    "holds ([(sectsize g, f), (2 * sectsize g, i), (3 * sectsize g, l)] @
        map (leaf_region g (ap_agno plan) uuid) (head_leaves g plan)) (replicate (sectsize g) 0 @ rest)"
    "length rest = prealloc_blocks g * bs g - sectsize g"
    "\<forall>sbs s. sb_encode g sbs (replicate (sectsize g) 0) = Inr s \<longrightarrow> length s = sectsize g \<longrightarrow>
       ag_head g plan uuid sbs = Inr (s @ rest)"
proof -
  define ss n where "ss = sectsize g" and "n = prealloc_blocks g * bs g"
  note z = head_sizes [OF g]
  obtain f i l where f: "agf_encode (plan_agf g plan) uuid (replicate ss 0) = Inr f" "length f = ss"
    and i: "agi_encode (plan_agi g plan) uuid (replicate ss 0) = Inr i" "length i = ss"
    and l: "encode_agfl (of_nat (ap_agno plan)) uuid 1 (map of_nat (ap_agfl plan)) (replicate ss 0) = Inr l"
    "length l = ss"
    unfolding ss_def by (rule header_sectors [OF g u])
  define ls where "ls = map (leaf_region g (ap_agno plan) uuid) (head_leaves g plan)"
  define fs where "fs = [(ss, f), (2 * ss, i), (3 * ss, l)] @ ls"
  note lv = leaf_edits_fill [OF g p u, folded n_def ls_def]
  have hb: "header_blocks g * bs g \<le> n" using chain_le [OF lv(2)] .
  have ch: "chain ss fs n"
    using f i l z(4) lv(2) by (auto simp: fs_def ss_def intro: chain_mono)
  have sn: "ss \<le> n" using chain_le [OF ch] .
  define rest where "rest = drop ss (apply_fields fs (replicate n 0))"
  have fi: "fields_inside n fs" "fields_apart fs" using chain_fields [OF ch] by simp_all
  have first: "apply_fields ((0, s) # fs) (replicate n 0) = s @ rest" if "length s = ss" for s
    using apply_fields_first [of s fs n "replicate n 0"] ch that by (simp add: rest_def)
  have ag: "ag_head g plan uuid sbs = Inr (s @ rest)"
    if s: "sb_encode g sbs (replicate ss 0) = Inr s" "length s = ss" for sbs s
  proof -
    have fl: "fills n (on_slice 0 ss (sb_encode g sbs)) (0, s)"
      "fills n (on_slice ss ss (agf_encode (plan_agf g plan) uuid)) (ss, f)"
      "fills n (on_slice (2 * ss) ss (agi_encode (plan_agi g plan) uuid)) (2 * ss, i)"
      "fills n (on_slice (3 * ss) ss (encode_agfl (of_nat (ap_agno plan)) uuid 1 (map of_nat (ap_agfl plan)))) (3 * ss, l)"
      using s f i l z(4) hb by (auto simp: ss_def intro!: fills_on_slice)
    have "chain 0 ((0, s) # fs) n" using ch s(2) by simp
    moreover have "list_all2 (fills n)
       ([on_slice 0 ss (sb_encode g sbs),
         on_slice ss ss (agf_encode (plan_agf g plan) uuid),
         on_slice (2 * ss) ss (agi_encode (plan_agi g plan) uuid),
         on_slice (3 * ss) ss (encode_agfl (of_nat (ap_agno plan)) uuid 1 (map of_nat (ap_agfl plan)))] @
        map (leaf_edit g (ap_agno plan) uuid) (head_leaves g plan)) ((0, s) # fs)" (is "list_all2 _ ?es _")
      using fl lv(1) by (simp add: fs_def)
    ultimately have "run_edits ?es (replicate n 0) = Inr (apply_fields ((0, s) # fs) (replicate n 0))"
      by (intro run_fills [of n _ _ 0]) (simp_all add: slice_def)
    then have "ag_head g plan uuid sbs = Inr (apply_fields ((0, s) # fs) (replicate n 0))"
      unfolding ag_head_leaves ss_def [symmetric] n_def [symmetric] if_not_P [OF z(6)] .
    then show ?thesis using first s(2) by simp
  qed
  have "holds fs (apply_fields ((0, replicate ss 0) # fs) (replicate n 0))"
    using holds_apply_fields [of "replicate n (0::u8)" "(0, replicate ss 0) # fs"] ch
      chain_fields [of 0 "(0, replicate ss 0) # fs" n] by (simp add: holds_Cons)
  then have h: "holds fs (replicate ss 0 @ rest)" using first by simp
  have "length rest = n - ss" using fi by (simp add: rest_def length_apply_fields)
  then show thesis using that f i l h ag unfolding fs_def ls_def ss_def n_def by blast
qed


lemma plan_ag_InrD:
  assumes "geometry_ok g" "tiles g" "agno < agcount g" "plan_ag g agno = Inr plan"
  shows "good_plan g agno plan" "small_plan plan" "ap_agno plan = agno"
    "group_start g agno + min_freelist g \<le> ag_blocks g agno"
proof -
  show "good_plan g agno plan" "group_start g agno + min_freelist g \<le> ag_blocks g agno"
    using plan_ag_result [OF assms(1-3)] assms(4) by (auto split: if_split_asm)
  then show "small_plan plan" "ap_agno plan = agno" by (auto simp: good_plan_def small_plan_def Let_def)
qed

lemma sb_sector:
  assumes "geometry_ok g" "length (s_uuid sbs) = 16"
  obtains s where "sb_encode g sbs (replicate (sectsize g) 0) = Inr s" "length s = sectsize g" "verify s sb_CRC = Inr True"
    "holds (sb_fields (g, sbs) (sectsize g)) s"
proof -
  have "sb_ok (g, sbs) (length (replicate (sectsize g) (0 :: u8)))"
    using assms head_sizes(1) [OF assms(1)] geometry_okD(27) [OF assms(1)] by (simp add: sb_ok_def)
  from sb.encoded [OF this] show thesis using that by (metis fst_conv snd_conv length_replicate)
qed

lemma verified_sectors:
  assumes g: "geometry_ok g" and u: "length uuid = 16"
  shows "agf_encode a uuid (replicate (sectsize g) 0) = Inr f \<Longrightarrow>
      verify f agf_CRC = Inr True \<and> be32 f agf_FREEBLKS = Inr (agf_freeblks a) \<and> be32 f agf_LENGTH = Inr (agf_length a) \<and>
      be32 f agf_FLCOUNT = Inr (agf_flcount a) \<and> be32 f agf_SEQNO = Inr (agf_seqno a)"
    and "agi_encode x uuid (replicate (sectsize g) 0) = Inr i \<Longrightarrow>
      verify i agi_CRC = Inr True \<and> be32 i agi_NEWINO = Inr (agi_newino x) \<and> be32 i agi_COUNT = Inr (agi_count x)"
    and "encode_agfl agno uuid first list (replicate (sectsize g) 0) = Inr l \<Longrightarrow> verify l agfl_CRC = Inr True"
proof -
  note z = head_sizes [OF g]
  {
    assume e: "agf_encode a uuid (replicate (sectsize g) 0) = Inr f"
    have "agf_ok (a, uuid) (length (replicate (sectsize g) (0 :: u8)))" using z u by (simp add: agf_ok_def)
    note c = agf.checked [OF this, unfolded fst_conv snd_conv, OF e]
    have "be32 f agf_FREEBLKS = Inr (agf_freeblks a)" "be32 f agf_LENGTH = Inr (agf_length a)"
      "be32 f agf_FLCOUNT = Inr (agf_flcount a)" "be32 f agf_SEQNO = Inr (agf_seqno a)"
      by (rule holds_be32 [OF c(3)]; simp add: agf_fields_def Let_def)+
    with c(2) show "verify f agf_CRC = Inr True \<and> be32 f agf_FREEBLKS = Inr (agf_freeblks a) \<and>
      be32 f agf_LENGTH = Inr (agf_length a) \<and> be32 f agf_FLCOUNT = Inr (agf_flcount a) \<and>
      be32 f agf_SEQNO = Inr (agf_seqno a)" by simp
  }
  {
    assume e: "agi_encode x uuid (replicate (sectsize g) 0) = Inr i"
    have "agi_ok (x, uuid) (length (replicate (sectsize g) (0 :: u8)))" using z u by (simp add: agi_ok_def)
    note c = agi.checked [OF this, unfolded fst_conv snd_conv, OF e]
    have "be32 i agi_NEWINO = Inr (agi_newino x)" "be32 i agi_COUNT = Inr (agi_count x)"
      by (rule holds_be32 [OF c(3)]; simp add: agi_fields_def Let_def)+
    with c(2) show "verify i agi_CRC = Inr True \<and> be32 i agi_NEWINO = Inr (agi_newino x) \<and>
      be32 i agi_COUNT = Inr (agi_count x)" by simp
  }
  assume e: "encode_agfl agno uuid first list (replicate (sectsize g) 0) = Inr l"
  have "agfl_ok (agno, uuid, first, list) (length (replicate (sectsize g) (0 :: u8)))" using z u by (simp add: agfl_ok_def)
  from agfl.checked(2) [OF this, unfolded case_prod_conv, OF e] show "verify l agfl_CRC = Inr True" .
qed

section \<open>Properties\<close>

text \<open>
  \<^bold>\<open>C25\<close>. The head of a planned group is built without a panic and fills exactly the preallocated
  blocks; the superblock, the three header sectors and every btree root verify where they stand, and
  the AGF counts the blocks that are free, the length of the group and its free list.
\<close>

theorem group_head_complete:
  assumes "geometry_ok g" "tiles g" "agno < agcount g" "plan_ag g agno = Inr plan"
    and "length uuid = 16" "length (s_uuid sbs) = 16"
  shows "\<exists>h. ag_head g plan uuid sbs = Inr h \<and> length h = prealloc_blocks g * bs g \<and>
    verify (slice 0 (sectsize g) h) sb_CRC = Inr True \<and>
    verify (slice (sectsize g) (sectsize g) h) agf_CRC = Inr True \<and>
    reads (be32 (slice (sectsize g) (sectsize g) h) agf_FREEBLKS) (card (free_blocks (ap_free plan))) \<and>
    reads (be32 (slice (sectsize g) (sectsize g) h) agf_LENGTH) (ag_blocks g agno) \<and>
    reads (be32 (slice (sectsize g) (sectsize g) h) agf_FLCOUNT) (min_freelist g) \<and>
    verify (slice (2 * sectsize g) (sectsize g) h) agi_CRC = Inr True \<and>
    verify (slice (3 * sectsize g) (sectsize g) h) agfl_CRC = Inr True \<and>
    (\<forall>(magic, agbno, recs, n)\<in>set (head_leaves g plan).
       verify (slice (agbno * bs g) (bs g) h) btree_CRC = Inr True \<and>
       be32 (slice (agbno * bs g) (bs g) h) btree_MAGIC = Inr magic)"
proof -
  define ss where "ss = sectsize g"
  note p = plan_ag_InrD [OF assms(1-4)] and z = head_sizes [OF assms(1), folded ss_def]
  obtain f i l rest where
    r: "agf_encode (plan_agf g plan) uuid (replicate ss 0) = Inr f" "length f = ss"
    "agi_encode (plan_agi g plan) uuid (replicate ss 0) = Inr i" "length i = ss"
    "encode_agfl (of_nat (ap_agno plan)) uuid 1 (map of_nat (ap_agfl plan)) (replicate ss 0) = Inr l" "length l = ss"
    and h: "holds ([(ss, f), (2 * ss, i), (3 * ss, l)] @ map (leaf_region g (ap_agno plan) uuid) (head_leaves g plan))
      (replicate ss 0 @ rest)"
    and len: "length rest = prealloc_blocks g * bs g - ss"
    and ag: "\<forall>sbs s. sb_encode g sbs (replicate ss 0) = Inr s \<longrightarrow> length s = ss \<longrightarrow> ag_head g plan uuid sbs = Inr (s @ rest)"
    unfolding ss_def by (rule group_head_regions [OF assms(1) p(2) assms(5)])
  obtain s where s: "sb_encode g sbs (replicate ss 0) = Inr s" "length s = ss" "verify s sb_CRC = Inr True"
    unfolding ss_def using sb_sector [OF assms(1,6)] by blast
  have sl: "slice off n (s @ rest) = c" if "(off, c) \<in> set ([(ss, f), (2 * ss, i), (3 * ss, l)] @
      map (leaf_region g (ap_agno plan) uuid) (head_leaves g plan))" "length c = n" "ss \<le> off" for off n c
    using holds_member [OF h that(1)] that(2,3) s(2) by (simp add: slice_def)
  have sect: "slice 0 ss (s @ rest) = s" "slice ss ss (s @ rest) = f" "slice (2 * ss) ss (s @ rest) = i"
    "slice (3 * ss) ss (s @ rest) = l"
    using s(2) r(2,4,6) by (auto simp: slice_def [of 0] intro!: sl)
  note v = verified_sectors(1) [OF assms(1,5), folded ss_def, OF r(1)]
    verified_sectors(2) [OF assms(1,5), folded ss_def, OF r(3)] verified_sectors(3) [OF assms(1,5), folded ss_def, OF r(5)]
  have lv: "verify (slice (agbno * bs g) (bs g) (s @ rest)) btree_CRC = Inr True \<and>
      be32 (slice (agbno * bs g) (bs g) (s @ rest)) btree_MAGIC = Inr magic"
    if m: "(magic, agbno, recs, n) \<in> set (head_leaves g plan)" for magic agbno recs n
  proof -
    note lb = leaf_bytes_ok [OF p(2) z(3) assms(5) m, of "ap_agno plan"]
    have "agbno \<in> set (map (fst \<circ> snd) (head_leaves g plan))" using m by force
    then have "header_blocks g * bs g \<le> agbno * bs g" unfolding head_leaf_blocks(1) by simp
    then have "ss \<le> agbno * bs g" using z(4) by linarith
    then have "slice (agbno * bs g) (bs g) (s @ rest) = leaf_bytes g (ap_agno plan) uuid (magic, agbno, recs, n)"
      using m lb(2) by (intro sl) (auto simp: leaf_region_def image_iff intro!: bexI [OF _ m])
    moreover have "be32 (leaf_bytes g (ap_agno plan) uuid (magic, agbno, recs, n)) btree_MAGIC = Inr magic"
      by (rule holds_be32 [OF lb(4)]) (simp add: leaf_fields_def leaf_of_def)
    ultimately show ?thesis using lb(3) by simp
  qed
  have fr: "freeblks plan = card (free_blocks (ap_free plan))" "freeblks plan < 2 ^ 32" "ap_length plan = ag_blocks g agno"
    "length (ap_agfl plan) = min_freelist g" "ag_blocks g agno < 2 ^ 30"
    using good_plan_free [OF assms(1-3) p(1,4)] ag_blocks_bounds(3) [OF assms(1-3)] p(1)
      freeblks_card [of "group_start g agno + min_freelist g" plan "ag_blocks g agno"]
    by (auto simp: good_plan_def Let_def)
  have "ss \<le> prealloc_blocks g * bs g"
    using z(4) mult_le_mono1 [OF less_imp_le [OF z(5)], of "bs g"] by linarith
  then have "length (s @ rest) = prealloc_blocks g * bs g" using len s(2) by simp
  moreover have "min_freelist g < 2 ^ 32" using min_freelist_bounds [of g] by simp
  ultimately show ?thesis
    using ag [rule_format, OF s(1,2)] s(3) v lv fr unfolding ss_def [symmetric]
    by (intro exI [of _ "s @ rest"]) (auto simp: sect plan_agf_def Let_def)
qed

theorem group_head_complete_witness:
  "\<exists>plan h. plan_ag geometry_512m 0 = Inr plan \<and>
     ag_head geometry_512m plan (replicate 16 7) (secondary_sb geometry_512m (replicate 16 7)) = Inr h \<and>
     verify (slice 512 512 h) agf_CRC = Inr True"
proof -
  obtain plan where p: "plan_ag geometry_512m 0 = Inr plan" using plan_ag_zero [OF geometry_512m_ok] by blast
  have a: "0 < agcount geometry_512m" and ss: "sectsize geometry_512m = 512" by (simp_all add: geometry_512m_def)
  show ?thesis
    using group_head_complete [OF geometry_512m_ok a p, of "replicate 16 7" "secondary_sb geometry_512m (replicate 16 7)"] p
    unfolding ss by (auto simp: secondary_sb_def)
qed

end
