(* ===== verification/Format_Image.thy ===== *)
theory Format_Image
  imports Group_Head "HOL-Library.Multiset"
begin

section \<open>What a format leaves on the device\<close>

text \<open>
  Each step of the format is a write or a zeroing of a range inside the device, so on a device
  that meets its contract each performs an effect on the array of bytes. The final
  contents are the effects in order; the effects of different groups commute; and no effect
  before the last write turns the first sector into a finished superblock.
\<close>

definition the_bytes :: "error + bytes \<Rightarrow> bytes" where
  "the_bytes r = (case r of Inr b \<Rightarrow> b | Inl _ \<Rightarrow> [])"

lemma the_bytes_Inr [simp]: "the_bytes (Inr b) = b"
  by (simp add: the_bytes_def)

subsection \<open>The root inode chunk\<close>

lemma chunk_bytes:
  assumes g: "geometry_ok g"
  shows "chunk_blocks g * bs g = 64 * inodesize g" "mul64 (chunk_blocks g) (bs g) = 64 * inodesize g"
    "512 \<le> inodesize g" "div_ceil (64 * inodesize g) (inodesize g) = 64"
proof -
  define d where "d = blocklog g - inodelog g"
  have d: "blocklog g = inodelog g + d" "d \<le> 5" "0 < d"
    using geometry_okD(3,9,11) [OF g] by (simp_all add: d_def)
  have bl: "blocklog g < 64" using geometry_okD(3) [OF g] by simp
  have "64 * 2 ^ inodelog g = (2::nat) ^ (6 - d) * 2 ^ blocklog g"
    using d power_add [of "2::nat" 6 "inodelog g"] power_add [of "2::nat" "6 - d" "blocklog g"] by simp
  then have e: "64 * inodesize g = 2 ^ (6 - d) * 2 ^ blocklog g" by (simp add: geometry_okD(8) [OF g])
  then have "chunk_blocks g = 2 ^ (6 - d)"
    by (simp add: chunk_blocks_def INODES_PER_CHUNK_def shr64_small bl)
  then show c: "chunk_blocks g * bs g = 64 * inodesize g"
    using e by (simp add: bs_def geometry_okD(1) [OF g])
  have i: "(2::nat) ^ 9 \<le> 2 ^ inodelog g" "(2::nat) ^ inodelog g \<le> 2 ^ 11"
    using geometry_okD(9,10) [OF g] by (intro power_increasing; simp)+
  then show "512 \<le> inodesize g" by (simp add: geometry_okD(8) [OF g])
  have "64 * inodesize g < 2 ^ 64" using i by (simp add: geometry_okD(8) [OF g])
  then show "mul64 (chunk_blocks g) (bs g) = 64 * inodesize g" by (simp add: mul64_def c)
  have "inodesize g \<noteq> 0" using \<open>512 \<le> inodesize g\<close> by simp
  then show "div_ceil (64 * inodesize g) (inodesize g) = 64" by (simp add: div_ceil_def)
qed

lemma on_slice_ok:
  assumes "off + n \<le> length b" "f (slice off n b) = Inr c" "length c = n"
  shows "on_slice off n f b = Inr (splice off c b)"
  using assms by (simp add: on_slice_def read_slice_def write_slice_ok)

lemma chain_slots:
  assumes "\<And>i. length (c i) = sz"
  shows "chain (k * sz) (map (\<lambda>i. (i * sz, c i)) [k..<n]) (max k n * sz)"
proof (induction "n - k" arbitrary: k)
  case (Suc m)
  then have "[k..<n] = k # [Suc k..<n]" by (simp add: upt_conv_Cons)
  then show ?case using Suc(1) [of "Suc k"] Suc(2) assms by (simp add: add.commute)
qed simp

lemma free_slots:
  assumes u: "length uuid = 16" and z: "176 \<le> isz"
  obtains c where "run_edits (map (\<lambda>i. on_slice (i * isz) isz (encode_free (first + of_nat i) gen uuid)) [0..<n])
      (replicate (n * isz) 0) = Inr (apply_fields (map (\<lambda>i. (i * isz, c i)) [0..<n]) (replicate (n * isz) 0))"
    "\<forall>i. length (c i) = isz \<and> verify (c i) di_CRC = Inr True \<and> be64 (c i) di_INO = Inr (first + of_nat i)"
proof -
  define c where "c i = the_bytes (encode_free (first + of_nat i) gen uuid (replicate isz 0))" for i :: nat
  have c: "encode_free (first + of_nat i) gen uuid (replicate isz 0) = Inr (c i) \<and>
      length (c i) = isz \<and> verify (c i) di_CRC = Inr True \<and> be64 (c i) di_INO = Inr (first + of_nat i)" for i :: nat
  proof -
    have ok: "free_ok (first + of_nat i, gen, uuid) (length (replicate isz (0 :: u8)))" using u z by (simp add: free_ok_def)
    obtain b where b: "encode_free (first + of_nat i) gen uuid (replicate isz 0) = Inr b"
      using free_inode.total [OF ok, unfolded case_prod_conv] by blast
    note e = free_inode.checked [OF ok, unfolded case_prod_conv, OF b]
    have "be64 b di_INO = Inr (first + of_nat i)"
      by (rule holds_be64 [OF e(3)]) (simp add: free_fields_def)
    then show ?thesis using b e(1,2) by (simp add: c_def)
  qed
  have "list_all2 (fills (n * isz)) (map (\<lambda>i. on_slice (i * isz) isz (encode_free (first + of_nat i) gen uuid)) [0..<n])
      (map (\<lambda>i. (i * isz, c i)) [0..<n])"
  proof -
    have "i * isz + isz \<le> n * isz" if "i < n" for i using that mult_le_mono1 [of "Suc i" n isz] by simp
    then show ?thesis using c by (auto simp: list_all2_conv_all_nth intro!: fills_on_slice)
  qed
  from run_fills [OF this, of 0 "replicate (n * isz) 0"] chain_slots [of c isz 0 n] c
  show thesis by (intro that [of c]) (auto simp: slice_def)
qed


lemma inode_into_slot:
  assumes "length uuid = 16" "176 + length (d_data d) \<le> isz" "k * isz + isz \<le> length b"
  obtains c where "on_slice (k * isz) isz (dinode_encode d uuid) b = Inr (splice (k * isz) c b)" "length c = isz"
    "verify c di_CRC = Inr True" "be64 c di_INO = Inr (d_ino d)" "be16 c di_MODE = Inr (d_mode d)"
    "slice CORE_SIZE (length (d_data d)) c = d_data d"
proof -
  have "length (slice (k * isz) isz b) = isz" using assms(3) by (simp add: slice_def)
  then obtain c where c: "dinode_encode d uuid (slice (k * isz) isz b) = Inr c" "length c = isz"
    "verify c di_CRC = Inr True"
    and h: "holds (dinode_fields (d, uuid) isz) c"
    using dinode.encoded [of "(d, uuid)" "slice (k * isz) isz b"] assms(1,2)
    by (auto simp: dinode_ok_def)
  have "slice CORE_SIZE (length (d_data d)) c = d_data d"
    using holds_member [OF h, of CORE_SIZE "d_data d"] by (simp add: dinode_fields_def Let_def)
  moreover have "be64 c di_INO = Inr (d_ino d)" by (rule holds_be64 [OF h]) (simp add: dinode_fields_def Let_def)
  moreover have "be16 c di_MODE = Inr (d_mode d)" by (rule holds_be16 [OF h]) (simp add: dinode_fields_def Let_def)
  ultimately show thesis using that on_slice_ok [of "k * isz" isz b "dinode_encode d uuid" c] assms(3) c by blast
qed

definition slot :: "geometry \<Rightarrow> bytes \<Rightarrow> nat \<Rightarrow> bytes" where
  "slot g b i = slice (i * inodesize g) (inodesize g) b"

lemma slot_splice:
  assumes "length c = inodesize g" "k * inodesize g + inodesize g \<le> length b" "i * inodesize g + inodesize g \<le> length b"
    and "0 < inodesize g"
  shows "slot g (splice (k * inodesize g) c b) i = (if i = k then c else slot g b i)"
proof -
  consider "i = k" | "i * inodesize g + inodesize g \<le> k * inodesize g" | "k * inodesize g + inodesize g \<le> i * inodesize g"
    using mult_le_mono1 [of "Suc i" k "inodesize g"] mult_le_mono1 [of "Suc k" i "inodesize g"]
    by (metis Suc_leI add.commute mult_Suc nat_neq_iff)
  then show ?thesis
  proof cases
    case 1
    then show ?thesis using assms slice_splice_same [of "k * inodesize g" c b] by (simp add: slot_def)
  next
    case 2
    then show ?thesis using assms by (auto simp: slot_def slice_simps)
  next
    case 3
    then show ?thesis using assms by (auto simp: slot_def slice_simps)
  qed
qed

lemma empty_sf_dir_ok: "\<exists>f. empty_sf_dir parent = Inr f \<and> length f \<le> 10"
  by (auto simp: empty_sf_dir_def slice_simps)

text \<open>\<open>holds_inode\<close>: a slot holds an inode with this number, mode and data fork.\<close>

definition holds_inode :: "dinode \<Rightarrow> bytes \<Rightarrow> bool" where
  "holds_inode d c \<longleftrightarrow> verify c di_CRC = Inr True \<and> be64 c di_INO = Inr (d_ino d) \<and> be16 c di_MODE = Inr (d_mode d) \<and>
     slice CORE_SIZE (length (d_data d)) c = d_data d"

lemma inode_edit:
  assumes "length uuid = 16" "176 + length (d_data d) \<le> inodesize g" "k * inodesize g + inodesize g \<le> length b"
  obtains b' where "on_slice (k * inodesize g) (inodesize g) (dinode_encode d uuid) b = Inr b'" "length b' = length b"
    "holds_inode d (slot g b' k)"
    "\<forall>i. i \<noteq> k \<longrightarrow> i * inodesize g + inodesize g \<le> length b \<longrightarrow> slot g b' i = slot g b i"
proof -
  obtain c where c: "on_slice (k * inodesize g) (inodesize g) (dinode_encode d uuid) b = Inr (splice (k * inodesize g) c b)"
    "length c = inodesize g" "holds_inode d c"
    unfolding holds_inode_def by (rule inode_into_slot [OF assms]) blast
  have "0 < inodesize g" using assms(2) by simp
  then show thesis
    using that [OF c(1)] c(2,3) assms(3) slot_splice [OF c(2) assms(3)] by (simp add: slice_simps)
qed

lemma three_inodes:
  assumes u: "length uuid = 16" and z: "176 + length (d_data d0) \<le> inodesize g" "176 + length (d_data d1) \<le> inodesize g"
    "176 + length (d_data d2) \<le> inodesize g" and b: "3 * inodesize g \<le> length b"
  obtains b' where "run_edits [on_slice 0 (inodesize g) (dinode_encode d0 uuid),
      on_slice (inodesize g) (inodesize g) (dinode_encode d1 uuid),
      on_slice (2 * inodesize g) (inodesize g) (dinode_encode d2 uuid)] b = Inr b'" "length b' = length b"
    "holds_inode d0 (slot g b' 0)" "holds_inode d1 (slot g b' 1)" "holds_inode d2 (slot g b' 2)"
    "\<forall>i. 2 < i \<longrightarrow> i * inodesize g + inodesize g \<le> length b \<longrightarrow> slot g b' i = slot g b i"
proof -
  obtain b1 where b1: "on_slice (0 * inodesize g) (inodesize g) (dinode_encode d0 uuid) b = Inr b1" "length b1 = length b"
    "holds_inode d0 (slot g b1 0)"
    "\<forall>i. i \<noteq> 0 \<longrightarrow> i * inodesize g + inodesize g \<le> length b \<longrightarrow> slot g b1 i = slot g b i"
    using inode_edit [OF u z(1), of 0 b] b by auto
  obtain b2 where b2: "on_slice (1 * inodesize g) (inodesize g) (dinode_encode d1 uuid) b1 = Inr b2" "length b2 = length b"
    "holds_inode d1 (slot g b2 1)"
    "\<forall>i. i \<noteq> 1 \<longrightarrow> i * inodesize g + inodesize g \<le> length b \<longrightarrow> slot g b2 i = slot g b1 i"
    using inode_edit [OF u z(2), of 1 b1] b b1(2) by auto
  obtain b3 where b3: "on_slice (2 * inodesize g) (inodesize g) (dinode_encode d2 uuid) b2 = Inr b3" "length b3 = length b"
    "holds_inode d2 (slot g b3 2)"
    "\<forall>i. i \<noteq> 2 \<longrightarrow> i * inodesize g + inodesize g \<le> length b \<longrightarrow> slot g b3 i = slot g b2 i"
    using inode_edit [OF u z(3), of 2 b2] b b2(2) by auto
  have "slot g b3 1 = slot g b2 1" "slot g b3 0 = slot g b2 0" "slot g b2 0 = slot g b1 0"
    using b3(4) b2(4) b by auto
  then show thesis using that [of b3] b1 b2 b3 b by auto
qed

lemma root_chunk_ok:
  fixes agbno :: nat and g :: geometry
  assumes g: "geometry_ok g" and u: "length uuid = 16"
  defines "first \<equiv> of_nat (ino g 0 agbno 0)"
  shows "\<exists>b. root_chunk g agbno uuid time gen = Inr b \<and> length b = 64 * inodesize g \<and>
    (\<forall>i<64. verify (slot g b i) di_CRC = Inr True \<and> be64 (slot g b i) di_INO = Inr (first + of_nat i)) \<and>
    be16 (slot g b 0) di_MODE = Inr 0x41ed \<and>
    (\<exists>f. empty_sf_dir first = Inr f \<and> slice CORE_SIZE (length f) (slot g b 0) = f)"
proof -
  define isz where "isz = inodesize g"
  note z = chunk_bytes [OF g, folded isz_def]
  obtain data where data: "empty_sf_dir first = Inr data" "length data \<le> 10" using empty_sf_dir_ok by blast
  obtain cg s1 bg s2 sg s3 where gens: "gen_next gen = (cg, s1)" "gen_next s1 = (bg, s2)" "gen_next s2 = (sg, s3)"
    by (metis prod.exhaust)
  define base where "base = base_inode g first time"
  define root where "root = size_from_data (base\<lparr>d_mode := 0x41ed, d_format := FMT_LOCAL, d_nlink := 2, d_data := data\<rparr>)"
  define rbm where "rbm = base\<lparr>d_ino := first + 1, d_mode := 0x8000, d_flags := DIFLAG_NEWRTBM, d_gen := bg,
                       d_atime := \<lparr>secs = 0, nsecs = 0\<rparr>\<rparr>"
  define rsum where "rsum = base\<lparr>d_ino := first + 2, d_mode := 0x8000, d_gen := sg\<rparr>"
  have isz: "176 \<le> isz" using z(3) by simp
  obtain c where fr: "run_edits (map (\<lambda>i. on_slice (i * isz) isz (encode_free (first + of_nat i) cg uuid)) [0..<64])
      (replicate (64 * isz) 0) = Inr (apply_fields (map (\<lambda>i. (i * isz, c i)) [0..<64]) (replicate (64 * isz) 0))"
    and c: "\<forall>i. length (c i) = isz \<and> verify (c i) di_CRC = Inr True \<and> be64 (c i) di_INO = Inr (first + of_nat i)"
    by (rule free_slots [OF u isz])
  define fs b0 where "fs = map (\<lambda>i. (i * isz, c i)) [0..<64]" and "b0 = apply_fields fs (replicate (64 * isz) 0)"
  have ch: "fields_inside (64 * isz) fs" "fields_apart fs"
    using chain_fields [OF chain_slots [of c isz 0 64]] c by (simp_all add: fs_def)
  have s0: "slot g b0 i = c i" if "i < 64" for i
  proof -
    have "(i * isz, c i) \<in> set fs" using that by (auto simp: fs_def)
    moreover have "holds fs b0" using ch by (simp add: b0_def holds_apply_fields)
    ultimately show ?thesis using holds_member [of fs b0 "i * isz" "c i"] c by (simp add: slot_def flip: isz_def)
  qed
  have in64: "i * isz + isz \<le> 64 * isz" if "i < 64" for i using that mult_le_mono1 [of "Suc i" 64 isz] by simp
  have nums: "d_ino root = first" "d_ino rbm = first + 1" "d_ino rsum = first + 2" "d_mode root = 0x41ed" "d_data root = data"
    "d_data rbm = []" "d_data rsum = []"
    by (simp_all add: root_def rbm_def rsum_def base_def base_inode_def size_from_data_def)
  have l0: "length b0 = 64 * isz" using ch by (simp add: b0_def length_apply_fields)
  obtain b where b: "run_edits [on_slice 0 isz (dinode_encode root uuid), on_slice isz isz (dinode_encode rbm uuid),
      on_slice (2 * isz) isz (dinode_encode rsum uuid)] b0 = Inr b" "length b = 64 * isz"
    "holds_inode root (slot g b 0)" "holds_inode rbm (slot g b 1)" "holds_inode rsum (slot g b 2)"
    "\<forall>i. 2 < i \<longrightarrow> i * isz + isz \<le> 64 * isz \<longrightarrow> slot g b i = slot g b0 i"
    using three_inodes [OF u, of root g rbm rsum b0] data(2) z(3) nums l0 unfolding isz_def by auto
  have fm: "map (\<lambda>i. on_slice (i * isz) (min isz (64 * isz - i * isz)) (encode_free (first + of_nat i) cg uuid)) [0..<64] =
      map (\<lambda>i. on_slice (i * isz) isz (encode_free (first + of_nat i) cg uuid)) [0..<64]"
    by (rule map_cong) (use in64 in \<open>auto simp: min_absorb1 le_diff_conv2\<close>)
  have nz: "(isz = 0) = False" using isz by simp
  have "root_chunk g agbno uuid time gen = Inr b"
    using fr b(1) unfolding fs_def [symmetric] b0_def [symmetric] root_chunk_def Let_def gens z(2) prod.case
      isz_def [symmetric] first_def [symmetric] data(1) and_then_simps base_def [symmetric] z(4) rbm_def [symmetric]
      rsum_def [symmetric] root_def [symmetric] fm run_edits_append nz if_False
    by (simp only: and_then_simps)
  moreover have "verify (slot g b i) di_CRC = Inr True \<and> be64 (slot g b i) di_INO = Inr (first + of_nat i)" if i: "i < 64" for i
  proof -
    consider "i = 0" | "i = 1" | "i = 2" | "2 < i" by linarith
    then show ?thesis using b c s0 [OF i] in64 [OF i] nums by cases (auto simp: holds_inode_def)
  qed
  moreover have "be16 (slot g b 0) di_MODE = Inr 0x41ed" "slice CORE_SIZE (length data) (slot g b 0) = data"
    using b(3) nums by (auto simp: holds_inode_def)
  ultimately show ?thesis using b(2) data unfolding isz_def by (intro exI [of _ b]) auto
qed


subsection \<open>Effects on an array of bytes\<close>

definition performs ::
  "('d \<Rightarrow> bool) \<Rightarrow> ('d \<Rightarrow> nat \<Rightarrow> u8) \<Rightarrow> ('d \<Rightarrow> bool) \<Rightarrow> ('d \<Rightarrow> error + 'd) \<Rightarrow> ((nat \<Rightarrow> u8) \<Rightarrow> nat \<Rightarrow> u8) \<Rightarrow> bool" where
  "performs good content same act eff \<longleftrightarrow>
     (\<forall>d. good d \<longrightarrow> same d \<longrightarrow> (\<exists>d'. act d = Inr d' \<and> good d' \<and> same d' \<and> content d' = eff (content d)))"

lemma run_performs:
  assumes "list_all2 (performs good content same) steps effs" "good d" "same d"
  shows "\<exists>d'. run_edits steps d = Inr d' \<and> good d' \<and> same d' \<and> content d' = fold (\<lambda>e c. e c) effs (content d)"
  using assms
proof (induction steps effs arbitrary: d rule: list_all2_induct)
  case (Cons s steps e effs)
  then obtain d1 where "s d = Inr d1" "good d1" "same d1" "content d1 = e (content d)"
    unfolding performs_def by blast
  then show ?case using Cons.IH [of d1] by auto
qed simp

lemma run_edits_prefix:
  assumes "list_all2 P steps effs"
  shows "list_all2 P (take k steps) (take k effs)"
  using assms by (rule list_all2_takeI)

lemma overwrite_commute:
  assumes "a + length x \<le> b \<or> b + length y \<le> a"
  shows "overwrite (overwrite c a x) b y = overwrite (overwrite c b y) a x"
  using assms by (auto simp: overwrite_def fun_eq_iff)

definition reads_bytes :: "(nat \<Rightarrow> u8) \<Rightarrow> nat \<Rightarrow> bytes \<Rightarrow> bool" where
  "reads_bytes c off b \<longleftrightarrow> map c [off..<off + length b] = b"

lemma reads_bytes_iff: "reads_bytes c off b \<longleftrightarrow> (\<forall>i<length b. c (off + i) = b ! i)"
  unfolding reads_bytes_def list_eq_iff_nth_eq by simp

lemma reads_bytes_overwrite [simp]: "reads_bytes (overwrite c off b) off b"
  by (simp add: reads_bytes_iff overwrite_def)

lemma reads_bytes_frame:
  assumes "reads_bytes c off b" "off + length b \<le> a \<or> a + n \<le> off"
  shows "length x = n \<Longrightarrow> reads_bytes (overwrite c a x) off b" "reads_bytes (zeroed c a n) off b"
  using assms by (auto simp: reads_bytes_iff overwrite_def zeroed_def)

subsection \<open>The steps of the format\<close>

text \<open>
  What the format starts from: an accepted geometry inside a device whose sectors divide a
  block, a plan for every group, and each group once in the order of the writes.
\<close>

definition format_ready :: "'d dev_ops \<Rightarrow> ('d \<Rightarrow> nat) \<Rightarrow> 'd \<Rightarrow> geometry \<Rightarrow> ag_plan list \<Rightarrow> bytes \<Rightarrow> nat list \<Rightarrow> bool" where
  "format_ready D sector d g plans uuid order \<longleftrightarrow>
     geometry_ok g \<and> tiles g \<and> try_map (plan_ag g) [0..<agcount g] = Inr plans \<and> length uuid = 16 \<and>
     mset order = mset [0..<agcount g] \<and> dblocks g * bs g \<le> dev_size D d \<and> sector d dvd bs g"

definition head_bytes :: "geometry \<Rightarrow> ag_plan list \<Rightarrow> bytes \<Rightarrow> sb_state \<Rightarrow> nat \<Rightarrow> bytes" where
  "head_bytes g plans uuid sbs a = the_bytes (ag_head g (plans ! a) uuid sbs)"

definition group_at :: "geometry \<Rightarrow> nat \<Rightarrow> nat" where
  "group_at g a = a * agsize g * bs g"

definition group_effect :: "geometry \<Rightarrow> ag_plan list \<Rightarrow> bytes \<Rightarrow> nat \<Rightarrow> (nat \<Rightarrow> u8) \<Rightarrow> nat \<Rightarrow> u8" where
  "group_effect g plans uuid a c = overwrite c (group_at g a) (head_bytes g plans uuid (group_sb g uuid plans a) a)"

definition format_effects ::
  "nat \<Rightarrow> geometry \<Rightarrow> ag_plan list \<Rightarrow> bytes \<Rightarrow> timestamp \<Rightarrow> u64 \<Rightarrow> nat list \<Rightarrow> ((nat \<Rightarrow> u8) \<Rightarrow> nat \<Rightarrow> u8) list" where
  "format_effects sz g plans uuid time gen order =
     (let stop = sz div bs g * bs g; tail = (stop - WHACK_SIZE) div bs g * bs g in
      [\<lambda>c. zeroed c 0 (min WHACK_SIZE stop),
       \<lambda>c. zeroed c tail (stop - tail),
       \<lambda>c. zeroed c (log_at g) (logblocks g * bs g),
       \<lambda>c. overwrite c (log_at g) (the_bytes (first_log_block g uuid))] @
      map (group_effect g plans uuid) order @
      [\<lambda>c. overwrite c (root_chunk_agbno g * bs g) (the_bytes (root_chunk g (root_chunk_agbno g) uuid time gen)),
       \<lambda>c. c,
       \<lambda>c. overwrite c 0 (take (header_blocks g * bs g) (head_bytes g plans uuid (finished_sb g uuid plans) 0)),
       \<lambda>c. c])"


lemma first_log_block_ok:
  assumes g: "geometry_ok g" and u: "length uuid = 16"
  shows "\<exists>b. first_log_block g uuid = Inr b \<and> length b = bs g"
proof -
  define su where "su = clear_sunit (logsunit g) (if sectsize g > 512 then lsectsize g else 0)"
  have "(2::nat) ^ blocklog g \<le> 2 ^ 14" using geometry_okD(3) [OF g] by (intro power_increasing) simp_all
  then have b: "1024 \<le> bs g" "bs g = blocksize g" "blocksize g \<le> 16384"
    using head_sizes(3) [OF g] geometry_okD(1) [OF g] by (simp_all add: bs_def)
  have "512 dvd bs g"
    using geometry_okD(1,2) [OF g] le_imp_power_dvd [of 9 "blocklog g" "2::nat"] by (simp add: bs_def)
  then have dv: "div_ceil (bs g) 512 * 512 = bs g" by (auto simp: div_ceil_def elim: dvdE)
  have "record_bbs su * 512 \<le> bs g \<and> su < 2 ^ 31"
  proof (cases "sectsize g > 512")
    case True
    then have "su = bs g"
      using b geometry_okD(7) [OF g] by (simp add: su_def clear_sunit_def logsunit_def lsunit_bytes_def)
    moreover have "1024 div 512 \<le> bs g div 512" using b by (intro div_le_mono) simp
    then have "2 \<le> div_ceil (bs g) 512" by (simp add: div_ceil_def)
    ultimately show ?thesis using b dv by (simp add: record_bbs_def record_hdrs_def BBSIZE_def HEADER_CYCLE_SIZE_def)
  next
    case False
    then have "su = 0" using geometry_okD(7) [OF g] by (simp add: su_def clear_sunit_def logsunit_def lsunit_bytes_def)
    then show ?thesis using b by (simp add: record_bbs_def record_hdrs_def BBSIZE_def HEADER_CYCLE_SIZE_def)
  qed
  then obtain rec where r: "first_record uuid su = Inr rec" "length rec \<le> bs g"
    using log_record_holds [OF u, of su] unfolding first_record_def Let_def by (metis BBSIZE_def)
  then show ?thesis
    by (simp add: first_log_block_def Let_def su_def [symmetric] write_slice_ok length_splice)
qed

lemma ready_plans:
  assumes "format_ready D sector d g plans uuid order" "a < agcount g"
  shows "plan_ag g a = Inr (plans ! a)" "a < length plans"
  using assms try_map_nth [of "plan_ag g" "[0..<agcount g]" plans a] try_map_length [of "plan_ag g" "[0..<agcount g]" plans]
  by (auto simp: format_ready_def)

lemma ready_geometry:
  assumes "format_ready D sector d g plans uuid order"
  shows "geometry_ok g" "tiles g" "length uuid = 16" "dblocks g * bs g \<le> dev_size D d" "sector d dvd bs g" "0 < bs g"
    "0 < agcount g" "set order = {..<agcount g}" "distinct order" "logagno g < agcount g" "length order = agcount g"
proof -
  show g: "geometry_ok g" "tiles g" "length uuid = 16" "dblocks g * bs g \<le> dev_size D d" "sector d dvd bs g"
    using assms by (simp_all add: format_ready_def)
  show "0 < bs g" "0 < agcount g" "logagno g < agcount g"
    using head_sizes(3) [OF g(1)] geometry_okD(15,23) [OF g(1)] by simp_all
  have "mset order = mset [0..<agcount g]" using assms by (simp add: format_ready_def)
  then show "set order = {..<agcount g}" "distinct order" "length order = agcount g"
    using mset_eq_length [of order "[0..<agcount g]"] mset_eq_setD [of order "[0..<agcount g]"] mset_eq_imp_distinct_iff [of order "[0..<agcount g]"]
    by (auto simp: lessThan_atLeast0)
qed

lemma ready_head:
  assumes r: "format_ready D sector d g plans uuid order" and a: "a < agcount g" and s: "length (s_uuid sbs) = 16"
  shows "ag_head g (plans ! a) uuid sbs = Inr (head_bytes g plans uuid sbs a)"
    "length (head_bytes g plans uuid sbs a) = prealloc_blocks g * bs g"
proof -
  note g = ready_geometry [OF r] and p = plan_ag_InrD [OF ready_geometry(1,2) [OF r] a ready_plans(1) [OF r a]]
  obtain f i l rest where len: "length rest = prealloc_blocks g * bs g - sectsize g"
    and ag: "\<forall>sbs s. sb_encode g sbs (replicate (sectsize g) 0) = Inr s \<longrightarrow> length s = sectsize g \<longrightarrow>
      ag_head g (plans ! a) uuid sbs = Inr (s @ rest)"
    by (rule group_head_regions [OF g(1) p(2) g(3)])
  obtain s where s: "sb_encode g sbs (replicate (sectsize g) 0) = Inr s" "length s = sectsize g"
    using sb_sector [OF g(1) s] by blast
  have "sectsize g \<le> header_blocks g * bs g" using head_sizes(4) [OF g(1)] by simp
  also have "\<dots> \<le> prealloc_blocks g * bs g" using head_sizes(5) [OF g(1)] by simp
  finally show "ag_head g (plans ! a) uuid sbs = Inr (head_bytes g plans uuid sbs a)"
    "length (head_bytes g plans uuid sbs a) = prealloc_blocks g * bs g"
    using ag [rule_format, OF s] len s(2) by (simp_all add: head_bytes_def)
qed

lemma ready_space:
  assumes r: "format_ready D sector d g plans uuid order" and a: "a < agcount g"
  shows "agb_to_byte g a 0 = group_at g a"
    "group_at g a + (group_start g a + 4) * bs g \<le> group_at g a + ag_blocks g a * bs g"
    "group_at g a + ag_blocks g a * bs g \<le> dblocks g * bs g"
proof -
  note g = ready_geometry [OF r] and p = plan_ag_InrD [OF ready_geometry(1,2) [OF r] a ready_plans(1) [OF r a]]
  show "agb_to_byte g a 0 = group_at g a"
    using agb_to_byte_eq(1) [OF g(1,2) a, of 0] ag_blocks_bounds(1) [OF g(1,2) a] by (simp add: group_at_def bs_def)
  have "group_start g a + 4 \<le> ag_blocks g a" using p(4) min_freelist_bounds(1) [of g] by simp
  then show "group_at g a + (group_start g a + 4) * bs g \<le> group_at g a + ag_blocks g a * bs g" by simp
  have "(a * agsize g + ag_blocks g a) * bs g \<le> dblocks g * bs g"
    using ag_blocks_bounds(5) [OF g(1,2) a] by (rule mult_le_mono1)
  then show "group_at g a + ag_blocks g a * bs g \<le> dblocks g * bs g"
    by (simp add: group_at_def add_mult_distrib)
qed


lemma sb_uuids [simp]:
  "s_uuid (finished_sb g uuid plans) = uuid" "s_uuid (group_sb g uuid plans a) = uuid" "s_uuid (secondary_sb g uuid) = uuid"
  by (simp_all add: finished_sb_def group_sb_def secondary_sb_def Let_def)

lemma same_device_refl [simp]: "same_device D sector d d"
  by (simp add: same_device_def)

lemma same_device_trans: "same_device D sector d e \<Longrightarrow> same_device D sector e f \<Longrightarrow> same_device D sector d f"
  by (simp add: same_device_def)

context block_device
begin

abbreviation does :: "'d \<Rightarrow> ('d \<Rightarrow> error + 'd) \<Rightarrow> ((nat \<Rightarrow> u8) \<Rightarrow> nat \<Rightarrow> u8) \<Rightarrow> bool" where
  "does d0 \<equiv> performs good content (same_device D sector d0)"

lemma accepts_same: "same_device D sector d0 d \<Longrightarrow> accepts D sector d = accepts D sector d0"
  by (simp add: fun_eq_iff accepts_def same_device_def)

lemma write_performs:
  assumes "accepts D sector d0 off (length buf)"
  shows "does d0 (\<lambda>d. dev_write_at D d off buf) (\<lambda>c. overwrite c off buf)"
  unfolding performs_def
proof (intro allI impI)
  fix d
  assume "good d" and s: "same_device D sector d0 d"
  then show "\<exists>d'. dev_write_at D d off buf = Inr d' \<and> good d' \<and> same_device D sector d0 d' \<and>
      content d' = overwrite (content d) off buf"
    using write_at [of d off buf] assms accepts_same [OF s] same_device_trans [OF s] by auto
qed

lemma zero_performs:
  assumes "accepts D sector d0 off len"
  shows "does d0 (\<lambda>d. dev_write_zeroes D d off len) (\<lambda>c. zeroed c off len)"
  unfolding performs_def
proof (intro allI impI)
  fix d
  assume "good d" and s: "same_device D sector d0 d"
  then show "\<exists>d'. dev_write_zeroes D d off len = Inr d' \<and> good d' \<and> same_device D sector d0 d' \<and>
      content d' = zeroed (content d) off len"
    using write_zeroes [of d off len] assms accepts_same [OF s] same_device_trans [OF s] by auto
qed

lemma flush_performs: "does d0 (dev_flush D) (\<lambda>c. c)"
  unfolding performs_def using flush same_device_trans by metis

lemma zero_ends_performs:
  assumes r: "format_ready D sector d0 g plans uuid order"
  defines "stop \<equiv> dev_size D d0 div bs g * bs g"
  defines "tail \<equiv> (stop - WHACK_SIZE) div bs g * bs g"
  shows "does d0 (zero_head D g) (\<lambda>c. zeroed c 0 (min WHACK_SIZE stop))"
    "does d0 (zero_tail D g) (\<lambda>c. zeroed c tail (stop - tail))"
proof -
  note g = ready_geometry [OF r]
  have w: "bs g dvd WHACK_SIZE"
    using le_imp_power_dvd [of "blocklog g" 17 "2::nat"] geometry_okD(1,3) [OF g(1)] by (simp add: bs_def WHACK_SIZE_def)
  have "tail \<le> stop - WHACK_SIZE" unfolding tail_def by (rule div_times_less_eq_dividend)
  moreover have "stop \<le> dev_size D d0" "bs g dvd stop" "bs g dvd tail"
    by (simp_all add: stop_def tail_def)
  ultimately have "accepts D sector d0 0 (min WHACK_SIZE stop)" "accepts D sector d0 tail (stop - tail)"
    using w dvd_trans [OF g(5)] by (auto simp: accepts_def min_def intro!: dvd_diff_nat)
  from zero_performs [OF this(1)] zero_performs [OF this(2)]
  show "does d0 (zero_head D g) (\<lambda>c. zeroed c 0 (min WHACK_SIZE stop))"
    "does d0 (zero_tail D g) (\<lambda>c. zeroed c tail (stop - tail))"
    by (auto simp: performs_def zero_head_def zero_tail_def Let_def same_device_def stop_def tail_def)
qed


lemma block_range:
  assumes r: "format_ready D sector d0 g plans uuid order" and n: "(a + n) * bs g \<le> dblocks g * bs g"
  shows "accepts D sector d0 (a * bs g) (n * bs g)"
  using ready_geometry(4,5) [OF r] n by (auto simp: accepts_def add_mult_distrib)

lemma log_performs:
  assumes r: "format_ready D sector d0 g plans uuid order"
  shows "does d0 (zero_log D g) (\<lambda>c. zeroed c (log_at g) (logblocks g * bs g))"
    "does d0 (write_log D g uuid) (\<lambda>c. overwrite c (log_at g) (the_bytes (first_log_block g uuid)))"
proof -
  note g = ready_geometry [OF r] and sp = ready_space [OF r ready_geometry(10) [OF r]]
  have gs: "group_start g (logagno g) = log_agbno g + logblocks g"
    using geometry_okD(24) [OF g(1)] by (simp add: group_start_def)
  have lt: "log_agbno g + logblocks g + 4 \<le> ag_blocks g (logagno g)"
    using plan_ag_InrD(4) [OF g(1,2,10) ready_plans(1) [OF r g(10)]] min_freelist_bounds(1) [of g] gs by simp
  define at where "at = logagno g * agsize g + log_agbno g"
  have at: "log_at g = at * bs g"
    using agb_to_byte_eq(1) [OF g(1,2,10), of "log_agbno g"] lt by (simp add: log_at_def at_def bs_def)
  have "at + logblocks g \<le> dblocks g" using ag_blocks_bounds(5) [OF g(1,2,10)] lt by (simp add: at_def)
  moreover have pos: "0 < logblocks g" using g(1) by (auto simp: geometry_ok_def intro: Nat.gr0I)
  ultimately have acc: "accepts D sector d0 (at * bs g) (logblocks g * bs g)" "accepts D sector d0 (at * bs g) (1 * bs g)"
    by (intro block_range [OF r] mult_le_mono1; simp)+
  have "logblocks g * blocksize g \<le> MAX_LOG_BYTES" using g(1) unfolding geometry_ok_def by blast
  then have "logblocks g * bs g < 2 ^ 64" by (simp add: bs_def geometry_consts)
  then have m: "mul64 (logblocks g) (bs g) = logblocks g * bs g" by (rule nowrap)
  show "does d0 (zero_log D g) (\<lambda>c. zeroed c (log_at g) (logblocks g * bs g))"
    using zero_performs [OF acc(1)] unfolding at zero_log_def [abs_def] m .
  obtain b where b: "first_log_block g uuid = Inr b" "length b = bs g" using first_log_block_ok [OF g(1,3)] by blast
  show "does d0 (write_log D g uuid) (\<lambda>c. overwrite c (log_at g) (the_bytes (first_log_block g uuid)))"
    using write_performs [of d0 "at * bs g" b] acc(2) by (simp add: write_log_def [abs_def] b at)
qed

lemma group_performs:
  assumes r: "format_ready D sector d0 g plans uuid order" and a: "a < agcount g"
  shows "does d0 (write_group D g plans uuid a) (group_effect g plans uuid a)"
proof -
  note g = ready_geometry [OF r] and sp = ready_space [OF r a] and h = ready_head [OF r a, of "group_sb g uuid plans a"]
  have "prealloc_blocks g \<le> ag_blocks g a"
    using plan_ag_InrD(4) [OF g(1,2) a ready_plans(1) [OF r a]] by (simp add: group_start_def)
  then have "a * agsize g + prealloc_blocks g \<le> dblocks g" using ag_blocks_bounds(5) [OF g(1,2) a] by simp
  then have "accepts D sector d0 (a * agsize g * bs g) (prealloc_blocks g * bs g)"
    by (intro block_range [OF r] mult_le_mono1)
  then show ?thesis
    using write_performs [of d0 "group_at g a" "head_bytes g plans uuid (group_sb g uuid plans a) a"] h g(3) ready_plans(2) [OF r a]
    by (simp add: write_group_def [abs_def] group_effect_def [abs_def] sp(1) group_at_def)
qed

lemma group_zero_performs:
  assumes r: "format_ready D sector d0 g plans uuid order"
  shows "does d0 (write_chunk D g plans uuid time gen)
      (\<lambda>c. overwrite c (root_chunk_agbno g * bs g) (the_bytes (root_chunk g (root_chunk_agbno g) uuid time gen)))"
    "does d0 (write_finished D g plans uuid)
      (\<lambda>c. overwrite c 0 (take (header_blocks g * bs g) (head_bytes g plans uuid (finished_sb g uuid plans) 0)))"
proof -
  note g = ready_geometry [OF r] and p = ready_plans [OF r ready_geometry(7) [OF r]]
  note h = ready_head [OF r g(7), of "finished_sb g uuid plans"]
  have gp: "good_plan g 0 (plans ! 0)" using plan_ag_InrD(1) [OF g(1,2,7) p(1)] .
  have n: "1024 \<le> ag_blocks g 0" "ag_blocks g 0 \<le> dblocks g"
    using ag_blocks_bounds(1,5) [OF g(1,2,7)] by simp_all
  have c: "root_chunk_agbno g + chunk_blocks g \<le> 80" "0 < chunk_blocks g"
    using root_chunk_bounds(2) [OF g(1)] inode_chunk_sizes(1) [OF g(1)] by simp_all
  have at: "agb_to_byte g 0 (root_chunk_agbno g) = root_chunk_agbno g * bs g"
    using agb_to_byte_eq(1) [OF g(1,2,7), of "root_chunk_agbno g"] c n by (simp add: bs_def)
  obtain b where b: "root_chunk g (root_chunk_agbno g) uuid time gen = Inr b" "length b = chunk_blocks g * bs g"
    using root_chunk_ok [OF g(1,3), of "root_chunk_agbno g" time gen] chunk_bytes(1) [OF g(1)] by auto
  have acc: "accepts D sector d0 (root_chunk_agbno g * bs g) (chunk_blocks g * bs g)"
    "accepts D sector d0 0 (header_blocks g * bs g)"
    using c n group_prealloc [OF g(1)] head_sizes(5) [OF g(1)] block_range [OF r, of 0 "header_blocks g"]
    by (auto intro!: block_range [OF r] mult_le_mono1)
  show "does d0 (write_chunk D g plans uuid time gen)
      (\<lambda>c. overwrite c (root_chunk_agbno g * bs g) (the_bytes (root_chunk g (root_chunk_agbno g) uuid time gen)))"
    using write_performs [of d0 "root_chunk_agbno g * bs g" b] acc(1) gp p(2)
    by (auto simp: write_chunk_def [abs_def] good_plan_def Let_def b at)
  have "header_blocks g * bs g \<le> prealloc_blocks g * bs g" using head_sizes(5) [OF g(1)] by simp
  then have hl: "header_blocks g * bs g \<le> length (head_bytes g plans uuid (finished_sb g uuid plans) 0)"
    using h(2) g(3) by simp
  have "header_blocks g * bs g < 2 ^ 64"
    using \<open>header_blocks g * bs g \<le> prealloc_blocks g * bs g\<close> group_prealloc(3) [OF g(1)] geometry_word_bounds(1) [OF g(1)]
    by (intro le_less_trans [OF mult_le_mono [of "header_blocks g" 10 "bs g" "2 ^ 16"]]) (simp_all add: bs_def prealloc_blocks_eq)
  then have m: "mul64 (header_blocks g) (bs g) = header_blocks g * bs g" by (rule nowrap)
  show "does d0 (write_finished D g plans uuid)
      (\<lambda>c. overwrite c 0 (take (header_blocks g * bs g) (head_bytes g plans uuid (finished_sb g uuid plans) 0)))"
    using write_performs [of d0 0 "take (header_blocks g * bs g) (head_bytes g plans uuid (finished_sb g uuid plans) 0)"]
      acc(2) hl p(2) h(1) g(3)
    by (auto simp: write_finished_def [abs_def] m read_slice_def slice_def min_absorb2)
qed

lemma format_performs:
  assumes r: "format_ready D sector d0 g plans uuid order"
  shows "list_all2 (does d0) (format_steps D g plans uuid time gen order)
    (format_effects (dev_size D d0) g plans uuid time gen order)"
proof -
  have "list_all2 (does d0) (map (write_group D g plans uuid) order) (map (group_effect g plans uuid) order)"
    using group_performs [OF r] ready_geometry(8) [OF r] by (auto simp: list.rel_map intro!: list.rel_refl_strong)
  then show ?thesis
    using zero_ends_performs [OF r] log_performs [OF r] group_zero_performs [OF r] flush_performs
    by (simp add: format_steps_def format_effects_def Let_def list_all2_appendI)
qed

lemma format_runs:
  assumes "good d" "format_ready D sector d g plans uuid order"
  shows "\<exists>d'. run_edits (take k (format_steps D g plans uuid time gen order)) d = Inr d' \<and> good d' \<and> same_device D sector d d' \<and>
    content d' = fold (\<lambda>e c. e c) (take k (format_effects (dev_size D d) g plans uuid time gen order)) (content d)"
  using run_performs [OF run_edits_prefix [OF format_performs [OF assms(2)]] assms(1)] by simp

end


subsection \<open>Where the effects land\<close>

lemma group_at_mono: "a < b \<Longrightarrow> group_at g a + agsize g * bs g \<le> group_at g b"
  using mult_le_mono1 [of "Suc a" b "agsize g * bs g"] by (simp add: group_at_def algebra_simps)

lemma head_inside:
  assumes r: "format_ready D sector d g plans uuid order" and a: "a < agcount g" and b: "b < agcount g" "a \<noteq> b"
    and n: "n \<le> ag_blocks g a * bs g" and m: "m \<le> ag_blocks g b * bs g"
  shows "group_at g a + n \<le> group_at g b \<or> group_at g b + m \<le> group_at g a"
proof -
  note g = ready_geometry(1,2) [OF r]
  have "ag_blocks g a * bs g \<le> agsize g * bs g" "ag_blocks g b * bs g \<le> agsize g * bs g"
    using ag_blocks_bounds(2) [OF g a] ag_blocks_bounds(2) [OF g b(1)] by (intro mult_le_mono1; simp)+
  then show ?thesis using group_at_mono [of a b g] group_at_mono [of b a g] b(2) n m by linarith
qed

lemma head_in_group:
  assumes r: "format_ready D sector d g plans uuid order" and a: "a < agcount g"
  shows "length (head_bytes g plans uuid (group_sb g uuid plans a) a) = prealloc_blocks g * bs g"
    "prealloc_blocks g * bs g \<le> ag_blocks g a * bs g"
proof -
  show "length (head_bytes g plans uuid (group_sb g uuid plans a) a) = prealloc_blocks g * bs g"
    using ready_head(2) [OF r a] ready_geometry(3) [OF r] by simp
  have "prealloc_blocks g \<le> ag_blocks g a"
    using plan_ag_InrD(4) [OF ready_geometry(1,2) [OF r] a ready_plans(1) [OF r a]] by (simp add: group_start_def)
  then show "prealloc_blocks g * bs g \<le> ag_blocks g a * bs g" by simp
qed

lemma group_effects_commute:
  assumes r: "format_ready D sector d g plans uuid order" and a: "a < agcount g" "b < agcount g"
  shows "group_effect g plans uuid a \<circ> group_effect g plans uuid b = group_effect g plans uuid b \<circ> group_effect g plans uuid a"
proof (cases "a = b")
  case False
  show ?thesis
    using head_inside [OF r a False head_in_group(2) [OF r a(1)] head_in_group(2) [OF r a(2)]]
      head_in_group(1) [OF r a(1)] head_in_group(1) [OF r a(2)]
    by (auto simp: fun_eq_iff group_effect_def intro!: fun_cong [OF overwrite_commute])
qed simp

lemma fold_effects: "fold (\<lambda>e c. e c) (map f xs) c = fold f xs c"
  by (induction xs arbitrary: c) simp_all

lemma group_effects_keep:
  assumes r: "format_ready D sector d g plans uuid order" and "set xs \<subseteq> {..<agcount g}"
    and "reads_bytes c off b" and "\<forall>a\<in>set xs. off + length b \<le> group_at g a \<or> group_at g a + prealloc_blocks g * bs g \<le> off"
  shows "reads_bytes (fold (group_effect g plans uuid) xs c) off b"
  using assms(2-)
proof (induction xs arbitrary: c)
  case (Cons a xs)
  then have "reads_bytes (group_effect g plans uuid a c) off b"
    unfolding group_effect_def
    by (intro reads_bytes_frame(1) [where n = "prealloc_blocks g * bs g"]) (auto simp: head_in_group(1) [OF r])
  then show ?case using Cons by simp
qed simp

lemma group_effects_read:
  assumes r: "format_ready D sector d g plans uuid order" and a: "a < agcount g"
  shows "reads_bytes (fold (group_effect g plans uuid) order c) (group_at g a) (head_bytes g plans uuid (group_sb g uuid plans a) a)"
proof -
  note o = ready_geometry(8,9) [OF r]
  obtain us vs where s: "order = us @ a # vs" using a o(1) by (metis lessThan_iff split_list)
  have vs: "set vs \<subseteq> {..<agcount g}" "a \<notin> set vs" using s o by auto
  have "group_at g a + length (head_bytes g plans uuid (group_sb g uuid plans a) a) \<le> group_at g x \<or>
      group_at g x + prealloc_blocks g * bs g \<le> group_at g a" if "x \<in> set vs" for x
  proof -
    have x: "x < agcount g" "a \<noteq> x" using vs that by auto
    show ?thesis
      using head_inside [OF r a x head_in_group(2) [OF r a] head_in_group(2) [OF r x(1)]] head_in_group(1) [OF r a] by simp
  qed
  then show ?thesis
    using group_effects_keep [OF r vs(1), of "group_effect g plans uuid a (fold (group_effect g plans uuid) us c)"]
    by (simp add: s group_effect_def)
qed

text \<open>The heads of one group for two states of the superblock differ in the first sector only.\<close>

lemma head_bytes_rest:
  assumes r: "format_ready D sector d g plans uuid order" and a: "a < agcount g"
  obtains rest where "\<forall>sbs. length (s_uuid sbs) = 16 \<longrightarrow>
    head_bytes g plans uuid sbs a = the_bytes (sb_encode g sbs (replicate (sectsize g) 0)) @ rest \<and>
    length (the_bytes (sb_encode g sbs (replicate (sectsize g) 0))) = sectsize g"
proof -
  note g = ready_geometry [OF r] and p = plan_ag_InrD [OF ready_geometry(1,2) [OF r] a ready_plans(1) [OF r a]]
  obtain f i l rest where ag: "\<forall>sbs s. sb_encode g sbs (replicate (sectsize g) 0) = Inr s \<longrightarrow> length s = sectsize g \<longrightarrow>
      ag_head g (plans ! a) uuid sbs = Inr (s @ rest)"
    by (rule group_head_regions [OF g(1) p(2) g(3)])
  have "head_bytes g plans uuid sbs a = the_bytes (sb_encode g sbs (replicate (sectsize g) 0)) @ rest \<and>
    length (the_bytes (sb_encode g sbs (replicate (sectsize g) 0))) = sectsize g" if "length (s_uuid sbs) = 16" for sbs
    using sb_sector [OF g(1) that] ag by (metis head_bytes_def the_bytes_Inr)
  then show thesis using that by blast
qed

lemma reads_bytes_append: "reads_bytes c off (x @ y) \<longleftrightarrow> reads_bytes c off x \<and> reads_bytes c (off + length x) y"
proof -
  have "[off..<off + (length x + length y)] = [off..<off + length x] @ [off + length x..<off + length x + length y]"
    using upt_add_eq_append [of off "off + length x" "length y"] by (simp add: add.assoc)
  then show ?thesis by (simp add: reads_bytes_def)
qed


subsection \<open>The finished image\<close>

definition format_image :: "nat \<Rightarrow> geometry \<Rightarrow> ag_plan list \<Rightarrow> bytes \<Rightarrow> timestamp \<Rightarrow> u64 \<Rightarrow> nat list \<Rightarrow> (nat \<Rightarrow> u8) \<Rightarrow> nat \<Rightarrow> u8" where
  "format_image sz g plans uuid time gen order c =
     fold (\<lambda>e c. e c) (format_effects sz g plans uuid time gen order) c"

text \<open>The superblock that each group ends with.\<close>

definition final_sb :: "geometry \<Rightarrow> bytes \<Rightarrow> ag_plan list \<Rightarrow> nat \<Rightarrow> sb_state" where
  "final_sb g uuid plans a = (if a = 0 then finished_sb g uuid plans else group_sb g uuid plans a)"

lemma image_groups:
  assumes r: "format_ready D sector d g plans uuid order" and a: "a < agcount g"
  shows "reads_bytes (format_image sz g plans uuid time gen order c) (group_at g a)
    (head_bytes g plans uuid (final_sb g uuid plans a) a)"
proof -
  note g = ready_geometry [OF r]
  define hb fin where "hb = header_blocks g * bs g" and "fin = head_bytes g plans uuid (finished_sb g uuid plans) 0"
  define chunk where "chunk = the_bytes (root_chunk g (root_chunk_agbno g) uuid time gen)"
  define c1 where "c1 = fold (group_effect g plans uuid) order
     (fold (\<lambda>e c. e c) (take 4 (format_effects sz g plans uuid time gen order)) c)"
  define c2 where "c2 = overwrite c1 (root_chunk_agbno g * bs g) chunk"
  have img: "format_image sz g plans uuid time gen order c = overwrite c2 0 (take hb fin)"
    by (simp add: format_image_def format_effects_def Let_def fold_effects c1_def c2_def hb_def fin_def chunk_def)
  have ch: "length chunk = chunk_blocks g * bs g"
    using root_chunk_ok [OF g(1,3), of "root_chunk_agbno g" time gen] chunk_bytes(1) [OF g(1)] by (auto simp: chunk_def)
  have pr: "prealloc_blocks g * bs g \<le> root_chunk_agbno g * bs g" "root_chunk_agbno g * bs g + length chunk \<le> agsize g * bs g"
    using root_chunk_bounds [OF g(1)] geometry_okD(18) [OF g(1)] mult_le_mono1 [of "root_chunk_agbno g + chunk_blocks g" "agsize g" "bs g"]
    by (simp_all add: ch add_mult_distrib)
  have hp: "hb \<le> prealloc_blocks g * bs g" using head_sizes(5) [OF g(1)] by (simp add: hb_def)
  have ga: "agsize g * bs g \<le> group_at g a" if "a \<noteq> 0" using group_at_mono [of 0 a g] that by (simp add: group_at_def)
  have c1: "reads_bytes c1 (group_at g a) (head_bytes g plans uuid (group_sb g uuid plans a) a)"
    unfolding c1_def by (rule group_effects_read [OF r a])
  have c2: "reads_bytes c2 (group_at g a) (head_bytes g plans uuid (group_sb g uuid plans a) a)"
    unfolding c2_def
  proof (rule reads_bytes_frame(1) [OF c1 _ refl])
    show "group_at g a + length (head_bytes g plans uuid (group_sb g uuid plans a) a) \<le> root_chunk_agbno g * bs g \<or>
        root_chunk_agbno g * bs g + length chunk \<le> group_at g a"
    proof (cases "a = 0")
      case False
      then show ?thesis using ga pr(2) by (intro disjI2) (rule le_trans)
    qed (use pr(1) head_in_group(1) [OF r a] in \<open>simp add: group_at_def\<close>)
  qed
  show ?thesis
  proof (cases "a = 0")
    case False
    have "length (take hb fin) = hb" using ready_head(2) [OF r g(7)] g(3) hp by (simp add: fin_def)
    moreover have "hb \<le> group_at g a" using ga [OF False] hp pr by linarith
    ultimately show ?thesis
      using c2 False unfolding img by (intro reads_bytes_frame(1) [where n = hb]) (simp_all add: final_sb_def)
  next
    case True
    obtain rest where rest: "\<forall>sbs. length (s_uuid sbs) = 16 \<longrightarrow>
        head_bytes g plans uuid sbs 0 = the_bytes (sb_encode g sbs (replicate (sectsize g) 0)) @ rest \<and>
        length (the_bytes (sb_encode g sbs (replicate (sectsize g) 0))) = sectsize g"
      by (rule head_bytes_rest [OF r g(7)])
    have fl: "length fin = prealloc_blocks g * bs g" using ready_head(2) [OF r g(7)] g(3) by (simp add: fin_def)
    have ss: "sectsize g \<le> hb" using head_sizes(4) [OF g(1)] by (simp add: hb_def)
    have "c2 i = fin ! i" if "hb \<le> i" "i < length fin" for i
      using that c2 True ss rest [rule_format, of "finished_sb g uuid plans"] rest [rule_format, of "group_sb g uuid plans 0"] g(3)
      by (auto simp: reads_bytes_iff group_at_def fin_def nth_append)
    then show ?thesis
      using True hp fl unfolding img by (auto simp: reads_bytes_iff final_sb_def group_at_def overwrite_def simp flip: fin_def)
  qed
qed

lemma image_order:
  assumes "format_ready D sector d g plans uuid order" "mset order' = mset order"
  shows "format_image sz g plans uuid time gen order' c = format_image sz g plans uuid time gen order c"
proof -
  have "fold (group_effect g plans uuid) order = fold (group_effect g plans uuid) order'"
    by (rule fold_multiset_equiv) (use group_effects_commute [OF assms(1)] ready_geometry(8) [OF assms(1)] assms(2) in auto)
  then show ?thesis by (simp add: format_image_def format_effects_def Let_def fold_effects)
qed


subsection \<open>An unfinished format\<close>

text \<open>Nothing in the first sector, or a superblock still marked as being made.\<close>

definition unfinished :: "geometry \<Rightarrow> (nat \<Rightarrow> u8) \<Rightarrow> bool" where
  "unfinished g c \<longleftrightarrow> (\<forall>i < sectsize g. c i = 0) \<or> c sb_INPROGRESS = 1"

lemma unfinished_frame:
  assumes "geometry_ok g" "sectsize g \<le> off" "unfinished g c"
  shows "unfinished g (overwrite c off b)" "unfinished g (zeroed c off n)"
  using assms head_sizes(1) [OF assms(1)] by (auto simp: unfinished_def overwrite_def zeroed_def)

lemma unfinished_head:
  assumes r: "format_ready D sector d g plans uuid order"
  shows "unfinished g (group_effect g plans uuid 0 c)"
proof -
  note g = ready_geometry [OF r]
  define sbs where "sbs = group_sb g uuid plans 0"
  have u: "length (s_uuid sbs) = 16" using g(3) by (simp add: sbs_def)
  obtain s where s: "sb_encode g sbs (replicate (sectsize g) 0) = Inr s" "length s = sectsize g"
    "holds (sb_fields (g, sbs) (sectsize g)) s"
    using sb_sector [OF g(1) u] by blast
  obtain rest where "head_bytes g plans uuid sbs 0 = s @ rest"
    using head_bytes_rest [OF r g(7)] u s(1) by (metis the_bytes_Inr)
  moreover have "s ! sb_INPROGRESS = of_bool (s_inprogress sbs)" "sb_INPROGRESS < length s"
    by (rule holds_byte [OF s(3)]; simp add: sb_fields_def Let_def)+
  moreover have "s_inprogress sbs" by (simp add: sbs_def group_sb_def)
  ultimately show ?thesis
    by (simp add: unfinished_def group_effect_def overwrite_def group_at_def nth_append flip: sbs_def)
qed

lemma sector_below:
  assumes r: "format_ready D sector d g plans uuid order"
  shows "sectsize g \<le> bs g" "sectsize g \<le> agsize g * bs g" "sectsize g \<le> log_at g"
    "0 < a \<Longrightarrow> sectsize g \<le> group_at g a" "sectsize g \<le> root_chunk_agbno g * bs g"
proof -
  note g = ready_geometry [OF r]
  show b: "sectsize g \<le> bs g"
    unfolding bs_def geometry_okD(1,4) [OF g(1)] using geometry_okD(6) [OF g(1)] by (intro power_increasing) simp_all
  have up: "sectsize g \<le> n * bs g" if "0 < n" for n using b that by (cases n) auto
  show "sectsize g \<le> agsize g * bs g" using geometry_okD(18) [OF g(1)] by (intro up) simp
  show "sectsize g \<le> group_at g a" if "0 < a"
    unfolding group_at_def using that geometry_okD(18) [OF g(1)] by (intro up) simp
  show "sectsize g \<le> root_chunk_agbno g * bs g"
    using root_chunk_bounds(1) [OF g(1)] group_prealloc(2) [OF g(1)] by (intro up) simp
  have "log_agbno g < ag_blocks g (logagno g)"
    using plan_ag_InrD(4) [OF g(1,2,10) ready_plans(1) [OF r g(10)]] geometry_okD(24) [OF g(1)] min_freelist_bounds(1) [of g]
    by (simp add: group_start_def)
  then have "log_at g = (logagno g * agsize g + log_agbno g) * bs g"
    using agb_to_byte_eq(1) [OF g(1,2,10)] by (simp add: log_at_def bs_def)
  moreover have "0 < log_agbno g" using geometry_okD(24) [OF g(1)] group_prealloc(2) [OF g(1)] by simp
  ultimately show "sectsize g \<le> log_at g" using up by simp
qed

lemma fold_preserves:
  assumes "\<And>e c. e \<in> set es \<Longrightarrow> P c \<Longrightarrow> P (e c)" "P c"
  shows "P (fold (\<lambda>e c. e c) es c)"
  using assms by (induction es arbitrary: c) auto

lemma unfinished_prefix:
  assumes r: "format_ready D sector d g plans uuid order" and k: "1 \<le> k" "k \<le> agcount g + 6"
  shows "unfinished g (fold (\<lambda>e c. e c) (take k (format_effects (dev_size D d) g plans uuid time gen order)) c)"
proof -
  note g = ready_geometry [OF r] and sb = sector_below [OF r]
  define stop where "stop = dev_size D d div bs g * bs g"
  define tail where "tail = (stop - WHACK_SIZE) div bs g * bs g"
  define es where "es = [\<lambda>c. zeroed c tail (stop - tail), \<lambda>c. zeroed c (log_at g) (logblocks g * bs g),
       \<lambda>c. overwrite c (log_at g) (the_bytes (first_log_block g uuid))] @ map (group_effect g plans uuid) order @
      [\<lambda>c. overwrite c (root_chunk_agbno g * bs g) (the_bytes (root_chunk g (root_chunk_agbno g) uuid time gen)), \<lambda>c. c]"
  define c0 where "c0 = zeroed c 0 (min WHACK_SIZE stop)"
  have "1 * bs g \<le> dev_size D d div bs g * bs g"
  proof (rule mult_le_mono1)
    have "1 * bs g \<le> dblocks g * bs g" using geometry_okD(13,18) [OF g(1)] by (intro mult_le_mono1) simp
    then have "bs g \<le> dev_size D d" using g(4) by linarith
    then show "1 \<le> dev_size D d div bs g" using g(6) by (simp add: less_eq_div_iff_mult_less_eq)
  qed
  then have st: "sectsize g \<le> stop" using sb(1) unfolding stop_def by linarith
  have w: "sectsize g \<le> WHACK_SIZE" using head_sizes(2) [OF g(1)] by (simp add: WHACK_SIZE_def)
  have c0: "unfinished g c0" using st w by (simp add: unfinished_def c0_def zeroed_def)
  have tl: "unfinished g (zeroed c tail (stop - tail))" if "unfinished g c" for c
  proof (cases "tail = 0")
    case True
    then show ?thesis using st by (simp add: unfinished_def zeroed_def)
  next
    case False
    then have "1 * bs g \<le> tail" unfolding tail_def by (intro mult_le_mono1) (simp add: Suc_le_eq)
    then show ?thesis using sb(1) that by (intro unfinished_frame(2) [OF g(1)]) simp_all
  qed
  have grp: "unfinished g (group_effect g plans uuid a c)" if "unfinished g c" for a c
    using unfinished_head [OF r] unfinished_frame(1) [OF g(1) sb(4) that]
    by (cases "a = 0") (simp_all add: group_effect_def)
  have pres: "unfinished g (e c)" if "e \<in> set es" "unfinished g c" for e c
    using that tl grp unfinished_frame [OF g(1) sb(3)] unfinished_frame(1) [OF g(1) sb(5)] by (auto simp: es_def)
  have le: "length es = agcount g + 5"
    using g(11) by (simp add: es_def)
  have "format_effects (dev_size D d) g plans uuid time gen order = (\<lambda>c. zeroed c 0 (min WHACK_SIZE stop)) # es @
      [\<lambda>c. overwrite c 0 (take (header_blocks g * bs g) (head_bytes g plans uuid (finished_sb g uuid plans) 0)), \<lambda>c. c]"
    by (simp add: format_effects_def es_def Let_def stop_def tail_def)
  then have "fold (\<lambda>e c. e c) (take k (format_effects (dev_size D d) g plans uuid time gen order)) c =
      fold (\<lambda>e c. e c) (take (k - 1) es) c0"
    using k le by (cases k) (simp_all add: c0_def)
  then show ?thesis
    using fold_preserves [of "take (k - 1) es" "unfinished g" c0] pres c0 by (auto dest: in_set_takeD)
qed


subsection \<open>Plans for every group\<close>

lemma plans_exist:
  assumes "geometry_ok g" "tiles g"
    and "group_start g (logagno g) + min_freelist g \<le> ag_blocks g (logagno g)"
  obtains plans where "try_map (plan_ag g) [0..<agcount g] = Inr plans"
proof -
  have "\<exists>p. plan_ag g a = Inr p" if "a \<in> set [0..<agcount g]" for a
  proof -
    have a: "a < agcount g" using that by simp
    have "group_start g a + min_freelist g \<le> ag_blocks g a"
      using assms(3) group_start_small(2) [OF assms(1,2) a] min_freelist_bounds(2) [of g] by (cases "a = logagno g") auto
    then show ?thesis using plan_ag_result [OF assms(1,2) a] by auto
  qed
  then show thesis using that try_map_total by blast
qed

lemma ready_total_fdblocks:
  assumes r: "format_ready D sector d g plans uuid order"
  shows "total_fdblocks plans + chunk_blocks g + agcount g * prealloc_blocks g + logblocks g = dblocks g"
proof -
  note g = ready_geometry [OF r]
  define f where "f a = freeblks (plans ! a) + length (ap_agfl (plans ! a))" for a
  have lp: "length plans = agcount g" using try_map_length r by (fastforce simp: format_ready_def)
  have e: "f a + (prealloc_blocks g + ((if a = logagno g then logblocks g else 0) + (if a = 0 then chunk_blocks g else 0))) = ag_blocks g a"
    if a: "a < agcount g" for a
    using good_plan_free [OF g(1,2) a plan_ag_InrD(1,4) [OF g(1,2) a ready_plans(1) [OF r a]]]
    by (simp add: f_def group_start_def)
  have "(\<Sum>a<agcount g. f a) + (\<Sum>a<agcount g. prealloc_blocks g + ((if a = logagno g then logblocks g else 0) + (if a = 0 then chunk_blocks g else 0)))
      = (\<Sum>a<agcount g. ag_blocks g a)"
    unfolding sum.distrib [symmetric] by (rule sum.cong) (simp_all add: e)
  then have total: "(\<Sum>a<agcount g. f a) + (agcount g * prealloc_blocks g + (logblocks g + chunk_blocks g)) = dblocks g"
    unfolding sum_ag_blocks [OF g(1,2)] using g(7,10) by (simp add: sum.distrib)
  have b: "f a < 2 ^ 64" if "a < agcount g" for a
    using e [OF that] ag_blocks_bounds(3) [OF g(1,2) that] by simp
  have m: "map (\<lambda>p. add64 (freeblks p) (length (ap_agfl p))) plans = map f [0..<agcount g]"
    using b lp by (intro nth_equalityI) (simp_all add: f_def nowrap)
  have "sum_list (map f [0..<agcount g]) = (\<Sum>a<agcount g. f a)"
    by (simp add: interv_sum_list_conv_sum_set_nat atLeast0LessThan)
  moreover have "(\<Sum>a<agcount g. f a) < 2 ^ 64" using total geometry_okD(19) [OF g(1)] by simp
  ultimately have "total_fdblocks plans = (\<Sum>a<agcount g. f a)"
    unfolding total_fdblocks_def m using foldl_add64 [of 0] by simp
  then show ?thesis using total by simp
qed

lemma format_geometry:
  "format D p new_uuid now new_seed order d = Inr (d', r) \<Longrightarrow>
    compute p (dev_size D d) (dev_logical D d) (dev_physical D d) = Inr (r_geometry r)"
  by (auto simp: format_def Let_def and_then_eq_Inr)

context block_device
begin

lemma format_image_left:
  assumes "good d" "format_ready D sector d g plans uuid order"
  shows "\<exists>d'. run_edits (format_steps D g plans uuid time gen order) d = Inr d' \<and> good d' \<and> same_device D sector d d' \<and>
    content d' = format_image (dev_size D d) g plans uuid time gen order (content d)"
  using run_performs [OF format_performs [OF assms(2)] assms(1)] by (simp add: format_image_def)

lemma accepted_ready:
  assumes "good d" "compute p (dev_size D d) (dev_logical D d) (dev_physical D d) = Inr g" "p_agcount p = None \<or> agcount g \<le> agsize g"
    and "group_start g (logagno g) + min_freelist g \<le> ag_blocks g (logagno g)"
    and "length uuid = 16" "mset order = mset [0..<agcount g]" "sector d dvd bs g"
  obtains plans where "try_map (plan_ag g) [0..<agcount g] = Inr plans" "format_ready D sector d g plans uuid order"
proof -
  have sz: "dev_size D d < 2 ^ 64" using size_le [OF assms(1)] by simp
  note g = compute_geometry [OF assms(2) sz]
  have t: "tiles g" using g(4) assms(3) by blast
  obtain plans where p: "try_map (plan_ag g) [0..<agcount g] = Inr plans" by (rule plans_exist [OF g(1) t assms(4)])
  show thesis by (rule that [OF p]) (use g(1,2) t p assms(5-7) in \<open>simp add: format_ready_def bs_def\<close>)
qed

lemma format_done:
  assumes "good d" "compute p (dev_size D d) (dev_logical D d) (dev_physical D d) = Inr g" "p_agcount p = None \<or> agcount g \<le> agsize g"
    and "group_start g (logagno g) + min_freelist g \<le> ag_blocks g (logagno g)"
    and "p_uuid p = Some uuid" "length uuid = 16" "mset order = mset [0..<agcount g]" "sector d dvd bs g"
  shows "\<exists>d' plans. format D p new_uuid now new_seed order d =
      Inr (d', \<lparr>r_geometry = g, r_uuid = uuid, r_rootino = of_nat (rootino g), r_fdblocks = total_fdblocks plans\<rparr>) \<and>
    try_map (plan_ag g) [0..<agcount g] = Inr plans \<and> good d' \<and>
    content d' = format_image (dev_size D d) g plans uuid
      (case p_time p of Some t \<Rightarrow> t | None \<Rightarrow> now) (case p_gen_seed p of Some s \<Rightarrow> s | None \<Rightarrow> new_seed) order (content d)"
proof -
  obtain plans where p: "try_map (plan_ag g) [0..<agcount g] = Inr plans" and r: "format_ready D sector d g plans uuid order"
    by (rule accepted_ready [OF assms(1-4,6-8)])
  define time where "time = (case p_time p of Some t \<Rightarrow> t | None \<Rightarrow> now)"
  define gen where "gen = (case p_gen_seed p of Some s \<Rightarrow> s | None \<Rightarrow> new_seed)"
  obtain d' where "run_edits (format_steps D g plans uuid time gen order) d = Inr d'" "good d'"
    "content d' = format_image (dev_size D d) g plans uuid time gen order (content d)"
    using format_image_left [OF assms(1) r, of time gen] by auto
  then show ?thesis
    using p assms(2,5) unfolding time_def [symmetric] gen_def [symmetric]
    by (intro exI [of _ d'] exI [of _ plans]) (simp add: format_def Let_def flip: time_def gen_def)
qed

lemma format_keeps_device:
  assumes "good d" "format D p new_uuid now new_seed order d = Inr (d', r)" "p_uuid p = Some uuid"
    and "format_ready D sector d (r_geometry r) plans uuid order"
  shows "same_device D sector d d'"
proof -
  define time where "time = (case p_time p of Some t \<Rightarrow> t | None \<Rightarrow> now)"
  define gen where "gen = (case p_gen_seed p of Some s \<Rightarrow> s | None \<Rightarrow> new_seed)"
  have "try_map (plan_ag (r_geometry r)) [0..<agcount (r_geometry r)] = Inr plans" using assms(4) by (simp add: format_ready_def)
  then have "run_edits (format_steps D (r_geometry r) plans uuid time gen order) d = Inr d'"
    using assms(2,3) by (auto simp: format_def Let_def and_then_eq_Inr simp flip: time_def gen_def)
  then show ?thesis using format_image_left [OF assms(1,4), of time gen] by auto
qed

end

subsection \<open>A sample\<close>

text \<open>The default geometry of a 512 MiB device, its groups written out of order.\<close>

definition sample_params :: params where
  "sample_params = params_new\<lparr>p_uuid := Some (replicate 16 7)\<rparr>"

definition sample_device :: mem_device where
  "sample_device = md_new (512 * 2 ^ 20)"

lemma stages_uuid:
  "validate_blocksize (p\<lparr>p_uuid := u\<rparr>) = validate_blocksize p" "validate_sectorsize (p\<lparr>p_uuid := u\<rparr>) = validate_sectorsize p"
  "validate_inodesize (p\<lparr>p_uuid := u\<rparr>) = validate_inodesize p" "validate_datadev (p\<lparr>p_uuid := u\<rparr>) = validate_datadev p"
  "initial_ag_geometry (p\<lparr>p_uuid := u\<rparr>) = initial_ag_geometry p" "align_ag_geometry (p\<lparr>p_uuid := u\<rparr>) = align_ag_geometry p"
  "calculate_imaxpct (p\<lparr>p_uuid := u\<rparr>) = calculate_imaxpct p" "label_bytes (p\<lparr>p_uuid := u\<rparr>) = label_bytes p"
  by (simp_all add: fun_eq_iff validate_blocksize_def validate_sectorsize_def validate_inodesize_def validate_datadev_def
      initial_ag_geometry_def align_ag_geometry_def calculate_imaxpct_def label_bytes_def cong: option.case_cong)

lemma compute_uuid: "compute (p\<lparr>p_uuid := u\<rparr>) sz lg ph = compute p sz lg ph"
  unfolding compute_def stages_uuid by simp

lemma sample_facts:
  "md_good sample_device" "md_size sample_device = 512 * 2 ^ 20" "md_logical sample_device = 512"
  "md_physical sample_device = 512" "md_sector sample_device = 1"
  "compute sample_params (md_size sample_device) (md_logical sample_device) (md_physical sample_device) = Inr geometry_512m"
  "agcount geometry_512m = 4" "p_agcount sample_params = None" "p_uuid sample_params = Some (replicate 16 7)"
  "mset [3, 1, 0, 2] = mset [0..<agcount geometry_512m]"
proof -
  show "md_good sample_device" by (simp add: sample_device_def md_new_good)
  show s: "md_size sample_device = 512 * 2 ^ 20" "md_logical sample_device = 512" "md_physical sample_device = 512"
    "md_sector sample_device = 1"
    by (simp_all add: sample_device_def md_new_def md_with_sector_size_def md_sector_def)
  show "compute sample_params (md_size sample_device) (md_logical sample_device) (md_physical sample_device) = Inr geometry_512m"
    unfolding s sample_params_def compute_uuid by (rule compute_512m)
  show a: "agcount geometry_512m = 4" "p_agcount sample_params = None" "p_uuid sample_params = Some (replicate 16 7)"
    by (simp_all add: geometry_512m_def sample_params_def params_new_def)
  show "mset [3, 1, 0, 2] = mset [0..<agcount geometry_512m]" by (simp add: a upt_rec numeral_eq_Suc)
qed

lemma sample_log_group:
  "group_start geometry_512m (logagno geometry_512m) + min_freelist geometry_512m \<le> ag_blocks geometry_512m (logagno geometry_512m)"
  by (simp add: geometry_512m_def group_start_def min_freelist_def ag_blocks_def prealloc_blocks_eq header_blocks_def
      bs_def div_ceil_def u64_of_bool_def sub64_def)

lemma sample_ready:
  obtains plans where "format_ready mem_ops md_sector sample_device geometry_512m plans (replicate 16 7) [3, 1, 0, 2]"
proof -
  obtain plans where "try_map (plan_ag geometry_512m) [0..<agcount geometry_512m] = Inr plans"
    by (rule plans_exist [OF geometry_512m_ok sample_log_group])
  then show thesis
    using geometry_512m_ok sample_facts by (intro that) (simp add: format_ready_def bs_def, simp add: geometry_512m_def)
qed

section \<open>Properties\<close>

text \<open>
  \<^verbatim>\<open>format\<close> on an in-memory device runs to the end, in whatever order the groups are written: for a
  geometry that \<^verbatim>\<open>compute\<close> accepts and whose log leaves room for its group's free list, no step fails or
  panics, and the device then holds exactly the image of the effects of the steps.
\<close>

theorem format_completes:
  assumes "md_good d" "compute p (md_size d) (md_logical d) (md_physical d) = Inr g" "p_agcount p = None \<or> agcount g \<le> agsize g"
    and "group_start g (logagno g) + min_freelist g \<le> ag_blocks g (logagno g)"
    and "p_uuid p = Some uuid" "length uuid = 16" "mset order = mset [0..<agcount g]" "md_sector d dvd bs g"
  shows "\<exists>d' plans. format mem_ops p new_uuid now new_seed order d =
      Inr (d', \<lparr>r_geometry = g, r_uuid = uuid, r_rootino = of_nat (rootino g), r_fdblocks = total_fdblocks plans\<rparr>) \<and>
    try_map (plan_ag g) [0..<agcount g] = Inr plans \<and> md_good d' \<and>
    md_content d' = format_image (md_size d) g plans uuid
      (case p_time p of Some t \<Rightarrow> t | None \<Rightarrow> now) (case p_gen_seed p of Some s \<Rightarrow> s | None \<Rightarrow> new_seed) order (md_content d)"
  using mem.format_done [OF assms(1), of p g uuid order new_uuid now new_seed] assms(2-) by simp

theorem format_completes_witness:
  "\<exists>d' plans. format mem_ops sample_params (replicate 16 9) \<lparr>secs = 0, nsecs = 0\<rparr> 42 [3, 1, 0, 2] sample_device =
      Inr (d', \<lparr>r_geometry = geometry_512m, r_uuid = replicate 16 7, r_rootino = of_nat (rootino geometry_512m),
        r_fdblocks = total_fdblocks plans\<rparr>) \<and>
    try_map (plan_ag geometry_512m) [0..<agcount geometry_512m] = Inr plans \<and> md_good d'"
  using format_completes [OF sample_facts(1,6) _ sample_log_group sample_facts(9) _ sample_facts(10)]
    sample_facts(5,8) by fastforce

text \<open>
  An interrupted format is recognisable: after any number of steps short of the last write, the
  first sector of the device is all zero or its superblock is marked as still in progress.
\<close>

theorem interrupted_format_unfinished:
  assumes "md_good d" "format_ready mem_ops md_sector d g plans uuid order" "1 \<le> k" "k \<le> agcount g + 6"
  shows "\<exists>d'. run_edits (take k (format_steps mem_ops g plans uuid time gen order)) d = Inr d' \<and> unfinished g (md_content d')"
  using mem.format_runs [OF assms(1,2), of k time gen] unfinished_prefix [OF assms(2-4)] by auto

theorem interrupted_format_unfinished_witness:
  "\<exists>plans d'. run_edits (take 7 (format_steps mem_ops geometry_512m plans (replicate 16 7) \<lparr>secs = 0, nsecs = 0\<rparr> 42 [3, 1, 0, 2]))
     sample_device = Inr d' \<and> unfinished geometry_512m (md_content d')"
proof -
  obtain plans where r: "format_ready mem_ops md_sector sample_device geometry_512m plans (replicate 16 7) [3, 1, 0, 2]"
    by (rule sample_ready)
  have "7 \<le> agcount geometry_512m + 6" by (simp add: sample_facts(7))
  then show ?thesis using interrupted_format_unfinished [OF sample_facts(1) r, of 7] by (intro exI [of _ plans]) simp
qed

text \<open>
  The order in which the groups are written does not matter: two orders of the same groups leave the
  same bytes on the device.
\<close>

theorem group_order_irrelevant:
  assumes "md_good d" "format_ready mem_ops md_sector d g plans uuid order" "mset order' = mset order"
  shows "\<exists>d1 d2. run_edits (format_steps mem_ops g plans uuid time gen order) d = Inr d1 \<and>
    run_edits (format_steps mem_ops g plans uuid time gen order') d = Inr d2 \<and> md_content d1 = md_content d2"
proof -
  have r: "format_ready mem_ops md_sector d g plans uuid order'" using assms(2,3) by (simp add: format_ready_def)
  show ?thesis
    using mem.format_image_left [OF assms(1,2), of time gen] mem.format_image_left [OF assms(1) r, of time gen]
      image_order [OF assms(2,3)]
    by auto
qed

theorem group_order_irrelevant_witness:
  "\<exists>plans d1 d2. run_edits (format_steps mem_ops geometry_512m plans (replicate 16 7) \<lparr>secs = 0, nsecs = 0\<rparr> 42 [3, 1, 0, 2]) sample_device = Inr d1 \<and>
     run_edits (format_steps mem_ops geometry_512m plans (replicate 16 7) \<lparr>secs = 0, nsecs = 0\<rparr> 42 [0, 1, 2, 3]) sample_device = Inr d2 \<and>
     md_content d1 = md_content d2"
proof -
  obtain plans where r: "format_ready mem_ops md_sector sample_device geometry_512m plans (replicate 16 7) [3, 1, 0, 2]"
    by (rule sample_ready)
  have "mset [0, 1, 2, 3] = mset [3, 1, 0, 2 :: nat]" by simp
  then show ?thesis using group_order_irrelevant [OF sample_facts(1) r] by blast
qed

text \<open>
  \<^bold>\<open>C10\<close>. The free block count of the finished superblock is right: with the inode chunk, the preallocated
  blocks of every group and the log it is all the data blocks, and it is the count of a new filesystem less
  the inode chunk.
\<close>

theorem free_blocks_accounted:
  assumes "geometry_ok g" "tiles g" "try_map (plan_ag g) [0..<agcount g] = Inr plans"
  shows "total_fdblocks plans + chunk_blocks g + agcount g * prealloc_blocks g + logblocks g = dblocks g \<and>
    total_fdblocks plans + chunk_blocks g = initial_fdblocks g"
proof -
  have "format_ready (mem_ops\<lparr>dev_size := \<lambda>_. dblocks g * bs g\<rparr>) (\<lambda>_. 1) d g plans (replicate 16 0) [0..<agcount g]" for d :: mem_device
    using assms by (simp add: format_ready_def)
  from ready_total_fdblocks [OF this]
  have t: "total_fdblocks plans + chunk_blocks g + agcount g * prealloc_blocks g + logblocks g = dblocks g" .
  have d: "dblocks g < 2 ^ 64" using geometry_okD(19) [OF assms(1)] by simp
  have "mul64 (agcount g) (prealloc_blocks g) = agcount g * prealloc_blocks g" using t d by (intro nowrap) simp
  moreover have "sub64 (dblocks g) (agcount g * prealloc_blocks g) = dblocks g - agcount g * prealloc_blocks g"
    using t d by (intro nowrap) simp_all
  moreover have "sub64 (dblocks g - agcount g * prealloc_blocks g) (logblocks g) = dblocks g - agcount g * prealloc_blocks g - logblocks g"
    using t d by (intro nowrap) simp_all
  ultimately have "initial_fdblocks g = dblocks g - agcount g * prealloc_blocks g - logblocks g"
    by (simp add: initial_fdblocks_def)
  with t show ?thesis by simp
qed

theorem free_blocks_accounted_witness:
  "\<exists>plans. try_map (plan_ag geometry_512m) [0..<agcount geometry_512m] = Inr plans \<and>
     total_fdblocks plans + chunk_blocks geometry_512m = initial_fdblocks geometry_512m"
proof -
  obtain plans where "try_map (plan_ag geometry_512m) [0..<agcount geometry_512m] = Inr plans"
    by (rule plans_exist [OF geometry_512m_ok sample_log_group])
  then show ?thesis using free_blocks_accounted [OF geometry_512m_ok] by blast
qed

end
