(* ===== verification/Group_Writers.thy ===== *)
theory Group_Writers
  imports Format_Image
begin

unbundle bit_operations_syntax

section \<open>The concurrent writers of the groups (\<^verbatim>\<open>src/format.rs\<close>)\<close>

text \<open>
  \<^verbatim>\<open>format\<close> writes the heads of the groups through \<^verbatim>\<open>stream::iter(0..agcount).map(..).buffer_unordered(AG_CONCURRENCY)\<close>
  and collects the results with \<^verbatim>\<open>try_collect\<close>. The stream is a step relation, as its documentation describes it: the next
  group is admitted while fewer than \<open>AG_CONCURRENCY\<close> are in flight, any group in flight may write its head, and the first
  error ends the stream and drops the groups that are left. A head reaches the device in one \<^verbatim>\<open>write_at\<close>, which does
  not wait on either device. \<open>format_run\<close> is the whole format with the stream in its place; it refines the function
  \<open>format\<close>, in which the order of the writes is a parameter.
\<close>

definition AG_CONCURRENCY :: nat where "AG_CONCURRENCY = 32"

record 'd writers =
  waiting :: "nat list"
  in_flight :: "nat list"
  written :: "nat list"
  volume :: 'd
  stopped :: "error option"

definition writers_start :: "geometry \<Rightarrow> 'd \<Rightarrow> 'd writers" where
  "writers_start g d = \<lparr>waiting = [0..<agcount g], in_flight = [], written = [], volume = d, stopped = None\<rparr>"

inductive writer_step :: "(nat \<Rightarrow> 'd \<Rightarrow> error + 'd) \<Rightarrow> 'd writers \<Rightarrow> 'd writers \<Rightarrow> bool" for w where
  admits: "stopped s = None \<Longrightarrow> waiting s = a # as \<Longrightarrow> length (in_flight s) < AG_CONCURRENCY \<Longrightarrow>
    writer_step w s (s\<lparr>waiting := as, in_flight := in_flight s @ [a]\<rparr>)"
| writes: "stopped s = None \<Longrightarrow> in_flight s = xs @ a # ys \<Longrightarrow> w a (volume s) = Inr d \<Longrightarrow>
    writer_step w s (s\<lparr>in_flight := xs @ ys, written := written s @ [a], volume := d\<rparr>)"
| fails: "stopped s = None \<Longrightarrow> in_flight s = xs @ a # ys \<Longrightarrow> w a (volume s) = Inl e \<Longrightarrow>
    writer_step w s (s\<lparr>in_flight := xs @ ys, stopped := Some e\<rparr>)"

text \<open>The stream is over: an error has ended it, or every group has been written.\<close>

definition writers_over :: "'d writers \<Rightarrow> bool" where
  "writers_over s \<longleftrightarrow> stopped s \<noteq> None \<or> waiting s = [] \<and> in_flight s = []"

inductive group_writes :: "(nat \<Rightarrow> 'd \<Rightarrow> error + 'd) \<Rightarrow> geometry \<Rightarrow> 'd \<Rightarrow> error + 'd \<Rightarrow> bool" for w g d where
  all_written: "(writer_step w)\<^sup>*\<^sup>* (writers_start g d) s \<Longrightarrow> writers_over s \<Longrightarrow> stopped s = None \<Longrightarrow>
    group_writes w g d (Inr (volume s))"
| write_failed: "(writer_step w)\<^sup>*\<^sup>* (writers_start g d) s \<Longrightarrow> stopped s = Some e \<Longrightarrow> group_writes w g d (Inl e)"

inductive_cases writer_stepE: "writer_step w s s'"

subsection \<open>The format around them\<close>

definition opening_steps :: "'d dev_ops \<Rightarrow> geometry \<Rightarrow> bytes \<Rightarrow> ('d \<Rightarrow> error + 'd) list" where
  "opening_steps D g uuid = [zero_head D g, zero_tail D g, zero_log D g, write_log D g uuid]"

definition closing_steps ::
  "'d dev_ops \<Rightarrow> geometry \<Rightarrow> ag_plan list \<Rightarrow> bytes \<Rightarrow> timestamp \<Rightarrow> u64 \<Rightarrow> ('d \<Rightarrow> error + 'd) list" where
  "closing_steps D g plans uuid time gen =
     [write_chunk D g plans uuid time gen, dev_flush D, write_finished D g plans uuid, dev_flush D]"

text \<open>
  What the steps of one format can leave on the device: the result of the whole sequence, or the error of the step
  that failed.
\<close>

inductive steps_run ::
  "'d dev_ops \<Rightarrow> geometry \<Rightarrow> ag_plan list \<Rightarrow> bytes \<Rightarrow> timestamp \<Rightarrow> u64 \<Rightarrow> 'd \<Rightarrow> error + 'd \<Rightarrow> bool"
  for D g plans uuid time gen d where
  opening_fails: "run_edits (opening_steps D g uuid) d = Inl e \<Longrightarrow> steps_run D g plans uuid time gen d (Inl e)"
| writers_fail: "run_edits (opening_steps D g uuid) d = Inr d1 \<Longrightarrow> group_writes (write_group D g plans uuid) g d1 (Inl e) \<Longrightarrow>
    steps_run D g plans uuid time gen d (Inl e)"
| steps_end: "run_edits (opening_steps D g uuid) d = Inr d1 \<Longrightarrow> group_writes (write_group D g plans uuid) g d1 (Inr d2) \<Longrightarrow>
    steps_run D g plans uuid time gen d (run_edits (closing_steps D g plans uuid time gen) d2)"

inductive format_run ::
  "'d dev_ops \<Rightarrow> params \<Rightarrow> bytes \<Rightarrow> timestamp \<Rightarrow> u64 \<Rightarrow> 'd \<Rightarrow> error + 'd \<times> report \<Rightarrow> bool"
  for D p new_uuid now new_seed d where
  refused: "compute p (dev_size D d) (dev_logical D d) (dev_physical D d) = Inl e \<Longrightarrow>
    format_run D p new_uuid now new_seed d (Inl e)"
| unplanned: "compute p (dev_size D d) (dev_logical D d) (dev_physical D d) = Inr g \<Longrightarrow>
    try_map (plan_ag g) [0..<agcount g] = Inl e \<Longrightarrow> format_run D p new_uuid now new_seed d (Inl e)"
| performed: "compute p (dev_size D d) (dev_logical D d) (dev_physical D d) = Inr g \<Longrightarrow>
    try_map (plan_ag g) [0..<agcount g] = Inr plans \<Longrightarrow>
    uuid = (case p_uuid p of Some u \<Rightarrow> u | None \<Rightarrow> new_uuid) \<Longrightarrow>
    time = (case p_time p of Some t \<Rightarrow> t | None \<Rightarrow> now) \<Longrightarrow>
    gen = (case p_gen_seed p of Some s \<Rightarrow> s | None \<Rightarrow> new_seed) \<Longrightarrow>
    steps_run D g plans uuid time gen d r \<Longrightarrow>
    format_run D p new_uuid now new_seed d (and_then r (\<lambda>d.
      Inr (d, \<lparr>r_geometry = g, r_uuid = uuid, r_rootino = of_nat (rootino g), r_fdblocks = total_fdblocks plans\<rparr>)))"

text \<open>
  What a power cut can leave: the device after a prefix of the opening steps, in any state of the writers, or after a
  prefix of the closing steps before the finished superblock is written. At least one step has been made.
\<close>

inductive cut_short ::
  "'d dev_ops \<Rightarrow> geometry \<Rightarrow> ag_plan list \<Rightarrow> bytes \<Rightarrow> timestamp \<Rightarrow> u64 \<Rightarrow> 'd \<Rightarrow> 'd \<Rightarrow> bool"
  for D g plans uuid time gen d where
  cut_opening: "0 < k \<Longrightarrow> run_edits (take k (opening_steps D g uuid)) d = Inr d' \<Longrightarrow> cut_short D g plans uuid time gen d d'"
| cut_writers: "run_edits (opening_steps D g uuid) d = Inr d1 \<Longrightarrow>
    (writer_step (write_group D g plans uuid))\<^sup>*\<^sup>* (writers_start g d1) s \<Longrightarrow> cut_short D g plans uuid time gen d (volume s)"
| cut_closing: "run_edits (opening_steps D g uuid) d = Inr d1 \<Longrightarrow> group_writes (write_group D g plans uuid) g d1 (Inr d2) \<Longrightarrow>
    k \<le> 2 \<Longrightarrow> run_edits (take k (closing_steps D g plans uuid time gen)) d2 = Inr d' \<Longrightarrow> cut_short D g plans uuid time gen d d'"

lemma writers_start_simps [simp]:
  "waiting (writers_start g d) = [0..<agcount g]" "in_flight (writers_start g d) = []" "written (writers_start g d) = []"
  "volume (writers_start g d) = d" "stopped (writers_start g d) = None"
  by (simp_all add: writers_start_def)

section \<open>The states of the writers\<close>

text \<open>
  The invariant: a bounded number of groups in flight; every group waiting, in flight, written or failed, once; the
  groups that wait are the last ones, and the device is the result of the writes so far, in their order.
\<close>

definition writers_inv :: "(nat \<Rightarrow> 'd \<Rightarrow> error + 'd) \<Rightarrow> geometry \<Rightarrow> 'd \<Rightarrow> 'd writers \<Rightarrow> bool" where
  "writers_inv w g d s \<longleftrightarrow>
     length (in_flight s) \<le> AG_CONCURRENCY \<and> (\<exists>k \<le> agcount g. waiting s = [k..<agcount g]) \<and>
     run_edits (map w (written s)) d = Inr (volume s) \<and>
     (case stopped s of
        None \<Rightarrow> mset (written s @ in_flight s @ waiting s) = mset [0..<agcount g]
      | Some e \<Rightarrow> \<exists>a. w a (volume s) = Inl e \<and> mset (written s @ a # in_flight s @ waiting s) = mset [0..<agcount g])"

lemma run_edits_snoc: "run_edits (es @ [e]) b = and_then (run_edits es b) e"
  by (cases "run_edits es b"; cases "e (projr (run_edits es b))") (simp_all add: run_edits_append)

lemma writers_inv_start: "writers_inv w g d (writers_start g d)"
  by (auto simp: writers_inv_def)

lemma writers_inv_step: "writer_step w s s' \<Longrightarrow> writers_inv w g d s \<Longrightarrow> writers_inv w g d s'"
proof (induction rule: writer_step.induct)
  case (admits s a as)
  then obtain k where k: "k \<le> agcount g" "waiting s = [k..<agcount g]" by (auto simp: writers_inv_def)
  then have "k < agcount g" "as = [Suc k..<agcount g]" using admits(2) upt_eq_Cons_conv [of k "agcount g" a as] by auto
  then show ?case using admits by (auto simp: writers_inv_def intro: exI [of _ "Suc k"])
next
  case (writes s xs a ys d)
  then show ?case by (auto simp: writers_inv_def run_edits_snoc)
next
  case (fails s xs a ys e)
  then show ?case by (auto simp: writers_inv_def intro!: exI [of _ a])
qed

lemma writers_reach_inv: "(writer_step w)\<^sup>*\<^sup>* (writers_start g d) s \<Longrightarrow> writers_inv w g d s"
  by (induction rule: rtranclp_induct) (auto intro: writers_inv_start writers_inv_step)

lemma writers_inv_order:
  assumes "writers_inv w g d s"
  obtains rest where "mset (written s @ rest) = mset [0..<agcount g]"
proof (cases "stopped s")
  case None
  then show thesis using assms that [of "in_flight s @ waiting s"] by (simp add: writers_inv_def)
next
  case (Some e)
  then obtain a where "mset (written s @ a # in_flight s @ waiting s) = mset [0..<agcount g]"
    using assms by (auto simp: writers_inv_def)
  then show thesis by (rule that)
qed

text \<open>A step leaves less to do.\<close>

definition to_do :: "'d writers \<Rightarrow> nat" where
  "to_do s = 2 * length (waiting s) + length (in_flight s)"

lemma step_to_do: "writer_step w s s' \<Longrightarrow> to_do s = Suc (to_do s')"
  by (induction rule: writer_step.induct) (simp_all add: to_do_def)

lemma writers_progress: "\<not> writers_over s \<Longrightarrow> \<exists>s'. writer_step w s s'"
proof (cases "in_flight s")
  case Nil
  assume "\<not> writers_over s"
  then obtain a as where "waiting s = a # as" "stopped s = None" using Nil by (auto simp: writers_over_def neq_Nil_conv)
  then show ?thesis using writer_step.admits [of s a as w] Nil by (auto simp: AG_CONCURRENCY_def)
next
  case (Cons a as)
  assume "\<not> writers_over s"
  then have "stopped s = None" by (simp add: writers_over_def)
  then show ?thesis
    using writer_step.writes [of s "[]" a as w] writer_step.fails [of s "[]" a as w] Cons by (cases "w a (volume s)") auto
qed

lemma writers_finish: "\<exists>s'. (writer_step w)\<^sup>*\<^sup>* s s' \<and> writers_over s'"
proof (induction "to_do s" arbitrary: s rule: less_induct)
  case less
  show ?case
  proof (cases "writers_over s")
    case False
    then obtain t where t: "writer_step w s t" using writers_progress by blast
    then show ?thesis using less [of t] step_to_do [OF t] by (metis converse_rtranclp_into_rtranclp lessI)
  qed blast
qed

lemma group_writes_total: "\<exists>r. group_writes w g d r"
proof -
  obtain s where "(writer_step w)\<^sup>*\<^sup>* (writers_start g d) s" "writers_over s" using writers_finish by blast
  then show ?thesis by (cases "stopped s") (blast intro: group_writes.intros)+
qed

text \<open>The outcome of the stream is that of the writes made one after the other in some order of the groups.\<close>

lemma group_writes_order:
  assumes "group_writes w g d r"
  shows "\<exists>order. mset order = mset [0..<agcount g] \<and> run_edits (map w order) d = r"
  using assms
proof (cases rule: group_writes.cases)
  case (all_written s)
  then show ?thesis using writers_reach_inv [OF all_written(2)]
    by (intro exI [of _ "written s"]) (simp add: writers_inv_def writers_over_def)
next
  case (write_failed s e)
  then obtain a where "w a (volume s) = Inl e" "mset (written s @ a # in_flight s @ waiting s) = mset [0..<agcount g]"
    "run_edits (map w (written s)) d = Inr (volume s)"
    using writers_reach_inv [OF write_failed(2)] by (auto simp: writers_inv_def)
  then show ?thesis
    using write_failed(1) by (intro exI [of _ "written s @ a # in_flight s @ waiting s"]) (simp add: run_edits_append)
qed

lemma format_steps_parts:
  "format_steps D g plans uuid time gen order =
     opening_steps D g uuid @ map (write_group D g plans uuid) order @ closing_steps D g plans uuid time gen"
  by (simp add: format_steps_def opening_steps_def closing_steps_def)

lemma opening_length [simp]: "length (opening_steps D g uuid) = 4"
  by (simp add: opening_steps_def)

lemma steps_run_order:
  assumes "steps_run D g plans uuid time gen d r"
  shows "\<exists>order. mset order = mset [0..<agcount g] \<and> run_edits (format_steps D g plans uuid time gen order) d = r"
  using assms
proof (cases rule: steps_run.cases)
  case (opening_fails e)
  then show ?thesis by (intro exI [of _ "[0..<agcount g]"]) (simp add: format_steps_parts run_edits_append)
next
  case (writers_fail d1 e)
  then show ?thesis using group_writes_order [OF writers_fail(3)] by (auto simp: format_steps_parts run_edits_append)
next
  case (steps_end d1 d2)
  then show ?thesis using group_writes_order [OF steps_end(3)] by (auto simp: format_steps_parts run_edits_append)
qed

lemma steps_run_total: "\<exists>r. steps_run D g plans uuid time gen d r"
proof (cases "run_edits (opening_steps D g uuid) d")
  case (Inr d1)
  obtain r where "group_writes (write_group D g plans uuid) g d1 r"
    using group_writes_total [of "write_group D g plans uuid" g d1] by blast
  then show ?thesis using Inr by (cases r) (blast intro: steps_run.intros)+
qed (blast intro: steps_run.intros)

lemma format_run_total: "\<exists>r. format_run D p new_uuid now new_seed d r"
proof (cases "compute p (dev_size D d) (dev_logical D d) (dev_physical D d)")
  case (Inr g)
  show ?thesis
  proof (cases "try_map (plan_ag g) [0..<agcount g]")
    case (Inl e)
    then show ?thesis using format_run.unplanned [OF Inr] by blast
  next
    case plans: (Inr plans)
    obtain r where "steps_run D g plans (case p_uuid p of Some u \<Rightarrow> u | None \<Rightarrow> new_uuid)
      (case p_time p of Some t \<Rightarrow> t | None \<Rightarrow> now) (case p_gen_seed p of Some s \<Rightarrow> s | None \<Rightarrow> new_seed) d r"
      using steps_run_total [of D g plans] by blast
    from format_run.performed [OF Inr plans refl refl refl this] show ?thesis by blast
  qed
qed (blast intro: format_run.refused)

lemma format_run_order:
  assumes "format_run D p new_uuid now new_seed d r"
  shows "\<exists>order. format D p new_uuid now new_seed order d = r \<and>
    (\<forall>g. compute p (dev_size D d) (dev_logical D d) (dev_physical D d) = Inr g \<longrightarrow> mset order = mset [0..<agcount g])"
  using assms
proof (cases rule: format_run.cases)
  case (unplanned g e)
  then show ?thesis by (intro exI [of _ "[0..<agcount g]"]) (simp add: format_def)
next
  case (performed g plans uuid time gen x)
  obtain order where o: "mset order = mset [0..<agcount g]"
    "run_edits (format_steps D g plans uuid time gen order) d = x"
    using steps_run_order [OF performed(7)] by blast
  show ?thesis
    using performed(2-6) o(2) unfolding performed(1)
    by (intro exI [of _ order]) (simp add: format_def Let_def o(1))
qed (auto simp: format_def)

text \<open>What a power cut leaves is what a prefix of the steps leaves, for some order of the groups.\<close>

lemma cut_short_prefix:
  assumes "cut_short D g plans uuid time gen d d'"
  shows "\<exists>order k. mset order = mset [0..<agcount g] \<and> 1 \<le> k \<and> k \<le> agcount g + 6 \<and>
    (run_edits (take k (format_steps D g plans uuid time gen order)) d = Inr d')"
  using assms
proof (cases rule: cut_short.cases)
  case (cut_opening k)
  have "take (min k 4) (format_steps D g plans uuid time gen [0..<agcount g]) = take k (opening_steps D g uuid)"
    by (simp add: format_steps_parts min_def)
  then show ?thesis using cut_opening by (intro exI [of _ "[0..<agcount g]"] exI [of _ "min k 4"]) auto
next
  case (cut_writers d1 s)
  note i = writers_reach_inv [OF cut_writers(3)]
  obtain rest where o: "mset (written s @ rest) = mset [0..<agcount g]" by (rule writers_inv_order [OF i])
  have w: "run_edits (map (write_group D g plans uuid) (written s)) d1 = Inr (volume s)" using i by (simp add: writers_inv_def)
  have "length (written s) \<le> agcount g" using mset_eq_length [OF o(1)] by simp
  moreover have "take (4 + length (written s)) (format_steps D g plans uuid time gen (written s @ rest)) =
      opening_steps D g uuid @ map (write_group D g plans uuid) (written s)"
    by (simp add: format_steps_parts)
  ultimately show ?thesis
    using o w cut_writers(1,2) by (intro exI [of _ "written s @ rest"] exI [of _ "4 + length (written s)"]) (simp add: run_edits_append)
next
  case (cut_closing d1 d2 k)
  obtain order where o: "mset order = mset [0..<agcount g]" "run_edits (map (write_group D g plans uuid) order) d1 = Inr d2"
    using group_writes_order [OF cut_closing(2)] by auto
  have "length order = agcount g" using mset_eq_length [OF o(1)] by simp
  then have "take (4 + agcount g + k) (format_steps D g plans uuid time gen order) =
      opening_steps D g uuid @ map (write_group D g plans uuid) order @ take k (closing_steps D g plans uuid time gen)"
    by (simp add: format_steps_parts)
  then show ?thesis
    using o cut_closing(1,3,4) by (intro exI [of _ order] exI [of _ "4 + agcount g + k"]) (simp add: run_edits_append)
qed

section \<open>Over a device\<close>

context block_device
begin

lemma format_run_done:
  assumes "good d" "compute p (dev_size D d) (dev_logical D d) (dev_physical D d) = Inr g" "p_agcount p = None \<or> agcount g \<le> agsize g"
    and "group_start g (logagno g) + min_freelist g \<le> ag_blocks g (logagno g)"
    and "p_uuid p = Some uuid" "length uuid = 16" "sector d dvd bs g"
    and run: "format_run D p new_uuid now new_seed d r"
  shows "\<exists>d' plans. r = Inr (d', \<lparr>r_geometry = g, r_uuid = uuid, r_rootino = of_nat (rootino g), r_fdblocks = total_fdblocks plans\<rparr>) \<and>
    try_map (plan_ag g) [0..<agcount g] = Inr plans \<and> good d' \<and>
    content d' = format_image (dev_size D d) g plans uuid
      (case p_time p of Some t \<Rightarrow> t | None \<Rightarrow> now) (case p_gen_seed p of Some s \<Rightarrow> s | None \<Rightarrow> new_seed) [0..<agcount g] (content d)"
proof -
  obtain order where o: "format D p new_uuid now new_seed order d = r" "mset order = mset [0..<agcount g]"
    using format_run_order [OF run] assms(2) by blast
  obtain plans where p: "try_map (plan_ag g) [0..<agcount g] = Inr plans"
    and f: "format_ready D sector d g plans uuid [0..<agcount g]"
    by (rule accepted_ready [OF assms(1-4,6) refl assms(7)])
  show ?thesis
    using format_done [OF assms(1-6) o(2) assms(7), of new_uuid now new_seed] o(1) p image_order [OF f o(2)] by force
qed

text \<open>A run changes the bytes of the device and nothing else of it.\<close>

lemma format_run_image:
  assumes "good d" "compute p (dev_size D d) (dev_logical D d) (dev_physical D d) = Inr g" "p_agcount p = None \<or> agcount g \<le> agsize g"
    and "group_start g (logagno g) + min_freelist g \<le> ag_blocks g (logagno g)"
    and "p_uuid p = Some uuid" "length uuid = 16" "sector d dvd bs g"
    and run: "format_run D p new_uuid now new_seed d (Inr (d', r))"
  obtains plans where "try_map (plan_ag g) [0..<agcount g] = Inr plans" "format_ready D sector d g plans uuid [0..<agcount g]"
    "r = \<lparr>r_geometry = g, r_uuid = uuid, r_rootino = of_nat (rootino g), r_fdblocks = total_fdblocks plans\<rparr>"
    "good d'" "same_device D sector d d'"
    "content d' = format_image (dev_size D d) g plans uuid
      (case p_time p of Some t \<Rightarrow> t | None \<Rightarrow> now) (case p_gen_seed p of Some s \<Rightarrow> s | None \<Rightarrow> new_seed) [0..<agcount g] (content d)"
proof -
  obtain order where o: "format D p new_uuid now new_seed order d = Inr (d', r)" "mset order = mset [0..<agcount g]"
    using format_run_order [OF run] assms(2) by blast
  obtain plans where p: "try_map (plan_ag g) [0..<agcount g] = Inr plans"
    and f: "format_ready D sector d g plans uuid [0..<agcount g]"
    by (rule accepted_ready [OF assms(1-4,6) refl assms(7)])
  have r: "r_geometry r = g" using format_geometry [OF o(1)] assms(2) by simp
  have f': "format_ready D sector d (r_geometry r) plans uuid order" using f o(2) by (simp add: format_ready_def r)
  show thesis
    using that [OF p f] format_run_done [OF assms] p format_keeps_device [OF assms(1) o(1) assms(5) f'] by force
qed

lemma cut_short_unfinished:
  assumes "good d" "format_ready D sector d g plans uuid order" "cut_short D g plans uuid time gen d d'"
  shows "unfinished g (content d')"
proof -
  obtain order' k where o: "mset order' = mset [0..<agcount g]" "1 \<le> k" "k \<le> agcount g + 6"
    "run_edits (take k (format_steps D g plans uuid time gen order')) d = Inr d'"
    using cut_short_prefix [OF assms(3)] by blast
  have r: "format_ready D sector d g plans uuid order'" using assms(2) o(1) by (simp add: format_ready_def)
  show ?thesis
    using format_runs [OF assms(1) r, of k time gen] unfinished_prefix [OF r o(2,3), of time gen] o(4) by auto
qed

end

section \<open>Properties\<close>

text \<open>
  \<^bold>\<open>C1\<close>. Whatever the schedule of the concurrent writers, the format of an accepted geometry, on every device that is an array of
  bytes, runs to the end and leaves one and the same image: the one of the groups written in ascending order. There is at least one such run, and
  no run fails.
\<close>

theorem concurrent_format_completes:
  assumes "block_device D good content sector" "good d"
    and "compute p (dev_size D d) (dev_logical D d) (dev_physical D d) = Inr g" "p_agcount p = None \<or> agcount g \<le> agsize g"
    and "group_start g (logagno g) + min_freelist g \<le> ag_blocks g (logagno g)"
    and "p_uuid p = Some uuid" "length uuid = 16" "sector d dvd bs g"
  shows "(\<exists>r. format_run D p new_uuid now new_seed d r) \<and>
    (\<forall>r. format_run D p new_uuid now new_seed d r \<longrightarrow>
      (\<exists>d' plans. r = Inr (d', \<lparr>r_geometry = g, r_uuid = uuid, r_rootino = of_nat (rootino g), r_fdblocks = total_fdblocks plans\<rparr>) \<and>
        try_map (plan_ag g) [0..<agcount g] = Inr plans \<and> good d' \<and>
        content d' = format_image (dev_size D d) g plans uuid
          (case p_time p of Some t \<Rightarrow> t | None \<Rightarrow> now) (case p_gen_seed p of Some s \<Rightarrow> s | None \<Rightarrow> new_seed) [0..<agcount g] (content d)))"
  using format_run_total [of D] block_device.format_run_done [OF assms, of new_uuid now new_seed] by blast

theorem concurrent_format_completes_witness:
  "\<exists>d' r. format_run mem_ops sample_params (replicate 16 9) \<lparr>secs = 0, nsecs = 0\<rparr> 42 sample_device (Inr (d', r)) \<and> md_good d' \<and>
     r_geometry r = geometry_512m"
proof -
  have s: "p_agcount sample_params = None \<or> agcount geometry_512m \<le> agsize geometry_512m" using sample_facts(8) by simp
  note c = concurrent_format_completes [OF mem.block_device_axioms sample_facts(1) sample_facts(6) [folded mem_ops_simps] s sample_log_group sample_facts(9), of "replicate 16 9" "\<lparr>secs = 0, nsecs = 0\<rparr>" 42]
  then show ?thesis using sample_facts(5) by force
qed

text \<open>
  \<^bold>\<open>C4\<close>. The concurrent format refines the sequential one on every device, also on one that fails: the outcome of
  any schedule, be it a device and a report or an error, is the outcome of writing the groups one after the other in some order of
  all of them, each once; and some schedule always has an outcome.
\<close>

theorem concurrent_format_refines:
  "(\<exists>r. format_run D p new_uuid now new_seed d r) \<and>
   (\<forall>r. format_run D p new_uuid now new_seed d r \<longrightarrow>
     (\<exists>order. format D p new_uuid now new_seed order d = r \<and>
       (\<forall>g. compute p (dev_size D d) (dev_logical D d) (dev_physical D d) = Inr g \<longrightarrow> mset order = mset [0..<agcount g])))"
  using format_run_total [of D] format_run_order [of D] by blast

theorem concurrent_format_refines_witness:
  "\<exists>r order. format_run mem_ops sample_params (replicate 16 9) \<lparr>secs = 0, nsecs = 0\<rparr> 42 sample_device r \<and>
     format mem_ops sample_params (replicate 16 9) \<lparr>secs = 0, nsecs = 0\<rparr> 42 order sample_device = r \<and> mset order = mset [0..<agcount geometry_512m]"
  using concurrent_format_refines [of mem_ops sample_params "replicate 16 9" "\<lparr>secs = 0, nsecs = 0\<rparr>" 42 sample_device] sample_facts(6)
  by (metis mem_ops_simps(1-3))

text \<open>
  \<^bold>\<open>C8\<close>. A format cut short by a loss of power is recognisable, also in the middle of the concurrent writes: whatever has
  been written after at least one step and before the finished superblock, the first sector of the device is all zero or
  its superblock is marked as still in progress.
\<close>

theorem cut_format_unfinished:
  assumes "block_device D good content sector" "good d" "format_ready D sector d g plans uuid order"
    and "cut_short D g plans uuid time gen d d'"
  shows "unfinished g (content d')"
  by (rule block_device.cut_short_unfinished [OF assms])

theorem cut_format_unfinished_witness:
  "\<exists>plans d1 d'. run_edits (opening_steps mem_ops geometry_512m (replicate 16 7)) sample_device = Inr d1 \<and>
     write_group mem_ops geometry_512m plans (replicate 16 7) 2 d1 = Inr d' \<and> unfinished geometry_512m (md_content d')"
proof -
  let ?step = "\<lambda>plans. writer_step (write_group mem_ops geometry_512m plans (replicate 16 7))"
  obtain plans where "format_ready mem_ops md_sector sample_device geometry_512m plans (replicate 16 7) [3, 1, 0, 2]"
    by (rule sample_ready)
  moreover have m: "mset [2, 0, 1, 3] = mset [3, 1, 0, 2 :: nat]" by simp
  ultimately have r: "format_ready mem_ops md_sector sample_device geometry_512m plans (replicate 16 7) [2, 0, 1, 3]"
    unfolding format_ready_def m by blast
  obtain d' where d': "run_edits (take 5 (format_steps mem_ops geometry_512m plans (replicate 16 7) \<lparr>secs = 0, nsecs = 0\<rparr> 42 [2, 0, 1, 3])) sample_device = Inr d'"
    using mem.format_runs [OF sample_facts(1) r, of 5] by blast
  then obtain d1 where d1: "run_edits (opening_steps mem_ops geometry_512m (replicate 16 7)) sample_device = Inr d1"
    "write_group mem_ops geometry_512m plans (replicate 16 7) 2 d1 = Inr d'"
    by (auto simp: format_steps_parts opening_steps_def and_then_eq_Inr)
  define s0 where "s0 = writers_start geometry_512m d1"
  define s1 where "s1 = s0\<lparr>waiting := [1, 2, 3], in_flight := [0]\<rparr>"
  define s2 where "s2 = s1\<lparr>waiting := [2, 3], in_flight := [0, 1]\<rparr>"
  define s3 where "s3 = s2\<lparr>waiting := [3], in_flight := [0, 1, 2]\<rparr>"
  define s4 where "s4 = s3\<lparr>in_flight := [0, 1], written := [2], volume := d'\<rparr>"
  note defs = s4_def s3_def s2_def s1_def s0_def AG_CONCURRENCY_def
  have "?step plans s0 s1" using writer_step.admits [of s0 0 "[1, 2, 3]"] by (simp add: defs sample_facts(7) upt_rec)
  moreover have "?step plans s1 s2" using writer_step.admits [of s1 1 "[2, 3]"] by (simp add: defs)
  moreover have "?step plans s2 s3" using writer_step.admits [of s2 2 "[3]"] by (simp add: defs)
  moreover have "?step plans s3 s4"
    using writer_step.writes [of s3 "[0, 1]" 2 "[]" "write_group mem_ops geometry_512m plans (replicate 16 7)" d'] d1(2) by (simp add: defs)
  ultimately have "(?step plans)\<^sup>*\<^sup>* s0 s4" by (meson converse_rtranclp_into_rtranclp rtranclp.rtrancl_refl)
  from cut_writers [OF d1(1) this [unfolded s0_def]]
  have "cut_short mem_ops geometry_512m plans (replicate 16 7) \<lparr>secs = 0, nsecs = 0\<rparr> 42 sample_device d'" by (simp add: s4_def)
  from cut_format_unfinished [OF mem.block_device_axioms sample_facts(1) r this] show ?thesis using d1 by blast
qed

end
