(* ===== verification/Inspect.thy ===== *)
theory Inspect
  imports Format_Image
begin

unbundle bit_operations_syntax

section \<open>Reading a filesystem's geometry (\<^verbatim>\<open>src/inspect.rs\<close>)\<close>

text \<open>
  \<^verbatim>\<open>Geo\<close> is what a reader takes from the primary superblock to find everything else. Shifts by
  a log of the superblock are taken modulo 64, as the machine does; the sums and products of the
  positions are 64-bit.
\<close>

record geo =
  geo_blocksize :: nat
  geo_blocklog :: nat
  geo_sectsize :: nat
  geo_agblocks :: nat
  geo_agcount :: nat
  geo_dblocks :: nat
  geo_agblklog :: nat
  geo_inodesize :: nat
  geo_inopblog :: nat
  geo_logstart :: nat
  geo_logblocks :: nat
  geo_logsectsize :: nat
  geo_logsunit :: nat
  geo_ro_compat :: u32
  geo_incompat :: u32

text \<open>\<open>byte b off\<close> is \<^verbatim>\<open>b[off]\<close>, which panics out of range.\<close>

definition byte :: "bytes \<Rightarrow> nat \<Rightarrow> error + u8" where
  "byte b off = (if off < length b then Inr (b ! off) else Inl Panicked)"

definition geo_fields :: "bytes \<Rightarrow> error + geo" where
  "geo_fields b =
     and_then (be32 b sb_BLOCKSIZE) (\<lambda>bsz.
     and_then (byte b sb_BLOCKLOG) (\<lambda>bl.
     and_then (be16 b sb_SECTSIZE) (\<lambda>ss.
     and_then (be32 b sb_AGBLOCKS) (\<lambda>ags.
     and_then (be32 b sb_AGCOUNT) (\<lambda>agc.
     and_then (be64 b sb_DBLOCKS) (\<lambda>dbs.
     and_then (byte b sb_AGBLKLOG) (\<lambda>agbl.
     and_then (be16 b sb_INODESIZE) (\<lambda>isz.
     and_then (byte b sb_INOPBLOG) (\<lambda>ipl.
     and_then (be64 b sb_LOGSTART) (\<lambda>ls.
     and_then (be32 b sb_LOGBLOCKS) (\<lambda>lb.
     and_then (be16 b sb_LOGSECTSIZE) (\<lambda>lss.
     and_then (be32 b sb_LOGSUNIT) (\<lambda>lsu.
     and_then (be32 b sb_FEATURES_RO_COMPAT) (\<lambda>ro.
     and_then (be32 b sb_FEATURES_INCOMPAT) (\<lambda>inc.
     Inr \<lparr>geo_blocksize = unat bsz, geo_blocklog = unat bl, geo_sectsize = unat ss, geo_agblocks = unat ags,
          geo_agcount = unat agc, geo_dblocks = unat dbs, geo_agblklog = unat agbl, geo_inodesize = unat isz,
          geo_inopblog = unat ipl, geo_logstart = unat ls, geo_logblocks = unat lb, geo_logsectsize = unat lss,
          geo_logsunit = unat lsu, geo_ro_compat = ro, geo_incompat = inc\<rparr>)))))))))))))))"

definition geo_sane :: "geo \<Rightarrow> bool" where
  "geo_sane g \<longleftrightarrow>
     is_power_of_two (geo_blocksize g) \<and> 512 \<le> geo_blocksize g \<and> geo_blocksize g \<le> 65536 \<and>
     shl64 1 (geo_blocklog g) = geo_blocksize g \<and>
     is_power_of_two (geo_sectsize g) \<and> 512 \<le> geo_sectsize g \<and> geo_sectsize g \<le> 32768 \<and>
     geo_sectsize g \<le> geo_blocksize g \<and>
     is_power_of_two (geo_inodesize g) \<and> 256 \<le> geo_inodesize g \<and> geo_inodesize g \<le> 2048 \<and>
     geo_agcount g > 0 \<and> geo_agblocks g > 0 \<and>
     geo_agblocks g \<le> shl64 1 (geo_agblklog g) \<and> geo_agblklog g < 32 \<and>
     geo_dblocks g \<le> mul64 (geo_agcount g) (geo_agblocks g)"

definition geo_parse :: "bytes \<Rightarrow> error + geo" where
  "geo_parse b =
     and_then (be32 b sb_MAGICNUM) (\<lambda>m.
     if m \<noteq> sb_MAGIC then Inl (NotXfs NoXfsbMagic)
     else and_then (be16 b sb_VERSIONNUM) (\<lambda>v.
     if v AND 0xf \<noteq> 5 then Inl (NotXfs NotV5)
     else and_then (geo_fields b) (\<lambda>g.
     if geo_sane g then Inr g else Inl (Corrupt SuperblockGeometry))))"

definition geo_byte :: "geo \<Rightarrow> nat \<Rightarrow> nat \<Rightarrow> nat" where
  "geo_byte g agno agbno = shl64 (add64 (mul64 agno (geo_agblocks g)) agbno) (geo_blocklog g)"

definition ag_len :: "geo \<Rightarrow> nat \<Rightarrow> nat" where
  "ag_len g agno =
     (if agno = sub64 (geo_agcount g) 1 then sub64 (geo_dblocks g) (mul64 agno (geo_agblocks g)) else geo_agblocks g)"

definition geo_has :: "geo \<Rightarrow> u32 \<Rightarrow> bool" where
  "geo_has g ro \<longleftrightarrow> geo_ro_compat g AND ro \<noteq> 0"

definition inspect_read :: "'d dev_ops \<Rightarrow> 'd \<Rightarrow> nat \<Rightarrow> nat \<Rightarrow> error + bytes" where
  "inspect_read D d off len = dev_read_at D d off len"

definition inspect_geometry :: "'d dev_ops \<Rightarrow> 'd \<Rightarrow> error + geo" where
  "inspect_geometry D d =
     (let first = max (dev_logical D d) 512 in
      and_then (inspect_read D d 0 (min first (dev_size D d))) geo_parse)"

section \<open>What the formatter writes is what the reader finds\<close>

text \<open>The reader's view of a geometry.\<close>

definition geo_of :: "geometry \<Rightarrow> geo" where
  "geo_of g =
     \<lparr>geo_blocksize = blocksize g, geo_blocklog = blocklog g, geo_sectsize = sectsize g, geo_agblocks = agsize g,
      geo_agcount = agcount g, geo_dblocks = dblocks g, geo_agblklog = agblklog g, geo_inodesize = inodesize g,
      geo_inopblog = inopblog g, geo_logstart = logstart g, geo_logblocks = logblocks g,
      geo_logsectsize = (if sectsize g > 512 then lsectsize g else 0), geo_logsunit = logsunit g,
      geo_ro_compat = ro_compat g, geo_incompat = incompat g\<rparr>"

lemma geo_of_sane:
  assumes "geometry_ok g"
  shows "geo_sane (geo_of g)"
proof -
  note g = geometry_okD [OF assms]
  have p: "(2::nat) ^ 10 \<le> 2 ^ blocklog g" "(2::nat) ^ blocklog g \<le> 2 ^ 14" "(2::nat) ^ 9 \<le> 2 ^ sectlog g"
    "(2::nat) ^ sectlog g \<le> 2 ^ blocklog g" "(2::nat) ^ 9 \<le> 2 ^ inodelog g" "(2::nat) ^ inodelog g \<le> 2 ^ 11"
    using g by (intro power_increasing; simp)+
  have q: "(2::nat) ^ sectlog g \<le> 32768" using le_trans [OF p(4) p(2)] by simp
  have "shl64 1 (blocklog g) = 2 ^ blocklog g" "shl64 1 (agblklog g) = 2 ^ agblklog g"
    using g by (intro shl64_one; simp)+
  moreover have "agcount g * agsize g < 2 ^ 64"
    using mult_strict_mono [of "agcount g" "2 ^ 32" "agsize g" "2 ^ 30"] g by simp
  then have "mul64 (agcount g) (agsize g) = agcount g * agsize g" by (rule nowrap)
  ultimately show ?thesis
    using g p q by (auto simp: geo_sane_def geo_of_def is_power_of_two_iff)
qed

text \<open>The reader looks at the first 264 bytes only, so what follows the superblock does not matter.\<close>

definition sb_prefix :: "bytes \<Rightarrow> bytes \<Rightarrow> bool" where
  "sb_prefix b c \<longleftrightarrow> sb_END \<le> length b \<and> sb_END \<le> length c \<and> take sb_END c = take sb_END b"

lemma slice_prefix:
  assumes "sb_prefix b c" "off + n \<le> sb_END"
  shows "read_slice off n c = read_slice off n b"
proof -
  have *: "slice off n x = slice off n (take sb_END x)" for x :: bytes
    using assms(2) by (simp add: slice_def take_drop min_absorb1 add.commute)
  show ?thesis using assms * [of b] * [of c] by (simp add: sb_prefix_def)
qed

lemma byte_prefix:
  assumes "sb_prefix b c" "off < sb_END"
  shows "byte c off = byte b off"
proof -
  have "take sb_END c ! off = take sb_END b ! off" using assms by (simp only: sb_prefix_def)
  then show ?thesis using assms by (simp add: byte_def sb_prefix_def)
qed

lemma geo_parse_prefix:
  assumes "sb_prefix b c"
  shows "geo_parse c = geo_parse b"
proof -
  have "be16 c off = be16 b off" if "off + 2 \<le> sb_END" for off using slice_prefix [OF assms that] by (simp add: be16_def)
  moreover have "be32 c off = be32 b off" if "off + 4 \<le> sb_END" for off using slice_prefix [OF assms that] by (simp add: be32_def)
  moreover have "be64 c off = be64 b off" if "off + 8 \<le> sb_END" for off using slice_prefix [OF assms that] by (simp add: be64_def)
  ultimately show ?thesis using byte_prefix [OF assms] by (simp add: geo_parse_def geo_fields_def cong: if_cong)
qed

lemma versionnum_v5: "versionnum g AND 0xf = 5"
  by (simp add: versionnum_def Let_def)

lemma geo_parse_encoded:
  assumes g: "geometry_ok g" and u: "length (s_uuid s) = 16"
    and e: "sb_encode g s (replicate (sectsize g) 0) = Inr b"
  shows "geo_parse b = Inr (geo_of g)"
proof -
  note w = geometry_word_bounds [OF g]
  have ok: "sb_ok (g, s) (length (replicate (sectsize g) (0::u8)))"
    using u w geometry_okD(27) [OF g] by (simp add: sb_ok_def)
  have "sb_encode (fst (g, s)) (snd (g, s)) (replicate (sectsize g) 0) = Inr b" using e by simp
  note c = sb.checked [OF ok this] and un = sb.untouched [OF ok this]
  have h: "holds (sb_fields (g, s) (sectsize g)) b" and l: "length b = sectsize g" using c by simp_all
  note m = sb_fields_def Let_def
  have bytes: "byte b sb_BLOCKLOG = Inr (of_nat (blocklog g))" "byte b sb_INOPBLOG = Inr (of_nat (inopblog g))"
    "byte b sb_AGBLKLOG = Inr (of_nat (agblklog g))"
    using holds_byte [OF h, of sb_BLOCKLOG "of_nat (blocklog g)"] holds_byte [OF h, of sb_INOPBLOG "of_nat (inopblog g)"]
      holds_byte [OF h, of sb_AGBLKLOG "of_nat (agblklog g)"]
    by (simp_all add: byte_def m)
  have h16: "be16 b sb_SECTSIZE = Inr (of_nat (sectsize g))" "be16 b sb_INODESIZE = Inr (of_nat (inodesize g))"
    "be16 b sb_VERSIONNUM = Inr (versionnum g)"
    by (rule holds_be16 [OF h]; simp add: m)+
  have h32: "be32 b sb_MAGICNUM = Inr sb_MAGIC" "be32 b sb_BLOCKSIZE = Inr (of_nat (blocksize g))"
    "be32 b sb_AGBLOCKS = Inr (of_nat (agsize g))" "be32 b sb_AGCOUNT = Inr (of_nat (agcount g))"
    "be32 b sb_LOGBLOCKS = Inr (of_nat (logblocks g))" "be32 b sb_LOGSUNIT = Inr (of_nat (logsunit g))"
    "be32 b sb_FEATURES_RO_COMPAT = Inr (ro_compat g)" "be32 b sb_FEATURES_INCOMPAT = Inr (incompat g)"
    by (rule holds_be32 [OF h]; simp add: m)+
  have h64: "be64 b sb_DBLOCKS = Inr (of_nat (dblocks g))" "be64 b sb_LOGSTART = Inr (of_nat (logstart g))"
    by (rule holds_be64 [OF h]; simp add: m)+
  have ls: "be16 b sb_LOGSECTSIZE = Inr (of_nat (if sectsize g > 512 then lsectsize g else 0))"
  proof (cases "sectsize g > 512")
    case True
    then show ?thesis using holds_be16 [OF h, of sb_LOGSECTSIZE "of_nat (lsectsize g)"] by (simp add: m)
  next
    case False
    have "b ! i = 0" if "194 \<le> i" "i < 196" for i
      using un [of i] that False w(5) u geometry_okD(7,27) [OF g] by (simp add: covers_def m)
    then have "slice sb_LOGSECTSIZE 2 b = replicate 2 0"
      using w(5) l by (intro nth_equalityI) (simp_all add: nth_slice)
    then show ?thesis using False w(5) l by (simp add: be16_def from_be_def numeral_eq_Suc)
  qed
  have su: "logsunit g < 2 ^ 32" using w(1) by (simp add: logsunit_def lsunit_bytes_def)
  have "geo_fields b = Inr (geo_of g)"
    using w su geometry_okD(7) [OF g] by (simp add: geo_fields_def bytes h16 h32 h64 ls geo_of_def unat_of_nat_small)
  then show ?thesis using geo_of_sane [OF g] by (simp add: geo_parse_def h32 h16 versionnum_v5)
qed
lemma geo_of_blocks:
  assumes "geometry_ok g"
  shows "geo_byte (geo_of g) a b = agb_to_byte g a b" "ag_len (geo_of g) a = ag_blocks g a"
proof -
  show "geo_byte (geo_of g) a b = agb_to_byte g a b"
    by (simp add: geo_byte_def geo_of_def agb_to_byte_def)
  show "ag_len (geo_of g) a = ag_blocks g a" by (simp add: ag_len_def geo_of_def ag_blocks_def)
qed

lemma geo_of_features:
  assumes "ro \<in> {RO_FINOBT, RO_RMAPBT, RO_REFLINK, RO_INOBTCNT}"
  shows "geo_has (geo_of g) ro =
    ((ro = RO_FINOBT \<and> finobt (features g)) \<or> (ro = RO_RMAPBT \<and> rmapbt (features g)) \<or>
     (ro = RO_REFLINK \<and> reflink (features g)) \<or> (ro = RO_INOBTCNT \<and> inobtcount (features g)))"
  using assms by (auto simp: geo_has_def geo_of_def ro_compat_def Let_def)

subsection \<open>On a device\<close>

text \<open>\<open>has_primary g c\<close>: byte 0 of the device is the start of an encoded superblock of \<open>g\<close>.\<close>

definition has_primary :: "geometry \<Rightarrow> sb_state \<Rightarrow> (nat \<Rightarrow> u8) \<Rightarrow> bool" where
  "has_primary g s c \<longleftrightarrow> length (s_uuid s) = 16 \<and>
     (\<exists>b. sb_encode g s (replicate (sectsize g) 0) = Inr b \<and> reads_bytes c 0 b)"

lemma map_upt_prefix:
  assumes "reads_bytes c 0 b" "sb_END \<le> length b" "sb_END \<le> n"
  shows "sb_prefix b (map c [0..<n])"
proof -
  have "take sb_END (map c [0..<n]) = take sb_END b"
    using assms by (intro nth_equalityI) (simp_all add: reads_bytes_iff)
  then show ?thesis using assms by (simp add: sb_prefix_def)
qed

context block_device
begin

lemma geometry_found:
  assumes "good d" "geometry_ok g" "has_primary g s (content d)" "512 \<le> dev_size D d"
    and "accepts D sector d 0 (min (max (dev_logical D d) 512) (dev_size D d))"
  shows "inspect_geometry D d = Inr (geo_of g)"
proof -
  define n where "n = min (max (dev_logical D d) 512) (dev_size D d)"
  obtain b where b: "length (s_uuid s) = 16" "sb_encode g s (replicate (sectsize g) 0) = Inr b" "reads_bytes (content d) 0 b"
    using assms(3) by (auto simp: has_primary_def)
  have "length b = sectsize g" using sb_sector [OF assms(2) b(1)] b(2) by auto
  then have "sb_END \<le> length b" using geometry_word_bounds(5) [OF assms(2)] by simp
  then have "sb_prefix b (map (content d) [0..<n])" using assms(4) by (intro map_upt_prefix [OF b(3)]) (simp_all add: n_def)
  then have "geo_parse (map (content d) [0..<n]) = Inr (geo_of g)"
    using geo_parse_prefix geo_parse_encoded [OF assms(2) b(1,2)] by simp
  then show ?thesis
    using read_at [OF assms(1,5)] by (simp add: inspect_geometry_def inspect_read_def Let_def n_def)
qed

end

lemma image_primary:
  assumes r: "format_ready D sector d g plans uuid order"
  shows "has_primary g (finished_sb g uuid plans) (format_image sz g plans uuid time gen order c)"
proof -
  note g = ready_geometry [OF r]
  have u: "length (s_uuid (finished_sb g uuid plans)) = 16" using g(3) by simp
  obtain s where s: "sb_encode g (finished_sb g uuid plans) (replicate (sectsize g) 0) = Inr s" "length s = sectsize g"
    using sb_sector [OF g(1) u] by blast
  obtain rest where "head_bytes g plans uuid (finished_sb g uuid plans) 0 = s @ rest"
    using head_bytes_rest [OF r g(7)] u s(1) by (metis the_bytes_Inr)
  then have "reads_bytes (format_image sz g plans uuid time gen order c) 0 s"
    using image_groups [OF r g(7), of sz time gen c] by (simp add: final_sb_def group_at_def reads_bytes_append)
  then show ?thesis using u s(1) by (auto simp: has_primary_def)
qed

context block_device
begin

text \<open>The first read of a reader is of the logical sector, or of 512 bytes: whole sectors either way.\<close>

lemma first_read:
  assumes "good d" "dev_logical D d \<le> n" "512 \<le> n" "n \<le> dev_size D d"
  shows "accepts D sector d 0 (min (max (dev_logical D d) 512) (dev_size D d))" "512 \<le> dev_size D d"
  using assms sector_logical [OF assms(1)] by (simp_all add: accepts_def)

end

section \<open>Properties\<close>

text \<open>
  \<^bold>\<open>C17\<close>. The reader understands what the formatter wrote: after a finished format the geometry read
  from the device is the one \<^verbatim>\<open>compute\<close> chose, field by field, and with it the reader finds every
  block of every group, the length of every group and the features where the formatter put them.
\<close>

theorem formatted_geometry_read:
  assumes "format_ready mem_ops md_sector d g plans uuid order" "md_good d'" "md_size d' = md_size d" "md_logical d' \<le> bs g"
    and "md_content d' = format_image (md_size d) g plans uuid time gen order (md_content d)"
  shows "inspect_geometry mem_ops d' = Inr (geo_of g) \<and>
    geo_byte (geo_of g) a b = agb_to_byte g a b \<and> ag_len (geo_of g) a = ag_blocks g a \<and>
    geo_has (geo_of g) RO_FINOBT = finobt (features g) \<and> geo_has (geo_of g) RO_RMAPBT = rmapbt (features g)"
proof -
  note g = ready_geometry [OF assms(1)]
  have "1 * bs g \<le> dblocks g * bs g" using geometry_okD(13,18) [OF g(1)] by (intro mult_le_mono1) linarith
  then have "bs g \<le> md_size d'" using g(4) assms(3) by (simp only: mem_ops_simps mult_1)
  moreover have "512 \<le> bs g" using head_sizes(3) [OF g(1)] by simp
  ultimately have acc: "accepts mem_ops md_sector d' 0 (min (max (md_logical d') 512) (md_size d'))" "512 \<le> md_size d'"
    using mem.first_read [OF assms(2), of "bs g"] assms(4) by simp_all
  have "has_primary g (finished_sb g uuid plans) (md_content d')" using image_primary [OF assms(1)] assms(5) by simp
  then have "inspect_geometry mem_ops d' = Inr (geo_of g)"
    using mem.geometry_found [OF assms(2) g(1)] acc by simp
  then show ?thesis using geo_of_blocks [OF g(1)] by (simp add: geo_of_features)
qed

theorem formatted_geometry_read_witness:
  "\<exists>d'. inspect_geometry mem_ops d' = Inr (geo_of geometry_512m) \<and> geo_agcount (geo_of geometry_512m) = 4"
proof -
  obtain plans where r: "format_ready mem_ops md_sector sample_device geometry_512m plans (replicate 16 7) [3, 1, 0, 2]"
    by (rule sample_ready)
  obtain d' where "md_good d'" "same_device mem_ops md_sector sample_device d'"
    "md_content d' = format_image (md_size sample_device) geometry_512m plans (replicate 16 7) \<lparr>secs = 0, nsecs = 0\<rparr> 42
      [3, 1, 0, 2] (md_content sample_device)"
    using mem.format_image_left [OF sample_facts(1) r] by auto
  moreover have "md_logical sample_device \<le> bs geometry_512m" by (simp add: sample_facts bs_def geometry_512m_def)
  ultimately have "inspect_geometry mem_ops d' = Inr (geo_of geometry_512m)"
    using formatted_geometry_read [OF r, of d'] by (simp add: same_device_def)
  then show ?thesis by (intro exI [of _ d']) (simp add: geo_of_def sample_facts)
qed

end
