(* ===== verification/Log_Reader.thy ===== *)
theory Log_Reader
  imports Log_Record Device
begin

unbundle bit_operations_syntax

section \<open>Finding the head and tail of the log (\<^verbatim>\<open>src/admin.rs\<close>, \<^verbatim>\<open>LogReader\<close>)\<close>

text \<open>
  The log is read a basic block at a time through a window of 256 KiB that the reader keeps.
  A method of \<^verbatim>\<open>LogReader\<close> is a reading: a function of the reader's state that gives an error or
  a value and the new state. The search methods take \<^verbatim>\<open>bb\<close>, the only access to the log, as
  their argument \<open>rd\<close>, and the length of the log \<^verbatim>\<open>bbs\<close>, which no method changes. With \<open>rd\<close> the
  windowed \<open>lr_bb\<close> of a device they are the methods of the source; with \<open>rd\<close> a plain function from
  block numbers to blocks they are the specification the window must not disturb.

  A log has at most \<open>2 ^ 39\<close> basic blocks, and every difference is guarded or of a larger and a
  smaller position, so the sums and differences of block numbers are those of the naturals; a
  cycle is a 32-bit word.
\<close>

type_synonym ('a, 's) reading = "'s \<Rightarrow> error + 'a \<times> 's"

definition rd_return :: "'a \<Rightarrow> ('a, 's) reading" where
  "rd_return x s = Inr (x, s)"

definition rd_fail :: "error \<Rightarrow> ('a, 's) reading" where
  "rd_fail e s = Inl e"

definition rd_lift :: "error + 'a \<Rightarrow> ('a, 's) reading" where
  "rd_lift r s = and_then r (\<lambda>x. Inr (x, s))"

definition rd_then :: "('a, 's) reading \<Rightarrow> ('a \<Rightarrow> ('b, 's) reading) \<Rightarrow> ('b, 's) reading" where
  "rd_then m f s = and_then (m s) (\<lambda>(x, s'). f x s')"

subsection \<open>The window\<close>

definition WINDOW :: nat where "WINDOW = 256 * 1024"
definition REC_BBS :: nat where "REC_BBS = 2 ^ 18 div BBSIZE"
definition TOTAL_REC_BBS :: nat where "TOTAL_REC_BBS = 8 * 2 ^ 18 div BBSIZE"
definition XLOG_VERSION_2 :: u32 where "XLOG_VERSION_2 = 2"

record log_reader =
  lr_start :: nat
  lr_bbs :: nat
  lr_win_at :: nat
  lr_win :: bytes

definition log_reader_new :: "nat \<Rightarrow> nat \<Rightarrow> error + log_reader" where
  "log_reader_new start bbs =
     (if bbs < TOTAL_REC_BBS then Inl (Unsupported (LogBlocksUnsupported bbs))
      else Inr \<lparr>lr_start = start, lr_bbs = bbs, lr_win_at = 0, lr_win = []\<rparr>)"

definition lr_bb :: "'d dev_ops \<Rightarrow> 'd \<Rightarrow> nat \<Rightarrow> (bytes, log_reader) reading" where
  "lr_bb D d n lr =
     (let byte = mul64 n BBSIZE in
      and_then
        (if lr_win lr = [] \<or> byte < lr_win_at lr \<or> add64 (lr_win_at lr) (length (lr_win lr)) \<le> byte
         then let at = byte div WINDOW * WINDOW;
                  len = min WINDOW (sub64 (mul64 (lr_bbs lr) BBSIZE) at) in
              and_then (dev_read_at D d (add64 (lr_start lr) at) len) (\<lambda>win.
              Inr (lr\<lparr>lr_win := win, lr_win_at := at\<rparr>))
         else Inr lr) (\<lambda>lr.
      and_then (read_slice (byte - lr_win_at lr) BBSIZE (lr_win lr)) (\<lambda>b. Inr (b, lr))))"

subsection \<open>The searches\<close>

definition log_cycle :: "(nat \<Rightarrow> (bytes, 's) reading) \<Rightarrow> nat \<Rightarrow> (u32, 's) reading" where
  "log_cycle rd n =
     rd_then (rd n) (\<lambda>b. rd_then (rd_lift (be32 b 0)) (\<lambda>w.
     if w = HEADER_MAGIC then rd_lift (be32 b lr_CYCLE) else rd_return w))"

definition is_header :: "(nat \<Rightarrow> (bytes, 's) reading) \<Rightarrow> nat \<Rightarrow> (bool, 's) reading" where
  "is_header rd n = rd_then (rd n) (\<lambda>b. rd_then (rd_lift (be32 b 0)) (\<lambda>w. rd_return (w = HEADER_MAGIC)))"

function find_cycle_start :: "(nat \<Rightarrow> (bytes, 's) reading) \<Rightarrow> nat \<Rightarrow> nat \<Rightarrow> u32 \<Rightarrow> (nat, 's) reading" where
  "find_cycle_start rd first stop cycle =
     (let mid = (first + stop) div 2 in
      if mid \<noteq> first \<and> mid \<noteq> stop then
        rd_then (log_cycle rd mid) (\<lambda>c.
        if c = cycle then find_cycle_start rd first mid cycle else find_cycle_start rd mid stop cycle)
      else rd_return stop)"
  by pat_completeness auto
termination
  by (relation "measure (\<lambda>(rd, first, stop, cycle). (stop - first) + (first - stop))") auto

declare find_cycle_start.simps [simp del]

primrec scan_cycle :: "(nat \<Rightarrow> (bytes, 's) reading) \<Rightarrow> u32 \<Rightarrow> nat list \<Rightarrow> (nat option, 's) reading" where
  "scan_cycle rd stop [] = rd_return None"
| "scan_cycle rd stop (i # ns) =
     rd_then (log_cycle rd i) (\<lambda>c. if c = stop then rd_return (Some i) else scan_cycle rd stop ns)"

definition find_verify_cycle :: "(nat \<Rightarrow> (bytes, 's) reading) \<Rightarrow> nat \<Rightarrow> nat \<Rightarrow> u32 \<Rightarrow> (nat option, 's) reading" where
  "find_verify_cycle rd start n stop = scan_cycle rd stop [start..<start + n]"

text \<open>The backwards search for a header; a block below \<open>start\<close> ends it with an error.\<close>

primrec scan_header :: "(nat \<Rightarrow> (bytes, 's) reading) \<Rightarrow> nat \<Rightarrow> nat list \<Rightarrow> (nat option, 's) reading" where
  "scan_header rd start [] = rd_return None"
| "scan_header rd start (i # ns) =
     (if i < start then rd_fail (Corrupt LogNoPreviousHeader)
      else rd_then (is_header rd i) (\<lambda>h. if h then rd_return (Some i) else scan_header rd start ns))"

datatype found = FoundHeader | FoundNone

definition find_verify_log_record ::
  "(nat \<Rightarrow> (bytes, 's) reading) \<Rightarrow> nat \<Rightarrow> nat \<Rightarrow> nat \<Rightarrow> (found \<times> nat, 's) reading" where
  "find_verify_log_record rd start until extra =
     rd_then (scan_header rd start (rev [0..<until])) (\<lambda>hit.
     case hit of
       None \<Rightarrow> rd_return (FoundNone, until)
     | Some i \<Rightarrow>
         rd_then (rd i) (\<lambda>h.
         rd_then (rd_lift (be32 h lr_SIZE)) (\<lambda>h_size.
         rd_then (rd_lift (be32 h lr_LEN)) (\<lambda>h_len.
         let xhdrs = div_ceil (unat h_size) HEADER_CYCLE_SIZE;
             h_len = div_ceil (unat h_len) BBSIZE in
         rd_return (FoundHeader, if until - i + extra \<noteq> h_len + xhdrs then i else until)))))"

text \<open>The end of a log not yet written all the way round.\<close>

definition last_written :: "(nat \<Rightarrow> (bytes, 's) reading) \<Rightarrow> nat \<Rightarrow> (nat option, 's) reading" where
  "last_written rd bbs =
     rd_then (find_cycle_start rd 0 (bbs - 1) 0) (\<lambda>last.
     let n = min TOTAL_REC_BBS last;
         start = last - n in
     rd_then (find_verify_cycle rd start n 0) (\<lambda>hit.
     let last = (case hit of Some b \<Rightarrow> b | None \<Rightarrow> last) in
     rd_then (find_verify_log_record rd start last 0) (\<lambda>(found, last).
     if found = FoundNone then rd_fail (Corrupt LogNoRecordBeforeZeroed) else rd_return (Some last))))"

definition find_zeroed :: "(nat \<Rightarrow> (bytes, 's) reading) \<Rightarrow> nat \<Rightarrow> (nat option, 's) reading" where
  "find_zeroed rd bbs =
     rd_then (log_cycle rd 0) (\<lambda>first.
     if first = 0 then rd_return (Some 0)
     else rd_then (log_cycle rd (bbs - 1)) (\<lambda>c.
     if c \<noteq> 0 then rd_return None
     else if first \<noteq> 1 then rd_fail (Corrupt LogInconsistent)
     else last_written rd bbs))"

text \<open>
  The parts of \<^verbatim>\<open>find_head\<close>: where the cycle changes and the cycle that must not come before, the search
  for a block of that cycle before it, and the check that the head is not inside a record.
\<close>

definition cycle_change :: "(nat \<Rightarrow> (bytes, 's) reading) \<Rightarrow> nat \<Rightarrow> (nat \<times> u32, 's) reading" where
  "cycle_change rd n =
     rd_then (log_cycle rd 0) (\<lambda>first_half.
     rd_then (log_cycle rd (n - 1)) (\<lambda>last_half.
     if first_half = last_half then rd_return (n, last_half - 1)
     else rd_then (find_cycle_start rd 0 (n - 1) last_half) (\<lambda>head. rd_return (head, last_half))))"

definition head_by_cycle :: "(nat \<Rightarrow> (bytes, 's) reading) \<Rightarrow> nat \<Rightarrow> nat \<Rightarrow> u32 \<Rightarrow> (nat, 's) reading" where
  "head_by_cycle rd n head stop =
     (if head \<ge> TOTAL_REC_BBS then
        rd_then (find_verify_cycle rd (head - TOTAL_REC_BBS) TOTAL_REC_BBS stop) (\<lambda>hit.
        rd_return (case hit of Some b \<Rightarrow> b | None \<Rightarrow> head))
      else
        rd_then (find_verify_cycle rd (n - (TOTAL_REC_BBS - head)) (TOTAL_REC_BBS - head) (stop - 1)) (\<lambda>hit.
        case hit of
          Some b \<Rightarrow> rd_return b
        | None \<Rightarrow>
            rd_then (find_verify_cycle rd 0 head stop) (\<lambda>hit.
            rd_return (case hit of Some b \<Rightarrow> b | None \<Rightarrow> head))))"

definition validate_head :: "(nat \<Rightarrow> (bytes, 's) reading) \<Rightarrow> nat \<Rightarrow> nat \<Rightarrow> (nat, 's) reading" where
  "validate_head rd n head =
     (if head \<ge> REC_BBS then
        rd_then (find_verify_log_record rd (head - REC_BBS) head 0) (\<lambda>(found, head).
        if found = FoundNone then rd_fail (Corrupt LogNoRecordBeforeHead) else rd_return head)
      else
        rd_then (find_verify_log_record rd 0 head 0) (\<lambda>(found, head').
        if found = FoundNone then
          rd_then (find_verify_log_record rd (n - (REC_BBS - head')) n head') (\<lambda>(found, new).
          if found = FoundNone then rd_fail (Corrupt LogNoRecordBeforeHead)
          else rd_return (if new \<noteq> n then new else head'))
        else rd_return head'))"

definition find_head :: "(nat \<Rightarrow> (bytes, 's) reading) \<Rightarrow> nat \<Rightarrow> (nat, 's) reading" where
  "find_head rd n =
     rd_then (find_zeroed rd n) (\<lambda>zeroed.
     case zeroed of
       Some b \<Rightarrow> rd_return b
     | None \<Rightarrow>
         rd_then (cycle_change rd n) (\<lambda>(head, stop).
         rd_then (head_by_cycle rd n head stop) (\<lambda>head.
         rd_then (validate_head rd n head) (\<lambda>head.
         rd_return (if head = n then 0 else head)))))"

record log_state =
  ls_head :: nat
  ls_tail :: nat
  ls_cycle :: u32

definition dirty :: "log_state \<Rightarrow> bool" where
  "dirty s \<longleftrightarrow> ls_head s \<noteq> ls_tail s"

text \<open>The last header before the head, going round the end of the log once, and whether it did.\<close>

definition last_header :: "(nat \<Rightarrow> (bytes, 's) reading) \<Rightarrow> nat \<Rightarrow> nat \<Rightarrow> ((nat \<times> bool) option, 's) reading" where
  "last_header rd bbs head =
     rd_then (scan_header rd 0 (rev [0..<head])) (\<lambda>hit.
     case hit of
       Some i \<Rightarrow> rd_return (Some (i, False))
     | None \<Rightarrow>
         rd_then (scan_header rd 0 (rev [head..<bbs])) (\<lambda>hit.
         rd_return (map_option (\<lambda>i. (i, True)) hit)))"

definition tail_of_header :: "(nat \<Rightarrow> (bytes, 's) reading) \<Rightarrow> nat \<Rightarrow> nat \<Rightarrow> nat \<Rightarrow> bool \<Rightarrow> (log_state, 's) reading" where
  "tail_of_header rd bbs head i wrapped =
     rd_then (rd i) (\<lambda>h.
     rd_then (rd_lift (be64 h lr_TAIL_LSN)) (\<lambda>tail_lsn.
     rd_then (rd_lift (be32 h lr_CYCLE)) (\<lambda>cycle.
     rd_then (rd_lift (be32 h lr_SIZE)) (\<lambda>h_size.
     rd_then (rd_lift (be32 h lr_VERSION)) (\<lambda>h_version.
     rd_then (rd_lift (be32 h lr_LEN)) (\<lambda>h_len.
     rd_then (rd_lift (be32 h lr_NUM_LOGOPS)) (\<lambda>num_logops.
     let tail = unat (tail_lsn AND 0xffffffff);
         cycle = (if wrapped then cycle + 1 else cycle);
         hblks = (if h_version AND XLOG_VERSION_2 \<noteq> 0 \<and> unat h_size > HEADER_CYCLE_SIZE
                  then div_ceil (unat h_size) HEADER_CYCLE_SIZE else 1);
         h_len = div_ceil (unat h_len) BBSIZE;
         after_umount = (i + hblks + h_len) mod bbs in
     if head = after_umount \<and> num_logops = 1 then
       rd_then (rd ((i + hblks) mod bbs)) (\<lambda>op.
       rd_then (rd_lift (if 9 < length op then Inr (op ! 9) else Inl Panicked)) (\<lambda>flags.
       rd_return \<lparr>ls_head = head, ls_tail = if flags AND UNMOUNT_TRANS \<noteq> 0 then after_umount else tail, ls_cycle = cycle\<rparr>))
     else rd_return \<lparr>ls_head = head, ls_tail = tail, ls_cycle = cycle\<rparr>)))))))"

definition find_tail :: "(nat \<Rightarrow> (bytes, 's) reading) \<Rightarrow> nat \<Rightarrow> (log_state, 's) reading" where
  "find_tail rd bbs =
     rd_then (find_head rd bbs) (\<lambda>head.
     rd_then (if head = 0 then rd_then (log_cycle rd 0) (\<lambda>c. rd_return (c = 0)) else rd_return False) (\<lambda>zero.
     if zero then rd_return \<lparr>ls_head = 0, ls_tail = 0, ls_cycle = 0\<rparr>
     else rd_then (last_header rd bbs head) (\<lambda>hit.
     case hit of
       None \<Rightarrow> rd_fail (Corrupt LogNoSyncRecord)
     | Some (i, wrapped) \<Rightarrow> tail_of_header rd bbs head i wrapped)))"

section \<open>Readings that agree\<close>

text \<open>
  \<open>plain blk\<close> reads block \<open>n\<close> as \<open>blk n\<close>, without a state and without an error. \<open>agrees ok m p\<close>: from
  every state with \<open>ok\<close> the reading \<open>m\<close> gives what \<open>p\<close> gives, errors included, and keeps \<open>ok\<close>.
\<close>

definition plain :: "(nat \<Rightarrow> bytes) \<Rightarrow> nat \<Rightarrow> (bytes, unit) reading" where
  "plain blk n s = Inr (blk n, s)"

definition agrees :: "('s \<Rightarrow> bool) \<Rightarrow> ('a, 's) reading \<Rightarrow> ('a, unit) reading \<Rightarrow> bool" where
  "agrees ok m p \<longleftrightarrow> (\<forall>s. ok s \<longrightarrow>
     (case p () of Inl e \<Rightarrow> m s = Inl e | Inr (x, _) \<Rightarrow> \<exists>s'. m s = Inr (x, s') \<and> ok s'))"

named_theorems agrees_intros

lemma agrees_return [agrees_intros]: "agrees ok (rd_return x) (rd_return x)"
  by (simp add: agrees_def rd_return_def)

lemma agrees_fail [agrees_intros]: "agrees ok (rd_fail e) (rd_fail e)"
  by (simp add: agrees_def rd_fail_def)

lemma agrees_lift [agrees_intros]: "agrees ok (rd_lift r) (rd_lift r)"
  by (cases r) (simp_all add: agrees_def rd_lift_def)

lemma agrees_then:
  assumes "agrees ok m p" "\<And>x. p () = Inr (x, ()) \<Longrightarrow> agrees ok (f x) (q x)"
  shows "agrees ok (rd_then m f) (rd_then p q)"
  unfolding agrees_def
proof (intro allI impI)
  fix s
  assume s: "ok s"
  show "case rd_then p q () of Inl e \<Rightarrow> rd_then m f s = Inl e
      | Inr (x, _) \<Rightarrow> \<exists>s'. rd_then m f s = Inr (x, s') \<and> ok s'"
  proof (cases "p ()")
    case (Inl e)
    then have "m s = Inl e" using assms(1) s by (auto simp: agrees_def)
    then show ?thesis using Inl by (simp add: rd_then_def)
  next
    case (Inr y)
    then have p: "p () = Inr (fst y, ())" by (cases y) simp
    then obtain s' where m: "m s = Inr (fst y, s')" "ok s'" using assms(1) s unfolding agrees_def by fastforce
    have eq: "rd_then m f s = f (fst y) s'" "rd_then p q () = q (fst y) ()" using m(1) p by (simp_all add: rd_then_def)
    show ?thesis unfolding eq by (rule assms(2) [OF p, unfolded agrees_def, rule_format, OF m(2)])
  qed
qed

lemma agrees_then_all: "agrees ok m p \<Longrightarrow> (\<And>x. agrees ok (f x) (q x)) \<Longrightarrow> agrees ok (rd_then m f) (rd_then p q)"
  by (rule agrees_then)

lemma agrees_if [agrees_intros]:
  "(b \<Longrightarrow> agrees ok m p) \<Longrightarrow> (\<not> b \<Longrightarrow> agrees ok m' p') \<Longrightarrow> agrees ok (if b then m else m') (if b then p else p')"
  by simp

lemma agrees_option:
  "(z = None \<Longrightarrow> agrees ok m p) \<Longrightarrow> (\<And>x. z = Some x \<Longrightarrow> agrees ok (f x) (q x)) \<Longrightarrow>
     agrees ok (case z of None \<Rightarrow> m | Some x \<Rightarrow> f x) (case z of None \<Rightarrow> p | Some x \<Rightarrow> q x)"
  by (cases z) simp_all

lemma rd_then_Inr:
  assumes "rd_then m f s = Inr (y, t)"
  obtains x s' where "m s = Inr (x, s')" "f x s' = Inr (y, t)"
  using assms by (cases "m s") (auto simp: rd_then_def)

lemma rd_return_Inr [simp]: "rd_return x s = Inr (y, t) \<longleftrightarrow> x = y \<and> s = t"
  by (auto simp: rd_return_def)

lemma rd_fail_Inr [simp]: "rd_fail e s \<noteq> Inr z"
  by (simp add: rd_fail_def)

subsection \<open>Where the searches end\<close>

lemma find_cycle_start_range:
  "find_cycle_start rd first stop cycle s = Inr (r, t) \<Longrightarrow> first \<le> stop \<Longrightarrow> first \<le> r \<and> r \<le> stop"
proof (induction rd first stop cycle arbitrary: s rule: find_cycle_start.induct)
  case (1 rd first stop cycle)
  define mid where "mid = (first + stop) div 2"
  show ?case
  proof (cases "mid \<noteq> first \<and> mid \<noteq> stop")
    case True
    have m: "first \<le> mid" "mid \<le> stop" using 1(4) by (auto simp: mid_def)
    obtain c u where "(if c = cycle then find_cycle_start rd first mid cycle else find_cycle_start rd mid stop cycle) u = Inr (r, t)"
      using 1(3) True unfolding find_cycle_start.simps [of rd first stop] Let_def mid_def [symmetric]
      by (auto elim: rd_then_Inr)
    then show ?thesis
      using 1(1) [OF mid_def True, of c u] 1(2) [OF mid_def True, of c u] m by (auto split: if_splits)
  next
    case False
    then show ?thesis
      using 1(3,4) unfolding find_cycle_start.simps [of rd first stop] Let_def mid_def [symmetric] by auto
  qed
qed

lemma scan_cycle_member: "scan_cycle rd stop ns s = Inr (Some r, t) \<Longrightarrow> r \<in> set ns"
  by (induction ns arbitrary: s) (auto elim!: rd_then_Inr split: if_splits, blast?)

lemma scan_header_member: "scan_header rd start ns s = Inr (Some r, t) \<Longrightarrow> r \<in> set ns \<and> start \<le> r"
  by (induction ns arbitrary: s) (auto elim!: rd_then_Inr split: if_splits, blast?)

lemma find_verify_cycle_range: "find_verify_cycle rd start n stop s = Inr (Some r, t) \<Longrightarrow> start \<le> r \<and> r < start + n"
  using scan_cycle_member by (fastforce simp: find_verify_cycle_def)

lemma find_verify_log_record_range:
  "find_verify_log_record rd start until extra s = Inr ((found, r), t) \<Longrightarrow> r \<le> until"
  unfolding find_verify_log_record_def
  by (auto elim!: rd_then_Inr dest!: scan_header_member split: option.splits if_splits simp: Let_def)

section \<open>The contract of a source of log blocks\<close>

text \<open>
  What the searches rely on: a block inside the log is read without an error, as the same bytes
  every time. The lemmas carry each search over from the plain blocks to the source.
\<close>

locale log_source =
  fixes rd :: "nat \<Rightarrow> (bytes, 's) reading"
    and ok :: "'s \<Rightarrow> bool"
    and blk :: "nat \<Rightarrow> bytes"
    and n :: nat
  assumes read_block: "ok s \<Longrightarrow> i < n \<Longrightarrow> \<exists>s'. rd i s = Inr (blk i, s') \<and> ok s'"
begin

lemma block: "i < n \<Longrightarrow> agrees ok (rd i) (plain blk i)"
  using read_block by (auto simp: agrees_def plain_def)

lemma cycle: "i < n \<Longrightarrow> agrees ok (log_cycle rd i) (log_cycle (plain blk) i)"
  unfolding log_cycle_def by (intro agrees_intros agrees_then_all block)

lemma header: "i < n \<Longrightarrow> agrees ok (is_header rd i) (is_header (plain blk) i)"
  unfolding is_header_def by (intro agrees_intros agrees_then_all block)

lemma cycle_start:
  "first \<le> n \<Longrightarrow> stop \<le> n \<Longrightarrow> agrees ok (find_cycle_start rd first stop c) (find_cycle_start (plain blk) first stop c)"
proof (induction "(stop - first) + (first - stop)" arbitrary: first stop rule: less_induct)
  case less
  define mid where "mid = (first + stop) div 2"
  show ?case
  proof (cases "mid \<noteq> first \<and> mid \<noteq> stop")
    case True
    then have m: "mid < n" "(mid - first) + (first - mid) < (stop - first) + (first - stop)"
      "(stop - mid) + (mid - stop) < (stop - first) + (first - stop)"
      using less.prems by (auto simp: mid_def)
    show ?thesis
      unfolding find_cycle_start.simps [of _ first stop] Let_def mid_def [symmetric]
      using True less.hyps [OF m(2)] less.hyps [OF m(3)] less.prems m(1)
      by (auto intro!: agrees_then_all cycle)
  next
    case False
    then show ?thesis
      unfolding find_cycle_start.simps [of _ first stop] Let_def mid_def [symmetric]
      by (auto intro: agrees_return)
  qed
qed

lemma scan_cycles: "set ns \<subseteq> {..<n} \<Longrightarrow> agrees ok (scan_cycle rd stop ns) (scan_cycle (plain blk) stop ns)"
  by (induction ns) (auto intro!: agrees_intros agrees_then_all cycle)

lemma scan_headers: "set ns \<subseteq> {..<n} \<Longrightarrow> agrees ok (scan_header rd start ns) (scan_header (plain blk) start ns)"
  by (induction ns) (auto intro!: agrees_intros agrees_then_all header)

lemma verify_cycle:
  "start + k \<le> n \<Longrightarrow> agrees ok (find_verify_cycle rd start k stop) (find_verify_cycle (plain blk) start k stop)"
  unfolding find_verify_cycle_def by (rule scan_cycles) auto

lemma verify_record:
  assumes "until \<le> n"
  shows "agrees ok (find_verify_log_record rd start until extra) (find_verify_log_record (plain blk) start until extra)"
  unfolding find_verify_log_record_def
proof (rule agrees_then, goal_cases)
  case 1
  show ?case using assms by (intro scan_headers) auto
next
  case (2 hit)
  then have "i < n" if "hit = Some i" for i using that assms scan_header_member by fastforce
  then show ?case unfolding Let_def by (cases hit) (auto intro!: agrees_intros agrees_then_all block)
qed

lemma written:
  assumes "0 < n"
  shows "agrees ok (last_written rd n) (last_written (plain blk) n)"
  unfolding last_written_def Let_def
proof (rule agrees_then, goal_cases)
  case 1
  show ?case by (rule cycle_start) simp_all
next
  case (2 last)
  then have l: "last < n" using find_cycle_start_range [of _ 0 "n - 1"] assms by fastforce
  show ?case
  proof (rule agrees_then, goal_cases)
    case 1
    show ?case using l by (intro verify_cycle) simp
  next
    case (2 hit)
    then have "(case hit of Some b \<Rightarrow> b | None \<Rightarrow> last) \<le> n"
      using l find_verify_cycle_range by (fastforce split: option.splits)
    then show ?case by (intro agrees_then_all verify_record) (auto intro: agrees_intros)
  qed
qed

lemma zeroed: "0 < n \<Longrightarrow> agrees ok (find_zeroed rd n) (find_zeroed (plain blk) n)"
  unfolding find_zeroed_def by (intro agrees_intros agrees_then_all [OF cycle] written) simp_all

lemma change: "0 < n \<Longrightarrow> agrees ok (cycle_change rd n) (cycle_change (plain blk) n)"
  unfolding cycle_change_def
  by (intro agrees_intros agrees_then_all [OF cycle] agrees_then_all [OF cycle_start]) simp_all

lemma by_cycle:
  assumes "TOTAL_REC_BBS \<le> n" "head \<le> n"
  shows "agrees ok (head_by_cycle rd n head stop) (head_by_cycle (plain blk) n head stop)"
proof -
  have "agrees ok (case hit of Some b \<Rightarrow> rd_return b
      | None \<Rightarrow> rd_then (find_verify_cycle rd 0 head stop) (\<lambda>hit. rd_return (case hit of None \<Rightarrow> head | Some b \<Rightarrow> b)))
    (case hit of Some b \<Rightarrow> rd_return b
      | None \<Rightarrow> rd_then (find_verify_cycle (plain blk) 0 head stop) (\<lambda>hit. rd_return (case hit of None \<Rightarrow> head | Some b \<Rightarrow> b)))"
    for hit using assms by (cases hit) (auto intro!: agrees_return agrees_then_all [OF verify_cycle])
  then show ?thesis
    unfolding head_by_cycle_def
    using assms by (intro agrees_intros agrees_then_all [OF verify_cycle]) simp_all
qed

lemma validate:
  assumes "head \<le> n"
  shows "agrees ok (validate_head rd n head) (validate_head (plain blk) n head)"
proof -
  have inner: "agrees ok (if b then rd_then (find_verify_log_record rd st n h) (\<lambda>(found, new).
        if found = FoundNone then rd_fail (Corrupt LogNoRecordBeforeHead) else rd_return (if new \<noteq> n then new else h)) else rd_return h)
    (if b then rd_then (find_verify_log_record (plain blk) st n h) (\<lambda>(found, new).
        if found = FoundNone then rd_fail (Corrupt LogNoRecordBeforeHead) else rd_return (if new \<noteq> n then new else h)) else rd_return h)"
    for b st h
    by (intro agrees_if agrees_then_all [OF verify_record]) (auto intro: agrees_intros)
  then show ?thesis
    unfolding validate_head_def using assms
    by (intro agrees_if agrees_then_all [OF verify_record]) (auto intro: agrees_intros)
qed

end

subsection \<open>Bounds of the head\<close>

lemma find_zeroed_range:
  assumes "find_zeroed rd n s = Inr (Some h, t)"
  shows "h \<le> n"
proof -
  have range: "h \<le> n" if "find_cycle_start rd 0 (n - 1) 0 u = Inr (last, u1)"
      "find_verify_cycle rd (last - k) k 0 u1 = Inr (hit, u2)" "k \<le> last"
      "find_verify_log_record rd (last - k) (case hit of Some b \<Rightarrow> b | None \<Rightarrow> last) 0 u2 = Inr ((found, h), u3)"
    for u last u1 k hit u2 found u3
  proof -
    have "last \<le> n" using find_cycle_start_range [OF that(1)] by simp
    then have "(case hit of Some b \<Rightarrow> b | None \<Rightarrow> last) \<le> n"
      using that(2,3) by (cases hit) (auto dest!: find_verify_cycle_range)
    then show ?thesis using find_verify_log_record_range [OF that(4)] by simp
  qed
  have "h \<le> n" if "last_written rd n u = Inr (Some h, t)" for u
    using that unfolding last_written_def Let_def
    by (auto elim!: rd_then_Inr split: if_splits intro: range)
  then show ?thesis using assms unfolding find_zeroed_def by (auto elim!: rd_then_Inr split: if_splits)
qed

lemma cycle_change_range:
  assumes "cycle_change rd n s = Inr ((h, stop), t)"
  shows "h \<le> n"
  using assms find_cycle_start_range [of rd 0 "n - 1"]
  unfolding cycle_change_def by (fastforce elim!: rd_then_Inr split: if_splits)

lemma head_by_cycle_range:
  assumes "head_by_cycle rd n h0 stop s = Inr (h, t)" "h0 \<le> n" "TOTAL_REC_BBS \<le> n"
  shows "h \<le> n"
  using assms find_verify_cycle_range [of rd] unfolding head_by_cycle_def
  by (fastforce elim!: rd_then_Inr split: if_splits option.splits)

lemma validate_head_range:
  assumes "validate_head rd n h0 s = Inr (h, t)" "h0 \<le> n"
  shows "h \<le> n"
  using assms unfolding validate_head_def
  by (fastforce elim!: rd_then_Inr split: if_splits dest: find_verify_log_record_range)

lemma find_head_range:
  assumes "find_head rd n s = Inr (h, t)" "TOTAL_REC_BBS \<le> n"
  shows "h \<le> n"
  using assms unfolding find_head_def
  by (fastforce elim!: rd_then_Inr split: if_splits option.splits
      dest: find_zeroed_range cycle_change_range head_by_cycle_range validate_head_range)

context log_source
begin

lemma head:
  assumes "TOTAL_REC_BBS \<le> n"
  shows "agrees ok (find_head rd n) (find_head (plain blk) n)"
proof -
  have n: "0 < n" using assms by (simp add: TOTAL_REC_BBS_def BBSIZE_def)
  have search: "agrees ok
      (rd_then (cycle_change rd n) (\<lambda>(head, stop). rd_then (head_by_cycle rd n head stop) (\<lambda>head.
        rd_then (validate_head rd n head) (\<lambda>head. rd_return (if head = n then 0 else head)))))
      (rd_then (cycle_change (plain blk) n) (\<lambda>(head, stop). rd_then (head_by_cycle (plain blk) n head stop) (\<lambda>head.
        rd_then (validate_head (plain blk) n head) (\<lambda>head. rd_return (if head = n then 0 else head)))))"
  proof (rule agrees_then [OF change [OF n]], goal_cases)
    case (1 x)
    obtain head stop where x: "x = (head, stop)" by force
    have h: "head \<le> n" by (rule cycle_change_range [OF 1 [unfolded x]])
    show ?case
      unfolding x prod.case
    proof (rule agrees_then [OF by_cycle [OF assms h]], goal_cases)
      case (1 head')
      then have "head' \<le> n" using h assms by (rule head_by_cycle_range)
      then show ?case by (intro agrees_then_all [OF validate] agrees_return)
    qed
  qed
  show ?thesis
    unfolding find_head_def
    by (intro agrees_then_all [OF zeroed [OF n]] agrees_option agrees_return search)
qed

lemma last_headers: "h \<le> n \<Longrightarrow> agrees ok (last_header rd n h) (last_header (plain blk) n h)"
  unfolding last_header_def
  by (intro agrees_then_all [OF scan_headers] agrees_option agrees_return) auto

lemma tail_of: "0 < n \<Longrightarrow> i < n \<Longrightarrow> agrees ok (tail_of_header rd n h i w) (tail_of_header (plain blk) n h i w)"
  unfolding tail_of_header_def Let_def
  by (intro agrees_then_all [OF block] agrees_then_all [OF agrees_lift] agrees_if agrees_return) simp_all

lemma tail:
  assumes "TOTAL_REC_BBS \<le> n"
  shows "agrees ok (find_tail rd n) (find_tail (plain blk) n)"
  unfolding find_tail_def
proof (rule agrees_then [OF head [OF assms]], goal_cases)
  case (1 h)
  have n: "0 < n" using assms by (simp add: TOTAL_REC_BBS_def BBSIZE_def)
  have h: "h \<le> n" by (rule find_head_range [OF 1 assms])
  have "agrees ok (if h = 0 then rd_then (log_cycle rd 0) (\<lambda>c. rd_return (c = 0)) else rd_return False)
     (if h = 0 then rd_then (log_cycle (plain blk) 0) (\<lambda>c. rd_return (c = 0)) else rd_return False)"
    using n by (intro agrees_if agrees_return agrees_then_all [OF cycle])
  then show ?case
  proof (rule agrees_then_all, intro agrees_if agrees_return agrees_then [OF last_headers [OF h]], goal_cases)
    case (1 _ hit)
    have "i < n" if "hit = Some (i, w)" for i w
      using 1 h that unfolding last_header_def
      by (fastforce elim!: rd_then_Inr split: option.splits dest!: scan_header_member)
    then show ?case using n by (auto intro!: agrees_fail tail_of split: option.splits)
  qed
qed

end

section \<open>The window meets the contract\<close>

text \<open>Basic block \<open>i\<close> of a log that starts at byte \<open>st\<close> of the device.\<close>

definition log_block :: "(nat \<Rightarrow> u8) \<Rightarrow> nat \<Rightarrow> nat \<Rightarrow> bytes" where
  "log_block c st i = map c [st + i * 512..<st + i * 512 + 512]"

definition window :: "(nat \<Rightarrow> u8) \<Rightarrow> nat \<Rightarrow> nat \<Rightarrow> nat \<Rightarrow> bytes" where
  "window c st n at = map c [st + at..<st + min (at + WINDOW) (n * 512)]"

definition window_ok :: "(nat \<Rightarrow> u8) \<Rightarrow> nat \<Rightarrow> nat \<Rightarrow> log_reader \<Rightarrow> bool" where
  "window_ok c st n lr \<longleftrightarrow> lr_start lr = st \<and> lr_bbs lr = n \<and>
     (lr_win lr = [] \<or> WINDOW dvd lr_win_at lr \<and> lr_win_at lr \<le> 2 ^ 63 \<and> lr_win lr = window c st n (lr_win_at lr))"

text \<open>The log lies on the device, at a boundary of its sectors and in whole sectors.\<close>

definition log_inside :: "'d dev_ops \<Rightarrow> ('d \<Rightarrow> nat) \<Rightarrow> 'd \<Rightarrow> nat \<Rightarrow> nat \<Rightarrow> bool" where
  "log_inside D sector d st n \<longleftrightarrow> st + n * 512 \<le> dev_size D d \<and> sector d dvd st \<and> sector d dvd WINDOW \<and> sector d dvd n * 512"

lemma length_window [simp]: "length (window c st n at) = min (at + WINDOW) (n * 512) - at"
  by (simp add: window_def)

lemma window_block:
  assumes "WINDOW dvd at" "at \<le> i * 512" "i * 512 < at + length (window c st n at)"
  shows "read_slice (i * 512 - at) BBSIZE (window c st n at) = Inr (log_block c st i)"
proof -
  obtain k where k: "at = 262144 * k" using assms(1) by (auto simp: WINDOW_def)
  have w: "i * 512 < min (at + WINDOW) (n * 512)" using assms(2,3) unfolding length_window by linarith
  then have "i < n" "i < 512 * k + 512" unfolding k WINDOW_def by linarith+
  then have "i * 512 + 512 \<le> n * 512" "i * 512 + 512 \<le> 262144 * k + 262144" by linarith+
  then have e: "i * 512 - at + 512 \<le> length (window c st n at)"
    using assms(2) by (simp add: k WINDOW_def)
  have "slice (i * 512 - at) 512 (window c st n at) = log_block c st i"
  proof (rule nth_equalityI)
    fix j
    assume "j < length (slice (i * 512 - at) 512 (window c st n at))"
    then have j: "j < 512" using e by simp
    have "st + at + (i * 512 - at + j) < st + min (at + WINDOW) (n * 512)"
      using e j assms(2) unfolding length_window by linarith
    then have "[st + at..<st + min (at + WINDOW) (n * 512)] ! (i * 512 - at + j) = st + i * 512 + j"
      using assms(2) by (subst nth_upt) simp_all
    then show "slice (i * 512 - at) 512 (window c st n at) ! j = log_block c st i ! j"
      using e j assms(2) unfolding length_window
      by (subst nth_slice) (simp_all add: window_def log_block_def)
  qed (use e in \<open>simp add: log_block_def\<close>)
  then show ?thesis using e by (simp add: BBSIZE_def)
qed

context block_device
begin

lemma window_source:
  "log_source (lr_bb D d) (\<lambda>lr. good d \<and> log_inside D sector d st n \<and> window_ok (content d) st n lr) (log_block (content d) st) n"
proof
  fix lr i
  assume a: "good d \<and> log_inside D sector d st n \<and> window_ok (content d) st n lr" and i: "i < n"
  have in': "st + n * 512 \<le> 2 ^ 63" and sec: "sector d dvd st" "sector d dvd WINDOW" "sector d dvd n * 512"
    and sz: "st + n * 512 \<le> dev_size D d"
    using a size_le [of d] by (auto simp: log_inside_def)
  have b: "mul64 i BBSIZE = i * 512" "mul64 n BBSIZE = n * 512" using in' i by (simp_all add: BBSIZE_def nowrap)
  define at where "at = i * 512 div WINDOW * WINDOW"
  have at: "at \<le> i * 512" "i * 512 < at + WINDOW"
    using div_mult_mod_eq [of "i * 512" WINDOW] mod_less_divisor [of WINDOW "i * 512"]
    by (simp_all add: at_def WINDOW_def)
  have w: "window (content d) st n at = map (content d) [st + at..<st + at + min WINDOW (n * 512 - at)]"
    using at i by (simp add: window_def min_def add.assoc)
  have "sector d dvd at" using sec(2) by (simp add: at_def)
  then have "accepts D sector d (st + at) (min WINDOW (n * 512 - at))"
    using sec at i sz by (auto simp: accepts_def min_def)
  then have "dev_read_at D d (add64 st at) (min WINDOW (sub64 (n * 512) at)) = Inr (window (content d) st n at)"
    using read_at [of d "st + at"] a at in' i by (simp add: nowrap w)
  note load = this [unfolded at_def]
  show "\<exists>lr'. lr_bb D d i lr = Inr (log_block (content d) st i, lr') \<and>
      good d \<and> log_inside D sector d st n \<and> window_ok (content d) st n lr'"
  proof (cases "lr_win lr = [] \<or> i * 512 < lr_win_at lr \<or> add64 (lr_win_at lr) (length (lr_win lr)) \<le> i * 512")
    case True
    define lr' where "lr' = lr\<lparr>lr_win := window (content d) st n at, lr_win_at := at\<rparr>"
    have "read_slice (i * 512 - at) BBSIZE (window (content d) st n at) = Inr (log_block (content d) st i)"
      using at i by (intro window_block) (auto simp: at_def)
    then have "lr_bb D d i lr = Inr (log_block (content d) st i, lr')"
      using True load a unfolding lr_bb_def Let_def b by (simp add: window_ok_def b lr'_def flip: at_def)
    moreover have "window_ok (content d) st n lr'"
      using a le_trans [OF at(1), of "2 ^ 63"] in' i by (simp add: lr'_def window_ok_def) (simp add: at_def)
    ultimately show ?thesis using a by blast
  next
    case False
    then have w: "WINDOW dvd lr_win_at lr" "lr_win_at lr \<le> 2 ^ 63" "lr_win lr = window (content d) st n (lr_win_at lr)"
      using a by (auto simp: window_ok_def)
    have "add64 (lr_win_at lr) (length (lr_win lr)) = lr_win_at lr + length (lr_win lr)"
      using w(2) in' by (intro nowrap) (simp add: w(3) WINDOW_def)
    then have "read_slice (i * 512 - lr_win_at lr) BBSIZE (lr_win lr) = Inr (log_block (content d) st i)"
      using False window_block [OF w(1), of i "content d" st n, folded w(3)] by simp
    then have "lr_bb D d i lr = Inr (log_block (content d) st i, lr)"
      using False unfolding lr_bb_def Let_def b by simp
    then show ?thesis using a by blast
  qed
qed

end

interpretation windowed: log_source "lr_bb mem_ops d"
  "\<lambda>lr. md_good d \<and> log_inside mem_ops md_sector d st n \<and> window_ok (md_content d) st n lr" "log_block (md_content d) st" n
  for d st n
  by (rule mem.window_source)

section \<open>The searches on plain blocks\<close>

text \<open>The cycle of a block, and whether it is a record header.\<close>

definition word_at :: "bytes \<Rightarrow> nat \<Rightarrow> u32" where
  "word_at b off = from_be (slice off 4 b)"

definition cycle_of :: "bytes \<Rightarrow> u32" where
  "cycle_of b = (if word_at b 0 = HEADER_MAGIC then word_at b lr_CYCLE else word_at b 0)"

named_theorems rd_simps

lemma rd_eval [rd_simps]:
  "rd_then (rd_return x) f s = f x s" "rd_then (rd_fail e) f s = Inl e" "rd_then (rd_lift (Inr x)) f s = f x s"
  "rd_return x s = Inr (x, s)" "rd_fail e s = Inl e" "rd_lift (Inr x) s = Inr (x, s)"
  "m s = Inr (x, s') \<Longrightarrow> rd_then m f s = f x s'" "m s = Inl e \<Longrightarrow> rd_then m f s = Inl e"
  by (simp_all add: rd_then_def rd_return_def rd_fail_def rd_lift_def)

lemma be32_word_at [rd_simps]: "off + 4 \<le> length b \<Longrightarrow> be32 b off = Inr (word_at b off)"
  by (simp add: be32_def word_at_def)

lemma plain_cycle [rd_simps]: "length (blk i) = 512 \<Longrightarrow> log_cycle (plain blk) i s = Inr (cycle_of (blk i), s)"
  by (simp add: log_cycle_def plain_def cycle_of_def rd_simps)

lemma plain_header [rd_simps]:
  "length (blk i) = 512 \<Longrightarrow> is_header (plain blk) i s = Inr (word_at (blk i) 0 = HEADER_MAGIC, s)"
  by (simp add: is_header_def plain_def rd_simps)

lemma plain_scan_cycle:
  "\<forall>i\<in>set ns. length (blk i) = 512 \<Longrightarrow>
     scan_cycle (plain blk) stop ns s = Inr (find (\<lambda>i. cycle_of (blk i) = stop) ns, s)"
  by (induction ns) (simp_all add: rd_simps)

lemma plain_scan_header:
  "\<forall>i\<in>set ns. length (blk i) = 512 \<and> start \<le> i \<Longrightarrow>
     scan_header (plain blk) start ns s = Inr (find (\<lambda>i. word_at (blk i) 0 = HEADER_MAGIC) ns, s)"
  by (induction ns) (auto simp: rd_simps)

lemma plain_cycle_start:
  assumes "first < stop" "\<forall>i. first \<le> i \<and> i \<le> stop \<longrightarrow> length (blk i) = 512"
  shows "\<exists>r. find_cycle_start (plain blk) first stop c () = Inr (r, ()) \<and> first < r \<and> r \<le> stop \<and>
    (r = stop \<or> cycle_of (blk r) = c) \<and> (r = Suc first \<or> cycle_of (blk (r - 1)) \<noteq> c)"
  using assms
proof (induction "stop - first" arbitrary: first stop rule: less_induct)
  case less
  define mid where "mid = (first + stop) div 2"
  note step = find_cycle_start.simps [of "plain blk" first stop c, unfolded Let_def, folded mid_def]
  show ?case
  proof (cases "mid = first")
    case True
    then have "stop = Suc first" using less.prems by (auto simp: mid_def)
    then have "find_cycle_start (plain blk) first stop c () = Inr (stop, ())" using True unfolding step by (simp add: rd_simps)
    then show ?thesis using \<open>stop = Suc first\<close> by simp
  next
    case False
    then have m: "first < mid" "mid < stop" using less.prems by (auto simp: mid_def)
    have c: "log_cycle (plain blk) mid () = Inr (cycle_of (blk mid), ())" using less.prems m by (simp add: rd_simps)
    show ?thesis
    proof (cases "cycle_of (blk mid) = c")
      case True
      have "find_cycle_start (plain blk) first stop c () = find_cycle_start (plain blk) first mid c ()"
        using m True unfolding step by (simp add: rd_then_def c)
      then show ?thesis using less.hyps [of mid first] less.prems m True by fastforce
    next
      case False
      have "find_cycle_start (plain blk) first stop c () = find_cycle_start (plain blk) mid stop c ()"
        using m False unfolding step by (simp add: rd_then_def c)
      then show ?thesis using less.hyps [of stop mid] less.prems m False by fastforce
    qed
  qed
qed

lemma length_log_block [simp]: "length (log_block c st i) = 512"
  by (simp add: log_block_def)

lemma agrees_value:
  assumes "agrees ok m p" "ok s"
  shows "and_then (m s) (\<lambda>(x, _). Inr x) = and_then (p ()) (\<lambda>(x, _). Inr x)"
  using assms by (cases "p ()") (fastforce simp: agrees_def)+

lemma log_reader_new_ok:
  assumes "log_reader_new st n = Inr lr"
  shows "TOTAL_REC_BBS \<le> n" "window_ok c st n lr"
  using assms by (auto simp: log_reader_new_def window_ok_def split: if_splits)

section \<open>Properties\<close>

text \<open>
  \<^bold>\<open>C21\<close>. The window of the log reader is transparent: on any log of an in-memory device, clean, dirty or
  corrupt, the head, tail and cycle found through the window, or the error, are those of the same search
  over the blocks of the log themselves.
\<close>

theorem window_transparent:
  assumes "md_good d" "log_inside mem_ops md_sector d st n" "log_reader_new st n = Inr lr"
  shows "and_then (find_tail (lr_bb mem_ops d) n lr) (\<lambda>(x, _). Inr x) =
    and_then (find_tail (plain (log_block (md_content d) st)) n ()) (\<lambda>(x, _). Inr x)"
  using log_reader_new_ok [OF assms(3)] assms(1,2) by (intro agrees_value [OF windowed.tail]) auto

theorem window_transparent_witness:
  "\<exists>lr. log_reader_new 0 4096 = Inr lr \<and>
     and_then (find_tail (lr_bb mem_ops (md_new (2 ^ 21))) 4096 lr) (\<lambda>(x, _). Inr x) =
     Inr \<lparr>ls_head = 0, ls_tail = 0, ls_cycle = 0\<rparr>"
proof -
  define d where "d = md_new (2 ^ 21)"
  have d: "md_good d" unfolding d_def by (rule md_new_good) simp
  have i: "log_inside mem_ops md_sector d 0 4096"
    by (simp add: log_inside_def d_def md_new_def md_with_sector_size_def md_sector_def)
  obtain lr where lr: "log_reader_new 0 4096 = Inr lr" by (simp add: log_reader_new_def TOTAL_REC_BBS_def BBSIZE_def)
  have z: "log_block (md_content d) 0 0 = replicate 512 0"
    by (rule nth_equalityI) (simp_all add: log_block_def d_def md_new_def md_with_sector_size_def md_content_def byte_at_def)
  have w: "word_at (replicate 512 0) 0 = 0" by (simp add: word_at_def slice_def from_be_def numeral_eq_Suc)
  have c: "log_cycle (plain (log_block (md_content d) 0)) 0 () = Inr (0, ())"
    by (subst plain_cycle) (simp_all add: cycle_of_def z w HEADER_MAGIC_def)
  have "find_zeroed (plain (log_block (md_content d) 0)) 4096 () = Inr (Some 0, ())"
    unfolding find_zeroed_def by (simp add: rd_then_def c rd_return_def)
  then have "find_head (plain (log_block (md_content d) 0)) 4096 () = Inr (0, ())"
    by (simp add: find_head_def rd_then_def rd_return_def)
  then have "find_tail (plain (log_block (md_content d) 0)) 4096 () = Inr (\<lparr>ls_head = 0, ls_tail = 0, ls_cycle = 0\<rparr>, ())"
    unfolding find_tail_def using c by (simp add: rd_then_def rd_return_def)
  then show ?thesis using window_transparent [OF d i lr] lr by (simp add: d_def)
qed

text \<open>
  \<^bold>\<open>C22\<close>. The binary search for a cycle ends on every log and finds a boundary: the block it returns has the
  cycle or is the last one, and the block before it does not have it or is the first. On a log that changes to
  the cycle once, that is the block of the change.
\<close>

theorem cycle_start_found:
  assumes "first < stop" "\<forall>i. first \<le> i \<and> i \<le> stop \<longrightarrow> length (blk i) = 512"
  shows "\<exists>r. find_cycle_start (plain blk) first stop c () = Inr (r, ()) \<and> first < r \<and> r \<le> stop \<and>
    (r = stop \<or> cycle_of (blk r) = c) \<and> (r = Suc first \<or> cycle_of (blk (r - 1)) \<noteq> c) \<and>
    (\<forall>k. first < k \<and> k \<le> stop \<and> (\<forall>i. first < i \<and> i < k \<longrightarrow> cycle_of (blk i) \<noteq> c) \<and>
      (\<forall>i. k \<le> i \<and> i \<le> stop \<longrightarrow> cycle_of (blk i) = c) \<longrightarrow> r = k)"
proof -
  obtain r where r: "find_cycle_start (plain blk) first stop c () = Inr (r, ())" "first < r" "r \<le> stop"
    "r = stop \<or> cycle_of (blk r) = c" "r = Suc first \<or> cycle_of (blk (r - 1)) \<noteq> c"
    using plain_cycle_start [OF assms] by blast
  have "r = k" if k: "first < k" "k \<le> stop" "\<forall>i. first < i \<and> i < k \<longrightarrow> cycle_of (blk i) \<noteq> c"
    "\<forall>i. k \<le> i \<and> i \<le> stop \<longrightarrow> cycle_of (blk i) = c" for k
  proof (rule ccontr)
    assume "r \<noteq> k"
    then consider "r < k" | "k \<le> r - 1" "r - 1 \<le> stop" "r \<noteq> Suc first" using k(1) r(2,3) by linarith
    then show False using k r by cases auto
  qed
  then show ?thesis using r by blast
qed

theorem cycle_start_found_witness:
  "\<exists>r. find_cycle_start (plain (\<lambda>i. to_be 4 (of_nat i :: u32) @ replicate 508 0)) 0 9 0 () = Inr (r, ()) \<and> 0 < r \<and> r \<le> 9"
proof -
  have "\<forall>i. 0 \<le> i \<and> i \<le> 9 \<longrightarrow> length (to_be 4 (of_nat i :: u32) @ replicate 508 (0 :: u8)) = 512" by simp
  from cycle_start_found [OF _ this, of 0] show ?thesis by auto
qed

end
