(* ===== verification/Log_State.thy ===== *)
theory Log_State
  imports Log_Reader Inspect
begin

unbundle bit_operations_syntax

section \<open>The log of a new filesystem\<close>

text \<open>
  What the log reader makes of the log that the formatter writes: one record at the start and
  zeros after it. \<open>unmount_record blk k s c\<close> says what the reader looks at in an unmount record of \<open>s\<close> bytes at block
  \<open>k\<close>, written in cycle \<open>c\<close>; \<open>fresh_log\<close> says that the log is one such record; the search of \<^verbatim>\<open>find_tail\<close> is followed
  through it step by step.
\<close>

definition unmount_record :: "(nat \<Rightarrow> bytes) \<Rightarrow> nat \<Rightarrow> nat \<Rightarrow> u32 \<Rightarrow> bool" where
  "unmount_record blk k s c \<longleftrightarrow>
     word_at (blk k) 0 = HEADER_MAGIC \<and> word_at (blk k) lr_CYCLE = c \<and> unat (word_at (blk k) lr_SIZE) = max s HEADER_CYCLE_SIZE \<and>
     word_at (blk k) lr_VERSION = 2 \<and> word_at (blk k) lr_NUM_LOGOPS = 1 \<and>
     div_ceil (unat (word_at (blk k) lr_LEN)) BBSIZE = record_bbs s - record_hdrs s \<and>
     blk (k + record_hdrs s) ! 9 AND UNMOUNT_TRANS \<noteq> 0 \<and>
     (\<forall>i. 1 \<le> i \<and> i < record_bbs s \<longrightarrow> word_at (blk (k + i)) 0 = c)"

definition fresh_log :: "(nat \<Rightarrow> bytes) \<Rightarrow> nat \<Rightarrow> nat \<Rightarrow> bool" where
  "fresh_log blk n s \<longleftrightarrow> TOTAL_REC_BBS \<le> n \<and> record_bbs s < TOTAL_REC_BBS \<and> (\<forall>i. length (blk i) = 512) \<and>
     unmount_record blk 0 s 1 \<and> (\<forall>i. record_bbs s \<le> i \<and> i < n \<longrightarrow> word_at (blk i) 0 = 0)"

subsection \<open>Reading one record\<close>

lemma record_size_ge: "2 \<le> record_bbs s" "record_hdrs s < record_bbs s"
proof -
  have "0 < record_hdrs s"
    using div_ceil_pos [of s HEADER_CYCLE_SIZE] by (auto simp: record_hdrs_def HEADER_CYCLE_SIZE_def)
  then show "2 \<le> record_bbs s" "record_hdrs s < record_bbs s" by (simp_all add: record_bbs_def)
qed

text \<open>Both ways in which the reader counts the blocks of a header agree with the writer.\<close>

lemma hdrs_of_size:
  "div_ceil (max s HEADER_CYCLE_SIZE) HEADER_CYCLE_SIZE = record_hdrs s"
  "(if HEADER_CYCLE_SIZE < max s HEADER_CYCLE_SIZE then div_ceil (max s HEADER_CYCLE_SIZE) HEADER_CYCLE_SIZE else 1) = record_hdrs s"
  by (auto simp: record_hdrs_def max_def div_ceil_def HEADER_CYCLE_SIZE_def)

lemma verify_unmount:
  assumes r: "unmount_record blk k s c" and l: "\<And>i. length (blk i) = 512"
    and scan: "scan_header (plain blk) start (rev [0..<until]) () = Inr (Some k, ())"
  shows "find_verify_log_record (plain blk) start until extra () =
    Inr ((FoundHeader, if until - k + extra \<noteq> record_bbs s then k else until), ())"
proof -
  have b: "record_bbs s - record_hdrs s + record_hdrs s = record_bbs s" using record_size_ge(2) [of s] by simp
  have w: "be32 (blk k) lr_SIZE = Inr (word_at (blk k) lr_SIZE)" "be32 (blk k) lr_LEN = Inr (word_at (blk k) lr_LEN)"
    by (simp_all add: be32_word_at l)
  show ?thesis
    using r unfolding find_verify_log_record_def unmount_record_def
    by (simp add: rd_then_def scan plain_def rd_lift_def rd_return_def w Let_def hdrs_of_size b)
qed

lemma tail_of_record:
  assumes r: "unmount_record blk k s c" and l: "\<And>i. length (blk i) = 512"
    and n: "k + record_hdrs s < n" and head: "head = (k + record_bbs s) mod n"
  shows "tail_of_header (plain blk) n head k wrapped () =
    Inr (\<lparr>ls_head = head, ls_tail = head, ls_cycle = if wrapped then c + 1 else c\<rparr>, ())"
proof -
  note u = r [unfolded unmount_record_def]
  have words: "be32 (blk k) lr_SIZE = Inr (word_at (blk k) lr_SIZE)" "be32 (blk k) lr_LEN = Inr (word_at (blk k) lr_LEN)"
    "be32 (blk k) lr_CYCLE = Inr c" "be32 (blk k) lr_VERSION = Inr 2" "be32 (blk k) lr_NUM_LOGOPS = Inr 1"
    using u by (simp_all add: be32_word_at l)
  obtain t where t: "be64 (blk k) lr_TAIL_LSN = Inr t" by (simp add: be64_def l)
  have v: "(2 :: u32) AND XLOG_VERSION_2 \<noteq> 0" by (simp add: XLOG_VERSION_2_def)
  have at: "(k + record_hdrs s + (record_bbs s - record_hdrs s)) mod n = head" "(k + record_hdrs s) mod n = k + record_hdrs s"
    using record_size_ge(2) [of s] n head by simp_all
  have uu: "unat (word_at (blk k) lr_SIZE) = max s HEADER_CYCLE_SIZE"
    "div_ceil (unat (word_at (blk k) lr_LEN)) BBSIZE = record_bbs s - record_hdrs s" "blk (k + record_hdrs s) ! 9 AND UNMOUNT_TRANS \<noteq> 0"
    using u by simp_all
  have nine: "9 < length (blk (k + record_hdrs s))" by (simp add: l)
  show ?thesis
    unfolding tail_of_header_def rd_then_def plain_def rd_lift_def rd_return_def and_then_simps prod.case words t uu Let_def
    using v nine uu(3) by (simp only: hdrs_of_size(2) at simp_thms if_True and_then_simps prod.case)
qed

subsection \<open>A fresh log\<close>

lemma fresh_logD:
  assumes "fresh_log blk n s"
  shows "TOTAL_REC_BBS \<le> n" "2 \<le> record_bbs s" "record_bbs s < TOTAL_REC_BBS" "length (blk i) = 512" "record_bbs s < n"
    "i < record_bbs s \<Longrightarrow> cycle_of (blk i) = 1" "record_bbs s \<le> i \<Longrightarrow> i < n \<Longrightarrow> cycle_of (blk i) = 0"
    "i < n \<Longrightarrow> word_at (blk i) 0 = HEADER_MAGIC \<longleftrightarrow> i = 0" "unmount_record blk 0 s 1"
proof -
  note f = assms [unfolded fresh_log_def]
  show "TOTAL_REC_BBS \<le> n" "record_bbs s < TOTAL_REC_BBS" "length (blk i) = 512" and u: "unmount_record blk 0 s 1"
    using f by blast+
  then show l: "record_bbs s < n" by simp
  show "2 \<le> record_bbs s" by (rule record_size_ge)
  note u' = u [unfolded unmount_record_def add_0]
  have one: "word_at (blk i) 0 = 1" if "1 \<le> i" "i < record_bbs s" for i using u' that by blast
  have zero: "word_at (blk i) 0 = 0" if "record_bbs s \<le> i" "i < n" for i using f that by blast
  show h: "word_at (blk i) 0 = HEADER_MAGIC \<longleftrightarrow> i = 0" if "i < n" for i
    using u' one [of i] zero [of i] that by (cases "i = 0"; cases "i < record_bbs s") (simp_all add: HEADER_MAGIC_def)
  show "cycle_of (blk i) = 1" if "i < record_bbs s"
    using u' one [of i] that h [of i] l by (cases "i = 0") (simp_all add: cycle_of_def HEADER_MAGIC_def)
  show "cycle_of (blk i) = 0" if "record_bbs s \<le> i" "i < n"
    using zero [OF that] by (simp add: cycle_of_def HEADER_MAGIC_def)
qed

lemma fresh_boundary:
  assumes "fresh_log blk n s"
  shows "find_cycle_start (plain blk) 0 (n - 1) 0 () = Inr (record_bbs s, ())"
proof -
  note f = fresh_logD [OF assms]
  have n: "0 < n - 1" "record_bbs s \<le> n - 1" using f(1-3) by (simp_all add: TOTAL_REC_BBS_def BBSIZE_def)
  obtain r where r: "find_cycle_start (plain blk) 0 (n - 1) 0 () = Inr (r, ())" "0 < r" "r \<le> n - 1"
    "r = n - 1 \<or> cycle_of (blk r) = 0" "r = 1 \<or> cycle_of (blk (r - 1)) \<noteq> 0"
    using plain_cycle_start [of 0 "n - 1" blk 0] n(1) f(4) by auto
  have "r = record_bbs s"
  proof (rule ccontr)
    assume "r \<noteq> record_bbs s"
    then consider "r < record_bbs s" "r < n - 1" | "record_bbs s \<le> r - 1" "r - 1 < n" "r \<noteq> 1" using r(2,3) n f(2) by linarith
    then show False using r(4,5) f(6) [of r] f(7) [of "r - 1"] by cases auto
  qed
  then show ?thesis using r(1) by simp
qed

lemma fresh_scan:
  assumes "fresh_log blk n s" "0 < k" "k \<le> n"
  shows "scan_header (plain blk) 0 (rev [0..<k]) () = Inr (Some 0, ())"
proof -
  note f = fresh_logD [OF assms(1)]
  have "find (\<lambda>i. word_at (blk i) 0 = HEADER_MAGIC) (rev [0..<k]) = Some 0" using assms(2,3)
  proof (induction k)
    case (Suc k)
    then show ?case using f(8) [of k] by (cases "k = 0") auto
  qed simp
  then show ?thesis using f(4) by (subst plain_scan_header) auto
qed

lemma fresh_head:
  assumes "fresh_log blk n s"
  shows "find_head (plain blk) n () = Inr (record_bbs s, ())"
proof -
  note f = fresh_logD [OF assms]
  have z: "0 < record_bbs s" "record_bbs s \<le> n" using f(2,5) by linarith+
  have c: "log_cycle (plain blk) 0 () = Inr (1, ())" "log_cycle (plain blk) (n - 1) () = Inr (0, ())"
    using z(1) f(5) f(6) [of 0] f(7) [of "n - 1"] by (simp_all add: plain_cycle f(4))
  have "find_verify_cycle (plain blk) 0 (record_bbs s) 0 () = Inr (None, ())"
    unfolding find_verify_cycle_def using f(6) by (subst plain_scan_cycle) (auto simp: f(4) find_None_iff)
  then have "last_written (plain blk) n () = Inr (Some (record_bbs s), ())"
    using f(3) verify_unmount [OF f(9) f(4) fresh_scan [OF assms z], of 0] unfolding last_written_def Let_def
    by (simp add: rd_then_def fresh_boundary [OF assms, simplified] rd_return_def)
  then have "find_zeroed (plain blk) n () = Inr (Some (record_bbs s), ())"
    using c unfolding find_zeroed_def by (simp add: rd_then_def)
  then show ?thesis unfolding find_head_def by (simp add: rd_then_def rd_return_def)
qed

lemma fresh_state:
  assumes "fresh_log blk n s"
  shows "find_tail (plain blk) n () = Inr (\<lparr>ls_head = record_bbs s, ls_tail = record_bbs s, ls_cycle = 1\<rparr>, ())"
proof -
  note f = fresh_logD [OF assms]
  have z: "0 < record_bbs s" "record_bbs s \<le> n" using f(2,5) by linarith+
  have "last_header (plain blk) n (record_bbs s) () = Inr (Some (0, False), ())"
    unfolding last_header_def using fresh_scan [OF assms z] by (simp add: rd_then_def rd_return_def)
  moreover have "tail_of_header (plain blk) n (record_bbs s) 0 False () =
      Inr (\<lparr>ls_head = record_bbs s, ls_tail = record_bbs s, ls_cycle = 1\<rparr>, ())"
    using tail_of_record [OF f(9) f(4), of n "record_bbs s" False] f(5) record_size_ge(2) [of s] by simp
  ultimately show ?thesis
    using fresh_head [OF assms] z(1) unfolding find_tail_def by (simp add: rd_then_def rd_return_def)
qed

section \<open>Where the formatter leaves the log\<close>

lemma log_region:
  assumes r: "format_ready D sector d g plans uuid order"
  shows "log_at g = group_at g (logagno g) + prealloc_blocks g * bs g"
    "log_at g + logblocks g * bs g \<le> group_at g (logagno g) + agsize g * bs g" "0 < logagno g" "0 < logblocks g"
proof -
  note g = ready_geometry [OF r]
  have "log_agbno g + logblocks g + 4 \<le> ag_blocks g (logagno g)"
    using plan_ag_InrD(4) [OF g(1,2,10) ready_plans(1) [OF r g(10)]] min_freelist_bounds(1) [of g] geometry_okD(24) [OF g(1)]
    by (simp add: group_start_def)
  then show at: "log_at g = group_at g (logagno g) + prealloc_blocks g * bs g"
    using agb_to_byte_eq(1) [OF g(1,2,10), of "log_agbno g"] geometry_okD(24) [OF g(1)]
    by (simp add: log_at_def group_at_def bs_def add_mult_distrib)
  have "(prealloc_blocks g + logblocks g) * bs g \<le> agsize g * bs g"
    using geometry_okD(26) [OF g(1)] by (intro mult_le_mono1) simp
  then show "log_at g + logblocks g * bs g \<le> group_at g (logagno g) + agsize g * bs g"
    by (simp add: at add_mult_distrib)
  show "0 < logagno g" using geometry_okD(15,23) [OF g(1)] by simp
  show "0 < logblocks g" using g(1) by (auto simp: geometry_ok_def intro: Nat.gr0I)
qed

lemma image_log:
  assumes r: "format_ready D sector d g plans uuid order" and b: "first_log_block g uuid = Inr b"
  shows "reads_bytes (format_image sz g plans uuid time gen order c) (log_at g) (b @ replicate (logblocks g * bs g - length b) 0)"
proof -
  note g = ready_geometry [OF r] and l = log_region [OF r]
  define hb fin where "hb = header_blocks g * bs g" and "fin = head_bytes g plans uuid (finished_sb g uuid plans) 0"
  define chunk where "chunk = the_bytes (root_chunk g (root_chunk_agbno g) uuid time gen)"
  define c0 where "c0 = fold (\<lambda>e c. e c) (take 4 (format_effects sz g plans uuid time gen order)) c"
  define img where "img = b @ replicate (logblocks g * bs g - length b) (0 :: u8)"
  have bl: "length b = bs g" using first_log_block_ok [OF g(1,3)] b by auto
  have "1 * bs g \<le> logblocks g * bs g" using l(4) by (intro mult_le_mono1) simp
  then have il: "length img = logblocks g * bs g" by (simp add: img_def bl)
  have "reads_bytes c0 (log_at g) img"
    by (auto simp: c0_def format_effects_def Let_def b reads_bytes_iff overwrite_def zeroed_def img_def nth_append bl)
  moreover have "log_at g + length img \<le> group_at g a \<or> group_at g a + prealloc_blocks g * bs g \<le> log_at g"
    if "a < agcount g" for a
  proof -
    have "prealloc_blocks g * bs g \<le> agsize g * bs g" using geometry_okD(26) [OF g(1)] by (intro mult_le_mono1) simp
    then show ?thesis
      using group_at_mono [of a "logagno g" g] group_at_mono [of "logagno g" a g] l(1,2) unfolding il
      by (cases a "logagno g" rule: linorder_cases) simp_all
  qed
  ultimately have "reads_bytes (fold (group_effect g plans uuid) order c0) (log_at g) img"
    using g(8) by (intro group_effects_keep [OF r]) auto
  moreover have first: "agsize g * bs g \<le> log_at g"
    using group_at_mono [OF l(3), of g] l(1) by (simp add: group_at_def [of g 0])
  moreover have "length chunk = chunk_blocks g * bs g"
    using root_chunk_ok [OF g(1,3), of "root_chunk_agbno g" time gen] chunk_bytes(1) [OF g(1)] by (auto simp: chunk_def)
  then have "root_chunk_agbno g * bs g + length chunk \<le> agsize g * bs g"
    using root_chunk_bounds [OF g(1)] geometry_okD(18) [OF g(1)] mult_le_mono1 [of "root_chunk_agbno g + chunk_blocks g" "agsize g" "bs g"]
    by (simp add: add_mult_distrib)
  ultimately have c2: "reads_bytes (overwrite (fold (group_effect g plans uuid) order c0) (root_chunk_agbno g * bs g) chunk) (log_at g) img"
    by (intro reads_bytes_frame(1)) auto
  have "length (take hb fin) \<le> log_at g"
  proof -
    have "hb \<le> prealloc_blocks g * bs g" using head_sizes(5) [OF g(1)] by (simp add: hb_def)
    then show ?thesis using l(1) by simp
  qed
  then have "reads_bytes (overwrite (overwrite (fold (group_effect g plans uuid) order c0) (root_chunk_agbno g * bs g) chunk)
      0 (take hb fin)) (log_at g) img"
    by (intro reads_bytes_frame(1) [OF c2 _ refl]) simp
  then show ?thesis
    by (simp add: format_image_def format_effects_def Let_def fold_effects c0_def hb_def fin_def chunk_def img_def)
qed

subsection \<open>The blocks of the first record\<close>

lemma holds_longer: "holds fs b \<Longrightarrow> holds fs (b @ z)"
  by (auto simp: holds_def list_all_iff slice_def)

lemma log_block_slice:
  assumes "reads_bytes c st x" "i * 512 + 512 \<le> length x"
  shows "log_block c st i = slice (i * 512) 512 x"
  using assms by (intro nth_equalityI) (simp_all add: nth_slice log_block_def reads_bytes_iff add.assoc)

lemma word_at_field:
  assumes "holds fs x" "(i * 512 + off, to_be 4 v) \<in> set fs" "i * 512 + 512 \<le> length x" "off + 4 \<le> 512"
  shows "word_at (slice (i * 512) 512 x) off = v"
proof -
  have "be32 x (i * 512 + off) = Inr v" by (rule holds_be32 [OF assms(1,2)])
  then have "from_be (slice (i * 512 + off) 4 x) = v" using assms(3,4) by (simp add: be32_def)
  then show ?thesis using assms(3,4) by (simp add: word_at_def slice_slice)
qed

lemma div_ceil_le:
  assumes "a \<le> k * b" "0 < b"
  shows "div_ceil a b \<le> k"
proof (cases "a mod b = 0")
  case True
  then show ?thesis using div_le_mono [OF assms(1), of b] assms(2) by (simp add: div_ceil_def)
next
  case False
  have "a \<noteq> k * b" using False by auto
  then have "a < k * b" using assms(1) by simp
  then have "a div b < k" using assms(2) by (simp add: less_mult_imp_div_less)
  then show ?thesis by (simp add: div_ceil_def)
qed

lemma div_ceil_sub:
  assumes "h * b \<le> s" "0 < b"
  shows "div_ceil (s - h * b) b = div_ceil s b - h"
proof -
  obtain t where t: "s = t + h * b" using assms(1) le_Suc_ex by (metis add.commute)
  then show ?thesis using assms(2) by (simp add: div_ceil_def)
qed

text \<open>The length field of a record header counts the blocks after the headers.\<close>

lemma record_len_field:
  assumes "s < 2 ^ 31"
  shows "div_ceil (unat (of_nat (sub32 (max (BBSIZE * 2) s) (record_hdrs s * BBSIZE)) :: u32)) BBSIZE = record_bbs s - record_hdrs s"
proof -
  define h where "h = record_hdrs s"
  have h: "1 \<le> h" "h * 512 \<le> max 1024 s" using record_hdrs_bounds [OF assms] by (simp_all add: h_def)
  have "sub32 (max 1024 s) (h * 512) = max 1024 s - h * 512" using h assms by (intro nowrap) simp_all
  moreover have "unat (of_nat (max 1024 s - h * 512) :: u32) = max 1024 s - h * 512"
    by (rule unat_of_nat_small) (use assms in simp)
  moreover have "div_ceil (max 1024 s - h * 512) 512 = div_ceil (max 1024 s) 512 - h" using h(2) by (rule div_ceil_sub) simp
  moreover have "div_ceil (max 1024 s) 512 = record_bbs s"
  proof (cases "s \<le> 1024")
    case True
    then have "h = 1" by (simp add: h_def record_hdrs_def HEADER_CYCLE_SIZE_def)
    moreover have "div_ceil s 512 \<le> 2" using True by (intro div_ceil_le) simp_all
    moreover have "div_ceil 1024 512 = 2" by (simp add: div_ceil_def)
    ultimately show ?thesis using True by (simp add: record_bbs_def BBSIZE_def max_def flip: h_def)
  next
    case False
    have "h * 512 < s"
    proof (cases "h = 1")
      case False
      then have "(h - 1) * 32768 < s"
        using div_ceil_bounds(2) [of HEADER_CYCLE_SIZE s] \<open>\<not> s \<le> 1024\<close> by (auto simp: h_def record_hdrs_def HEADER_CYCLE_SIZE_def)
      then show ?thesis using h(1) False by linarith
    qed (use False in simp)
    then have "h + 1 \<le> div_ceil s 512"
      using div_ceil_bounds(1) [of 512 s] by (simp add: Suc_le_eq)
    then show ?thesis using False by (simp add: record_bbs_def BBSIZE_def flip: h_def)
  qed
  ultimately show ?thesis by (simp add: BBSIZE_def flip: h_def)
qed

text \<open>The fields of a record that the reader looks at, block by block.\<close>

lemma record_blocks:
  assumes h: "holds (record_fields uuid s (log_lsn c b) t) x" and s: "s < 2 ^ 31" and l: "record_bbs s * 512 \<le> length x"
  shows "word_at (slice 0 512 x) 0 = HEADER_MAGIC" "word_at (slice 0 512 x) lr_CYCLE = c"
    "word_at (slice 0 512 x) lr_SIZE = of_nat (max s BIG_RECORD_BSIZE)" "word_at (slice 0 512 x) lr_VERSION = 2"
    "word_at (slice 0 512 x) lr_NUM_LOGOPS = 1"
    "div_ceil (unat (word_at (slice 0 512 x) lr_LEN)) BBSIZE = record_bbs s - record_hdrs s"
    "1 \<le> i \<Longrightarrow> i < record_bbs s \<Longrightarrow> word_at (slice (i * 512) 512 x) 0 = c"
    "slice (record_hdrs s * 512) 512 x ! 9 = UNMOUNT_TRANS"
proof -
  note r = record_hdrs_bounds [OF s]
  have l1: "0 * 512 + 512 \<le> length x" using l r(1,3) by simp
  note f = record_fields_def header_fields_def log_lsn_parts
  have w: "word_at (slice (0 * 512) 512 x) off = v" if "fld32 off v \<in> set (record_fields uuid s (log_lsn c b) t)" "off + 4 \<le> 512" for off v
    using that by (intro word_at_field [OF h _ l1]) simp_all
  have "word_at (slice (0 * 512) 512 x) lr_LEN = of_nat (sub32 (max (BBSIZE * 2) s) (record_hdrs s * BBSIZE))"
    by (rule w) (simp_all add: f)
  then show "div_ceil (unat (word_at (slice 0 512 x) lr_LEN)) BBSIZE = record_bbs s - record_hdrs s"
    using record_len_field [OF s] by (simp only: mult_zero_left)
  have "word_at (slice (0 * 512) 512 x) 0 = HEADER_MAGIC" "word_at (slice (0 * 512) 512 x) lr_CYCLE = c"
    "word_at (slice (0 * 512) 512 x) lr_SIZE = of_nat (max s BIG_RECORD_BSIZE)"
    "word_at (slice (0 * 512) 512 x) lr_VERSION = 2" "word_at (slice (0 * 512) 512 x) lr_NUM_LOGOPS = 1"
    by (rule w; simp add: f)+
  then show "word_at (slice 0 512 x) 0 = HEADER_MAGIC" "word_at (slice 0 512 x) lr_CYCLE = c"
    "word_at (slice 0 512 x) lr_SIZE = of_nat (max s BIG_RECORD_BSIZE)" "word_at (slice 0 512 x) lr_VERSION = 2"
    "word_at (slice 0 512 x) lr_NUM_LOGOPS = 1"
    by (simp_all only: mult_zero_left)
  show "word_at (slice (i * 512) 512 x) 0 = c" if i: "1 \<le> i" "i < record_bbs s"
  proof (rule word_at_field [OF h])
    show "(i * 512 + 0, to_be 4 c) \<in> set (record_fields uuid s (log_lsn c b) t)" using i by (auto simp: f)
    show "i * 512 + 512 \<le> length x" using i l by linarith
  qed simp
  have "x ! (record_hdrs s * 512 + 9) = UNMOUNT_TRANS" by (rule holds_byte [OF h]) (simp add: f unmount_fields_def)
  moreover have "record_hdrs s * 512 + 512 \<le> length x" using r(3) l by linarith
  ultimately show "slice (record_hdrs s * 512) 512 x ! 9 = UNMOUNT_TRANS" by (simp add: nth_slice)
qed

lemma unat_record_size:
  assumes "s < 2 ^ 31"
  shows "unat (of_nat (max s BIG_RECORD_BSIZE) :: u32) = max s HEADER_CYCLE_SIZE"
  using assms by (subst unat_of_nat_small) (simp_all add: BIG_RECORD_BSIZE_def HEADER_CYCLE_SIZE_def)

text \<open>A record that is the front of the bytes at block \<open>k\<close>.\<close>

lemma record_unmounts:
  assumes h: "holds (record_fields uuid s (log_lsn c b) t) x" and s: "s < 2 ^ 31" and l: "record_bbs s * 512 \<le> length x"
    and blk: "\<And>i. i < record_bbs s \<Longrightarrow> blk (k + i) = slice (i * 512) 512 x"
  shows "unmount_record blk k s c"
proof -
  note f = record_blocks [OF h s l] and g = record_size_ge [of s]
  have u: "UNMOUNT_TRANS AND UNMOUNT_TRANS \<noteq> 0" by (simp add: UNMOUNT_TRANS_def)
  have b: "blk k = slice 0 512 x" using blk [of 0] g(1) by simp
  show ?thesis
    unfolding unmount_record_def b blk [OF g(2)] f(1-5,8) unat_record_size [OF s]
    using u f(6) f(7) blk by simp
qed

lemma record_is_fresh:
  assumes u: "length uuid = 16" and su: "su < 2 ^ 31" "record_bbs su < TOTAL_REC_BBS" and rec: "first_record uuid su = Inr rec"
    and c: "reads_bytes c st (rec @ replicate (n * 512 - length rec) 0)" and n: "TOTAL_REC_BBS \<le> n"
  shows "fresh_log (log_block c st) n su"
proof -
  define x where "x = rec @ replicate (n * 512 - length rec) (0 :: u8)"
  have rl: "length rec = record_bbs su * 512" and hr: "holds (record_fields uuid su (log_lsn 1 0) (log_lsn 1 0)) rec"
    using log_record_holds [OF u su(1), of "log_lsn 1 0" "log_lsn 1 0"] rec by (auto simp: first_record_def)
  have lx: "length x = n * 512" using rl su(2) n by (simp add: x_def)
  have blk: "log_block c st i = slice (i * 512) 512 x" if "i < n" for i
    using c that lx by (intro log_block_slice) (simp_all add: x_def)
  have "holds (record_fields uuid su (log_lsn 1 0) (log_lsn 1 0)) x" unfolding x_def by (rule holds_longer [OF hr])
  then have "unmount_record (log_block c st) 0 su 1"
    using su n lx by (intro record_unmounts [where x = x]) (simp_all add: blk)
  moreover have "word_at (log_block c st i) 0 = 0" if "record_bbs su \<le> i" "i < n" for i
  proof -
    have "slice (i * 512 + 0) 4 x = replicate 4 0"
      using that lx rl by (intro nth_equalityI) (simp_all add: nth_slice x_def nth_append)
    then show ?thesis
      using that lx by (simp add: blk word_at_def slice_slice from_be_def numeral_eq_Suc)
  qed
  ultimately show ?thesis using n su(2) by (simp add: fresh_log_def)
qed

end
