(* ===== verification/Admin.thy ===== *)
theory Admin
  imports Log_State
begin

unbundle bit_operations_syntax

section \<open>Changing the UUID and the label (\<^verbatim>\<open>src/admin.rs\<close>)\<close>

text \<open>
  \<^verbatim>\<open>Fs\<close> is the reader's geometry and the primary superblock; the device is passed beside it. A label
  is the bytes of the string, a UUID sixteen bytes. Each operation returns the device it leaves, or
  the error it stops with.
\<close>

definition LABEL_MAX :: nat where "LABEL_MAX = 12"

definition KNOWN_INCOMPAT :: u32 where
  "KNOWN_INCOMPAT = IN_FTYPE OR IN_SPINODES OR IN_META_UUID OR IN_BIGTIME OR IN_NEEDSREPAIR OR IN_NREXT64"

definition BDSTRAT_SIZE :: nat where "BDSTRAT_SIZE = 256 * 1024"
definition INIT_CYCLE :: u32 where "INIT_CYCLE = 1"
definition LOG_CHUNK :: nat where "LOG_CHUNK = 4 * 2 ^ 20"

record fs =
  fs_geo :: geo
  fs_primary :: bytes

subsection \<open>Superblocks\<close>

definition sb_offset :: "geo \<Rightarrow> nat \<Rightarrow> nat" where
  "sb_offset g agno = mul64 (mul64 agno (geo_agblocks g)) (geo_blocksize g)"

definition check_sb :: "geo \<Rightarrow> nat \<Rightarrow> bytes \<Rightarrow> error + bytes" where
  "check_sb g agno b =
     and_then (be32 b sb_MAGICNUM) (\<lambda>m.
     if m \<noteq> sb_MAGIC then Inl (Corrupt (SuperblockMagic agno))
     else and_then (read_slice 0 (geo_sectsize g) b) (\<lambda>s.
          and_then (verify s sb_CRC) (\<lambda>ok.
          if \<not> ok then Inl (Corrupt (SuperblockCrc agno)) else Inr b)))"

definition read_sb :: "'d dev_ops \<Rightarrow> geo \<Rightarrow> 'd \<Rightarrow> nat \<Rightarrow> error + bytes" where
  "read_sb D g d agno = and_then (dev_read_at D d (sb_offset g agno) (geo_blocksize g)) (check_sb g agno)"

definition null_quota :: "nat \<Rightarrow> bytes \<Rightarrow> error + bytes" where
  "null_quota off b = and_then (be64 b off) (\<lambda>v. if v = 0 then put64 off NULL64 b else Inr b)"

definition sb_to_disk :: "geo \<Rightarrow> bytes \<Rightarrow> error + bytes" where
  "sb_to_disk g b =
     run_edits
       [null_quota sb_UQUOTINO, null_quota sb_GQUOTINO, null_quota sb_PQUOTINO,
        \<lambda>b. and_then (be32 b sb_FEATURES2) (\<lambda>f2. put32 sb_BAD_FEATURES2 f2 b),
        on_slice 0 (geo_sectsize g) (stamp sb_CRC)] b"

definition write_sb :: "'d dev_ops \<Rightarrow> geo \<Rightarrow> 'd \<Rightarrow> nat \<Rightarrow> bytes \<Rightarrow> error + 'd" where
  "write_sb D g d agno b = and_then (sb_to_disk g b) (dev_write_at D d (sb_offset g agno))"

definition fs_open :: "'d dev_ops \<Rightarrow> 'd \<Rightarrow> error + fs" where
  "fs_open D d =
     and_then (inspect_geometry D d) (\<lambda>g.
     and_then (read_sb D g d 0) (\<lambda>p.
     and_then (be32 p sb_FEATURES_INCOMPAT) (\<lambda>incompat.
     if incompat AND IN_NEEDSREPAIR \<noteq> 0 then Inl (NeedsRecovery NeedsRepair)
     else if incompat AND NOT KNOWN_INCOMPAT \<noteq> 0
     then Inl (Unsupported (IncompatFeatures (unat (incompat AND NOT KNOWN_INCOMPAT))))
     else and_then (be64 p sb_RBLOCKS) (\<lambda>rblocks.
     if rblocks \<noteq> 0 then Inl (Unsupported RealtimeDevice)
     else if geo_logstart g = 0 then Inl (Unsupported ExternalLog)
     else Inr \<lparr>fs_geo = g, fs_primary = p\<rparr>))))"

definition meta_uuid :: "bytes \<Rightarrow> error + bytes" where
  "meta_uuid p =
     and_then (be32 p sb_FEATURES_INCOMPAT) (\<lambda>incompat.
     read_slice (if incompat AND IN_META_UUID \<noteq> 0 then sb_META_UUID else sb_UUID) 16 p)"

definition log_extent :: "geo \<Rightarrow> nat \<times> nat" where
  "log_extent g =
     (let agno = shr64 (geo_logstart g) (geo_agblklog g);
          agbno = geo_logstart g AND sub64 (shl64 1 (geo_agblklog g)) 1;
          start = mul64 (add64 (mul64 agno (geo_agblocks g)) agbno) (geo_blocksize g)
      in (start, mul64 (geo_logblocks g) (geo_blocksize g) div BBSIZE))"

text \<open>A change of every group's superblock, primary first, then a flush.\<close>

definition edit_sb :: "'d dev_ops \<Rightarrow> geo \<Rightarrow> (bytes \<Rightarrow> error + bytes) \<Rightarrow> nat \<Rightarrow> 'd \<Rightarrow> error + 'd" where
  "edit_sb D g f agno d = and_then (read_sb D g d agno) (\<lambda>b. and_then (f b) (write_sb D g d agno))"

definition edit_sbs :: "'d dev_ops \<Rightarrow> geo \<Rightarrow> (bytes \<Rightarrow> error + bytes) \<Rightarrow> 'd \<Rightarrow> error + 'd" where
  "edit_sbs D g f d = and_then (try_fold (edit_sb D g f) [0..<geo_agcount g] d) (dev_flush D)"

subsection \<open>The log\<close>

definition fs_find_tail :: "'d dev_ops \<Rightarrow> fs \<Rightarrow> 'd \<Rightarrow> error + log_state" where
  "fs_find_tail D fs d =
     (let (start, bbs) = log_extent (fs_geo fs) in
      and_then (log_reader_new start bbs) (\<lambda>lr.
      and_then (find_tail (lr_bb D d) bbs lr) (\<lambda>(state, _). Inr state)))"

definition fs_log_state :: "'d dev_ops \<Rightarrow> 'd \<Rightarrow> error + log_state" where
  "fs_log_state D d = and_then (fs_open D d) (\<lambda>fs. fs_find_tail D fs d)"

text \<open>\<^verbatim>\<open>LogWriter\<close>: the log offset of the first byte of the buffer, and the buffer.\<close>

record log_writer =
  lw_at :: nat
  lw_buf :: bytes

function lw_drain :: "'d dev_ops \<Rightarrow> nat \<Rightarrow> log_writer \<Rightarrow> 'd \<Rightarrow> error + log_writer \<times> 'd" where
  "lw_drain D start w d =
     (if LOG_CHUNK \<le> length (lw_buf w) then
        and_then (dev_write_at D d (add64 start (lw_at w)) (take LOG_CHUNK (lw_buf w))) (\<lambda>d.
        lw_drain D start \<lparr>lw_at = lw_at w + LOG_CHUNK, lw_buf = drop LOG_CHUNK (lw_buf w)\<rparr> d)
      else Inr (w, d))"
  by pat_completeness auto
termination
  by (relation "measure (\<lambda>(D, start, w, d). length (lw_buf w))") (auto simp: LOG_CHUNK_def)

declare lw_drain.simps [simp del]

definition lw_push :: "'d dev_ops \<Rightarrow> nat \<Rightarrow> bytes \<Rightarrow> log_writer \<Rightarrow> 'd \<Rightarrow> error + log_writer \<times> 'd" where
  "lw_push D start data w d = lw_drain D start (w\<lparr>lw_buf := lw_buf w @ data\<rparr>) d"

lemma lw_drain_position:
  "lw_drain D start w d = Inr (w', d') \<Longrightarrow> lw_at w' + length (lw_buf w') = lw_at w + length (lw_buf w)"
proof (induction D start w d rule: lw_drain.induct)
  case (1 D start w d)
  then show ?case
    by (subst (asm) (2) lw_drain.simps) (auto simp: and_then_eq_Inr split: if_splits)
qed

function lw_zeroes_to :: "'d dev_ops \<Rightarrow> nat \<Rightarrow> nat \<Rightarrow> log_writer \<Rightarrow> 'd \<Rightarrow> error + log_writer \<times> 'd" where
  "lw_zeroes_to D start stop w d =
     (if lw_at w + length (lw_buf w) < stop then
        let n = min (stop - lw_at w - length (lw_buf w)) LOG_CHUNK in
        and_then (lw_push D start (replicate n 0) w d) (\<lambda>x. lw_zeroes_to D start stop (fst x) (snd x))
      else Inr (w, d))"
  by pat_completeness auto
termination
proof (relation "measure (\<lambda>(D, start, stop, w, d). stop - (lw_at w + length (lw_buf w)))", simp, goal_cases)
  case (1 D start stop w d n x)
  then have "lw_at (fst x) + length (lw_buf (fst x)) = lw_at w + length (lw_buf w) + n"
    using lw_drain_position [of D start _ d "fst x" "snd x"] by (fastforce simp: lw_push_def)
  moreover have "0 < n" using 1 by (simp add: LOG_CHUNK_def)
  ultimately show ?case using 1(1) by (cases x) simp
qed

declare lw_zeroes_to.simps [simp del]

definition lw_pad_to_block :: "nat \<Rightarrow> log_writer \<Rightarrow> log_writer" where
  "lw_pad_to_block bsz w =
     w\<lparr>lw_buf := lw_buf w @ replicate (div_ceil (length (lw_buf w)) bsz * bsz - length (lw_buf w)) 0\<rparr>"

definition lw_finish :: "'d dev_ops \<Rightarrow> nat \<Rightarrow> log_writer \<Rightarrow> 'd \<Rightarrow> error + 'd" where
  "lw_finish D start w d =
     (if lw_buf w \<noteq> [] then dev_write_at D d (add64 start (lw_at w)) (lw_buf w) else Inr d)"

subsection \<open>Clearing the log\<close>

lemma run_edits_length:
  assumes "run_edits es b = Inr b'" "\<forall>e\<in>set es. \<forall>b b'. e b = Inr b' \<longrightarrow> length b' = length (b :: bytes)"
  shows "length b' = length b"
  using assms by (induction es arbitrary: b) (fastforce simp: and_then_eq_Inr)+

lemma put32_length: "put32 off v b = Inr b' \<Longrightarrow> length b' = length b"
  by (auto simp: put32_def dest!: write_slice_InrD simp: length_splice)

lemma log_record_nonempty:
  assumes "log_record uuid sunit l tail = Inr rec"
  shows "rec \<noteq> []"
proof -
  obtain b first es where b: "be32 b (record_hdrs sunit * BBSIZE) = Inr first"
    and r: "run_edits (put32 lr_CYCLE_DATA first # put32 (record_hdrs sunit * BBSIZE) (ucast (drop_bit 32 l)) #
      map (\<lambda>bb. put32 (bb * BBSIZE) (ucast (drop_bit 32 l))) [record_hdrs sunit + 1..<record_bbs sunit]) b = Inr rec"
    using assms unfolding log_record_def Let_def and_then_eq_Inr by blast
  have "length rec = length b" by (rule run_edits_length [OF r]) (auto dest: put32_length)
  moreover have "0 < length b" using b by (auto simp: be32_def and_then_eq_Inr dest!: read_slice_InrD)
  ultimately show ?thesis by auto
qed

function fill_records ::
  "'d dev_ops \<Rightarrow> nat \<Rightarrow> bytes \<Rightarrow> u32 \<Rightarrow> nat \<Rightarrow> nat \<Rightarrow> nat \<Rightarrow> log_writer \<Rightarrow> 'd \<Rightarrow> error + log_writer \<times> 'd" where
  "fill_records D start uuid c bbs blk rlen w d =
     (if blk < bbs then
        and_then (log_record uuid (as_u32 (rlen * BBSIZE)) (log_lsn c (of_nat blk)) (log_lsn c (of_nat (sub64 blk rlen)))) (\<lambda>rec.
        if length rec \<noteq> rlen * BBSIZE then Inl (Unsupported (LogRecordBlocks rlen))
        else and_then (lw_push D start rec w d) (\<lambda>x.
             fill_records D start uuid c bbs (blk + rlen) (min (bbs - (blk + rlen)) rlen) (fst x) (snd x)))
      else Inr (w, d))"
  by pat_completeness auto
termination
proof (relation "measure (\<lambda>(D, start, uuid, c, bbs, blk, rlen, w, d). bbs - blk)", simp, goal_cases)
  case (1 D start uuid c bbs blk rlen w d rec x)
  then have "rec \<noteq> []" "length rec = rlen * BBSIZE" by (auto dest: log_record_nonempty)
  then have "0 < rlen" by (cases rlen) auto
  then show ?case using 1(1) by simp
qed

declare fill_records.simps [simp del]

definition first_len :: "nat \<Rightarrow> nat" where
  "first_len sunit = max (if sunit > 0 then div_ceil sunit BBSIZE else 2) 2"

definition clear_log :: "'d dev_ops \<Rightarrow> fs \<Rightarrow> bytes \<Rightarrow> u32 \<Rightarrow> 'd \<Rightarrow> error + 'd" where
  "clear_log D fs uuid cycle d =
     (let g = fs_geo fs;
          (start, bbs) = log_extent g;
          sunit = geo_logsunit g;
          len = first_len sunit;
          lsn = log_lsn cycle 0;
          tail = (if cycle = INIT_CYCLE then lsn else log_lsn (cycle - 1) (of_nat (sub64 bbs len)));
          w = \<lparr>lw_at = 0, lw_buf = []\<rparr> in
      and_then (log_record uuid sunit lsn tail) (\<lambda>first.
      if length first \<noteq> len * BBSIZE then Inl (Unsupported (LogStripeUnit sunit))
      else if cycle = INIT_CYCLE then
        and_then (dev_write_zeroes D d start (bbs * BBSIZE)) (\<lambda>d.
        and_then (lw_push D start first w d) (\<lambda>(w, d).
        lw_finish D start (lw_pad_to_block (geo_blocksize g) w) d))
      else
        and_then (lw_push D start first w d) (\<lambda>(w, d).
        let blk = BDSTRAT_SIZE div BBSIZE;
            rlen = min (bbs - blk) blk in
        and_then (lw_zeroes_to D start (min blk bbs * BBSIZE) w d) (\<lambda>(w, d).
        and_then (fill_records D start uuid (cycle - 1) bbs blk rlen w d) (\<lambda>(w, d).
        lw_finish D start w d)))))"

subsection \<open>The operations\<close>

definition uuid_edit :: "bytes \<Rightarrow> bytes \<Rightarrow> bytes \<Rightarrow> error + bytes" where
  "uuid_edit uuid meta b =
     and_then (be32 b sb_FEATURES_INCOMPAT) (\<lambda>incompat.
     let has_meta = (incompat AND IN_META_UUID \<noteq> 0) in
     and_then
       (if \<not> has_meta \<and> uuid \<noteq> meta then
          and_then (read_slice sb_UUID 16 b) (\<lambda>u. and_then (write_slice sb_META_UUID u b) (\<lambda>b.
          Inr (incompat OR IN_META_UUID, b)))
        else if has_meta \<and> uuid = meta then
          and_then (write_slice sb_META_UUID (replicate 16 0) b) (\<lambda>b. Inr (incompat AND NOT IN_META_UUID, b))
        else Inr (incompat, b)) (\<lambda>(incompat, b).
     run_edits [put32 sb_FEATURES_INCOMPAT incompat, write_slice sb_UUID uuid] b))"

definition set_uuid :: "'d dev_ops \<Rightarrow> bytes \<Rightarrow> 'd \<Rightarrow> error + 'd" where
  "set_uuid D uuid d =
     and_then (fs_open D d) (\<lambda>fs.
     and_then (fs_find_tail D fs d) (\<lambda>state.
     if dirty state then Inl (NeedsRecovery (DirtyLog (ls_head state) (ls_tail state)))
     else and_then (clear_log D fs uuid (ls_cycle state + 1) d) (\<lambda>d.
          and_then (dev_flush D d) (\<lambda>d.
          and_then (meta_uuid (fs_primary fs)) (\<lambda>meta.
          edit_sbs D (fs_geo fs) (uuid_edit uuid meta) d)))))"

definition restore_uuid :: "'d dev_ops \<Rightarrow> 'd \<Rightarrow> error + bool \<times> 'd" where
  "restore_uuid D d =
     and_then (fs_open D d) (\<lambda>fs.
     and_then (be32 (fs_primary fs) sb_FEATURES_INCOMPAT) (\<lambda>incompat.
     if incompat AND IN_META_UUID = 0 then Inr (False, d)
     else and_then (meta_uuid (fs_primary fs)) (\<lambda>uuid. and_then (set_uuid D uuid d) (\<lambda>d. Inr (True, d)))))"

definition set_label :: "'d dev_ops \<Rightarrow> bytes \<Rightarrow> 'd \<Rightarrow> error + 'd" where
  "set_label D lab d =
     (if length lab > LABEL_MAX \<or> 0 \<in> set lab then Inl (InvalidParams LabelInvalid)
      else and_then (fs_open D d) (\<lambda>fs.
           and_then (write_slice 0 lab (replicate LABEL_MAX 0)) (\<lambda>fname.
           edit_sbs D (fs_geo fs) (write_slice sb_FNAME fname) d)))"

end
