(* ===== verification/Sb_Edit.thy ===== *)
theory Sb_Edit
  imports Admin
begin

unbundle bit_operations_syntax

section \<open>Edits of a superblock\<close>

text \<open>
  What the label and UUID operations do to the bytes of one superblock. \<open>changes_only S b b'\<close> says that
  two buffers of one length differ inside \<open>S\<close> at most; the edits of \<^verbatim>\<open>admin.rs\<close> are composed from
  edits of known places, so everything else follows from the places being apart.
\<close>

definition changes_only :: "nat set \<Rightarrow> bytes \<Rightarrow> bytes \<Rightarrow> bool" where
  "changes_only S b b' \<longleftrightarrow> length b' = length b \<and> (\<forall>i<length b. i \<notin> S \<longrightarrow> b' ! i = b ! i)"

lemma changes_refl [simp]: "changes_only S b b"
  by (simp add: changes_only_def)

lemma changes_trans: "changes_only S a b \<Longrightarrow> changes_only T b c \<Longrightarrow> changes_only (S \<union> T) a c"
  by (simp add: changes_only_def)

lemma changes_mono: "changes_only S a b \<Longrightarrow> S \<subseteq> T \<Longrightarrow> changes_only T a b"
  by (auto simp: changes_only_def)

lemma changes_length: "changes_only S b b' \<Longrightarrow> length b' = length b"
  by (simp add: changes_only_def)

lemma changes_splice:
  assumes "off + length src \<le> length b"
  shows "changes_only {off..<off + length src} b (splice off src b)"
  using assms by (auto simp: changes_only_def nth_splice slice_simps)

lemma changes_slice:
  assumes "changes_only S b b'" "{off..<off + n} \<inter> S = {}" "off + n \<le> length b"
  shows "slice off n b' = slice off n b"
proof (rule nth_equalityI)
  have l: "length b' = length b" using assms(1) by (rule changes_length)
  show "length (slice off n b') = length (slice off n b)" using assms(3) l by simp
  fix i
  assume "i < length (slice off n b')"
  then have i: "i < n" using assms(3) l by simp
  then have "off + i \<in> {off..<off + n}" by simp
  then have "off + i \<notin> S" using assms(2) by blast
  then show "slice off n b' ! i = slice off n b ! i"
    using assms(1,3) i l by (simp add: nth_slice changes_only_def)
qed

lemma changes_words:
  assumes "changes_only S b b'"
  shows "{off..<off + 4} \<inter> S = {} \<Longrightarrow> off + 4 \<le> length b \<Longrightarrow> be32 b' off = be32 b off"
    and "{off..<off + 8} \<inter> S = {} \<Longrightarrow> off + 8 \<le> length b \<Longrightarrow> be64 b' off = be64 b off"
    and "{off..<off + 2} \<inter> S = {} \<Longrightarrow> off + 2 \<le> length b \<Longrightarrow> be16 b' off = be16 b off"
  using changes_slice [OF assms, of off] changes_length [OF assms] by (simp_all add: be16_def be32_def be64_def)

lemma put_changes:
  "off + 4 \<le> length b \<Longrightarrow> \<exists>b'. put32 off v b = Inr b' \<and> changes_only {off..<off + 4} b b' \<and> be32 b' off = Inr v"
  "off + 8 \<le> length b \<Longrightarrow> \<exists>b'. put64 off w b = Inr b' \<and> changes_only {off..<off + 8} b b' \<and> be64 b' off = Inr w"
  using changes_splice [of off "to_be 4 v" b] changes_splice [of off "to_be 8 w" b]
  by (simp_all add: put32_def put64_def be32_def be64_def slice_simps)

lemma write_changes:
  "off + length src \<le> length b \<Longrightarrow> \<exists>b'. write_slice off src b = Inr b' \<and>
     changes_only {off..<off + length src} b b' \<and> slice off (length src) b' = src"
  using changes_splice [of off src b] by (simp add: slice_simps)

subsection \<open>Writing a superblock back\<close>

lemma null_quota_changes:
  assumes "off + 8 \<le> length b"
  shows "\<exists>b'. null_quota off b = Inr b' \<and> changes_only {off..<off + 8} b b' \<and> be64 b' off \<noteq> Inr 0 \<and>
    (be64 b off \<noteq> Inr 0 \<longrightarrow> b' = b)"
proof -
  obtain v where v: "be64 b off = Inr v" using assms by (simp add: be64_def)
  show ?thesis
  proof (cases "v = 0")
    case True
    then show ?thesis using put_changes(2) [OF assms, of NULL64] v by (auto simp: null_quota_def NULL64_def)
  qed (simp add: null_quota_def v)
qed

lemma stamp_changes:
  assumes "n \<le> length b" "off + 4 \<le> n"
  shows "\<exists>b'. on_slice 0 n (stamp off) b = Inr b' \<and> changes_only {off..<off + 4} b b' \<and> verify (slice 0 n b') off = Inr True"
proof -
  define s where "s = slice 0 n b"
  have s: "length s = n" using assms(1) by (simp add: s_def)
  obtain t where t: "stamp off s = Inr t" "length t = n" "verify t off = Inr True"
    "\<forall>i<n. i \<notin> {off..<off + 4} \<longrightarrow> t ! i = s ! i"
  proof (rule that)
    show "stamp off s = Inr (splice off (crc_bytes s off) s)" using assms(2) s by (simp add: slice_simps)
    show "length (splice off (crc_bytes s off) s) = n" using assms(2) s by (simp add: slice_simps)
    show "verify (splice off (crc_bytes s off) s) off = Inr True" using assms(2) s by (simp add: verify_stamped)
    show "\<forall>i<n. i \<notin> {off..<off + 4} \<longrightarrow> splice off (crc_bytes s off) s ! i = s ! i"
      using assms(2) s by (simp add: nth_splice)
  qed
  have "on_slice 0 n (stamp off) b = Inr (splice 0 t b)"
    using assms(1) t(1,2) by (simp add: on_slice_def slice_simps flip: s_def)
  moreover have "changes_only {off..<off + 4} b (splice 0 t b)"
    using assms(1) t(2,4) by (auto simp: changes_only_def slice_simps nth_splice s_def nth_slice)
  moreover have "slice 0 n (splice 0 t b) = t" using assms(1) t(2) by (simp add: slice_simps)
  ultimately show ?thesis using t(3) by simp
qed

text \<open>The places \<^verbatim>\<open>write_sb\<close> rewrites.\<close>

definition rewritten :: "nat set" where
  "rewritten = {sb_UQUOTINO..<sb_UQUOTINO + 16} \<union> {sb_PQUOTINO..<sb_PQUOTINO + 8} \<union>
     {sb_BAD_FEATURES2..<sb_BAD_FEATURES2 + 4} \<union> {sb_CRC..<sb_CRC + 4}"

lemma sb_to_disk_changes:
  assumes "geo_sectsize G \<le> length b" "sb_END \<le> geo_sectsize G"
  shows "\<exists>b'. sb_to_disk G b = Inr b' \<and> changes_only rewritten b b' \<and> verify (slice 0 (geo_sectsize G) b') sb_CRC = Inr True \<and>
    be32 b' sb_BAD_FEATURES2 = be32 b sb_FEATURES2 \<and>
    be64 b' sb_UQUOTINO \<noteq> Inr 0 \<and> be64 b' sb_GQUOTINO \<noteq> Inr 0 \<and> be64 b' sb_PQUOTINO \<noteq> Inr 0"
proof -
  have l: "264 \<le> length b" using assms by simp
  obtain b1 where b1: "null_quota sb_UQUOTINO b = Inr b1" "changes_only {160..<168} b b1" "be64 b1 sb_UQUOTINO \<noteq> Inr 0"
    using null_quota_changes [of sb_UQUOTINO b] l by auto
  have l1: "length b1 = length b" by (rule changes_length [OF b1(2)])
  obtain b2 where b2: "null_quota sb_GQUOTINO b1 = Inr b2" "changes_only {168..<176} b1 b2" "be64 b2 sb_GQUOTINO \<noteq> Inr 0"
    using null_quota_changes [of sb_GQUOTINO b1] l l1 by auto
  have l2: "length b2 = length b" using changes_length [OF b2(2)] l1 by simp
  obtain b3 where b3: "null_quota sb_PQUOTINO b2 = Inr b3" "changes_only {232..<240} b2 b3" "be64 b3 sb_PQUOTINO \<noteq> Inr 0"
    using null_quota_changes [of sb_PQUOTINO b2] l l2 by auto
  have l3: "length b3 = length b" using changes_length [OF b3(2)] l2 by simp
  obtain f where f: "be32 b3 sb_FEATURES2 = Inr f" using l l3 by (simp add: be32_def)
  obtain b4 where b4: "put32 sb_BAD_FEATURES2 f b3 = Inr b4" "changes_only {204..<208} b3 b4" "be32 b4 sb_BAD_FEATURES2 = Inr f"
    using put_changes(1) [of sb_BAD_FEATURES2 b3 f] l l3 by auto
  have l4: "length b4 = length b" using changes_length [OF b4(2)] l3 by simp
  obtain b5 where b5: "on_slice 0 (geo_sectsize G) (stamp sb_CRC) b4 = Inr b5" "changes_only {224..<228} b4 b5"
    "verify (slice 0 (geo_sectsize G) b5) sb_CRC = Inr True"
    using stamp_changes [of "geo_sectsize G" b4 sb_CRC] assms l4 by auto
  have "sb_to_disk G b = Inr b5" by (simp add: sb_to_disk_def b1 b2 b3 b4 b5 f)
  moreover have "changes_only rewritten b b5"
    by (rule changes_mono [OF changes_trans [OF b1(2) changes_trans [OF b2(2) changes_trans [OF b3(2) changes_trans [OF b4(2) b5(2)]]]]])
       (auto simp: rewritten_def)
  moreover have "be32 b5 sb_BAD_FEATURES2 = be32 b sb_FEATURES2"
    using changes_words(1) [OF b5(2), of 204] changes_words(1) [OF b3(2), of 200] changes_words(1) [OF b2(2), of 200]
      changes_words(1) [OF b1(2), of 200] b4(3) f l l1 l2 l4 by simp
  moreover have "be64 b5 sb_UQUOTINO \<noteq> Inr 0" "be64 b5 sb_GQUOTINO \<noteq> Inr 0" "be64 b5 sb_PQUOTINO \<noteq> Inr 0"
    using changes_words(2) [OF b5(2)] changes_words(2) [OF b4(2)] changes_words(2) [OF b3(2)] changes_words(2) [OF b2(2)]
      b1(3) b2(3) b3(3) l l1 l2 l3 l4 by simp_all
  ultimately show ?thesis using b5(3) by blast
qed

subsection \<open>The UUID\<close>

definition has_meta :: "bytes \<Rightarrow> bool" where
  "has_meta b \<longleftrightarrow> (case be32 b sb_FEATURES_INCOMPAT of Inl _ \<Rightarrow> False | Inr w \<Rightarrow> w AND IN_META_UUID \<noteq> 0)"

definition uuid_places :: "nat set" where
  "uuid_places = {sb_UUID..<sb_UUID + 16} \<union> {sb_FEATURES_INCOMPAT..<sb_FEATURES_INCOMPAT + 4} \<union> {sb_META_UUID..<sb_META_UUID + 16}"

lemma meta_uuid_eq: "sb_END \<le> length b \<Longrightarrow> meta_uuid b = Inr (slice (if has_meta b then sb_META_UUID else sb_UUID) 16 b)"
  by (cases "be32 b sb_FEATURES_INCOMPAT") (simp_all add: meta_uuid_def has_meta_def be32_def)

lemma meta_bit: "(w OR IN_META_UUID) AND IN_META_UUID \<noteq> (0 :: u32)" "(w AND NOT IN_META_UUID) AND IN_META_UUID = (0 :: u32)"
proof -
  have "(w OR 4) AND 4 = (4 :: u32)" by (rule bit_word_eqI) (auto simp: bit_simps)
  then show "(w OR IN_META_UUID) AND IN_META_UUID \<noteq> (0 :: u32)" by simp
  show "(w AND NOT IN_META_UUID) AND IN_META_UUID = (0 :: u32)" by (simp only: word_bw_assocs) simp
qed

text \<open>The three fields after an edit, for each of the three cases.\<close>

lemma uuid_edit_fields:
  assumes b: "sb_END \<le> length b" and u: "length uuid = 16" and i: "be32 b sb_FEATURES_INCOMPAT = Inr w"
  shows "\<exists>b'. uuid_edit uuid meta b = Inr b' \<and> changes_only uuid_places b b' \<and> slice sb_UUID 16 b' = uuid \<and>
    be32 b' sb_FEATURES_INCOMPAT = Inr (if \<not> has_meta b \<and> uuid \<noteq> meta then w OR IN_META_UUID
      else if has_meta b \<and> uuid = meta then w AND NOT IN_META_UUID else w) \<and>
    slice sb_META_UUID 16 b' = (if \<not> has_meta b \<and> uuid \<noteq> meta then slice sb_UUID 16 b
      else if has_meta b \<and> uuid = meta then replicate 16 0 else slice sb_META_UUID 16 b)"
proof -
  define w' where "w' = (if \<not> has_meta b \<and> uuid \<noteq> meta then w OR IN_META_UUID
      else if has_meta b \<and> uuid = meta then w AND NOT IN_META_UUID else w)"
  define m where "m = (if \<not> has_meta b \<and> uuid \<noteq> meta then slice sb_UUID 16 b
      else if has_meta b \<and> uuid = meta then replicate 16 0 else slice sb_META_UUID 16 b)"
  have h: "has_meta b \<longleftrightarrow> w AND IN_META_UUID \<noteq> 0" by (simp add: has_meta_def i)
  have lm: "length m = 16" using b by (simp add: m_def)
  obtain b1 where b1: "(if m = slice sb_META_UUID 16 b then Inr b else write_slice sb_META_UUID m b) = Inr b1"
    "changes_only {248..<264} b b1" "slice sb_META_UUID 16 b1 = m"
  proof (cases "m = slice sb_META_UUID 16 b")
    case True
    then show ?thesis by (intro that [of b]) simp_all
  next
    case False
    obtain b' where "write_slice sb_META_UUID m b = Inr b'" "changes_only {248..<264} b b'" "slice sb_META_UUID 16 b' = m"
      using write_changes [of sb_META_UUID m b] b lm by auto
    then show ?thesis using False by (intro that [of b']) simp_all
  qed
  have l1: "length b1 = length b" by (rule changes_length [OF b1(2)])
  obtain b2 where b2: "put32 sb_FEATURES_INCOMPAT w' b1 = Inr b2" "changes_only {216..<220} b1 b2" "be32 b2 sb_FEATURES_INCOMPAT = Inr w'"
    using put_changes(1) [of sb_FEATURES_INCOMPAT b1 w'] b l1 by auto
  have l2: "length b2 = length b" using changes_length [OF b2(2)] l1 by simp
  obtain b3 where b3: "write_slice sb_UUID uuid b2 = Inr b3" "changes_only {32..<48} b2 b3" "slice sb_UUID 16 b3 = uuid"
    using write_changes [of sb_UUID uuid b2] b u l2 by auto
  have same: "write_slice sb_META_UUID (slice sb_META_UUID 16 b) b = Inr b" using b by (simp add: write_slice_def splice_slice_id)
  have "uuid_edit uuid meta b = Inr b3"
    using b b1(1) b2(1) b3(1) same unfolding uuid_edit_def i Let_def m_def w'_def and_then_simps h [symmetric]
    by (auto split: if_splits)
  moreover have "changes_only uuid_places b b3"
    by (rule changes_mono [OF changes_trans [OF b1(2) changes_trans [OF b2(2) b3(2)]]]) (auto simp: uuid_places_def)
  moreover have "be32 b3 sb_FEATURES_INCOMPAT = Inr w'" using changes_words(1) [OF b3(2), of 216] b2(3) b l2 by simp
  moreover have "slice sb_META_UUID 16 b3 = m"
    using changes_slice [OF b3(2), of 248 16] changes_slice [OF b2(2), of 248 16] b1(3) b l1 l2 by simp
  ultimately show ?thesis using b3(3) by (auto simp: m_def w'_def)
qed

text \<open>
  The UUID field is the new one, the metadata UUID that a reader derives is the one it was, \<^verbatim>\<open>META_UUID\<close> is set
  exactly when the two differ, and no other feature bit and no byte outside the three fields changes.
\<close>

lemma uuid_edit_keeps:
  assumes "sb_END \<le> length b" "length uuid = 16" "meta_uuid b = Inr meta" "be32 b sb_FEATURES_INCOMPAT = Inr w"
  shows "\<exists>b' w'. uuid_edit uuid meta b = Inr b' \<and> slice sb_UUID 16 b' = uuid \<and> meta_uuid b' = Inr meta \<and>
    be32 b' sb_FEATURES_INCOMPAT = Inr w' \<and> (w' AND IN_META_UUID \<noteq> 0 \<longleftrightarrow> uuid \<noteq> meta) \<and>
    w' AND NOT IN_META_UUID = w AND NOT IN_META_UUID \<and> changes_only uuid_places b b'"
proof -
  obtain b' where b': "uuid_edit uuid meta b = Inr b'" "changes_only uuid_places b b'" "slice sb_UUID 16 b' = uuid"
    and w: "be32 b' sb_FEATURES_INCOMPAT = Inr (if \<not> has_meta b \<and> uuid \<noteq> meta then w OR IN_META_UUID
      else if has_meta b \<and> uuid = meta then w AND NOT IN_META_UUID else w)"
    and m: "slice sb_META_UUID 16 b' = (if \<not> has_meta b \<and> uuid \<noteq> meta then slice sb_UUID 16 b
      else if has_meta b \<and> uuid = meta then replicate 16 0 else slice sb_META_UUID 16 b)"
    using uuid_edit_fields [OF assms(1,2,4), of meta] by blast
  have l: "length b' = length b" by (rule changes_length [OF b'(2)])
  have mb: "meta = slice (if has_meta b then sb_META_UUID else sb_UUID) 16 b"
    using assms(1,3) by (simp add: meta_uuid_eq)
  have hb: "has_meta b \<longleftrightarrow> w AND IN_META_UUID \<noteq> 0" by (simp add: has_meta_def assms(4))
  have h': "has_meta b' \<longleftrightarrow> uuid \<noteq> meta"
    using w hb meta_bit by (auto simp: has_meta_def split: if_splits)
  have "meta_uuid b' = Inr meta" using assms(1) l b'(3) m mb h' by (auto simp: meta_uuid_eq)
  moreover have "(w OR IN_META_UUID) AND NOT IN_META_UUID = w AND NOT IN_META_UUID" "(w AND NOT IN_META_UUID) AND NOT IN_META_UUID = w AND NOT IN_META_UUID"
    by (simp_all add: bit.conj_disj_distrib2 word_bw_assocs)
  ultimately show ?thesis using b' w h' by (auto simp: has_meta_def split: if_splits)
qed

lemma equal_if_slices:
  assumes "changes_only ({a..<a + k} \<union> ({b..<b + m} \<union> {c..<c + n})) x y"
    and "slice a k y = slice a k x" "slice b m y = slice b m x" "slice c n y = slice c n x"
    and "a + k \<le> length x" "b + m \<le> length x" "c + n \<le> length x"
  shows "y = x"
proof (rule nth_equalityI)
  show l: "length y = length x" using assms(1) by (rule changes_length)
  have s: "y ! i = x ! i" if "slice off j y = slice off j x" "off + j \<le> length x" "off \<le> i" "i < off + j" for off j i
    using that nth_slice [of off j y "i - off"] nth_slice [of off j x "i - off"] l by simp
  fix i
  assume "i < length y"
  then show "y ! i = x ! i"
    using s [OF assms(2,5)] s [OF assms(3,6)] s [OF assms(4,7)] assms(1) l by (auto simp: changes_only_def)
qed

section \<open>Properties\<close>

text \<open>
  A new UUID can be taken back: on a superblock whose UUID was never changed the edit stores the new
  UUID and keeps the metadata's, and the edit that restores it gives back the superblock byte for byte.
\<close>

theorem uuid_set_and_restored:
  assumes "sb_END \<le> length b" "length uuid = 16" "meta_uuid b = Inr meta" "be32 b sb_FEATURES_INCOMPAT = Inr w"
    and "w AND IN_META_UUID = 0" "slice sb_META_UUID 16 b = replicate 16 0"
  shows "\<exists>b'. uuid_edit uuid meta b = Inr b' \<and> slice sb_UUID 16 b' = uuid \<and> meta_uuid b' = Inr meta \<and>
    uuid_edit meta meta b' = Inr b"
proof -
  have h: "\<not> has_meta b" by (simp add: has_meta_def assms(4,5))
  have mb: "meta = slice sb_UUID 16 b" using assms(1,3) h by (simp add: meta_uuid_eq)
  then have lm: "length meta = 16" using assms(1) by simp
  obtain b' w' where b': "uuid_edit uuid meta b = Inr b'" "slice sb_UUID 16 b' = uuid" "meta_uuid b' = Inr meta"
    "be32 b' sb_FEATURES_INCOMPAT = Inr w'" "w' AND IN_META_UUID \<noteq> 0 \<longleftrightarrow> uuid \<noteq> meta"
    "w' AND NOT IN_META_UUID = w AND NOT IN_META_UUID" "changes_only uuid_places b b'"
    using uuid_edit_keeps [OF assms(1-4)] by blast
  have l: "length b' = length b" by (rule changes_length [OF b'(7)])
  obtain c v where c: "uuid_edit meta meta b' = Inr c" "slice sb_UUID 16 c = meta"
    "be32 c sb_FEATURES_INCOMPAT = Inr v" "v AND IN_META_UUID = 0" "v AND NOT IN_META_UUID = w' AND NOT IN_META_UUID"
    "changes_only uuid_places b' c"
    using uuid_edit_keeps [OF assms(1) [folded l] lm b'(3,4)] by blast
  have lc: "length c = length b" using changes_length [OF c(6)] l by simp
  have split: "x = (x AND IN_META_UUID) OR (x AND NOT IN_META_UUID)" for x :: u32
    by (rule bit_word_eqI) (auto simp: bit_simps)
  have "v = w" using split [of v] split [of w] c(4,5) b'(6) assms(5) by simp
  moreover have "slice 216 4 y = to_be 4 x" if "be32 y sb_FEATURES_INCOMPAT = Inr x" "264 \<le> length y" for x :: u32 and y
    using that to_be_from_be [of "slice 216 4 y", where 'a = 32] by (simp add: be32_def)
  ultimately have inc: "slice 216 4 c = slice 216 4 b" using c(3) assms(1,4) lc by simp
  have meta: "slice sb_META_UUID 16 c = replicate 16 0"
  proof (cases "uuid = meta")
    case True
    have m: "slice sb_META_UUID 16 b' = replicate 16 0" and h': "\<not> has_meta b'"
      using uuid_edit_fields [OF assms(1,2,4), of meta] b'(1,4,5) h True assms(6) by (auto simp: has_meta_def)
    then show ?thesis
      using uuid_edit_fields [OF assms(1) [folded l] lm b'(4), of meta] c(1) by auto
  next
    case False
    then have "has_meta b'" using b'(4,5) by (simp add: has_meta_def)
    then show ?thesis
      using uuid_edit_fields [OF assms(1) [folded l] lm b'(4), of meta] c(1) by auto
  qed
  have "changes_only (uuid_places \<union> uuid_places) b c" by (rule changes_trans [OF b'(7) c(6)])
  then have "changes_only ({32..<32 + 16} \<union> ({216..<216 + 4} \<union> {248..<248 + 16})) b c"
    by (rule changes_mono) (auto simp: uuid_places_def)
  then have "c = b" by (rule equal_if_slices) (use c(2) mb inc meta assms(1,6) in simp_all)
  then show ?thesis using b' c(1) by blast
qed

theorem uuid_set_and_restored_witness:
  "\<exists>b'. uuid_edit (replicate 16 9) (replicate 16 0) (replicate 512 0) = Inr b' \<and> slice sb_UUID 16 b' = replicate 16 9 \<and>
     uuid_edit (replicate 16 0) (replicate 16 0) b' = Inr (replicate 512 0)"
proof -
  have z: "slice off 16 (replicate 512 (0 :: u8)) = replicate 16 0" if "off \<le> 400" for off
    using that by (simp add: slice_def)
  have w: "be32 (replicate 512 0) sb_FEATURES_INCOMPAT = Inr 0" by (simp add: be32_def slice_def from_be_def numeral_eq_Suc)
  have "meta_uuid (replicate 512 0) = Inr (replicate 16 0)" by (simp add: meta_uuid_eq has_meta_def w z)
  from uuid_set_and_restored [OF _ _ this w, of "replicate 16 9"] show ?thesis by (auto simp: z)
qed

end
