(* ===== verification/Admin_Device.thy ===== *)
theory Admin_Device
  imports Sb_Edit
begin

unbundle bit_operations_syntax

section \<open>The operations on a device\<close>

text \<open>
  \<open>sb_room\<close>: the superblocks of the geometry lie on the device, a block each, in whole sectors.
  \<open>superblocks_ok\<close>: every one of them passes the check of \<^verbatim>\<open>read_sb\<close>. An edit of a superblock is
  \<open>edits\<close> when it succeeds, keeps the length and the magic number. Then the loop over the groups replaces each
  superblock by its edited one and changes nothing else on the device.
\<close>

definition sb_block :: "geo \<Rightarrow> (nat \<Rightarrow> u8) \<Rightarrow> nat \<Rightarrow> bytes" where
  "sb_block G c a = map c [a * geo_agblocks G * geo_blocksize G..<a * geo_agblocks G * geo_blocksize G + geo_blocksize G]"

definition in_superblock :: "geo \<Rightarrow> nat \<Rightarrow> nat \<Rightarrow> bool" where
  "in_superblock G a i \<longleftrightarrow> a * geo_agblocks G * geo_blocksize G \<le> i \<and> i < a * geo_agblocks G * geo_blocksize G + geo_blocksize G"

definition sb_room :: "'d dev_ops \<Rightarrow> ('d \<Rightarrow> nat) \<Rightarrow> 'd \<Rightarrow> geo \<Rightarrow> bool" where
  "sb_room D sector d G \<longleftrightarrow> sb_END \<le> geo_sectsize G \<and> geo_sectsize G \<le> geo_blocksize G \<and> 0 < geo_agblocks G \<and>
     sector d dvd geo_blocksize G \<and> (\<forall>a<geo_agcount G. a * geo_agblocks G * geo_blocksize G + geo_blocksize G \<le> dev_size D d)"

definition superblocks_ok :: "geo \<Rightarrow> (nat \<Rightarrow> u8) \<Rightarrow> bool" where
  "superblocks_ok G c \<longleftrightarrow> (\<forall>a<geo_agcount G. check_sb G a (sb_block G c a) = Inr (sb_block G c a))"

definition edits :: "geo \<Rightarrow> (bytes \<Rightarrow> error + bytes) \<Rightarrow> bool" where
  "edits G f \<longleftrightarrow> (\<forall>b. sb_END \<le> length b \<longrightarrow>
     (\<exists>b'. f b = Inr b' \<and> length b' = length b \<and> slice sb_MAGICNUM 4 b' = slice sb_MAGICNUM 4 b))"

definition sb_rewrite :: "geo \<Rightarrow> (bytes \<Rightarrow> error + bytes) \<Rightarrow> bytes \<Rightarrow> bytes" where
  "sb_rewrite G f b = the_bytes (and_then (f b) (sb_to_disk G))"

lemma length_sb_block [simp]: "length (sb_block G c a) = geo_blocksize G"
  by (simp add: sb_block_def)

lemma nth_sb_block: "i < geo_blocksize G \<Longrightarrow> sb_block G c a ! i = c (a * geo_agblocks G * geo_blocksize G + i)"
  by (simp add: sb_block_def)

lemma superblocks_apart:
  assumes "0 < geo_agblocks G" "in_superblock G a i" "in_superblock G b i"
  shows "a = b"
proof (rule ccontr)
  have *: "\<not> (in_superblock G x i \<and> in_superblock G y i)" if "x < y" for x y
  proof -
    have "x * geo_agblocks G + 1 \<le> y * geo_agblocks G"
      using that assms(1) mult_le_mono1 [of "Suc x" y "geo_agblocks G"] by simp
    then have "(x * geo_agblocks G + 1) * geo_blocksize G \<le> y * geo_agblocks G * geo_blocksize G" by (rule mult_le_mono1)
    then show ?thesis by (auto simp: in_superblock_def)
  qed
  assume "a \<noteq> b"
  then show False using assms(2,3) * [of a b] * [of b a] by (cases a b rule: linorder_cases) auto
qed

lemma sb_block_cong:
  assumes "\<And>i. in_superblock G a i \<Longrightarrow> c' i = c i"
  shows "sb_block G c' a = sb_block G c a"
  using assms by (auto simp: sb_block_def in_superblock_def)

lemma sb_rewrite_ok:
  assumes "edits G f" "sb_END \<le> geo_sectsize G" "geo_sectsize G \<le> length b" "check_sb G a b = Inr b"
  shows "and_then (f b) (sb_to_disk G) = Inr (sb_rewrite G f b)" "length (sb_rewrite G f b) = length b"
    "check_sb G a (sb_rewrite G f b) = Inr (sb_rewrite G f b)"
proof -
  have "sb_END \<le> length b" using assms(2,3) by simp
  then obtain b1 where b1: "f b = Inr b1" "length b1 = length b" "slice 0 4 b1 = slice 0 4 b"
    using assms(1) unfolding edits_def by blast
  obtain b2 where b2: "sb_to_disk G b1 = Inr b2" "changes_only rewritten b1 b2"
    "verify (slice 0 (geo_sectsize G) b2) sb_CRC = Inr True"
    using sb_to_disk_changes [of G b1] assms(2,3) b1(2) by auto
  have l: "length b2 = length b" using changes_length [OF b2(2)] b1(2) by simp
  have r: "sb_rewrite G f b = b2" by (simp add: sb_rewrite_def b1(1) b2(1))
  show "and_then (f b) (sb_to_disk G) = Inr (sb_rewrite G f b)" by (simp add: r b1(1) b2(1))
  show "length (sb_rewrite G f b) = length b" by (simp add: r l)
  have "be32 b2 0 = be32 b1 0" using assms(2,3) b1(2) by (intro changes_words(1) [OF b2(2)]) (auto simp: rewritten_def)
  also have "\<dots> = be32 b 0" using assms(2,3) b1(2,3) by (simp add: be32_def)
  finally show "check_sb G a (sb_rewrite G f b) = Inr (sb_rewrite G f b)"
    using assms(3,4) b2(3) l by (auto simp: check_sb_def r and_then_eq_Inr split: if_splits)
qed

context block_device
begin

lemma sb_position:
  assumes "good d" "sb_room D sector d G" "a < geo_agcount G"
  shows "sb_offset G a = a * geo_agblocks G * geo_blocksize G"
    "accepts D sector d (a * geo_agblocks G * geo_blocksize G) (geo_blocksize G)"
proof -
  have e: "a * geo_agblocks G * geo_blocksize G + geo_blocksize G \<le> dev_size D d" and b: "0 < geo_blocksize G"
    using assms(2,3) by (auto simp: sb_room_def)
  then have lt: "a * geo_agblocks G * geo_blocksize G < 2 ^ 64" using size_le [OF assms(1)] by simp
  have "a * geo_agblocks G \<le> a * geo_agblocks G * geo_blocksize G" using b by (cases "geo_blocksize G") simp_all
  then have "mul64 a (geo_agblocks G) = a * geo_agblocks G" by (intro nowrap le_less_trans [OF _ lt])
  then show "sb_offset G a = a * geo_agblocks G * geo_blocksize G" using lt by (simp add: sb_offset_def nowrap)
  show "accepts D sector d (a * geo_agblocks G * geo_blocksize G) (geo_blocksize G)"
    using e assms(2) by (simp add: accepts_def sb_room_def)
qed

lemma read_sb_ok:
  assumes "good d" "sb_room D sector d G" "a < geo_agcount G"
  shows "read_sb D G d a = check_sb G a (sb_block G (content d) a)"
  using sb_position [OF assms] read_at [OF assms(1)] by (simp add: read_sb_def sb_block_def)

lemma edit_sb_ok:
  assumes "good d" "sb_room D sector d G" "a < geo_agcount G" "edits G f"
    and "check_sb G a (sb_block G (content d) a) = Inr (sb_block G (content d) a)"
  shows "\<exists>d'. edit_sb D G f a d = Inr d' \<and> good d' \<and> same_device D sector d d' \<and>
    content d' = overwrite (content d) (a * geo_agblocks G * geo_blocksize G) (sb_rewrite G f (sb_block G (content d) a))"
proof -
  define b where "b = sb_block G (content d) a"
  have r: "and_then (f b) (sb_to_disk G) = Inr (sb_rewrite G f b)" "length (sb_rewrite G f b) = geo_blocksize G"
    using sb_rewrite_ok [of G f b a] assms(2,4,5) by (simp_all add: b_def sb_room_def)
  then obtain b1 where b1: "f b = Inr b1" "sb_to_disk G b1 = Inr (sb_rewrite G f b)" by (auto simp: and_then_eq_Inr)
  have "edit_sb D G f a d = dev_write_at D d (a * geo_agblocks G * geo_blocksize G) (sb_rewrite G f b)"
    using read_sb_ok [OF assms(1-3)] assms(5) b1 sb_position(1) [OF assms(1-3)]
    by (simp add: edit_sb_def write_sb_def flip: b_def)
  then show ?thesis
    using write_at [OF assms(1), of "a * geo_agblocks G * geo_blocksize G" "sb_rewrite G f b"] sb_position(2) [OF assms(1-3)] r(2)
    by (simp flip: b_def)
qed

lemma edit_loop:
  assumes "good d" "sb_room D sector d G" "edits G f" "superblocks_ok G (content d)" "k \<le> geo_agcount G"
  shows "\<exists>d'. try_fold (edit_sb D G f) [0..<k] d = Inr d' \<and> good d' \<and> same_device D sector d d' \<and>
    (\<forall>a<geo_agcount G. sb_block G (content d') a =
      (if a < k then sb_rewrite G f (sb_block G (content d) a) else sb_block G (content d) a)) \<and>
    (\<forall>i. (\<forall>a<geo_agcount G. \<not> in_superblock G a i) \<longrightarrow> content d' i = content d i)"
  using assms(5)
proof (induction k)
  case (Suc k)
  then obtain d1 where d1: "try_fold (edit_sb D G f) [0..<k] d = Inr d1" "good d1" "same_device D sector d d1"
    and b1: "\<forall>a<geo_agcount G. sb_block G (content d1) a =
      (if a < k then sb_rewrite G f (sb_block G (content d) a) else sb_block G (content d) a)"
    and o1: "\<forall>i. (\<forall>a<geo_agcount G. \<not> in_superblock G a i) \<longrightarrow> content d1 i = content d i"
    by auto
  have k: "k < geo_agcount G" using Suc.prems by simp
  define x where "x = sb_rewrite G f (sb_block G (content d) k)"
  have room: "sb_room D sector d1 G" using assms(2) d1(3) by (simp add: sb_room_def same_device_def)
  have bk: "sb_block G (content d1) k = sb_block G (content d) k" using b1 k by simp
  have ck: "check_sb G k (sb_block G (content d) k) = Inr (sb_block G (content d) k)"
    using assms(4) k by (simp add: superblocks_ok_def)
  obtain d2 where d2: "edit_sb D G f k d1 = Inr d2" "good d2" "same_device D sector d1 d2"
    "content d2 = overwrite (content d1) (k * geo_agblocks G * geo_blocksize G) x"
    using edit_sb_ok [OF d1(2) room k assms(3)] bk ck by (auto simp: x_def)
  have lx: "length x = geo_blocksize G"
    using sb_rewrite_ok(2) [OF assms(3) _ _ ck] assms(2) by (simp add: x_def sb_room_def)
  have other: "content d2 i = content d1 i" if "\<not> in_superblock G k i" for i
    using that lx by (auto simp: d2(4) overwrite_def in_superblock_def)
  have "sb_block G (content d2) k = x"
    using lx by (intro nth_equalityI) (simp_all add: nth_sb_block d2(4) overwrite_def)
  moreover have "sb_block G (content d2) a = sb_block G (content d1) a" if "a \<noteq> k" for a
    using superblocks_apart [of G a _ k] that other assms(2) by (intro sb_block_cong) (auto simp: sb_room_def)
  ultimately have "\<forall>a<geo_agcount G. sb_block G (content d2) a =
      (if a < Suc k then sb_rewrite G f (sb_block G (content d) a) else sb_block G (content d) a)"
    using b1 by (auto simp: x_def less_Suc_eq)
  moreover have "\<forall>i. (\<forall>a<geo_agcount G. \<not> in_superblock G a i) \<longrightarrow> content d2 i = content d i"
    using o1 other k by simp
  moreover have "try_fold (edit_sb D G f) [0..<Suc k] d = Inr d2" using d1(1) d2(1) by (simp add: try_fold_append)
  ultimately show ?case using d2(2) same_device_trans [OF d1(3) d2(3)] by blast
qed (use assms(1) in simp)

lemma edit_sbs_ok:
  assumes "good d" "sb_room D sector d G" "edits G f" "superblocks_ok G (content d)"
  shows "\<exists>d'. edit_sbs D G f d = Inr d' \<and> good d' \<and> same_device D sector d d' \<and> superblocks_ok G (content d') \<and>
    (\<forall>a<geo_agcount G. sb_block G (content d') a = sb_rewrite G f (sb_block G (content d) a)) \<and>
    (\<forall>i. (\<forall>a<geo_agcount G. \<not> in_superblock G a i) \<longrightarrow> content d' i = content d i)"
proof -
  obtain d1 where d1: "try_fold (edit_sb D G f) [0..<geo_agcount G] d = Inr d1" "good d1" "same_device D sector d d1"
    and b1: "\<forall>a<geo_agcount G. sb_block G (content d1) a = sb_rewrite G f (sb_block G (content d) a)"
    and o1: "\<forall>i. (\<forall>a<geo_agcount G. \<not> in_superblock G a i) \<longrightarrow> content d1 i = content d i"
    using edit_loop [OF assms order_refl] by auto
  obtain d2 where d2: "dev_flush D d1 = Inr d2" "good d2" "same_device D sector d1 d2" "content d2 = content d1"
    using flush [OF d1(2)] by blast
  have "superblocks_ok G (content d1)"
    using b1 assms(2,4) sb_rewrite_ok(3) [OF assms(3)] by (simp add: superblocks_ok_def sb_room_def)
  then show ?thesis
    using d1 d2 b1 o1 same_device_trans [OF d1(3) d2(3)] by (intro exI [of _ d2]) (simp add: edit_sbs_def)
qed

end

subsection \<open>What a reader of the geometry looks at\<close>

definition geo_places :: "nat set" where
  "geo_places = {0..<16} \<union> {48..<56} \<union> {84..<92} \<union> {96..<106} \<union> {120..<125} \<union> {194..<200} \<union> {212..<220}"

text \<open>Every field but the incompatible features, at 216, reads as it was.\<close>

lemma geo_reads:
  assumes "changes_only S b b'" "S \<inter> (geo_places - {216..<220}) = {}" "sb_END \<le> length b"
  shows "off \<in> {0, 4, 84, 88, 96, 196, 212} \<Longrightarrow> be32 b' off = be32 b off" "off \<in> {100, 102, 104, 194} \<Longrightarrow> be16 b' off = be16 b off"
    "off \<in> {8, 48} \<Longrightarrow> be64 b' off = be64 b off" "off \<in> {120, 123, 124} \<Longrightarrow> byte b' off = byte b off"
proof -
  have d: "A \<inter> S = {}" if "A \<subseteq> geo_places - {216..<220}" for A using that assms(2) by blast
  have g: "{off..<off + k} \<subseteq> geo_places - {216..<220}"
    if "off + k \<le> 16 \<or> 48 \<le> off \<and> off + k \<le> 56 \<or> 84 \<le> off \<and> off + k \<le> 92 \<or>
      96 \<le> off \<and> off + k \<le> 106 \<or> 120 \<le> off \<and> off + k \<le> 125 \<or> 194 \<le> off \<and> off + k \<le> 200 \<or> 212 \<le> off \<and> off + k \<le> 216"
    for off k :: nat
    using that by (auto simp: geo_places_def)
  show "be32 b' off = be32 b off" if "off \<in> {0, 4, 84, 88, 96, 196, 212}"
    by (rule changes_words(1) [OF assms(1) d [OF g]]) (use that assms(3) in auto)
  show "be16 b' off = be16 b off" if "off \<in> {100, 102, 104, 194}"
    by (rule changes_words(3) [OF assms(1) d [OF g]]) (use that assms(3) in auto)
  show "be64 b' off = be64 b off" if "off \<in> {8, 48}"
    by (rule changes_words(2) [OF assms(1) d [OF g]]) (use that assms(3) in auto)
  show "byte b' off = byte b off" if "off \<in> {120, 123, 124}"
  proof -
    have "{off..<off + 1} \<inter> S = {}" by (rule d [OF g]) (use that in auto)
    moreover have "off < length b" using that assms(3) by auto
    ultimately show ?thesis using assms(1) by (auto simp: byte_def changes_only_def)
  qed
qed

lemma geo_parse_changes:
  assumes "changes_only S b b'" "S \<inter> geo_places = {}" "sb_END \<le> length b"
  shows "geo_parse b' = geo_parse b"
proof -
  have S: "S \<inter> (geo_places - {216..<220}) = {}" using assms(2) by blast
  note r = geo_reads [OF assms(1) S assms(3)]
  have "{216..<216 + 4} \<inter> S = {}" using assms(2) by (auto simp: geo_places_def)
  then have "be32 b' 216 = be32 b 216" using assms(3) by (intro changes_words(1) [OF assms(1)]) auto
  then show ?thesis
    by (simp add: geo_parse_def geo_fields_def r cong: if_cong)
qed

lemma geo_parse_incompat:
  assumes "changes_only S b b'" "S \<inter> (geo_places - {216..<220}) = {}" "sb_END \<le> length b"
    and "geo_parse b = Inr G" "be32 b' sb_FEATURES_INCOMPAT = Inr w"
  shows "geo_parse b' = Inr (G\<lparr>geo_incompat := w\<rparr>)"
proof -
  note r = geo_reads [OF assms(1-3)]
  have f: "geo_fields b = Inr G" "geo_sane G" using assms(4) by (auto simp: geo_parse_def and_then_eq_Inr split: if_splits)
  from f(1) have "geo_fields b' = Inr (G\<lparr>geo_incompat := w\<rparr>)"
    using assms(5) by (auto simp: geo_fields_def r and_then_eq_Inr)
  moreover have "geo_sane (G\<lparr>geo_incompat := w\<rparr>)" using f(2) by (simp add: geo_sane_def)
  ultimately show ?thesis
    using assms(4) by (auto simp: geo_parse_def r and_then_eq_Inr split: if_splits)
qed

lemma sb_rewrite_changes:
  assumes "f b = Inr b1" "changes_only S b b1" "geo_sectsize G \<le> length b" "sb_END \<le> geo_sectsize G"
  shows "changes_only (S \<union> rewritten) b (sb_rewrite G f b)" "changes_only rewritten b1 (sb_rewrite G f b)"
proof -
  obtain b2 where "sb_to_disk G b1 = Inr b2" "changes_only rewritten b1 b2"
    using sb_to_disk_changes [of G b1] assms(3,4) changes_length [OF assms(2)] by auto
  then show "changes_only rewritten b1 (sb_rewrite G f b)" "changes_only (S \<union> rewritten) b (sb_rewrite G f b)"
    using changes_trans [OF assms(2)] by (simp_all add: sb_rewrite_def assms(1))
qed

lemma fs_open_InrD:
  assumes "fs_open D d = Inr fs"
  shows "inspect_geometry D d = Inr (fs_geo fs)" "read_sb D (fs_geo fs) d 0 = Inr (fs_primary fs)" "geo_sane (fs_geo fs)"
    "geo_logstart (fs_geo fs) \<noteq> 0"
proof -
  show g: "inspect_geometry D d = Inr (fs_geo fs)" "read_sb D (fs_geo fs) d 0 = Inr (fs_primary fs)" "geo_logstart (fs_geo fs) \<noteq> 0"
    using assms by (auto simp: fs_open_def split: if_splits)
  then show "geo_sane (fs_geo fs)"
    by (auto simp: inspect_geometry_def geo_parse_def Let_def and_then_eq_Inr split: if_splits)
qed

context block_device
begin

text \<open>The first read of \<^verbatim>\<open>inspect::geometry\<close> sees the primary superblock.\<close>

lemma geometry_of_primary:
  assumes "good d" "sb_room D sector d G" "512 \<le> geo_blocksize G" "dev_logical D d \<le> geo_blocksize G" "0 < geo_agcount G"
  shows "inspect_geometry D d = geo_parse (sb_block G (content d) 0)"
proof -
  have sz: "geo_blocksize G \<le> dev_size D d" using assms(2,5) by (auto simp: sb_room_def)
  define n where "n = min (max (dev_logical D d) 512) (dev_size D d)"
  note acc = first_read [OF assms(1,4,3) sz, folded n_def]
  have "sb_prefix (sb_block G (content d) 0) (map (content d) [0..<n])"
  proof -
    have "264 \<le> geo_blocksize G" "264 \<le> n" using assms(2,3) acc(2) by (auto simp: sb_room_def n_def)
    then show ?thesis
      unfolding sb_prefix_def by (auto simp: sb_block_def intro!: nth_equalityI)
  qed
  then show ?thesis
    using read_at [OF assms(1) acc(1)] geo_parse_prefix by (simp add: inspect_geometry_def inspect_read_def Let_def n_def)
qed

end

subsection \<open>The label\<close>

lemma editsI:
  assumes "\<And>b. sb_END \<le> length b \<Longrightarrow> \<exists>b'. f b = Inr b' \<and> changes_only S b b'" "{0..<4} \<inter> S = {}"
  shows "edits G f"
  unfolding edits_def
proof (intro allI impI)
  fix b :: bytes
  assume l: "sb_END \<le> length b"
  then obtain b' where b': "f b = Inr b'" "changes_only S b b'" using assms(1) by blast
  have "slice 0 4 b' = slice 0 4 b" using assms(2) l by (intro changes_slice [OF b'(2)]) simp_all
  then show "\<exists>b'. f b = Inr b' \<and> length b' = length b \<and> slice sb_MAGICNUM 4 b' = slice sb_MAGICNUM 4 b"
    using b' changes_length by blast
qed

lemma label_edits:
  assumes "length fname = 12"
  shows "edits G (write_slice sb_FNAME fname)"
proof (rule editsI)
  fix b :: bytes
  assume "sb_END \<le> length b"
  then show "\<exists>b'. write_slice sb_FNAME fname b = Inr b' \<and> changes_only {108..<120} b b'"
    using write_changes [of sb_FNAME fname b] assms by auto
qed auto

lemma padded_label: "length lab \<le> LABEL_MAX \<Longrightarrow>
    write_slice 0 lab (replicate LABEL_MAX 0) = Inr (lab @ replicate (12 - length lab) 0)"
  by (simp add: write_slice_def splice_def LABEL_MAX_def)

end
