(* ===== verification/Admin_Format.thy ===== *)
theory Admin_Format
  imports Admin_Device
begin

unbundle bit_operations_syntax

section \<open>Administration of a formatted device\<close>

text \<open>
  The superblocks that the formatter leaves are what the administration commands ask for: they open, every
  group's superblock passes its check, and the log is clean. The theorems on the label and the UUID are
  stated for any device and instantiated here on a formatted one.
\<close>

definition formatted_on ::
  "'d dev_ops \<Rightarrow> ('d \<Rightarrow> bool) \<Rightarrow> ('d \<Rightarrow> nat \<Rightarrow> u8) \<Rightarrow> ('d \<Rightarrow> nat) \<Rightarrow> 'd \<Rightarrow>
   geometry \<Rightarrow> ag_plan list \<Rightarrow> bytes \<Rightarrow> timestamp \<Rightarrow> u64 \<Rightarrow> nat list \<Rightarrow> 'd \<Rightarrow> bool" where
  "formatted_on D good content sector d g plans uuid time gen order d' \<longleftrightarrow>
     format_ready D sector d g plans uuid order \<and> good d' \<and> same_device D sector d d' \<and>
     content d' = format_image (dev_size D d) g plans uuid time gen order (content d)"

abbreviation formatted ::
  "mem_device \<Rightarrow> geometry \<Rightarrow> ag_plan list \<Rightarrow> bytes \<Rightarrow> timestamp \<Rightarrow> u64 \<Rightarrow> nat list \<Rightarrow> mem_device \<Rightarrow> bool" where
  "formatted \<equiv> formatted_on mem_ops md_good md_content md_sector"

lemma geo_of_position:
  "geo_blocksize (geo_of g) = bs g" "geo_sectsize (geo_of g) = sectsize g" "geo_agcount (geo_of g) = agcount g"
  "a * geo_agblocks (geo_of g) * geo_blocksize (geo_of g) = group_at g a" "geo_agblocks (geo_of g) = agsize g"
  by (simp_all add: geo_of_def bs_def group_at_def)

lemma formatted_room:
  assumes "formatted_on D good content sector d g plans uuid time gen order d'"
  shows "sb_room D sector d' (geo_of g)"
proof -
  have r: "format_ready D sector d g plans uuid order" and s: "same_device D sector d d'"
    using assms by (simp_all add: formatted_on_def)
  note g = ready_geometry [OF r]
  have "group_at g a + bs g \<le> dev_size D d" if a: "a < agcount g" for a
  proof -
    have "0 < ag_blocks g a" using ag_blocks_bounds(1) [OF g(1,2) a] by simp
    then have "1 * bs g \<le> ag_blocks g a * bs g" by (intro mult_le_mono1) simp
    then show ?thesis using ready_space(3) [OF r a] g(4) by linarith
  qed
  then show ?thesis
    using head_sizes(1) [OF g(1)] sector_below(1) [OF r] geometry_okD(18) [OF g(1)] g(5) s
    by (simp add: sb_room_def geo_of_position same_device_def group_at_def)
qed

lemma formatted_sb:
  assumes f: "formatted_on D good content sector d g plans uuid time gen order d'" and a: "a < agcount g"
  obtains s rest where "sb_block (geo_of g) (content d') a = s @ rest" "length s = sectsize g"
    "sb_encode g (final_sb g uuid plans a) (replicate (sectsize g) 0) = Inr s" "verify s sb_CRC = Inr True"
    "holds (sb_fields (g, final_sb g uuid plans a) (sectsize g)) s"
proof -
  have r: "format_ready D sector d g plans uuid order"
    and c: "content d' = format_image (dev_size D d) g plans uuid time gen order (content d)"
    using f by (simp_all add: formatted_on_def)
  note g = ready_geometry [OF r]
  define sbs where "sbs = final_sb g uuid plans a"
  have u: "length (s_uuid sbs) = 16" using g(3) by (simp add: sbs_def final_sb_def)
  obtain s where s: "sb_encode g sbs (replicate (sectsize g) 0) = Inr s" "length s = sectsize g" "verify s sb_CRC = Inr True"
    "holds (sb_fields (g, sbs) (sectsize g)) s"
    by (rule sb_sector [OF g(1) u])
  obtain rest where h: "head_bytes g plans uuid sbs a = s @ rest"
    using head_bytes_rest [OF r a] u s(1) by (metis the_bytes_Inr)
  have l: "length (s @ rest) = prealloc_blocks g * bs g" using ready_head(2) [OF r a u] h by simp
  have "1 * bs g \<le> prealloc_blocks g * bs g" using head_sizes(5) [OF g(1)] by (intro mult_le_mono1) simp
  then have bl: "bs g \<le> length (s @ rest)" using l by simp
  have "reads_bytes (content d') (group_at g a) (s @ rest)"
    using image_groups [OF r a, of "dev_size D d" time gen "content d"] c h by (simp add: sbs_def)
  moreover have "sb_block (geo_of g) (content d') a = map (content d') [group_at g a..<group_at g a + bs g]"
    by (simp add: sb_block_def geo_of_position group_at_def)
  ultimately have "sb_block (geo_of g) (content d') a = take (bs g) (s @ rest)"
    using bl by (intro nth_equalityI) (simp_all add: reads_bytes_iff del: take_append)
  then have "sb_block (geo_of g) (content d') a = s @ take (bs g - sectsize g) rest"
    using sector_below(1) [OF r] s(2) by simp
  then show thesis using s by (intro that) (simp_all add: sbs_def)
qed

lemma formatted_superblocks:
  assumes f: "formatted_on D good content sector d g plans uuid time gen order d'"
  shows "superblocks_ok (geo_of g) (content d')"
proof -
  have "format_ready D sector d g plans uuid order" using f by (simp add: formatted_on_def)
  note g = ready_geometry [OF this]
  have "check_sb (geo_of g) a (sb_block (geo_of g) (content d') a) = Inr (sb_block (geo_of g) (content d') a)"
    if a: "a < agcount g" for a
  proof -
    obtain s rest where s: "sb_block (geo_of g) (content d') a = s @ rest" "length s = sectsize g" "verify s sb_CRC = Inr True"
      "holds (sb_fields (g, final_sb g uuid plans a) (sectsize g)) s"
      by (rule formatted_sb [OF f a])
    have "be32 (s @ rest) sb_MAGICNUM = Inr sb_MAGIC"
      by (rule holds_be32 [OF holds_longer [OF s(4)]]) (simp add: sb_fields_def Let_def)
    moreover have "read_slice 0 (sectsize g) (s @ rest) = Inr s" using s(2) by (simp add: slice_def)
    ultimately show ?thesis using s by (simp add: check_sb_def geo_of_position)
  qed
  then show ?thesis by (simp add: superblocks_ok_def geo_of_position)
qed

lemma incompat_known:
  "incompat g AND IN_NEEDSREPAIR = 0" "incompat g AND NOT KNOWN_INCOMPAT = 0" "incompat g AND IN_META_UUID = 0"
  by (simp_all add: incompat_def KNOWN_INCOMPAT_def Let_def)

context block_device
begin

lemma formatted_geometry:
  assumes f: "formatted_on D good content sector d g plans uuid time gen order d'" and l: "dev_logical D d \<le> bs g"
  shows "inspect_geometry D d' = Inr (geo_of g)"
proof -
  have r: "format_ready D sector d g plans uuid order" using f by (simp add: formatted_on_def)
  note g = ready_geometry [OF r]
  obtain s rest where s: "sb_block (geo_of g) (content d') 0 = s @ rest" "length s = sectsize g"
    "sb_encode g (final_sb g uuid plans 0) (replicate (sectsize g) 0) = Inr s"
    by (rule formatted_sb [OF f g(7)])
  have "sb_prefix s (s @ rest)" using s(2) head_sizes(1) [OF g(1)] by (simp add: sb_prefix_def)
  moreover have "length (s_uuid (final_sb g uuid plans 0)) = 16" using g(3) by (simp add: final_sb_def)
  ultimately have "geo_parse (s @ rest) = Inr (geo_of g)"
    using geo_parse_prefix geo_parse_encoded [OF g(1) _ s(3)] by simp
  moreover have "512 \<le> geo_blocksize (geo_of g)" "dev_logical D d' \<le> geo_blocksize (geo_of g)" "good d'" "0 < geo_agcount (geo_of g)"
    using head_sizes(3) [OF g(1)] f l g(7) by (simp_all add: geo_of_position formatted_on_def same_device_def)
  ultimately show ?thesis using geometry_of_primary [OF _ formatted_room [OF f]] s(1) by simp
qed

lemma formatted_opens:
  assumes f: "formatted_on D good content sector d g plans uuid time gen order d'" and l: "dev_logical D d \<le> bs g"
  shows "fs_open D d' = Inr \<lparr>fs_geo = geo_of g, fs_primary = sb_block (geo_of g) (content d') 0\<rparr>"
proof -
  have r: "format_ready D sector d g plans uuid order" and good: "good d'" using f by (simp_all add: formatted_on_def)
  note g = ready_geometry [OF r]
  obtain s rest where s: "sb_block (geo_of g) (content d') 0 = s @ rest"
    "holds (sb_fields (g, final_sb g uuid plans 0) (sectsize g)) s"
    by (rule formatted_sb [OF f g(7)])
  have i: "be32 (s @ rest) sb_FEATURES_INCOMPAT = Inr (incompat g)"
    by (rule holds_be32 [OF holds_longer [OF s(2)]]) (simp add: sb_fields_def Let_def)
  have rb: "be64 (s @ rest) sb_RBLOCKS = Inr 0"
    by (rule holds_be64 [OF holds_longer [OF s(2)]]) (simp add: sb_fields_def Let_def)
  have "geo_logstart (geo_of g) \<noteq> 0"
  proof -
    have "log_agbno g < agsize g" using geometry_okD(24,26) [OF g(1)] by simp
    then show ?thesis using agb_to_fsb_eq(1) [OF g(1,10)] log_region(3) [OF r] by (simp add: geo_of_def logstart_def)
  qed
  moreover have "check_sb (geo_of g) 0 (s @ rest) = Inr (s @ rest)"
    using formatted_superblocks [OF f] g(7) unfolding superblocks_ok_def geo_of_position s(1) [symmetric] by blast
  then have "read_sb D (geo_of g) d' 0 = Inr (s @ rest)"
    using read_sb_ok [OF good formatted_room [OF f], of 0] g(7) s(1) by (simp add: geo_of_position)
  ultimately show ?thesis
    using formatted_geometry [OF f l] i rb incompat_known [of g] s(1) by (simp add: fs_open_def)
qed

end

lemma sample_formatted:
  obtains plans d' where "formatted sample_device geometry_512m plans (replicate 16 7) \<lparr>secs = 0, nsecs = 0\<rparr> 42 [3, 1, 0, 2] d'"
    "md_logical sample_device \<le> bs geometry_512m"
proof -
  obtain plans where r: "format_ready mem_ops md_sector sample_device geometry_512m plans (replicate 16 7) [3, 1, 0, 2]"
    by (rule sample_ready)
  obtain d' where "md_good d'" "same_device mem_ops md_sector sample_device d'"
    "md_content d' = format_image (md_size sample_device) geometry_512m plans (replicate 16 7) \<lparr>secs = 0, nsecs = 0\<rparr> 42
      [3, 1, 0, 2] (md_content sample_device)"
    using mem.format_image_left [OF sample_facts(1) r] by auto
  then have "formatted sample_device geometry_512m plans (replicate 16 7) \<lparr>secs = 0, nsecs = 0\<rparr> 42 [3, 1, 0, 2] d'"
    using r by (simp add: formatted_on_def)
  moreover have "md_logical sample_device \<le> bs geometry_512m" by (simp add: sample_facts bs_def geometry_512m_def)
  ultimately show thesis by (rule that)
qed

subsection \<open>The log\<close>

definition log_sunit :: "geometry \<Rightarrow> nat" where
  "log_sunit g = (if sectsize g > 512 then bs g else 0)"

definition log_bbs :: "geometry \<Rightarrow> nat" where
  "log_bbs g = logblocks g * bs g div 512"

lemma bs_facts:
  assumes "geometry_ok g"
  shows "512 dvd bs g" "bs g dvd WINDOW" "bs g \<le> 16384" "1024 \<le> bs g" "log_bbs g * 512 = logblocks g * bs g" "TOTAL_REC_BBS \<le> log_bbs g"
proof -
  note g = geometry_okD [OF assms]
  show d: "512 dvd bs g" using g(1,2) le_imp_power_dvd [of 9 "blocklog g" "2::nat"] by (simp add: bs_def)
  show "bs g dvd WINDOW" using g(1,3) le_imp_power_dvd [of "blocklog g" 18 "2::nat"] by (simp add: bs_def WINDOW_def)
  have "(2::nat) ^ blocklog g \<le> 2 ^ 14" using g(3) by (intro power_increasing) simp_all
  then show "bs g \<le> 16384" using g(1) by (simp add: bs_def)
  show "1024 \<le> bs g" by (rule head_sizes(3) [OF assms])
  show n: "log_bbs g * 512 = logblocks g * bs g" using d by (simp add: log_bbs_def)
  have "64 * 2 ^ 20 \<le> logblocks g * blocksize g" using assms unfolding geometry_ok_def by blast
  then show "TOTAL_REC_BBS \<le> log_bbs g" using n by (simp add: bs_def TOTAL_REC_BBS_def BBSIZE_def)
qed

lemma log_position:
  assumes r: "format_ready D sector d g plans uuid order"
  shows "shr64 (logstart g) (agblklog g) = logagno g" "logstart g AND sub64 (shl64 1 (agblklog g)) 1 = log_agbno g"
    "log_agbno g < ag_blocks g (logagno g)" "mul64 (logblocks g) (bs g) = logblocks g * bs g"
proof -
  note g = ready_geometry [OF r]
  have b: "log_agbno g < agsize g" using geometry_okD(24,26) [OF g(1)] by simp
  note f = agb_to_fsb_eq [OF g(1,10) b] and k = geometry_okD(22) [OF g(1)]
  have "shl64 1 (agblklog g) = 2 ^ agblklog g" using k by (intro shl64_one) simp
  moreover have "sub64 (2 ^ agblklog g) 1 = 2 ^ agblklog g - 1"
    using k power_increasing [of "agblklog g" 30 "2::nat"] by (intro nowrap) simp_all
  ultimately have "logstart g AND sub64 (shl64 1 (agblklog g)) 1 = logstart g mod 2 ^ agblklog g"
    by (simp add: take_bit_eq_mask mask_eq_exp_minus_1 flip: take_bit_eq_mod)
  then show "logstart g AND sub64 (shl64 1 (agblklog g)) 1 = log_agbno g"
    using f(1,2) by (simp add: logstart_def)
  show "shr64 (logstart g) (agblklog g) = logagno g" using f(1,2) k by (simp add: shr64_def logstart_def)
  show "log_agbno g < ag_blocks g (logagno g)"
    using plan_ag_InrD(4) [OF g(1,2,10) ready_plans(1) [OF r g(10)]] geometry_okD(24) [OF g(1)] min_freelist_bounds(1) [of g]
    by (simp add: group_start_def)
  have "logblocks g * blocksize g \<le> MAX_LOG_BYTES" using g(1) unfolding geometry_ok_def by blast
  then show "mul64 (logblocks g) (bs g) = logblocks g * bs g" by (intro nowrap) (simp add: bs_def geometry_consts)
qed

lemma log_extent_of:
  assumes r: "format_ready D sector d g plans uuid order"
  shows "log_extent (geo_of g) = (log_at g, log_bbs g)"
proof -
  note g = ready_geometry [OF r] and p = log_position [OF r]
  have "logagno g * agsize g + log_agbno g < 2 ^ 54"
    using ag_blocks_bounds(5) [OF g(1,2,10)] p(3) geometry_okD(19) [OF g(1)] by linarith
  then have a: "add64 (mul64 (logagno g) (agsize g)) (log_agbno g) = logagno g * agsize g + log_agbno g"
    by (simp add: nowrap)
  have at: "log_at g = (logagno g * agsize g + log_agbno g) * bs g"
    using agb_to_byte_eq(1) [OF g(1,2,10) p(3)] by (simp add: log_at_def bs_def)
  have "log_at g + bs g \<le> dblocks g * bs g"
    using agb_to_byte_eq(2) [OF g(1,2,10) p(3)] at by (simp add: bs_def)
  then have "log_at g < 2 ^ 64" using geometry_okD(20) [OF g(1)] by (simp add: bs_def)
  then have m: "mul64 (logagno g * agsize g + log_agbno g) (bs g) = log_at g" using at by (simp add: nowrap)
  show ?thesis
    using p a m by (simp add: log_extent_def Let_def geo_of_position log_bbs_def BBSIZE_def) (simp add: geo_of_def)
qed

lemma formatted_log_inside:
  assumes f: "formatted_on D good content sector d g plans uuid time gen order d'"
  shows "log_inside D sector d' (log_at g) (log_bbs g)"
proof -
  have r: "format_ready D sector d g plans uuid order" and s: "same_device D sector d d'"
    using f by (simp_all add: formatted_on_def)
  note g = ready_geometry [OF r] and b = bs_facts [OF g(1)]
  have gs: "group_start g (logagno g) + 4 \<le> ag_blocks g (logagno g)"
    using plan_ag_InrD(4) [OF g(1,2,10) ready_plans(1) [OF r g(10)]] min_freelist_bounds(1) [of g] by simp
  have "(prealloc_blocks g + logblocks g) * bs g \<le> ag_blocks g (logagno g) * bs g"
    using gs by (intro mult_le_mono1) (simp add: group_start_def)
  then have "log_at g + logblocks g * bs g \<le> group_at g (logagno g) + ag_blocks g (logagno g) * bs g"
    by (simp add: log_region(1) [OF r] add_mult_distrib)
  then have "log_at g + logblocks g * bs g \<le> dev_size D d"
    using ready_space(3) [OF r g(10)] g(4) by linarith
  moreover have "bs g dvd log_at g" by (simp add: log_region(1) [OF r] group_at_def)
  ultimately show ?thesis
    using g(5) s b(2,5) dvd_trans [of "sector d" "bs g"] by (auto simp: log_inside_def same_device_def)
qed

lemma log_sunit_record:
  assumes "geometry_ok g"
  shows "log_sunit g < 2 ^ 31" "record_bbs (log_sunit g) < TOTAL_REC_BBS" "record_bbs (log_sunit g) \<noteq> 512"
proof -
  have s: "log_sunit g \<le> 32 * 512" using bs_facts(3) [OF assms] by (simp add: log_sunit_def)
  then show "log_sunit g < 2 ^ 31" by simp
  have "record_hdrs (log_sunit g) = 1" using s by (simp add: record_hdrs_def HEADER_CYCLE_SIZE_def)
  moreover have "div_ceil (log_sunit g) 512 \<le> 32" using s by (rule div_ceil_le) simp
  ultimately have "record_bbs (log_sunit g) \<le> 32" by (simp add: record_bbs_def BBSIZE_def)
  then show "record_bbs (log_sunit g) < TOTAL_REC_BBS" "record_bbs (log_sunit g) \<noteq> 512" by (simp_all add: TOTAL_REC_BBS_def BBSIZE_def)
qed

lemma formatted_log:
  assumes f: "formatted_on D good content sector d g plans uuid time gen order d'"
  shows "fresh_log (log_block (content d') (log_at g)) (log_bbs g) (log_sunit g)"
proof -
  have r: "format_ready D sector d g plans uuid order"
    and c: "content d' = format_image (dev_size D d) g plans uuid time gen order (content d)"
    using f by (simp_all add: formatted_on_def)
  note g = ready_geometry [OF r] and b = bs_facts [OF g(1)]
  have su: "clear_sunit (logsunit g) (if sectsize g > 512 then lsectsize g else 0) = log_sunit g"
    using b(4) geometry_okD(7) [OF g(1)] by (simp add: clear_sunit_def logsunit_def lsunit_bytes_def log_sunit_def bs_def)
  obtain blk where blk: "first_log_block g uuid = Inr blk" "length blk = bs g"
    using first_log_block_ok [OF g(1,3)] by blast
  then obtain rec where rec: "first_record uuid (log_sunit g) = Inr rec" "write_slice 0 rec (replicate (bs g) 0) = Inr blk"
    by (auto simp: first_log_block_def Let_def su and_then_eq_Inr)
  have lr: "length rec \<le> bs g" and bl: "blk = rec @ replicate (bs g - length rec) 0"
    using write_slice_InrD [OF rec(2)] by (simp_all add: splice_def)
  have "1 * bs g \<le> logblocks g * bs g" using log_region(4) [OF r] by (intro mult_le_mono1) simp
  then have "blk @ replicate (logblocks g * bs g - length blk) 0 = rec @ replicate (log_bbs g * 512 - length rec) 0"
    using lr unfolding bl b(5) by (simp flip: replicate_add)
  then have "reads_bytes (content d') (log_at g) (rec @ replicate (log_bbs g * 512 - length rec) 0)"
    using image_log [OF r blk(1), of "dev_size D d" time gen "content d"] c by simp
  then show ?thesis
    using b(3,6) log_sunit_record [OF g(1)] by (intro record_is_fresh [OF g(3) _ _ rec(1)]) simp_all
qed

context block_device
begin

lemma device_find_tail:
  assumes "good d" "log_extent G = (st, n)" "log_inside D sector d st n" "TOTAL_REC_BBS \<le> n"
  shows "fs_find_tail D \<lparr>fs_geo = G, fs_primary = p\<rparr> d =
    and_then (find_tail (plain (log_block (content d) st)) n ()) (\<lambda>(x, _). Inr x)"
proof -
  obtain lr where lr: "log_reader_new st n = Inr lr" using assms(4) by (simp add: log_reader_new_def)
  have "and_then (find_tail (lr_bb D d) n lr) (\<lambda>(x, _). Inr x) =
      and_then (find_tail (plain (log_block (content d) st)) n ()) (\<lambda>(x, _). Inr x)"
    using log_reader_new_ok [OF lr] assms(1,3) by (intro agrees_value [OF log_source.tail [OF window_source]]) auto
  then show ?thesis by (simp add: fs_find_tail_def assms(2) lr)
qed

text \<open>The effect of a label.\<close>

lemma label_effect:
  assumes "good d" "fs_open D d = Inr fs" "sb_room D sector d (fs_geo fs)"
    and "superblocks_ok (fs_geo fs) (content d)" "dev_logical D d \<le> geo_blocksize (fs_geo fs)"
    and "length lab \<le> LABEL_MAX" "0 \<notin> set lab"
  shows "\<exists>d'. set_label D lab d = Inr d' \<and> good d' \<and> same_device D sector d d' \<and> superblocks_ok (fs_geo fs) (content d') \<and>
    (\<forall>a<geo_agcount (fs_geo fs).
      slice sb_FNAME 12 (sb_block (fs_geo fs) (content d') a) = lab @ replicate (12 - length lab) 0 \<and>
      changes_only ({sb_FNAME..<sb_FNAME + 12} \<union> rewritten) (sb_block (fs_geo fs) (content d) a) (sb_block (fs_geo fs) (content d') a)) \<and>
    (\<forall>i. (\<forall>a<geo_agcount (fs_geo fs). \<not> in_superblock (fs_geo fs) a i) \<longrightarrow> content d' i = content d i) \<and>
    inspect_geometry D d' = Inr (fs_geo fs)"
proof -
  define G where "G = fs_geo fs"
  define fname where "fname = lab @ replicate (12 - length lab) 0"
  have lf: "length fname = 12" using assms(6) by (simp add: fname_def LABEL_MAX_def)
  have open': "inspect_geometry D d = Inr G" "geo_sane G" using fs_open_InrD [OF assms(2)] by (simp_all add: G_def)
  have big: "512 \<le> geo_blocksize G" "0 < geo_agcount G" and ss: "sb_END \<le> geo_sectsize G" "geo_sectsize G \<le> geo_blocksize G"
    using open'(2) by (simp_all add: geo_sane_def)
  note e = edit_sbs_ok [OF assms(1,3) label_edits [OF lf] assms(4), folded G_def]
  obtain d' where d': "edit_sbs D G (write_slice sb_FNAME fname) d = Inr d'" "good d'"
    "same_device D sector d d'" "superblocks_ok G (content d')"
    and b: "\<forall>a<geo_agcount G. sb_block G (content d') a = sb_rewrite G (write_slice sb_FNAME fname) (sb_block G (content d) a)"
    and out: "\<forall>i. (\<forall>a<geo_agcount G. \<not> in_superblock G a i) \<longrightarrow> content d' i = content d i"
    using e by blast
  have set: "set_label D lab d = Inr d'"
    using assms(2,6,7) d'(1) padded_label [OF assms(6)] by (simp add: set_label_def G_def fname_def)
  have each: "slice sb_FNAME 12 (sb_block G (content d') a) = fname"
    "changes_only ({108..<120} \<union> rewritten) (sb_block G (content d) a) (sb_block G (content d') a)" if a: "a < geo_agcount G" for a
  proof -
    obtain b1 where b1: "write_slice sb_FNAME fname (sb_block G (content d) a) = Inr b1"
      "changes_only {108..<120} (sb_block G (content d) a) b1" "slice sb_FNAME 12 b1 = fname"
      using write_changes [of sb_FNAME fname "sb_block G (content d) a"] lf ss by auto
    have "geo_sectsize G \<le> length (sb_block G (content d) a)" using ss by simp
    note ch = sb_rewrite_changes [where f = "write_slice sb_FNAME fname", OF b1(1,2) this ss(1)]
    show "changes_only ({108..<120} \<union> rewritten) (sb_block G (content d) a) (sb_block G (content d') a)"
      using ch(1) b a by simp
    have "slice sb_FNAME 12 (sb_rewrite G (write_slice sb_FNAME fname) (sb_block G (content d) a)) = slice sb_FNAME 12 b1"
      using ss changes_length [OF b1(2)] by (intro changes_slice [OF ch(2)]) (auto simp: rewritten_def)
    then show "slice sb_FNAME 12 (sb_block G (content d') a) = fname" using b a b1(3) by simp
  qed
  have room': "sb_room D sector d' G" "dev_logical D d' \<le> geo_blocksize G"
    using assms(3,5) d'(3) by (simp_all add: sb_room_def same_device_def G_def)
  have "inspect_geometry D d' = geo_parse (sb_block G (content d') 0)"
    by (rule geometry_of_primary [OF d'(2) room'(1) big(1) room'(2) big(2)])
  also have "\<dots> = geo_parse (sb_block G (content d) 0)"
  proof (rule geo_parse_changes [OF each(2) [OF big(2)]])
    show "({108..<120} \<union> rewritten) \<inter> geo_places = {}" by (auto simp: rewritten_def geo_places_def)
  qed (use ss in simp)
  also have "\<dots> = inspect_geometry D d"
    using geometry_of_primary [OF assms(1) assms(3) [folded G_def] big(1) assms(5) [folded G_def] big(2)] by simp
  finally show ?thesis
    using set d'(2-4) each out open'(1) unfolding G_def [symmetric] fname_def by (intro exI [of _ d']) simp
qed

end

section \<open>Properties\<close>

text \<open>
  Setting a label works on every filesystem that opens and whose superblocks are sound, and is
  confined to them: afterwards every group's superblock passes its check and holds the label padded with zeros,
  nothing in it has changed but the label and the fields \<^verbatim>\<open>libxfs\<close> rewrites, no byte outside the superblocks
  has changed, and the reader finds the same geometry.
\<close>

theorem label_set:
  assumes "md_good d" "fs_open mem_ops d = Inr fs" "sb_room mem_ops md_sector d (fs_geo fs)"
    and "superblocks_ok (fs_geo fs) (md_content d)" "md_logical d \<le> geo_blocksize (fs_geo fs)"
    and "length lab \<le> LABEL_MAX" "0 \<notin> set lab"
  shows "\<exists>d'. set_label mem_ops lab d = Inr d' \<and> md_good d' \<and> superblocks_ok (fs_geo fs) (md_content d') \<and>
    (\<forall>a<geo_agcount (fs_geo fs).
      slice sb_FNAME 12 (sb_block (fs_geo fs) (md_content d') a) = lab @ replicate (12 - length lab) 0 \<and>
      changes_only ({sb_FNAME..<sb_FNAME + 12} \<union> rewritten) (sb_block (fs_geo fs) (md_content d) a) (sb_block (fs_geo fs) (md_content d') a)) \<and>
    (\<forall>i. (\<forall>a<geo_agcount (fs_geo fs). \<not> in_superblock (fs_geo fs) a i) \<longrightarrow> md_content d' i = md_content d i) \<and>
    inspect_geometry mem_ops d' = Inr (fs_geo fs)"
  using mem.label_effect [OF assms(1-4) assms(5) [folded mem_ops_simps] assms(6,7)] by blast

lemma label_refused:
  assumes "LABEL_MAX < length lab \<or> 0 \<in> set lab"
  shows "set_label D lab d = Inl (InvalidParams LabelInvalid)"
  using assms by (auto simp: set_label_def)

theorem label_set_witness:
  "\<exists>d d'. set_label mem_ops [100, 97, 116, 97] d = Inr d' \<and> inspect_geometry mem_ops d' = Inr (geo_of geometry_512m)"
proof -
  obtain plans d where f: "formatted sample_device geometry_512m plans (replicate 16 7) \<lparr>secs = 0, nsecs = 0\<rparr> 42 [3, 1, 0, 2] d"
    and l: "md_logical sample_device \<le> bs geometry_512m"
    by (rule sample_formatted)
  have "md_good d" "md_logical d \<le> geo_blocksize (geo_of geometry_512m)"
    using f l by (simp_all add: formatted_on_def same_device_def geo_of_position)
  then show ?thesis
    using label_set [OF _ mem.formatted_opens [OF f l [folded mem_ops_simps]], of "[100, 97, 116, 97]"] formatted_room [OF f] formatted_superblocks [OF f]
    by (auto simp: LABEL_MAX_def)
qed

text \<open>
  \<^bold>\<open>C16\<close>. A freshly formatted filesystem has a clean log: the reader finds it in cycle 1, head and tail both
  right after its one record, so that \<^verbatim>\<open>set_uuid\<close> is not refused.
\<close>

theorem fresh_log_clean:
  assumes "formatted d g plans uuid time gen order d'" "md_logical d \<le> bs g"
  shows "\<exists>state. fs_log_state mem_ops d' = Inr state \<and> ls_cycle state = 1 \<and>
    ls_head state = (if sectsize g > 512 then bs g div 512 else 2) \<and> ls_tail state = ls_head state \<and> \<not> dirty state"
proof -
  have r: "format_ready mem_ops md_sector d g plans uuid order" and good: "md_good d'" using assms(1) by (simp_all add: formatted_on_def)
  note g = ready_geometry [OF r] and b = bs_facts [OF g(1)]
  have "fs_log_state mem_ops d' = Inr \<lparr>ls_head = record_bbs (log_sunit g), ls_tail = record_bbs (log_sunit g), ls_cycle = 1\<rparr>"
    using mem.device_find_tail [OF good log_extent_of [OF r] formatted_log_inside [OF assms(1)] b(6)]
      fresh_state [OF formatted_log [OF assms(1)]] mem.formatted_opens [OF assms(1) assms(2) [folded mem_ops_simps]]
    by (simp add: fs_log_state_def)
  moreover have "record_bbs (log_sunit g) = (if sectsize g > 512 then bs g div 512 else 2)"
  proof -
    have "1024 div 512 \<le> bs g div 512" using b(4) by (intro div_le_mono) simp
    moreover have "bs g mod 512 = 0" using b(1) by simp
    ultimately show ?thesis
      using b(3,4) by (simp add: record_bbs_def record_hdrs_def log_sunit_def log_consts div_ceil_def)
  qed
  ultimately show ?thesis by (simp add: dirty_def)
qed

theorem fresh_log_clean_witness:
  "\<exists>d state. fs_log_state mem_ops d = Inr state \<and> ls_cycle state = 1 \<and> \<not> dirty state"
proof -
  obtain plans d where f: "formatted sample_device geometry_512m plans (replicate 16 7) \<lparr>secs = 0, nsecs = 0\<rparr> 42 [3, 1, 0, 2] d"
    and l: "md_logical sample_device \<le> bs geometry_512m"
    by (rule sample_formatted)
  show ?thesis using fresh_log_clean [OF f l] by blast
qed

end
