(* ===== verification/Log_Clear.thy ===== *)
theory Log_Clear
  imports Admin_Device
begin

unbundle bit_operations_syntax

section \<open>Rewriting the log\<close>

text \<open>
  \<^verbatim>\<open>LogWriter\<close> refines the writing of one stream of bytes from the start of the log: \<open>lw_ok c st stream w c'\<close>
  says that the writer \<open>w\<close> has been given \<open>stream\<close>, that the part before its buffer is on the device,
  whose content was \<open>c\<close> before, and that the buffer is the rest.
\<close>

definition lw_ok :: "(nat \<Rightarrow> u8) \<Rightarrow> nat \<Rightarrow> bytes \<Rightarrow> log_writer \<Rightarrow> (nat \<Rightarrow> u8) \<Rightarrow> bool" where
  "lw_ok c st stream w c' \<longleftrightarrow> LOG_CHUNK dvd lw_at w \<and> lw_at w \<le> length stream \<and> lw_buf w = drop (lw_at w) stream \<and>
     c' = overwrite c st (take (lw_at w) stream)"

lemma overwrite_append: "overwrite (overwrite c st x) (st + length x) y = overwrite c st (x @ y)"
  by (auto simp: overwrite_def fun_eq_iff nth_append)

lemma lw_ok_start: "lw_ok c st [] \<lparr>lw_at = 0, lw_buf = []\<rparr> c"
  by (auto simp: lw_ok_def overwrite_def fun_eq_iff)

context block_device
begin

lemma drain_ok:
  assumes "good d" "lw_ok c st stream w (content d)" "st + length stream \<le> dev_size D d" "sector d dvd st"
  shows "\<exists>w' d'. lw_drain D st w d = Inr (w', d') \<and> good d' \<and> same_device D sector d d' \<and> lw_ok c st stream w' (content d')"
  using assms
proof (induction "length (lw_buf w)" arbitrary: w d rule: less_induct)
  case less
  show ?case
  proof (cases "LOG_CHUNK \<le> length (lw_buf w)")
    case True
    define k where "k = lw_at w"
    define x where "x = take LOG_CHUNK (lw_buf w)"
    define w1 where "w1 = \<lparr>lw_at = k + LOG_CHUNK, lw_buf = drop LOG_CHUNK (lw_buf w)\<rparr>"
    have w: "LOG_CHUNK dvd k" "k \<le> length stream" "lw_buf w = drop k stream" "content d = overwrite c st (take k stream)"
      using less.prems(2) by (simp_all add: lw_ok_def k_def)
    have lx: "length x = LOG_CHUNK" using True by (simp add: x_def)
    have kl: "k + LOG_CHUNK \<le> length stream" using True w(2,3) by simp
    have "ZERO_CHUNK dvd LOG_CHUNK" by (simp add: ZERO_CHUNK_def LOG_CHUNK_def)
    then have s: "sector d dvd LOG_CHUNK" "sector d dvd k" using sector_dvd [OF less.prems(1)] w(1) dvd_trans by blast+
    have acc: "accepts D sector d (st + k) (length x)" using less.prems(3,4) kl s lx by (simp add: accepts_def)
    have a64: "add64 st k = st + k" using less.prems(3) kl size_le [OF less.prems(1)] by (intro nowrap) simp
    obtain d1 where d1: "dev_write_at D d (st + k) x = Inr d1" "good d1" "same_device D sector d d1"
      "content d1 = overwrite (content d) (st + k) x"
      using write_at [OF less.prems(1) acc] by blast
    have "content d1 = overwrite c st (take k stream @ x)"
      using overwrite_append [of c st "take k stream" x] w(2,4) d1(4) by simp
    also have "take k stream @ x = take (k + LOG_CHUNK) stream" by (simp add: x_def w(3) take_add)
    finally have "lw_ok c st stream w1 (content d1)"
      using w kl by (simp add: lw_ok_def w1_def drop_drop add.commute)
    moreover have "length (lw_buf w1) < length (lw_buf w)" using True by (simp add: w1_def LOG_CHUNK_def)
    ultimately obtain w' d' where "lw_drain D st w1 d1 = Inr (w', d')" "good d'" "same_device D sector d1 d'"
      "lw_ok c st stream w' (content d')"
      using less.hyps [of w1 d1] d1(2,3) less.prems(3,4) by (auto simp: same_device_def)
    moreover have "lw_drain D st w d = lw_drain D st w1 d1"
      using True d1(1) a64 by (simp add: lw_drain.simps [of D st w d] k_def w1_def x_def)
    ultimately show ?thesis using same_device_trans [OF d1(3)] by auto
  next
    case False
    then have "lw_drain D st w d = Inr (w, d)" by (simp add: lw_drain.simps [of D st w d])
    then show ?thesis using less.prems by simp
  qed
qed

lemma push_ok:
  assumes "good d" "lw_ok c st stream w (content d)" "st + length (stream @ data) \<le> dev_size D d" "sector d dvd st"
  shows "\<exists>w' d'. lw_push D st data w d = Inr (w', d') \<and> good d' \<and> same_device D sector d d' \<and>
    lw_ok c st (stream @ data) w' (content d')"
proof -
  have "lw_ok c st (stream @ data) (w\<lparr>lw_buf := lw_buf w @ data\<rparr>) (content d)" using assms(2) by (simp add: lw_ok_def)
  from drain_ok [OF assms(1) this assms(3,4)] show ?thesis by (simp add: lw_push_def)
qed

lemma zeroes_ok:
  assumes "good d" "lw_ok c st stream w (content d)" "length stream \<le> stop" "st + stop \<le> dev_size D d" "sector d dvd st"
  shows "\<exists>w' d'. lw_zeroes_to D st stop w d = Inr (w', d') \<and> good d' \<and> same_device D sector d d' \<and>
    lw_ok c st (stream @ replicate (stop - length stream) 0) w' (content d')"
  using assms
proof (induction "stop - length stream" arbitrary: stream w d rule: less_induct)
  case less
  have pos: "lw_at w + length (lw_buf w) = length stream" using less.prems(2) by (simp add: lw_ok_def)
  show ?case
  proof (cases "length stream < stop")
    case True
    define n where "n = min (stop - length stream) LOG_CHUNK"
    have n: "0 < n" "length stream + n \<le> stop" using True by (auto simp: n_def LOG_CHUNK_def)
    obtain w1 d1 where w1: "lw_push D st (replicate n 0) w d = Inr (w1, d1)" "good d1" "same_device D sector d d1"
      "lw_ok c st (stream @ replicate n 0) w1 (content d1)"
      using push_ok [OF less.prems(1,2), of "replicate n 0"] less.prems(4,5) n by auto
    have "lw_at w + length (lw_buf w) < stop" "min (stop - lw_at w - length (lw_buf w)) LOG_CHUNK = n"
      using True pos by (simp_all add: n_def)
    then have eq: "lw_zeroes_to D st stop w d = lw_zeroes_to D st stop w1 d1"
      unfolding lw_zeroes_to.simps [of D st stop w d] Let_def by (simp add: w1(1))
    have lt: "stop - length (stream @ replicate n (0 :: u8)) < stop - length stream" using n by simp
    obtain w' d' where "lw_zeroes_to D st stop w1 d1 = Inr (w', d')" "good d'" "same_device D sector d1 d'"
      "lw_ok c st ((stream @ replicate n 0) @ replicate (stop - length (stream @ replicate n 0)) 0) w' (content d')"
      using less.hyps [OF lt w1(2,4)] n less.prems(4,5) w1(3) by (auto simp: same_device_def)
    moreover have "replicate n (0 :: u8) @ replicate (stop - (length stream + n)) 0 = replicate (stop - length stream) 0"
      using n by (simp flip: replicate_add)
    ultimately show ?thesis using eq same_device_trans [OF w1(3)] by auto
  next
    case False
    then have "lw_zeroes_to D st stop w d = Inr (w, d)" using pos by (simp add: lw_zeroes_to.simps [of D st stop w d])
    then show ?thesis using less.prems False by simp
  qed
qed

lemma finish_ok:
  assumes "good d" "lw_ok c st stream w (content d)" "st + length stream \<le> dev_size D d" "sector d dvd st" "sector d dvd length stream"
  shows "\<exists>d'. lw_finish D st w d = Inr d' \<and> good d' \<and> same_device D sector d d' \<and> content d' = overwrite c st stream"
proof -
  define k where "k = lw_at w"
  have w: "LOG_CHUNK dvd k" "k \<le> length stream" "lw_buf w = drop k stream" "content d = overwrite c st (take k stream)"
    using assms(2) by (simp_all add: lw_ok_def k_def)
  show ?thesis
  proof (cases "lw_buf w = []")
    case True
    then show ?thesis using w assms(1) by (simp add: lw_finish_def)
  next
    case False
    have "ZERO_CHUNK dvd LOG_CHUNK" by (simp add: ZERO_CHUNK_def LOG_CHUNK_def)
    then have s: "sector d dvd k" using sector_dvd [OF assms(1)] w(1) dvd_trans by blast
    then have "sector d dvd length (lw_buf w)" using assms(5) w(3) dvd_diff_nat by (simp add: w(3))
    then have acc: "accepts D sector d (st + k) (length (lw_buf w))" using s assms(3,4) w(2,3) by (simp add: accepts_def)
    have "add64 st k = st + k" using assms(3) w(2) size_le [OF assms(1)] by (intro nowrap) simp
    then show ?thesis
      using write_at [OF assms(1) acc] False overwrite_append [of c st "take k stream" "drop k stream"] w
      by (simp add: lw_finish_def k_def)
  qed
qed

end

section \<open>The records of a cleared log\<close>

text \<open>The length of the record at block \<open>b\<close>: 256 KiB, or what is left of the log.\<close>

definition rec_len :: "nat \<Rightarrow> nat \<Rightarrow> nat" where
  "rec_len bbs b = min 512 (bbs - b)"

definition record_in :: "bytes \<Rightarrow> u32 \<Rightarrow> nat \<Rightarrow> nat \<Rightarrow> bytes \<Rightarrow> bool" where
  "record_in uuid cyc bbs b x \<longleftrightarrow> (\<exists>tlsn. holds (record_fields uuid (rec_len bbs b * 512) (log_lsn cyc (of_nat b)) tlsn) x)"

lemma record_bbs_full:
  assumes "2 \<le> r" "r \<le> 512"
  shows "record_bbs (r * 512) = r" "record_hdrs (r * 512) + 1 \<le> r"
proof -
  have "div_ceil (r * 512) HEADER_CYCLE_SIZE \<le> r - 1"
    using assms by (intro div_ceil_le) (simp_all add: HEADER_CYCLE_SIZE_def)
  then show h: "record_hdrs (r * 512) + 1 \<le> r" using assms by (auto simp: record_hdrs_def)
  have "div_ceil (r * 512) 512 = r" by (simp add: div_ceil_def)
  then show "record_bbs (r * 512) = r" using h assms by (simp add: record_bbs_def BBSIZE_def max_def)
qed

lemma fill_one_record:
  assumes "2 dvd bbs" "512 dvd b" "b < bbs" "length uuid = 16"
  shows "\<exists>rec. log_record uuid (as_u32 (rec_len bbs b * BBSIZE)) (log_lsn cyc (of_nat b)) tlsn = Inr rec \<and>
    length rec = rec_len bbs b * 512 \<and> record_in uuid cyc bbs b rec \<and> 2 \<le> rec_len bbs b"
proof -
  have "2 dvd b" using assms(2) dvd_trans [of 2 512 b] by simp
  then have "2 dvd bbs - b" using assms(1) by simp
  then have r: "2 \<le> rec_len bbs b" "rec_len bbs b \<le> 512"
    using assms(3) dvd_imp_le [of 2 "bbs - b"] by (simp_all add: rec_len_def)
  have "as_u32 (rec_len bbs b * BBSIZE) = rec_len bbs b * 512" using r(2) by (simp add: BBSIZE_def nowrap)
  then show ?thesis
    using log_record_holds [OF assms(4), of "rec_len bbs b * 512" "log_lsn cyc (of_nat b)" tlsn] r record_bbs_full(1) [OF r]
    by (auto simp: record_in_def)
qed

context block_device
begin

lemma fill_ok:
  assumes "good d" "lw_ok c st stream w (content d)" "length stream = b * 512" "b \<le> bbs" "b < bbs \<longrightarrow> 512 dvd b"
    and "2 dvd bbs" "length uuid = 16" "st + bbs * 512 \<le> dev_size D d" "sector d dvd st" "r = rec_len bbs b"
  shows "\<exists>w' d' ext. fill_records D st uuid cyc bbs b r w d = Inr (w', d') \<and> good d' \<and> same_device D sector d d' \<and>
    lw_ok c st (stream @ ext) w' (content d') \<and> length ext = (bbs - b) * 512 \<and>
    (\<forall>k. 512 dvd k \<and> b \<le> k \<and> k < bbs \<longrightarrow> record_in uuid cyc bbs k (slice ((k - b) * 512) (rec_len bbs k * 512) ext))"
  using assms
proof (induction "bbs - b" arbitrary: b r stream w d rule: less_induct)
  case less
  show ?case
  proof (cases "b < bbs")
    case False
    then have "fill_records D st uuid cyc bbs b r w d = Inr (w, d)" by (simp add: fill_records.simps [of D st uuid cyc bbs b r w d])
    then show ?thesis using less.prems(1,2) False by (intro exI [of _ w] exI [of _ d] exI [of _ "[]"]) auto
  next
    case True
    then have b: "512 dvd b" using less.prems(5) by blast
    obtain rec where rec: "log_record uuid (as_u32 (r * BBSIZE)) (log_lsn cyc (of_nat b)) (log_lsn cyc (of_nat (sub64 b r))) = Inr rec"
      "length rec = r * 512" "record_in uuid cyc bbs b rec" "2 \<le> r"
      using fill_one_record [OF less.prems(6) b True less.prems(7)] unfolding less.prems(10) by blast
    define b' where "b' = b + r"
    have b': "b' \<le> bbs" "b' < bbs \<Longrightarrow> r = 512" "bbs - b' < bbs - b" "min (bbs - b') r = rec_len bbs b'"
      using True rec(4) by (auto simp: b'_def less.prems(10) rec_len_def min_def split: if_splits)
    have room: "st + length (stream @ rec) \<le> dev_size D d" using less.prems(3,8) rec(2) b'(1) by (simp add: b'_def)
    obtain w1 d1 where w1: "lw_push D st rec w d = Inr (w1, d1)" "good d1" "same_device D sector d d1"
      "lw_ok c st (stream @ rec) w1 (content d1)"
      using push_ok [OF less.prems(1,2) room less.prems(9)] by blast
    have eq: "fill_records D st uuid cyc bbs b r w d = fill_records D st uuid cyc bbs b' (rec_len bbs b') w1 d1"
      using True rec(1,2) w1(1) b'(4) by (simp add: fill_records.simps [of D st uuid cyc bbs b r w d] BBSIZE_def b'_def)
    have "length (stream @ rec) = b' * 512" using less.prems(3) rec(2) by (simp add: b'_def)
    moreover have "b' < bbs \<longrightarrow> 512 dvd b'" using b b'(2) by (auto simp: b'_def)
    ultimately obtain w' d' ext where d': "fill_records D st uuid cyc bbs b' (rec_len bbs b') w1 d1 = Inr (w', d')" "good d'"
      "same_device D sector d1 d'" "lw_ok c st ((stream @ rec) @ ext) w' (content d')" "length ext = (bbs - b') * 512"
      "\<forall>k. 512 dvd k \<and> b' \<le> k \<and> k < bbs \<longrightarrow> record_in uuid cyc bbs k (slice ((k - b') * 512) (rec_len bbs k * 512) ext)"
      using less.hyps [OF b'(3) w1(2,4) _ b'(1) _ less.prems(6,7) _ _ refl] w1(3) less.prems(8,9)
      by (auto simp: same_device_def)
    have "record_in uuid cyc bbs k (slice ((k - b) * 512) (rec_len bbs k * 512) (rec @ ext))"
      if k: "512 dvd k" "b \<le> k" "k < bbs" for k
    proof (cases "k = b")
      case True
      then show ?thesis using rec(2,3) by (simp add: slice_def less.prems(10))
    next
      case False
      then have "b + 512 \<le> k" using k b by (auto elim!: dvdE)
      then have "b' \<le> k" using less.prems(10) by (simp add: b'_def rec_len_def)
      moreover from this have "(k - b) * 512 = length rec + (k - b') * 512" using rec(2) by (simp add: b'_def)
      ultimately show ?thesis using d'(6) k by (simp add: slice_def)
    qed
    moreover have "length (rec @ ext) = (bbs - b) * 512" using rec(2) d'(5) b'(1) by (simp add: b'_def)
    ultimately show ?thesis
      using eq d'(1,2,4) same_device_trans [OF w1(3) d'(3)] by (intro exI [of _ w'] exI [of _ d'] exI [of _ "rec @ ext"]) simp
  qed
qed

end

text \<open>
  The bytes of a cleared log of \<open>n\<close> basic blocks: a record of the new cycle, zeros up to block 512,
  and from there records of the previous cycle without a gap.
\<close>

definition cleared :: "bytes \<Rightarrow> nat \<Rightarrow> nat \<Rightarrow> u32 \<Rightarrow> bytes \<Rightarrow> bool" where
  "cleared uuid su n cyc S \<longleftrightarrow> length S = n * 512 \<and>
     (\<exists>tlsn. holds (record_fields uuid su (log_lsn cyc 0) tlsn) S) \<and>
     (\<forall>j. record_bbs su * 512 \<le> j \<and> j < 512 * 512 \<longrightarrow> S ! j = 0) \<and>
     (\<forall>k. 512 dvd k \<and> 512 \<le> k \<and> k < n \<longrightarrow> record_in uuid (cyc - 1) n k (slice (k * 512) (rec_len n k * 512) S))"

lemma first_len_record:
  assumes "su \<le> BDSTRAT_SIZE"
  shows "first_len su = record_bbs su" "record_bbs su \<le> 512" "su < 2 ^ 31"
proof -
  have su: "su \<le> 512 * 512" using assms by (simp add: BDSTRAT_SIZE_def)
  then show "su < 2 ^ 31" by simp
  have d: "div_ceil su 512 \<le> 512" using su by (rule div_ceil_le) simp
  have h: "record_hdrs su + 1 \<le> max 2 (div_ceil su 512)"
  proof (cases "HEADER_CYCLE_SIZE < su")
    case True
    have "div_ceil su HEADER_CYCLE_SIZE \<le> 8" using su by (intro div_ceil_le) (simp_all add: HEADER_CYCLE_SIZE_def)
    moreover have "64 < div_ceil su 512"
      using div_ceil_bounds(1) [of 512 su] True by (simp add: HEADER_CYCLE_SIZE_def)
    ultimately show ?thesis using True by (simp add: record_hdrs_def)
  qed (simp add: record_hdrs_def)
  show "first_len su = record_bbs su"
    using h record_size_ge [of su] by (auto simp: first_len_def record_bbs_def BBSIZE_def div_ceil_def max_def split: if_splits)
  show "record_bbs su \<le> 512" using h d by (auto simp: record_bbs_def BBSIZE_def max_def split: if_splits)
qed

context block_device
begin

lemma clear_ok:
  assumes "good d" "log_extent (fs_geo fs) = (st, n)" "st + n * 512 \<le> dev_size D d" "sector d dvd st" "sector d dvd n * 512"
    and "512 < n" "2 dvd n" "cyc \<noteq> INIT_CYCLE" "length uuid = 16" "geo_logsunit (fs_geo fs) \<le> BDSTRAT_SIZE"
  shows "\<exists>d' S. clear_log D fs uuid cyc d = Inr d' \<and> good d' \<and> same_device D sector d d' \<and>
    cleared uuid (geo_logsunit (fs_geo fs)) n cyc S \<and> content d' = overwrite (content d) st S"
proof -
  define su where "su = geo_logsunit (fs_geo fs)"
  define tlsn where "tlsn = log_lsn (cyc - 1) (of_nat (sub64 n (first_len su)))"
  define c where "c = content d"
  have su: "su \<le> BDSTRAT_SIZE" using assms(10) by (simp add: su_def)
  note L = first_len_record [OF su]
  obtain first where first: "log_record uuid su (log_lsn cyc 0) tlsn = Inr first" "length first = record_bbs su * 512"
    "holds (record_fields uuid su (log_lsn cyc 0) tlsn) first"
    using log_record_holds [OF assms(9) L(3), of "log_lsn cyc 0" tlsn] by blast
  have l512: "length first \<le> 512 * 512" using first(2) L(2) by simp
  have room: "st + 512 * 512 \<le> dev_size D d" using assms(3,6) by simp
  have start: "lw_ok c st [] \<lparr>lw_at = 0, lw_buf = []\<rparr> (content d)" unfolding c_def by (rule lw_ok_start)
  obtain w1 d1 where w1: "lw_push D st first \<lparr>lw_at = 0, lw_buf = []\<rparr> d = Inr (w1, d1)" "good d1" "same_device D sector d d1"
    "lw_ok c st first w1 (content d1)"
    using push_ok [OF assms(1) start, of first] room l512 assms(4) by auto
  have d1: "st + 512 * 512 \<le> dev_size D d1" "sector d1 dvd st" using w1(3) room assms(4) by (simp_all add: same_device_def)
  define z where "z = replicate (512 * 512 - length first) (0 :: u8)"
  obtain w2 d2 where w2: "lw_zeroes_to D st (512 * 512) w1 d1 = Inr (w2, d2)" "good d2" "same_device D sector d1 d2"
    "lw_ok c st (first @ z) w2 (content d2)"
    using zeroes_ok [OF w1(2,4) l512 d1] unfolding z_def by auto
  have s2: "same_device D sector d d2" using w1(3) w2(3) by (rule same_device_trans)
  have lz: "length (first @ z) = 512 * 512" using l512 by (simp add: z_def)
  have d2: "st + n * 512 \<le> dev_size D d2" "sector d2 dvd st" "sector d2 dvd n * 512"
    using s2 assms(3-5) by (simp_all add: same_device_def)
  obtain w3 d3 ext where w3: "fill_records D st uuid (cyc - 1) n 512 (rec_len n 512) w2 d2 = Inr (w3, d3)" "good d3"
    "same_device D sector d2 d3" "lw_ok c st ((first @ z) @ ext) w3 (content d3)" "length ext = (n - 512) * 512"
    "\<forall>k. 512 dvd k \<and> 512 \<le> k \<and> k < n \<longrightarrow> record_in uuid (cyc - 1) n k (slice ((k - 512) * 512) (rec_len n k * 512) ext)"
    using fill_ok [OF w2(2,4) lz _ _ assms(7,9) d2(1,2) refl, where cyc = "cyc - 1"] assms(6) by auto
  define S where "S = (first @ z) @ ext"
  have lS: "length S = n * 512" using lz w3(5) assms(6) by (simp add: S_def)
  have s3: "same_device D sector d d3" using s2 w3(3) by (rule same_device_trans)
  have d3: "st + length S \<le> dev_size D d3" "sector d3 dvd st" "sector d3 dvd length S"
    using s3 assms(3-5) lS by (simp_all add: same_device_def)
  obtain d4 where d4: "lw_finish D st w3 d3 = Inr d4" "good d4" "same_device D sector d3 d4" "content d4 = overwrite c st S"
    using finish_ok [OF w3(2) w3(4) [folded S_def] d3] by blast
  have m: "BDSTRAT_SIZE div BBSIZE = 512" "min (n - 512) 512 = rec_len n 512" "min 512 n * BBSIZE = 512 * 512"
    using assms(6) by (simp_all add: rec_len_def BBSIZE_def BDSTRAT_SIZE_def)
  have "length first = first_len su * BBSIZE" using first(2) L(1) by (simp add: BBSIZE_def)
  then have "clear_log D fs uuid cyc d = Inr d4"
    unfolding clear_log_def Let_def assms(2) prod.case su_def [symmetric] if_not_P [OF assms(8)] tlsn_def [symmetric] m
    by (simp only: first(1) w1(1) w2(1) w3(1) d4(1) and_then_simps prod.case simp_thms if_False)
  moreover have "cleared uuid su n cyc S"
    unfolding cleared_def
  proof (intro conjI allI impI)
    show "\<exists>t. holds (record_fields uuid su (log_lsn cyc 0) t) S"
      using holds_longer [OF first(3), of "z @ ext"] by (auto simp: S_def)
    show "S ! j = 0" if "record_bbs su * 512 \<le> j \<and> j < 512 * 512" for j
    proof -
      have j: "length first \<le> j" "j < length (first @ z)" using that first(2) lz by simp_all
      have "S ! j = (first @ z) ! j" using j(2) by (simp only: S_def nth_append if_True)
      also have "\<dots> = z ! (j - length first)" using j(1) by (simp add: nth_append)
      also have "\<dots> = 0" using j unfolding z_def length_append by (subst nth_replicate) simp_all
      finally show ?thesis .
    qed
    show "record_in uuid (cyc - 1) n k (slice (k * 512) (rec_len n k * 512) S)" if k: "512 dvd k \<and> 512 \<le> k \<and> k < n" for k
    proof -
      have "k * 512 = length (first @ z) + (k - 512) * 512" using k unfolding lz by linarith
      then have "slice (k * 512) (rec_len n k * 512) S = slice ((k - 512) * 512) (rec_len n k * 512) ext"
        unfolding S_def slice_def by (simp add: drop_append)
      then show ?thesis using w3(6) k by simp
    qed
  qed (fact lS)
  ultimately show ?thesis
    using d4 same_device_trans [OF s3 d4(3)] by (auto simp: su_def c_def)
qed

text \<open>The first cycle: the log is zeroed and its first record is written, padded to a block.\<close>

lemma clear_init_ok:
  assumes "good d" "log_extent (fs_geo fs) = (st, n)" "st + n * 512 \<le> dev_size D d" "sector d dvd st" "sector d dvd n * 512"
    and "4096 \<le> n" "length uuid = 16" "geo_logsunit (fs_geo fs) \<le> BDSTRAT_SIZE"
    and b: "sector d dvd geo_blocksize (fs_geo fs)" "0 < geo_blocksize (fs_geo fs)" "geo_blocksize (fs_geo fs) \<le> 65536"
  shows "\<exists>d' rec. clear_log D fs uuid INIT_CYCLE d = Inr d' \<and> good d' \<and> same_device D sector d d' \<and>
    first_record uuid (geo_logsunit (fs_geo fs)) = Inr rec \<and> length rec \<le> n * 512 \<and>
    content d' = overwrite (content d) st (rec @ replicate (n * 512 - length rec) 0)"
proof -
  define su bsz c where "su = geo_logsunit (fs_geo fs)" and "bsz = geo_blocksize (fs_geo fs)" and "c = zeroed (content d) st (n * 512)"
  note L = first_len_record [OF assms(8), folded su_def]
  have one: "INIT_CYCLE = 1" by (simp add: INIT_CYCLE_def)
  obtain first where first: "log_record uuid su (log_lsn 1 0) (log_lsn 1 0) = Inr first" "length first = record_bbs su * 512"
    using log_record_holds [OF assms(7) L(3), of "log_lsn 1 0" "log_lsn 1 0"] by blast
  have small: "length first \<le> 512 * 512" using first(2) L(2) by simp
  have "accepts D sector d st (n * 512)" using assms(3-5) by (simp add: accepts_def)
  then obtain d1 where d1: "dev_write_zeroes D d st (n * 512) = Inr d1" "good d1" "same_device D sector d d1" "content d1 = c"
    using write_zeroes [OF assms(1)] unfolding c_def by blast
  have room: "st + n * 512 \<le> dev_size D d1" "sector d1 dvd st" using d1(3) assms(3,4) by (simp_all add: same_device_def)
  have start: "lw_ok c st [] \<lparr>lw_at = 0, lw_buf = []\<rparr> (content d1)" unfolding d1(4) by (rule lw_ok_start)
  obtain w d2 where w: "lw_push D st first \<lparr>lw_at = 0, lw_buf = []\<rparr> d1 = Inr (w, d2)" "good d2" "same_device D sector d1 d2"
    "lw_ok c st first w (content d2)"
    using push_ok [OF d1(2) start, of first] room small assms(6) by auto
  have at: "lw_at w = 0" "lw_buf w = first" "content d2 = c"
  proof -
    have "lw_at w < LOG_CHUNK" using w(4) small by (simp add: lw_ok_def LOG_CHUNK_def)
    then show "lw_at w = 0" using w(4) by (auto simp: lw_ok_def dest: dvd_imp_le)
    then show "lw_buf w = first" "content d2 = c" using w(4) by (auto simp: lw_ok_def overwrite_def fun_eq_iff)
  qed
  define z where "z = replicate (div_ceil (length first) bsz * bsz - length first) (0 :: u8)"
  have pad: "lw_pad_to_block bsz w = w\<lparr>lw_buf := first @ z\<rparr>" by (simp add: lw_pad_to_block_def at(2) z_def)
  have bp: "0 < bsz" "bsz \<le> 65536" using b(2,3) by (simp_all add: bsz_def)
  note dc = div_ceil_bounds [OF bp(1), of "length first"]
  have lz: "length (first @ z) = div_ceil (length first) bsz * bsz" using dc(1) by (simp add: z_def)
  have "first \<noteq> []" using first(2) record_size_ge(1) [of su] by auto
  then have "(div_ceil (length first) bsz - 1) * bsz < length first" using dc(2) by simp
  then have "div_ceil (length first) bsz * bsz < length first + bsz"
    by (cases "div_ceil (length first) bsz") (use bp in simp_all)
  then have fits: "length (first @ z) \<le> n * 512" using lz small bp(2) assms(6) by linarith
  have s2: "same_device D sector d d2" using d1(3) w(3) by (rule same_device_trans)
  have "lw_ok c st (first @ z) (lw_pad_to_block bsz w) (content d2)"
    by (auto simp: lw_ok_def pad at overwrite_def fun_eq_iff)
  moreover have "st + length (first @ z) \<le> dev_size D d2" "sector d2 dvd st" "sector d2 dvd length (first @ z)"
    using s2 assms(3,4) b(1) fits unfolding lz by (simp_all add: same_device_def bsz_def)
  ultimately obtain d3 where d3: "lw_finish D st (lw_pad_to_block bsz w) d2 = Inr d3" "good d3" "same_device D sector d2 d3"
    "content d3 = overwrite c st (first @ z)"
    using finish_ok [OF w(2)] by blast
  have "length first = first_len su * BBSIZE" using first(2) L(1) by (simp add: BBSIZE_def)
  then have run: "clear_log D fs uuid INIT_CYCLE d = Inr d3"
    unfolding clear_log_def Let_def assms(2) prod.case su_def [symmetric] bsz_def [symmetric] if_P [OF refl]
    using d1(1) w(1) d3(1) by (simp add: first(1) one BBSIZE_def)
  have "content d3 = overwrite (content d) st (first @ replicate (n * 512 - length first) 0)"
    using fits unfolding d3(4) c_def by (auto simp: overwrite_def zeroed_def fun_eq_iff nth_append z_def)
  then show ?thesis
    using run d3 same_device_trans [OF s2 d3(3)] first fits
    by (intro exI [of _ d3] exI [of _ first]) (simp add: first_record_def Let_def su_def)
qed

end

end
