(* ===== verification/Log_Wrapped.thy ===== *)
theory Log_Wrapped
  imports Log_Clear
begin

unbundle bit_operations_syntax

section \<open>The log after it was rewritten\<close>

text \<open>
  What the log reader makes of a cleared log: \<open>wrapped_log\<close> says it of the basic blocks, for the new cycle \<open>c\<close>
  and a first record of \<open>s\<close> bytes. The search sees the change of cycles at block 512. A first record that ends there is the
  last one of the log; otherwise the search moves back to the start of the first record, which is not a whole record before
  block 512, and finds the last record of the previous cycle, an unmount record that ends the log.
\<close>

definition last_record :: "nat \<Rightarrow> nat" where
  "last_record n = (n - 1) div 512 * 512"

definition wrapped_log :: "(nat \<Rightarrow> bytes) \<Rightarrow> nat \<Rightarrow> nat \<Rightarrow> u32 \<Rightarrow> bool" where
  "wrapped_log blk n s c \<longleftrightarrow> TOTAL_REC_BBS \<le> n \<and> record_bbs s \<le> 512 \<and> (\<forall>i. length (blk i) = 512) \<and>
     c \<noteq> 0 \<and> c \<noteq> 1 \<and> c \<noteq> HEADER_MAGIC \<and> c - 1 \<noteq> HEADER_MAGIC \<and>
     unmount_record blk 0 s c \<and> (\<forall>i. record_bbs s \<le> i \<and> i < 512 \<longrightarrow> word_at (blk i) 0 = 0) \<and>
     (\<forall>i. 512 \<le> i \<and> i < n \<longrightarrow> word_at (blk i) 0 = (if 512 dvd i then HEADER_MAGIC else c - 1) \<and>
       (512 dvd i \<longrightarrow> word_at (blk i) lr_CYCLE = c - 1))"

text \<open>The last record, up to the end of the log.\<close>

definition last_unmount :: "(nat \<Rightarrow> bytes) \<Rightarrow> nat \<Rightarrow> u32 \<Rightarrow> bool" where
  "last_unmount blk n c \<longleftrightarrow>
     (let k = last_record n; s = (n - k) * 512 in record_bbs s = n - k \<and> unmount_record blk k s (c - 1))"

text \<open>The block of the head and the tail of a log rewritten with a first record of \<open>s\<close> bytes.\<close>

definition rewritten_head :: "nat \<Rightarrow> nat" where
  "rewritten_head s = (if record_bbs s = 512 then 512 else 0)"

lemma wrappedD:
  assumes "wrapped_log blk n s c"
  shows "4096 \<le> n" "length (blk i) = 512" "cycle_of (blk 0) = c"
    "i < 512 \<Longrightarrow> cycle_of (blk i) \<noteq> c - 1" "512 \<le> i \<Longrightarrow> i < n \<Longrightarrow> cycle_of (blk i) = c - 1"
    "i < 512 \<Longrightarrow> word_at (blk i) 0 = HEADER_MAGIC \<longleftrightarrow> i = 0"
    "512 \<le> i \<Longrightarrow> i < n \<Longrightarrow> word_at (blk i) 0 = HEADER_MAGIC \<longleftrightarrow> 512 dvd i"
    "unmount_record blk 0 s c" "record_bbs s \<le> 512"
proof -
  note w = assms [unfolded wrapped_log_def]
  show u: "unmount_record blk 0 s c" and L: "record_bbs s \<le> 512" using w by blast+
  note u' = u [unfolded unmount_record_def add_0]
  show n: "4096 \<le> n" using w by (simp add: TOTAL_REC_BBS_def BBSIZE_def)
  show "length (blk i) = 512" using w by blast
  show c0: "cycle_of (blk 0) = c" using u' by (simp add: cycle_of_def)
  have one: "word_at (blk i) 0 = c" if "1 \<le> i" "i < record_bbs s" for i using u' that by blast
  have zero: "word_at (blk i) 0 = 0" if "record_bbs s \<le> i" "i < 512" for i using w that by blast
  have high: "word_at (blk i) 0 = (if 512 dvd i then HEADER_MAGIC else c - 1)" "512 dvd i \<Longrightarrow> word_at (blk i) lr_CYCLE = c - 1"
    if "512 \<le> i" "i < n" for i using w that by blast+
  have ne: "c \<noteq> c - 1" "0 \<noteq> c - 1" "c \<noteq> HEADER_MAGIC" "c - 1 \<noteq> HEADER_MAGIC" "0 \<noteq> HEADER_MAGIC"
    using w by (auto simp: HEADER_MAGIC_def)
  show "cycle_of (blk i) \<noteq> c - 1" if "i < 512"
    using that c0 ne one [of i] zero [of i] by (cases "i = 0"; cases "i < record_bbs s") (simp_all add: cycle_of_def)
  show "cycle_of (blk i) = c - 1" if "512 \<le> i" "i < n"
    using high [OF that] ne by (cases "512 dvd i") (simp_all add: cycle_of_def)
  show "word_at (blk i) 0 = HEADER_MAGIC \<longleftrightarrow> i = 0" if "i < 512"
    using that u' ne one [of i] zero [of i] by (cases "i = 0"; cases "i < record_bbs s") simp_all
  show "word_at (blk i) 0 = HEADER_MAGIC \<longleftrightarrow> 512 dvd i" if "512 \<le> i" "i < n"
    using high(1) [OF that] ne by simp
qed

lemma wrapped_change:
  assumes "wrapped_log blk n s c"
  shows "cycle_change (plain blk) n () = Inr ((512, c - 1), ())"
proof -
  note w = wrappedD [OF assms]
  obtain r where r: "find_cycle_start (plain blk) 0 (n - 1) (c - 1) () = Inr (r, ())" "0 < r" "r \<le> n - 1"
    "r = n - 1 \<or> cycle_of (blk r) = c - 1" "r = 1 \<or> cycle_of (blk (r - 1)) \<noteq> c - 1"
    using plain_cycle_start [of 0 "n - 1" blk "c - 1"] w(1,2) by auto
  have "r = 512"
  proof (rule ccontr)
    assume "r \<noteq> 512"
    then consider "r < 512" | "512 \<le> r - 1" "r - 1 < n" "r \<noteq> 1" using r(2,3) w(1) by linarith
    then show False using r(4,5) w(1) w(4) [of r] w(5) [of "r - 1"] by cases auto
  qed
  moreover have "log_cycle (plain blk) 0 () = Inr (c, ())" "log_cycle (plain blk) (n - 1) () = Inr (c - 1, ())"
    using w(1,3) w(5) [of "n - 1"] by (simp_all add: plain_cycle w(2))
  moreover have "c \<noteq> c - 1" by simp
  ultimately show ?thesis using r(1) by (simp add: cycle_change_def rd_then_def rd_return_def)
qed

lemma wrapped_scan:
  assumes "wrapped_log blk n s c" "0 < k" "k \<le> 512"
  shows "scan_header (plain blk) 0 (rev [0..<k]) () = Inr (Some 0, ())"
proof -
  note w = wrappedD [OF assms(1)]
  have "find (\<lambda>i. word_at (blk i) 0 = HEADER_MAGIC) (rev [0..<k]) = Some 0" using assms(2,3)
  proof (induction k)
    case (Suc k)
    then show ?case using w(6) [of k] by (cases "k = 0") auto
  qed simp
  then show ?thesis by (subst plain_scan_header) (simp_all add: w(2))
qed

lemma wrapped_head:
  assumes "wrapped_log blk n s c"
  shows "find_head (plain blk) n () = Inr (rewritten_head s, ())"
proof -
  note w = wrappedD [OF assms] and p = assms [unfolded wrapped_log_def]
  have T: "TOTAL_REC_BBS = 4096" "REC_BBS = 512" by (simp_all add: TOTAL_REC_BBS_def REC_BBS_def BBSIZE_def)
  have c: "log_cycle (plain blk) 0 () = Inr (c, ())" "log_cycle (plain blk) (n - 1) () = Inr (c - 1, ())"
    using w(1,3) w(5) [of "n - 1"] by (simp_all add: plain_cycle w(2))
  have ne: "c \<noteq> 0" "c - 1 \<noteq> 0" "c - 1 - 1 \<noteq> c - 1" using p by auto
  have z: "find_zeroed (plain blk) n () = Inr (None, ())"
    using c ne by (simp add: find_zeroed_def rd_then_def rd_return_def)
  have "find_verify_cycle (plain blk) (n - (4096 - 512)) (4096 - 512) (c - 1 - 1) () = Inr (None, ())"
    unfolding find_verify_cycle_def using w(1,5) ne(3) by (subst plain_scan_cycle) (auto simp: w(2) find_None_iff)
  moreover have "find_verify_cycle (plain blk) 0 512 (c - 1) () = Inr (None, ())"
    unfolding find_verify_cycle_def using w(4) by (subst plain_scan_cycle) (auto simp: w(2) find_None_iff)
  ultimately have h: "head_by_cycle (plain blk) n 512 (c - 1) () = Inr (512, ())"
    by (simp add: head_by_cycle_def T rd_then_def rd_return_def)
  have "find_verify_log_record (plain blk) 0 512 0 () = Inr ((FoundHeader, rewritten_head s), ())"
    using verify_unmount [OF w(8,2) wrapped_scan [OF assms, of 512], of 0] by (simp add: rewritten_head_def)
  then have "validate_head (plain blk) n 512 () = Inr (rewritten_head s, ())"
    by (simp add: validate_head_def T rd_then_def rd_return_def)
  then show ?thesis
    using z h wrapped_change [OF assms] w(1) by (simp add: find_head_def rd_then_def rd_return_def rewritten_head_def)
qed

lemma find_rev_last:
  assumes "k < n" "P k" "\<forall>i. k < i \<and> i < n \<longrightarrow> \<not> P i"
  shows "find P (rev [0..<n]) = Some k"
  using assms
proof (induction n)
  case (Suc n)
  then show ?case by (cases "k = n") auto
qed simp

lemma wrapped_state:
  assumes "wrapped_log blk n s c" "last_unmount blk n c"
  shows "find_tail (plain blk) n () = Inr (\<lparr>ls_head = rewritten_head s, ls_tail = rewritten_head s, ls_cycle = c\<rparr>, ())"
proof -
  note w = wrappedD [OF assms(1)] and p = assms(1) [unfolded wrapped_log_def]
  have head: "find_head (plain blk) n () = Inr (rewritten_head s, ())" by (rule wrapped_head [OF assms(1)])
  have c: "log_cycle (plain blk) 0 () = Inr (c, ())" "c \<noteq> 0" using w(3) p by (simp_all add: plain_cycle w(2))
  show ?thesis
  proof (cases "record_bbs s = 512")
    case True
    have "last_header (plain blk) n 512 () = Inr (Some (0, False), ())"
      using wrapped_scan [OF assms(1), of 512] by (simp add: last_header_def rd_then_def rd_return_def)
    moreover have "tail_of_header (plain blk) n 512 0 False () = Inr (\<lparr>ls_head = 512, ls_tail = 512, ls_cycle = c\<rparr>, ())"
      using tail_of_record [OF w(8,2), of n 512 False] True w(1) record_size_ge(2) [of s] by simp
    ultimately show ?thesis using head True unfolding find_tail_def rewritten_head_def by (simp add: rd_then_def rd_return_def)
  next
    case False
    define k where "k = last_record n"
    note u = assms(2) [unfolded last_unmount_def Let_def, folded k_def]
    have k: "512 dvd k" "512 \<le> k" "k < n" "n - k \<le> 512"
      using w(1) div_mult_mod_eq [of "n - 1" 512] mod_less_divisor [of 512 "n - 1"] div_le_mono [of 512 "n - 1" 512]
      by (simp_all add: k_def last_record_def)
    have "\<not> 512 dvd i" if "k < i" "i < n" for i using that k by (auto elim!: dvdE)
    then have "find (\<lambda>i. word_at (blk i) 0 = HEADER_MAGIC) (rev [0..<n]) = Some k"
      using k w(7) by (intro find_rev_last) auto
    then have "scan_header (plain blk) 0 (rev [0..<n]) () = Inr (Some k, ())"
      by (subst plain_scan_header) (simp_all add: w(2))
    then have "last_header (plain blk) n 0 () = Inr (Some (k, True), ())"
      by (simp add: last_header_def rd_then_def rd_return_def)
    moreover have "k + record_hdrs ((n - k) * 512) < n" using u k(3) record_size_ge(2) [of "(n - k) * 512"] by simp
    then have "tail_of_header (plain blk) n 0 k True () = Inr (\<lparr>ls_head = 0, ls_tail = 0, ls_cycle = c\<rparr>, ())"
      using u tail_of_record [OF conjunct2 [OF u] w(2), of n 0 True] k(3) by simp
    ultimately show ?thesis using head c False unfolding find_tail_def rewritten_head_def by (simp add: rd_then_def rd_return_def)
  qed
qed

subsection \<open>From the bytes to the blocks\<close>

lemma cleared_record:
  assumes "cleared uuid su n cyc S" "512 dvd k" "512 \<le> k" "k < n" "2 dvd n"
  defines "s \<equiv> rec_len n k * 512"
  obtains t x where "holds (record_fields uuid s (log_lsn (cyc - 1) (of_nat k)) t) x" "s < 2 ^ 31"
    "length x = s" "record_bbs s = rec_len n k"
    "\<forall>i < rec_len n k. slice ((k + i) * 512) 512 S = slice (i * 512) 512 x"
proof -
  define x where "x = slice (k * 512) s S"
  have l: "length S = n * 512" using assms(1) by (simp add: cleared_def)
  have r: "rec_len n k \<le> 512" "k + rec_len n k \<le> n" using assms(4) by (auto simp: rec_len_def)
  have "2 dvd n - k" using assms(2,5) dvd_trans [of 2 512 k] by simp
  then have r2: "2 \<le> rec_len n k" using assms(4) dvd_imp_le [of 2 "n - k"] by (simp add: rec_len_def)
  have in': "k * 512 + s \<le> length S" using r(2) unfolding l s_def by linarith
  have "record_in uuid (cyc - 1) n k x" using assms(1-4) by (simp add: cleared_def x_def s_def)
  then obtain t where t: "holds (record_fields uuid s (log_lsn (cyc - 1) (of_nat k)) t) x" by (auto simp: record_in_def s_def)
  have "slice ((k + i) * 512) 512 S = slice (i * 512) 512 x" if "i < rec_len n k" for i
  proof -
    have "i * 512 + 512 \<le> s" using that unfolding s_def by linarith
    then show ?thesis using in' unfolding x_def by (subst slice_slice) (simp_all add: add_mult_distrib)
  qed
  then show thesis
    using t in' r record_bbs_full(1) [OF r2 r(1)] by (intro that [of t x]) (simp_all add: x_def s_def)
qed

lemma cleared_wrapped:
  assumes cl: "cleared uuid su n cyc S" and c: "reads_bytes c st S" and n: "TOTAL_REC_BBS \<le> n" "2 dvd n" and su: "su \<le> BDSTRAT_SIZE"
    and cyc: "cyc \<noteq> 0" "cyc \<noteq> 1" "cyc \<noteq> HEADER_MAGIC" "cyc - 1 \<noteq> HEADER_MAGIC"
  shows "wrapped_log (log_block c st) n su cyc" "last_unmount (log_block c st) n cyc"
proof -
  have l: "length S = n * 512" and n4: "4096 \<le> n" using cl n(1) by (simp_all add: cleared_def TOTAL_REC_BBS_def BBSIZE_def)
  have blk: "log_block c st i = slice (i * 512) 512 S" if "i < n" for i
    using that l by (intro log_block_slice [OF c]) simp
  note L = first_len_record [OF su]
  obtain t where t: "holds (record_fields uuid su (log_lsn cyc 0) t) S" using cl by (auto simp: cleared_def)
  have "record_bbs su * 512 \<le> n * 512" using L(2) n4 by (intro mult_le_mono1) simp
  then have first: "unmount_record (log_block c st) 0 su cyc"
    using L(2) n4 by (intro record_unmounts [OF t L(3)]) (simp_all add: l blk)
  have zero: "word_at (log_block c st i) 0 = 0" if "record_bbs su \<le> i" "i < 512" for i
  proof -
    have i: "i < n" "i * 512 + 512 \<le> length S" using that n4 l by simp_all
    have "slice (i * 512 + 0) 4 S = replicate 4 0"
    proof (rule nth_equalityI)
      fix j
      assume "j < length (slice (i * 512 + 0) 4 S)"
      then have j: "j < 4" using i(2) by simp
      have "record_bbs su * 512 \<le> i * 512" using that(1) by (rule mult_le_mono1)
      then have "S ! (i * 512 + j) = 0" using cl that j by (simp add: cleared_def)
      then show "slice (i * 512 + 0) 4 S ! j = replicate 4 0 ! j" using i(2) j by (simp add: nth_slice)
    qed (use i(2) in simp)
    then show ?thesis using i by (simp add: blk word_at_def slice_slice from_be_def numeral_eq_Suc)
  qed
  have high: "word_at (log_block c st i) 0 = (if 512 dvd i then HEADER_MAGIC else cyc - 1)"
    "512 dvd i \<Longrightarrow> word_at (log_block c st i) lr_CYCLE = cyc - 1" if i: "512 \<le> i" "i < n" for i
  proof -
    define k where "k = i div 512 * 512"
    define j where "j = i mod 512"
    have k: "512 dvd k" "512 \<le> k" "k < n" "i = k + j" "j < 512" "512 dvd i \<longleftrightarrow> j = 0"
      using i div_le_mono [of 512 i 512] div_mult_mod_eq [of i 512] by (auto simp: k_def j_def dvd_eq_mod_eq_0)
    obtain t x where x: "holds (record_fields uuid (rec_len n k * 512) (log_lsn (cyc - 1) (of_nat k)) t) x" "rec_len n k * 512 < 2 ^ 31"
      "length x = rec_len n k * 512" "record_bbs (rec_len n k * 512) = rec_len n k"
      "\<forall>i < rec_len n k. slice ((k + i) * 512) 512 S = slice (i * 512) 512 x"
      by (rule cleared_record [OF cl k(1-3) n(2)])
    note g = record_blocks [OF x(1,2), unfolded x(3,4), OF order_refl]
    have j: "j < rec_len n k" using k i by (simp add: rec_len_def)
    have b: "log_block c st i = slice (j * 512) 512 x" using blk [OF i(2)] x(5) j k(4) by simp
    show "word_at (log_block c st i) 0 = (if 512 dvd i then HEADER_MAGIC else cyc - 1)"
      using b g(1) g(7) [of j] j k(6) by (cases "j = 0") simp_all
    show "word_at (log_block c st i) lr_CYCLE = cyc - 1" if "512 dvd i"
      using b g(2) that k(6) by simp
  qed
  show "wrapped_log (log_block c st) n su cyc"
    unfolding wrapped_log_def
  proof (intro conjI allI impI)
    show "word_at (log_block c st i) lr_CYCLE = cyc - 1" if "512 \<le> i \<and> i < n" "512 dvd i" for i
      using high(2) that by blast
  qed (use n L(2) cyc zero high(1) first in simp_all)
  define k where "k = last_record n"
  have k: "512 dvd k" "512 \<le> k" "k < n" "rec_len n k = n - k"
    using n4 div_mult_mod_eq [of "n - 1" 512] mod_less_divisor [of 512 "n - 1"] div_le_mono [of 512 "n - 1" 512]
    by (simp_all add: k_def last_record_def rec_len_def)
  obtain t x where x: "holds (record_fields uuid (rec_len n k * 512) (log_lsn (cyc - 1) (of_nat k)) t) x" "rec_len n k * 512 < 2 ^ 31"
    "length x = rec_len n k * 512" "record_bbs (rec_len n k * 512) = rec_len n k"
    "\<forall>i < rec_len n k. slice ((k + i) * 512) 512 S = slice (i * 512) 512 x"
    by (rule cleared_record [OF cl k(1-3) n(2)])
  have "unmount_record (log_block c st) k ((n - k) * 512) (cyc - 1)"
    using x(3-5) k(3,4) by (intro record_unmounts [OF x(1,2) [unfolded k(4)]]) (simp_all add: blk)
  then show "last_unmount (log_block c st) n cyc"
    using x(4) k(4) by (simp add: last_unmount_def Let_def flip: k_def)
qed

end
