(* ===== verification/Admin_Uuid.thy ===== *)
theory Admin_Uuid
  imports Log_Wrapped Admin_Format
begin

unbundle bit_operations_syntax

section \<open>Changing the UUID of a filesystem\<close>

text \<open>
  \<open>manageable D good content sector d fs meta\<close>: the filesystem \<open>fs\<close> on the device \<open>d\<close> opens, its superblocks pass their
  checks and agree on the metadata UUID \<open>meta\<close>, its log stripe unit is at most 256 KiB (the most that XFS allows), and its
  log is an even number of basic blocks, long enough for the reader, apart from the superblocks and within the device. A
  new UUID keeps all of it, so that the commands compose.
\<close>

definition log_apart :: "geo \<Rightarrow> bool" where
  "log_apart G \<longleftrightarrow> (case log_extent G of (st, n) \<Rightarrow> TOTAL_REC_BBS \<le> n \<and> 2 dvd n \<and>
     (\<forall>i a. st \<le> i \<and> i < st + n * 512 \<and> a < geo_agcount G \<longrightarrow> \<not> in_superblock G a i))"

definition manageable ::
  "'d dev_ops \<Rightarrow> ('d \<Rightarrow> bool) \<Rightarrow> ('d \<Rightarrow> nat \<Rightarrow> u8) \<Rightarrow> ('d \<Rightarrow> nat) \<Rightarrow> 'd \<Rightarrow> fs \<Rightarrow> bytes \<Rightarrow> bool" where
  "manageable D good content sector d fs meta \<longleftrightarrow> good d \<and> fs_open D d = Inr fs \<and> sb_room D sector d (fs_geo fs) \<and>
     superblocks_ok (fs_geo fs) (content d) \<and> dev_logical D d \<le> geo_blocksize (fs_geo fs) \<and>
     log_apart (fs_geo fs) \<and> geo_logsunit (fs_geo fs) \<le> BDSTRAT_SIZE \<and>
     log_inside D sector d (fst (log_extent (fs_geo fs))) (snd (log_extent (fs_geo fs))) \<and>
     (\<forall>a<geo_agcount (fs_geo fs). meta_uuid (sb_block (fs_geo fs) (content d) a) = Inr meta)"

text \<open>
  The cycles for which neither the next cycle nor its predecessor is a reserved number; 0 is that of a zeroed log.
\<close>

definition usable_cycle :: "u32 \<Rightarrow> bool" where
  "usable_cycle c \<longleftrightarrow> c + 1 \<noteq> 0 \<and> c \<noteq> HEADER_MAGIC \<and> c + 1 \<noteq> HEADER_MAGIC"

text \<open>
  The state of a log that was cleared in cycle \<open>c\<close>: the next cycle, and head and tail at the start of the log, or after its first
  record when the log was zeroed before or that record fills the blocks up to the records of the previous cycle.
\<close>

definition cleared_state :: "nat \<Rightarrow> u32 \<Rightarrow> log_state" where
  "cleared_state su c =
     (let h = (if c = 0 then record_bbs su else if record_bbs su = 512 then 512 else 0)
      in \<lparr>ls_head = h, ls_tail = h, ls_cycle = c + 1\<rparr>)"

lemma cleared_state_simps [simp]: "\<not> dirty (cleared_state su c)" "ls_cycle (cleared_state su c) = c + 1"
  by (simp_all add: cleared_state_def dirty_def Let_def)

text \<open>\<open>log_reads st n x S\<close>: a log of \<open>n\<close> basic blocks that is \<open>S\<close> is read as \<open>x\<close>, wherever the device holds it.\<close>

definition log_reads :: "nat \<Rightarrow> nat \<Rightarrow> log_state \<Rightarrow> bytes \<Rightarrow> bool" where
  "log_reads st n x S \<longleftrightarrow> length S = n * 512 \<and>
     (\<forall>c. reads_bytes c st S \<longrightarrow> find_tail (plain (log_block c st)) n () = Inr (x, ()))"

subsection \<open>A geometry whose features change\<close>

lemma incompat_irrelevant [simp]:
  shows "sb_block (G\<lparr>geo_incompat := w\<rparr>) = sb_block G" "in_superblock (G\<lparr>geo_incompat := w\<rparr>) = in_superblock G"
    "sb_room D sector d (G\<lparr>geo_incompat := w\<rparr>) = sb_room D sector d G"
    "superblocks_ok (G\<lparr>geo_incompat := w\<rparr>) = superblocks_ok G" "log_extent (G\<lparr>geo_incompat := w\<rparr>) = log_extent G"
    "log_apart (G\<lparr>geo_incompat := w\<rparr>) = log_apart G"
proof -
  show b: "sb_block (G\<lparr>geo_incompat := w\<rparr>) = sb_block G" "in_superblock (G\<lparr>geo_incompat := w\<rparr>) = in_superblock G"
    by (simp_all add: sb_block_def in_superblock_def fun_eq_iff)
  show "sb_room D sector d (G\<lparr>geo_incompat := w\<rparr>) = sb_room D sector d G" by (simp add: sb_room_def)
  have "check_sb (G\<lparr>geo_incompat := w\<rparr>) = check_sb G" by (intro ext) (simp add: check_sb_def cong: if_cong)
  then show "superblocks_ok (G\<lparr>geo_incompat := w\<rparr>) = superblocks_ok G" by (simp add: superblocks_ok_def b fun_eq_iff)
  show l: "log_extent (G\<lparr>geo_incompat := w\<rparr>) = log_extent G" by (simp add: log_extent_def)
  show "log_apart (G\<lparr>geo_incompat := w\<rparr>) = log_apart G" by (simp add: log_apart_def l b)
qed

lemma uuid_edits:
  assumes "length uuid = 16"
  shows "edits G (uuid_edit uuid meta)"
proof (rule editsI)
  fix b :: bytes
  assume l: "sb_END \<le> length b"
  then obtain w where w: "be32 b sb_FEATURES_INCOMPAT = Inr w" by (simp add: be32_def)
  show "\<exists>b'. uuid_edit uuid meta b = Inr b' \<and> changes_only uuid_places b b'"
    using uuid_edit_fields [OF l assms w] by blast
qed (auto simp: uuid_places_def)

context block_device
begin

lemma fs_open_primary:
  assumes "good d" "fs_open D d = Inr fs" "sb_room D sector d (fs_geo fs)"
  shows "fs_primary fs = sb_block (fs_geo fs) (content d) 0" "0 < geo_agcount (fs_geo fs)" "512 \<le> geo_blocksize (fs_geo fs)"
    "sb_END \<le> geo_sectsize (fs_geo fs)" "geo_sectsize (fs_geo fs) \<le> geo_blocksize (fs_geo fs)"
proof -
  note o = fs_open_InrD [OF assms(2)]
  show g: "0 < geo_agcount (fs_geo fs)" "512 \<le> geo_blocksize (fs_geo fs)" "sb_END \<le> geo_sectsize (fs_geo fs)"
    "geo_sectsize (fs_geo fs) \<le> geo_blocksize (fs_geo fs)" using o(3) by (simp_all add: geo_sane_def)
  show "fs_primary fs = sb_block (fs_geo fs) (content d) 0"
    using o(2) read_sb_ok [OF assms(1,3) g(1)] by (auto simp: check_sb_def and_then_eq_Inr split: if_splits)
qed

end

text \<open>The superblock of group \<open>a\<close> after the edit was written.\<close>

definition new_sb :: "fs \<Rightarrow> bytes \<Rightarrow> bytes \<Rightarrow> bytes \<Rightarrow> bytes" where
  "new_sb fs uuid meta b = sb_rewrite (fs_geo fs) (uuid_edit uuid meta) b"

lemma new_sb_fields:
  assumes l: "sb_END \<le> geo_sectsize (fs_geo fs)" "geo_sectsize (fs_geo fs) \<le> length b" and u: "length uuid = 16"
    and m: "meta_uuid b = Inr meta" and w: "be32 b sb_FEATURES_INCOMPAT = Inr w"
  shows "\<exists>w'. be32 (new_sb fs uuid meta b) sb_FEATURES_INCOMPAT = Inr w' \<and> (w' AND IN_META_UUID \<noteq> 0 \<longleftrightarrow> uuid \<noteq> meta) \<and>
      w' AND NOT IN_META_UUID = w AND NOT IN_META_UUID"
    "slice sb_UUID 16 (new_sb fs uuid meta b) = uuid" "meta_uuid (new_sb fs uuid meta b) = Inr meta"
    "changes_only (uuid_places \<union> rewritten) b (new_sb fs uuid meta b)"
proof -
  have lb: "sb_END \<le> length b" using l by simp
  obtain b' w' where b': "uuid_edit uuid meta b = Inr b'" "slice sb_UUID 16 b' = uuid" "meta_uuid b' = Inr meta"
    "be32 b' sb_FEATURES_INCOMPAT = Inr w'" "w' AND IN_META_UUID \<noteq> 0 \<longleftrightarrow> uuid \<noteq> meta"
    "w' AND NOT IN_META_UUID = w AND NOT IN_META_UUID" "changes_only uuid_places b b'"
    using uuid_edit_keeps [OF lb u m w] by blast
  note ch = sb_rewrite_changes [where f = "uuid_edit uuid meta", OF b'(1,7) l(2,1), folded new_sb_def]
  have l': "length b' = length b" by (rule changes_length [OF b'(7)])
  have ln: "length (new_sb fs uuid meta b) = length b" using changes_length [OF ch(2)] l' by simp
  have i: "be32 (new_sb fs uuid meta b) sb_FEATURES_INCOMPAT = be32 b' sb_FEATURES_INCOMPAT"
    using lb l' by (intro changes_words(1) [OF ch(2)]) (auto simp: rewritten_def)
  have s: "slice off 16 (new_sb fs uuid meta b) = slice off 16 b'" if "off \<in> {sb_UUID, sb_META_UUID}" for off
    using that lb l' by (intro changes_slice [OF ch(2)]) (auto simp: rewritten_def)
  show "\<exists>w'. be32 (new_sb fs uuid meta b) sb_FEATURES_INCOMPAT = Inr w' \<and> (w' AND IN_META_UUID \<noteq> 0 \<longleftrightarrow> uuid \<noteq> meta) \<and>
      w' AND NOT IN_META_UUID = w AND NOT IN_META_UUID"
    using i b'(4-6) by simp
  show "slice sb_UUID 16 (new_sb fs uuid meta b) = uuid" using s b'(2) by simp
  have "has_meta (new_sb fs uuid meta b) = has_meta b'" by (simp add: has_meta_def i)
  then show "meta_uuid (new_sb fs uuid meta b) = Inr meta" using b'(3) s lb ln l' by (simp add: meta_uuid_eq)
  show "changes_only (uuid_places \<union> rewritten) b (new_sb fs uuid meta b)" by (rule ch(1))
qed

text \<open>The filesystem opens again: the known features stay known and the other refusals look at bytes that stay.\<close>

lemma incompat_bits:
  assumes "w' AND NOT IN_META_UUID = w AND NOT IN_META_UUID"
  shows "w' AND IN_NEEDSREPAIR = w AND IN_NEEDSREPAIR" "w' AND NOT KNOWN_INCOMPAT = w AND NOT KNOWN_INCOMPAT"
proof -
  have x: "x AND IN_NEEDSREPAIR = (x AND NOT IN_META_UUID) AND IN_NEEDSREPAIR"
    "x AND NOT KNOWN_INCOMPAT = (x AND NOT IN_META_UUID) AND NOT KNOWN_INCOMPAT" for x :: u32
    by (simp_all only: word_bw_assocs) (simp_all add: KNOWN_INCOMPAT_def)
  show "w' AND IN_NEEDSREPAIR = w AND IN_NEEDSREPAIR" "w' AND NOT KNOWN_INCOMPAT = w AND NOT KNOWN_INCOMPAT"
    using x [of w] x [of w'] unfolding assms by presburger+
qed

text \<open>The device when the log has been cleared and the first \<open>k\<close> superblocks have been rewritten.\<close>

definition cut_uuid :: "'d dev_ops \<Rightarrow> fs \<Rightarrow> bytes \<Rightarrow> bytes \<Rightarrow> u32 \<Rightarrow> nat \<Rightarrow> 'd \<Rightarrow> error + 'd" where
  "cut_uuid D fs uuid meta cycle k d =
     and_then (clear_log D fs uuid cycle d) (\<lambda>d.
     and_then (dev_flush D d) (\<lambda>d.
     try_fold (edit_sb D (fs_geo fs) (uuid_edit uuid meta)) [0..<k] d))"

context block_device
begin

lemma reopens:
  assumes m: "manageable D good content sector d fs meta" and good: "good d'" and same: "same_device D sector d d'"
    and ok: "superblocks_ok (fs_geo fs) (content d')" and u: "length uuid = 16"
    and p: "sb_block (fs_geo fs) (content d') 0 = new_sb fs uuid meta (sb_block (fs_geo fs) (content d) 0)"
  shows "\<exists>w. fs_open D d' =
    Inr \<lparr>fs_geo = (fs_geo fs)\<lparr>geo_incompat := w\<rparr>, fs_primary = sb_block (fs_geo fs) (content d') 0\<rparr>"
proof -
  define G where "G = fs_geo fs"
  define b where "b = sb_block G (content d) 0"
  define b' where "b' = sb_block G (content d') 0"
  note M = m [unfolded manageable_def, folded G_def]
  have d: "good d" "fs_open D d = Inr fs" "sb_room D sector d G" "dev_logical D d \<le> geo_blocksize G" using M by blast+
  note g = fs_open_primary [OF d(1,2) d(3) [unfolded G_def], folded G_def]
  have o: "inspect_geometry D d = Inr G" "geo_logstart G \<noteq> 0" using fs_open_InrD [OF d(2)] by (simp_all add: G_def)
  have lb: "geo_sectsize G \<le> length b" "sb_END \<le> length b" using g(4,5) by (simp_all add: b_def)
  obtain w where w: "be32 b sb_FEATURES_INCOMPAT = Inr w" using lb(2) by (simp add: be32_def)
  have mb: "meta_uuid b = Inr meta" using M g(2) by (simp add: b_def)
  have b': "b' = new_sb fs uuid meta b" using p by (simp add: b'_def b_def G_def)
  note n = new_sb_fields [OF g(4) [unfolded G_def] lb(1) [unfolded G_def] u mb w, folded b']
  obtain w' where w': "be32 b' sb_FEATURES_INCOMPAT = Inr w'" "w' AND NOT IN_META_UUID = w AND NOT IN_META_UUID" using n(1) by blast
  have room: "sb_room D sector d' G" "dev_logical D d' \<le> geo_blocksize G"
    using d(3,4) same by (simp_all add: sb_room_def same_device_def)
  have "geo_parse b = Inr G" using geometry_of_primary [OF d(1,3) g(3) d(4) g(2)] o(1) by (simp add: b_def)
  then have "geo_parse b' = Inr (G\<lparr>geo_incompat := w'\<rparr>)"
    using n(4) lb(2) w'(1) by (intro geo_parse_incompat) (auto simp: uuid_places_def rewritten_def geo_places_def)
  then have i: "inspect_geometry D d' = Inr (G\<lparr>geo_incompat := w'\<rparr>)"
    using geometry_of_primary [OF good room(1) g(3) room(2) g(2)] by (simp add: b'_def)
  have "check_sb G 0 b' = Inr b'" using ok g(2) unfolding superblocks_ok_def G_def [symmetric] b'_def by blast
  then have "check_sb (G\<lparr>geo_incompat := w'\<rparr>) 0 b' = Inr b'" by (simp add: check_sb_def cong: if_cong)
  then have r: "read_sb D (G\<lparr>geo_incompat := w'\<rparr>) d' 0 = Inr b'"
    using read_sb_ok [OF good, of "G\<lparr>geo_incompat := w'\<rparr>" 0] room(1) g(2) by (simp add: b'_def)
  have "be64 b' sb_RBLOCKS = be64 b sb_RBLOCKS"
    using lb(2) by (intro changes_words(2) [OF n(4)]) (auto simp: uuid_places_def rewritten_def)
  moreover have "fs_primary fs = b" using g(1) by (simp add: b_def)
  ultimately have k: "w AND IN_NEEDSREPAIR = 0" "w AND NOT KNOWN_INCOMPAT = 0" "be64 b' sb_RBLOCKS = Inr 0"
    using d(2) w by (auto simp: fs_open_def and_then_eq_Inr split: if_splits)
  then have "fs_open D d' = Inr \<lparr>fs_geo = G\<lparr>geo_incompat := w'\<rparr>, fs_primary = b'\<rparr>"
    using i r w'(1) incompat_bits [OF w'(2)] o(2) by (simp add: fs_open_def)
  then show ?thesis by (auto simp: G_def b'_def)
qed

lemma new_sb_each:
  assumes m: "manageable D good content sector d fs meta" and u: "length uuid = 16" and a: "a < geo_agcount (fs_geo fs)"
  defines "b \<equiv> sb_block (fs_geo fs) (content d) a"
  shows "slice sb_UUID 16 (new_sb fs uuid meta b) = uuid" "has_meta (new_sb fs uuid meta b) \<longleftrightarrow> uuid \<noteq> meta"
    "meta_uuid (new_sb fs uuid meta b) = Inr meta" "changes_only (uuid_places \<union> rewritten) b (new_sb fs uuid meta b)"
proof -
  have d: "good d" "fs_open D d = Inr fs" "sb_room D sector d (fs_geo fs)" "meta_uuid b = Inr meta"
    using m a by (auto simp: manageable_def b_def)
  note g = fs_open_primary [OF d(1-3)]
  have l: "geo_sectsize (fs_geo fs) \<le> length b" using g(5) by (simp add: b_def)
  then obtain w where w: "be32 b sb_FEATURES_INCOMPAT = Inr w" using g(4) by (simp add: be32_def)
  note n = new_sb_fields [OF g(4) l u d(4) w]
  show "slice sb_UUID 16 (new_sb fs uuid meta b) = uuid" "meta_uuid (new_sb fs uuid meta b) = Inr meta"
    "changes_only (uuid_places \<union> rewritten) b (new_sb fs uuid meta b)" by (rule n)+
  show "has_meta (new_sb fs uuid meta b) \<longleftrightarrow> uuid \<noteq> meta" unfolding has_meta_def using n(1) by auto
qed

text \<open>Clearing the log of a manageable filesystem: the cycle after a zeroed log is the first one.\<close>

lemma log_clears:
  assumes m: "manageable D good content sector d fs meta" and c: "usable_cycle cycle"
    and u: "length uuid = 16" and e: "log_extent (fs_geo fs) = (st, n)"
  shows "\<exists>d' S. clear_log D fs uuid (cycle + 1) d = Inr d' \<and> good d' \<and> same_device D sector d d' \<and>
    content d' = overwrite (content d) st S \<and> log_reads st n (cleared_state (geo_logsunit (fs_geo fs)) cycle) S"
proof -
  define su where "su = geo_logsunit (fs_geo fs)"
  have d: "good d" "sector d dvd geo_blocksize (fs_geo fs)" "su \<le> BDSTRAT_SIZE" "geo_sane (fs_geo fs)"
    using m fs_open_InrD(3) by (auto simp: manageable_def sb_room_def su_def)
  have l: "st + n * 512 \<le> dev_size D d" "sector d dvd st" "sector d dvd n * 512" "4096 \<le> n" "2 dvd n"
    using m e by (auto simp: manageable_def log_inside_def log_apart_def TOTAL_REC_BBS_def BBSIZE_def)
  have T: "TOTAL_REC_BBS \<le> n" using l(4) by (simp add: TOTAL_REC_BBS_def BBSIZE_def)
  note L = first_len_record [OF d(3)]
  show ?thesis
  proof (cases "cycle = 0")
    case True
    have b: "0 < geo_blocksize (fs_geo fs)" "geo_blocksize (fs_geo fs) \<le> 65536" using d(4) by (auto simp: geo_sane_def)
    have i: "cycle + 1 = INIT_CYCLE" using True by (simp add: INIT_CYCLE_def)
    obtain d' rec where d': "clear_log D fs uuid INIT_CYCLE d = Inr d'" "good d'" "same_device D sector d d'"
      "first_record uuid su = Inr rec" "length rec \<le> n * 512"
      "content d' = overwrite (content d) st (rec @ replicate (n * 512 - length rec) 0)"
      using clear_init_ok [OF d(1) e l(1-4) u d(3) [unfolded su_def] d(2) b] unfolding su_def by blast
    have "record_bbs su < TOTAL_REC_BBS" using L(2) by (simp add: TOTAL_REC_BBS_def BBSIZE_def)
    note fresh = fresh_state [OF record_is_fresh [OF u L(3) this d'(4) _ T]]
    have "log_reads st n (cleared_state su cycle) (rec @ replicate (n * 512 - length rec) 0)"
      using d'(5) fresh by (simp add: log_reads_def cleared_state_def Let_def True)
    then show ?thesis using d' unfolding i su_def by blast
  next
    case False
    have cyc: "cycle + 1 \<noteq> 0" "cycle + 1 \<noteq> 1" "cycle + 1 \<noteq> HEADER_MAGIC" "cycle + 1 - 1 \<noteq> HEADER_MAGIC"
      using c False by (simp_all add: usable_cycle_def)
    then have "cycle + 1 \<noteq> INIT_CYCLE" by (simp add: INIT_CYCLE_def)
    then obtain d' S where d': "clear_log D fs uuid (cycle + 1) d = Inr d'" "good d'" "same_device D sector d d'"
      "cleared uuid su n (cycle + 1) S" "content d' = overwrite (content d) st S"
      using clear_ok [OF d(1) e l(1-3) _ l(5) _ u d(3) [unfolded su_def], of "cycle + 1"] l(4) by (auto simp: su_def)
    have "log_reads st n (cleared_state su cycle) S"
      unfolding log_reads_def
    proof (intro conjI allI impI)
      show "length S = n * 512" using d'(4) by (simp add: cleared_def)
      show "find_tail (plain (log_block c st)) n () = Inr (cleared_state su cycle, ())" if "reads_bytes c st S" for c
        using wrapped_state [OF cleared_wrapped [OF d'(4) that T l(5) d(3) cyc]] False
        by (simp add: cleared_state_def rewritten_head_def Let_def)
    qed
    then show ?thesis using d' unfolding su_def by blast
  qed
qed

lemma cut_uuid_effect:
  assumes m: "manageable D good content sector d fs meta" and c: "usable_cycle cycle"
    and u: "length uuid = 16" and e: "log_extent (fs_geo fs) = (st, n)" and k: "k \<le> geo_agcount (fs_geo fs)"
  shows "\<exists>d' S. cut_uuid D fs uuid meta (cycle + 1) k d = Inr d' \<and> good d' \<and> same_device D sector d d' \<and>
    superblocks_ok (fs_geo fs) (content d') \<and>
    (\<forall>a<geo_agcount (fs_geo fs). sb_block (fs_geo fs) (content d') a =
      (if a < k then new_sb fs uuid meta (sb_block (fs_geo fs) (content d) a) else sb_block (fs_geo fs) (content d) a)) \<and>
    (\<forall>i. (\<forall>a<geo_agcount (fs_geo fs). \<not> in_superblock (fs_geo fs) a i) \<longrightarrow> content d' i = overwrite (content d) st S i) \<and>
    log_reads st n (cleared_state (geo_logsunit (fs_geo fs)) cycle) S"
proof -
  define G where "G = fs_geo fs"
  note M = m [unfolded manageable_def e fst_conv snd_conv, folded G_def]
  have d: "good d" "sb_room D sector d G" "superblocks_ok G (content d)" using M by blast+
  have apart: "\<not> in_superblock G a i" if "st \<le> i" "i < st + n * 512" "a < geo_agcount G" for i a
    using M that e by (auto simp: log_apart_def G_def)
  obtain d1 S where d1: "clear_log D fs uuid (cycle + 1) d = Inr d1" "good d1" "same_device D sector d d1"
    "content d1 = overwrite (content d) st S" and S: "log_reads st n (cleared_state (geo_logsunit G) cycle) S"
    using log_clears [OF m c u e] unfolding G_def by blast
  have lS: "length S = n * 512" using S by (simp add: log_reads_def)
  obtain d2 where d2: "dev_flush D d1 = Inr d2" "good d2" "same_device D sector d1 d2" "content d2 = content d1"
    using flush [OF d1(2)] by blast
  have s2: "same_device D sector d d2" using d1(3) d2(3) by (rule same_device_trans)
  have blk: "sb_block G (content d2) a = sb_block G (content d) a" if "a < geo_agcount G" for a
    using apart that by (intro sb_block_cong) (auto simp: d2(4) d1(4) overwrite_def lS)
  have room: "sb_room D sector d2 G" using d(2) s2 by (simp add: sb_room_def same_device_def)
  have ok: "superblocks_ok G (content d2)" using d(3) blk by (simp add: superblocks_ok_def)
  obtain d3 where d3: "try_fold (edit_sb D G (uuid_edit uuid meta)) [0..<k] d2 = Inr d3" "good d3" "same_device D sector d2 d3"
    and b3: "\<forall>a<geo_agcount G. sb_block G (content d3) a =
      (if a < k then sb_rewrite G (uuid_edit uuid meta) (sb_block G (content d2) a) else sb_block G (content d2) a)"
    and o3: "\<forall>i. (\<forall>a<geo_agcount G. \<not> in_superblock G a i) \<longrightarrow> content d3 i = content d2 i"
    using edit_loop [OF d2(2) room uuid_edits [OF u] ok k [folded G_def]] by blast
  have ok3: "superblocks_ok G (content d3)"
    using b3 ok room sb_rewrite_ok(3) [OF uuid_edits [OF u], of G] by (auto simp: superblocks_ok_def sb_room_def)
  show ?thesis
    using d1(1,4) d2(1,4) d3 b3 o3 blk S ok3 same_device_trans [OF s2 d3(3)]
    unfolding G_def [symmetric] new_sb_def by (intro exI [of _ d3] exI [of _ S]) (simp add: cut_uuid_def flip: G_def)
qed

text \<open>
  \<open>set_uuid\<close> on a clean log is \<open>cut_uuid\<close> with any number of groups, the rest of the groups and the last flush: what
  \<open>cut_uuid\<close> leaves is what \<^verbatim>\<open>set_uuid\<close> has made of the device by then.
\<close>

lemma set_uuid_cut:
  assumes m: "manageable D good content sector d fs meta" and t: "fs_find_tail D fs d = Inr state" "\<not> dirty state"
    and k: "k \<le> geo_agcount (fs_geo fs)"
  shows "set_uuid D uuid d = and_then (cut_uuid D fs uuid meta (ls_cycle state + 1) k d) (\<lambda>d.
    and_then (try_fold (edit_sb D (fs_geo fs) (uuid_edit uuid meta)) [k..<geo_agcount (fs_geo fs)] d) (dev_flush D))"
proof -
  have d: "good d" "fs_open D d = Inr fs" "sb_room D sector d (fs_geo fs)" using m by (simp_all add: manageable_def)
  note p = fs_open_primary [OF this]
  have mu: "meta_uuid (fs_primary fs) = Inr meta" using p(1,2) m by (simp add: manageable_def)
  have split: "[0..<geo_agcount (fs_geo fs)] = [0..<k] @ [k..<geo_agcount (fs_geo fs)]"
    using k upt_add_eq_append [of 0 k "geo_agcount (fs_geo fs) - k"] by simp
  show ?thesis
    using d(2) t mu by (simp add: set_uuid_def cut_uuid_def edit_sbs_def split try_fold_append and_then_assoc)
qed

text \<open>The writes of \<^verbatim>\<open>set_uuid\<close> on the device: the log, then every superblock.\<close>

lemma set_uuid_writes:
  assumes m: "manageable D good content sector d fs meta" and t: "fs_find_tail D fs d = Inr state" and c: "\<not> dirty state" "usable_cycle (ls_cycle state)"
    and u: "length uuid = 16" and e: "log_extent (fs_geo fs) = (st, n)"
  shows "\<exists>d' S. set_uuid D uuid d = Inr d' \<and> good d' \<and> same_device D sector d d' \<and>
    superblocks_ok (fs_geo fs) (content d') \<and>
    (\<forall>a<geo_agcount (fs_geo fs). sb_block (fs_geo fs) (content d') a = new_sb fs uuid meta (sb_block (fs_geo fs) (content d) a)) \<and>
    (\<forall>i. (\<forall>a<geo_agcount (fs_geo fs). \<not> in_superblock (fs_geo fs) a i) \<longrightarrow> content d' i = overwrite (content d) st S i) \<and>
    log_reads st n (cleared_state (geo_logsunit (fs_geo fs)) (ls_cycle state)) S"
proof -
  obtain d1 S where d1: "cut_uuid D fs uuid meta (ls_cycle state + 1) (geo_agcount (fs_geo fs)) d = Inr d1" "good d1"
    "same_device D sector d d1"
    and r1: "superblocks_ok (fs_geo fs) (content d1)"
      "\<forall>a<geo_agcount (fs_geo fs). sb_block (fs_geo fs) (content d1) a = new_sb fs uuid meta (sb_block (fs_geo fs) (content d) a)"
      "\<forall>i. (\<forall>a<geo_agcount (fs_geo fs). \<not> in_superblock (fs_geo fs) a i) \<longrightarrow> content d1 i = overwrite (content d) st S i"
      "log_reads st n (cleared_state (geo_logsunit (fs_geo fs)) (ls_cycle state)) S"
    using cut_uuid_effect [OF m c(2) u e order_refl] by auto
  obtain d2 where d2: "dev_flush D d1 = Inr d2" "good d2" "same_device D sector d1 d2" "content d2 = content d1"
    using flush [OF d1(2)] by blast
  have "set_uuid D uuid d = Inr d2" using set_uuid_cut [OF m t c(1) order_refl] d1(1) d2(1) by simp
  then show ?thesis
    using d2 r1 same_device_trans [OF d1(3) d2(3)] by (intro exI [of _ d2] exI [of _ S]) simp
qed

end

subsection \<open>A formatted filesystem\<close>

text \<open>The first record of a formatted filesystem never fills the blocks up to the second one.\<close>

lemma formatted_cleared_state:
  assumes "geometry_ok g" "c \<noteq> 0"
  shows "cleared_state (geo_logsunit (geo_of g)) c = \<lparr>ls_head = 0, ls_tail = 0, ls_cycle = c + 1\<rparr>"
proof -
  define su where "su = geo_logsunit (geo_of g)"
  have s: "su \<le> 32 * 512"
    using bs_facts(3) [OF assms(1)] by (simp add: su_def geo_of_def logsunit_def lsunit_bytes_def bs_def)
  then have "record_hdrs su = 1" by (simp add: record_hdrs_def HEADER_CYCLE_SIZE_def)
  moreover have "div_ceil su 512 \<le> 32" using s by (rule div_ceil_le) simp
  ultimately have "record_bbs su \<noteq> 512" by (simp add: record_bbs_def BBSIZE_def max_def)
  then show ?thesis using assms(2) by (simp add: cleared_state_def Let_def flip: su_def)
qed

lemma formatted_log_apart:
  assumes r: "format_ready D sector d g plans uuid order"
  shows "log_apart (geo_of g)"
proof -
  note g = ready_geometry [OF r] and L = log_region [OF r]
  have b: "512 dvd bs g" "log_bbs g * 512 = logblocks g * bs g" "TOTAL_REC_BBS \<le> log_bbs g" using bs_facts [OF g(1)] by simp_all
  have "(2::nat) ^ 10 dvd bs g" using geometry_okD(1,2) [OF g(1)] le_imp_power_dvd [of 10 "blocklog g" "2::nat"] by (simp add: bs_def)
  then have "2 * 512 dvd log_bbs g * 512" unfolding b(2) by simp
  then have even: "2 dvd log_bbs g" by (simp only: nat_mult_dvd_cancel_disj dvd_mult_cancel_right mult.commute [of _ "512::nat"]) simp
  have "\<not> in_superblock (geo_of g) a i" if i: "log_at g \<le> i" "i < log_at g + log_bbs g * 512" and a: "a < agcount g" for i a
  proof -
    have s: "bs g \<le> prealloc_blocks g * bs g" "bs g \<le> agsize g * bs g"
      using head_sizes(5) [OF g(1)] geometry_okD(26) [OF g(1)] by simp_all
    have "group_at g a + bs g \<le> log_at g \<or> log_at g + logblocks g * bs g \<le> group_at g a"
    proof (cases "logagno g < a")
      case True
      show ?thesis using group_at_mono [OF True, of g] L(2) by linarith
    next
      case False
      then have "a = logagno g \<or> group_at g a + agsize g * bs g \<le> group_at g (logagno g)" by (auto intro: group_at_mono)
      then show ?thesis using L(1) s by (elim disjE) (simp, linarith)
    qed
    then show ?thesis using i unfolding in_superblock_def geo_of_position group_at_def b(2) by linarith
  qed
  then show ?thesis
    using b(3) even by (simp add: log_apart_def log_extent_of [OF r] geo_of_position)
qed

context block_device
begin

lemma formatted_manageable:
  assumes f: "formatted_on D good content sector d g plans uuid time gen order d'" and l: "dev_logical D d \<le> bs g"
  shows "manageable D good content sector d' \<lparr>fs_geo = geo_of g, fs_primary = sb_block (geo_of g) (content d') 0\<rparr> uuid"
proof -
  have r: "format_ready D sector d g plans uuid order" and s: "good d'" "same_device D sector d d'"
    using f by (simp_all add: formatted_on_def)
  note g = ready_geometry [OF r]
  have "meta_uuid (sb_block (geo_of g) (content d') a) = Inr uuid" if a: "a < agcount g" for a
  proof -
    obtain x rest where x: "sb_block (geo_of g) (content d') a = x @ rest" "length x = sectsize g"
      "holds (sb_fields (g, final_sb g uuid plans a) (sectsize g)) x"
      by (rule formatted_sb [OF f a])
    note h = holds_longer [OF x(3), of rest]
    have "be32 (x @ rest) sb_FEATURES_INCOMPAT = Inr (incompat g)" by (rule holds_be32 [OF h]) (simp add: sb_fields_def Let_def)
    then have "\<not> has_meta (x @ rest)" using incompat_known(3) by (simp add: has_meta_def)
    moreover have "slice sb_UUID 16 (x @ rest) = uuid"
      using holds_member [OF h, of sb_UUID uuid] g(3) by (simp add: sb_fields_def Let_def final_sb_def)
    ultimately show ?thesis using head_sizes(1) [OF g(1)] x(1,2) by (simp add: meta_uuid_eq)
  qed
  moreover have "geo_logsunit (geo_of g) \<le> BDSTRAT_SIZE"
    using bs_facts(3) [OF g(1)] by (simp add: geo_of_def logsunit_def lsunit_bytes_def bs_def BDSTRAT_SIZE_def)
  ultimately show ?thesis
    using s l formatted_opens [OF f l] formatted_room [OF f] formatted_superblocks [OF f] formatted_log_apart [OF r]
      formatted_log_inside [OF f]
    by (simp add: manageable_def geo_of_position same_device_def log_extent_of [OF r])
qed

lemma formatted_tail:
  assumes f: "formatted_on D good content sector d g plans uuid time gen order d'" and l: "dev_logical D d \<le> bs g"
  shows "fs_find_tail D \<lparr>fs_geo = geo_of g, fs_primary = p\<rparr> d' =
    Inr \<lparr>ls_head = record_bbs (log_sunit g), ls_tail = record_bbs (log_sunit g), ls_cycle = 1\<rparr>"
proof -
  have r: "format_ready D sector d g plans uuid order" and good: "good d'" using f by (simp_all add: formatted_on_def)
  show ?thesis
    using device_find_tail [OF good log_extent_of [OF r] formatted_log_inside [OF f] bs_facts(6)] ready_geometry(1) [OF r]
      fresh_state [OF formatted_log [OF f]]
    by simp
qed

end

subsection \<open>The effect of a new UUID\<close>

context block_device
begin

lemma set_uuid_effect:
  assumes m: "manageable D good content sector d fs meta" and t: "fs_find_tail D fs d = Inr state" and c: "\<not> dirty state" "usable_cycle (ls_cycle state)"
    and u: "length uuid = 16" and e: "log_extent (fs_geo fs) = (st, n)"
  shows "\<exists>d' fs'. set_uuid D uuid d = Inr d' \<and> manageable D good content sector d' fs' meta \<and>
    fs_geo fs' = (fs_geo fs)\<lparr>geo_incompat := geo_incompat (fs_geo fs')\<rparr> \<and>
    fs_find_tail D fs' d' = Inr (cleared_state (geo_logsunit (fs_geo fs)) (ls_cycle state)) \<and>
    (\<forall>a<geo_agcount (fs_geo fs).
      slice sb_UUID 16 (sb_block (fs_geo fs) (content d') a) = uuid \<and>
      (has_meta (sb_block (fs_geo fs) (content d') a) \<longleftrightarrow> uuid \<noteq> meta) \<and>
      changes_only (uuid_places \<union> rewritten) (sb_block (fs_geo fs) (content d) a) (sb_block (fs_geo fs) (content d') a)) \<and>
    (\<forall>i. (\<forall>a<geo_agcount (fs_geo fs). \<not> in_superblock (fs_geo fs) a i) \<and> \<not> (st \<le> i \<and> i < st + n * 512) \<longrightarrow>
      content d' i = content d i)"
proof -
  define G where "G = fs_geo fs"
  note M = m [unfolded manageable_def e fst_conv snd_conv, folded G_def]
  have d: "good d" "fs_open D d = Inr fs" "sb_room D sector d G" using M by blast+
  have n: "TOTAL_REC_BBS \<le> n" "2 dvd n" using M e by (auto simp: log_apart_def G_def)
  have apart: "\<not> in_superblock G a i" if "st \<le> i" "i < st + n * 512" "a < geo_agcount G" for i a
    using M that e by (auto simp: log_apart_def G_def)
  note g = fs_open_primary [OF d(1,2) d(3) [unfolded G_def], folded G_def]
  obtain d' S where d': "set_uuid D uuid d = Inr d'" "good d'" "same_device D sector d d'"
    "superblocks_ok G (content d')"
    and b: "\<forall>a<geo_agcount G. sb_block G (content d') a = new_sb fs uuid meta (sb_block G (content d) a)"
    and out: "\<forall>i. (\<forall>a<geo_agcount G. \<not> in_superblock G a i) \<longrightarrow> content d' i = overwrite (content d) st S i"
    and S: "log_reads st n (cleared_state (geo_logsunit G) (ls_cycle state)) S"
    using set_uuid_writes [OF m t c u e] unfolding G_def by blast
  have lS: "length S = n * 512" using S by (simp add: log_reads_def)
  obtain w where o: "fs_open D d' = Inr \<lparr>fs_geo = G\<lparr>geo_incompat := w\<rparr>, fs_primary = sb_block G (content d') 0\<rparr>"
    using reopens [OF m d'(2,3,4) [unfolded G_def] u] b g(2) by (auto simp: G_def)
  note each = new_sb_each [OF m u, folded G_def]
  have "reads_bytes (content d') st S" using out apart lS by (auto simp: reads_bytes_iff overwrite_def)
  then have tail: "find_tail (plain (log_block (content d') st)) n () = Inr (cleared_state (geo_logsunit G) (ls_cycle state), ())"
    using S by (simp add: log_reads_def)
  have li: "log_inside D sector d' st n" using M d'(3) by (simp add: log_inside_def same_device_def)
  define fs' where "fs' = \<lparr>fs_geo = G\<lparr>geo_incompat := w\<rparr>, fs_primary = sb_block G (content d') 0\<rparr>"
  have G': "log_extent (G\<lparr>geo_incompat := w\<rparr>) = (st, n)" using e by (simp add: G_def)
  show ?thesis
    unfolding G_def [symmetric]
  proof (intro exI [of _ d'] exI [of _ fs'] conjI allI impI)
    show "fs_find_tail D fs' d' = Inr (cleared_state (geo_logsunit G) (ls_cycle state))"
      using device_find_tail [OF d'(2) G' li n(1)] tail by (simp add: fs'_def)
    show "manageable D good content sector d' fs' meta"
      using M d' o each(3) b li e by (auto simp: manageable_def fs'_def same_device_def sb_room_def G_def)
    show "fs_geo fs' = G\<lparr>geo_incompat := geo_incompat (fs_geo fs')\<rparr>" by (simp add: fs'_def)
    show "content d' i = content d i"
      if "(\<forall>a<geo_agcount G. \<not> in_superblock G a i) \<and> \<not> (st \<le> i \<and> i < st + n * 512)" for i
      using out [rule_format, of i] that lS by (auto simp: overwrite_def)
  qed (use d'(1) each(1,2,4) b in simp_all)
qed

lemma set_uuid_again:
  assumes m: "manageable D good content sector d fs meta" and t: "fs_find_tail D fs d = Inr state" and c: "\<not> dirty state" "usable_cycle (ls_cycle state)"
    and u: "length uuid = 16"
  shows "\<exists>d' fs'. set_uuid D uuid d = Inr d' \<and> manageable D good content sector d' fs' meta \<and>
    fs_geo fs' = (fs_geo fs)\<lparr>geo_incompat := geo_incompat (fs_geo fs')\<rparr> \<and>
    fs_find_tail D fs' d' = Inr (cleared_state (geo_logsunit (fs_geo fs)) (ls_cycle state)) \<and>
    (\<forall>a<geo_agcount (fs_geo fs). slice sb_UUID 16 (sb_block (fs_geo fs) (content d') a) = uuid) \<and>
    (\<forall>a<geo_agcount (fs_geo fs). has_meta (sb_block (fs_geo fs) (content d') a) \<longleftrightarrow> uuid \<noteq> meta)"
proof -
  obtain st n where "log_extent (fs_geo fs) = (st, n)" by (cases "log_extent (fs_geo fs)")
  from set_uuid_effect [OF m t c u this] show ?thesis by blast
qed

lemma manageable_meta:
  assumes "manageable D good content sector d fs meta"
  shows "length meta = 16" "meta_uuid (fs_primary fs) = Inr meta"
    "be32 (fs_primary fs) sb_FEATURES_INCOMPAT = Inr w \<Longrightarrow> w AND IN_META_UUID \<noteq> 0 \<longleftrightarrow> has_meta (fs_primary fs)"
    "fs_primary fs = sb_block (fs_geo fs) (content d) 0" "0 < geo_agcount (fs_geo fs)"
    "\<exists>w. be32 (fs_primary fs) sb_FEATURES_INCOMPAT = Inr w"
proof -
  have "good d" "fs_open D d = Inr fs" "sb_room D sector d (fs_geo fs)" using assms by (simp_all add: manageable_def)
  note p = fs_open_primary [OF this]
  show "fs_primary fs = sb_block (fs_geo fs) (content d) 0" "0 < geo_agcount (fs_geo fs)" by (rule p)+
  then show m: "meta_uuid (fs_primary fs) = Inr meta" using assms by (simp add: manageable_def)
  have "sb_END \<le> length (fs_primary fs)" using p by simp
  then show "length meta = 16" "\<exists>w. be32 (fs_primary fs) sb_FEATURES_INCOMPAT = Inr w"
    using m by (auto simp: meta_uuid_eq be32_def)
  show "w AND IN_META_UUID \<noteq> 0 \<longleftrightarrow> has_meta (fs_primary fs)" if "be32 (fs_primary fs) sb_FEATURES_INCOMPAT = Inr w"
    using that by (simp add: has_meta_def)
qed

lemma manageable_restore:
  assumes m: "manageable D good content sector d fs meta"
  shows "restore_uuid D d =
    (if has_meta (sb_block (fs_geo fs) (content d) 0) then and_then (set_uuid D meta d) (\<lambda>d. Inr (True, d)) else Inr (False, d))"
proof -
  note p = manageable_meta [OF m]
  obtain w where w: "be32 (fs_primary fs) sb_FEATURES_INCOMPAT = Inr w" using p(6) by blast
  have "fs_open D d = Inr fs" using m by (simp add: manageable_def)
  then show ?thesis using w p(2) p(3) [OF w] by (cases "has_meta (fs_primary fs)") (simp_all add: restore_uuid_def flip: p(4))
qed

lemma restored:
  assumes m: "manageable D good content sector d fs meta" and t: "fs_find_tail D fs d = Inr state" and c: "\<not> dirty state"
    and y: "usable_cycle (ls_cycle state)" "usable_cycle (ls_cycle state + 1)" and u: "length uuid = 16" "uuid \<noteq> meta"
  shows "\<exists>d1 d2. set_uuid D uuid d = Inr d1 \<and> restore_uuid D d1 = Inr (True, d2) \<and>
    (\<forall>a<geo_agcount (fs_geo fs). slice sb_UUID 16 (sb_block (fs_geo fs) (content d2) a) = meta \<and>
      \<not> has_meta (sb_block (fs_geo fs) (content d2) a)) \<and>
    restore_uuid D d2 = Inr (False, d2)"
proof -
  obtain st n where e: "log_extent (fs_geo fs) = (st, n)" by (cases "log_extent (fs_geo fs)")
  obtain d1 fs1 where d1: "set_uuid D uuid d = Inr d1" "manageable D good content sector d1 fs1 meta"
    "fs_geo fs1 = (fs_geo fs)\<lparr>geo_incompat := geo_incompat (fs_geo fs1)\<rparr>"
    "fs_find_tail D fs1 d1 = Inr (cleared_state (geo_logsunit (fs_geo fs)) (ls_cycle state))"
    and b1: "\<forall>a<geo_agcount (fs_geo fs). has_meta (sb_block (fs_geo fs) (content d1) a) \<longleftrightarrow> uuid \<noteq> meta"
    using set_uuid_again [OF m t c y(1) u(1)] by blast
  define G where "G = fs_geo fs"
  obtain w where G1: "fs_geo fs1 = G\<lparr>geo_incompat := w\<rparr>" using d1(3) unfolding G_def by blast
  have agc: "geo_agcount (fs_geo fs1) = geo_agcount G" by (simp add: G1)
  have lm: "length meta = 16" by (rule manageable_meta(1) [OF m])
  obtain d2 fs2 where d2: "set_uuid D meta d1 = Inr d2" "manageable D good content sector d2 fs2 meta"
    "fs_geo fs2 = (fs_geo fs1)\<lparr>geo_incompat := geo_incompat (fs_geo fs2)\<rparr>"
    and b2: "\<forall>a<geo_agcount (fs_geo fs1). slice sb_UUID 16 (sb_block (fs_geo fs1) (content d2) a) = meta"
      "\<forall>a<geo_agcount (fs_geo fs1). has_meta (sb_block (fs_geo fs1) (content d2) a) \<longleftrightarrow> meta \<noteq> meta"
    using set_uuid_again [OF d1(2,4) cleared_state_simps(1) _ lm] y(2) by auto
  obtain w2 where G2: "fs_geo fs2 = G\<lparr>geo_incompat := w2\<rparr>" using d2(3) unfolding G1 by simp
  have "restore_uuid D d1 = Inr (True, d2)" "restore_uuid D d2 = Inr (False, d2)"
    using manageable_restore [OF d1(2)] manageable_restore [OF d2(2)] d2(1) b1 b2(2) u(2) manageable_meta(5) [OF m]
    by (simp_all add: G1 G2 flip: G_def)
  then show ?thesis
    using d1(1) b2 by (auto simp: G1 simp flip: G_def)
qed

end

section \<open>Properties\<close>

text \<open>
  \<^bold>\<open>C11\<close>. Setting a UUID works on every manageable filesystem with a clean log: afterwards every superblock
  names the new UUID, keeps the metadata UUID and has \<^verbatim>\<open>META_UUID\<close> exactly when the two differ; the log is clean,
  in the next cycle, with head and tail at its start; no byte outside the superblocks and the log has changed, and the
  filesystem is manageable again, with the same geometry but for that feature.
\<close>

theorem set_uuid_done:
  assumes b: "block_device D good content sector" and m: "manageable D good content sector d fs meta" and t: "fs_find_tail D fs d = Inr state" and c: "\<not> dirty state" "usable_cycle (ls_cycle state)"
    and u: "length uuid = 16" and e: "log_extent (fs_geo fs) = (st, n)"
  shows "\<exists>d' fs'. set_uuid D uuid d = Inr d' \<and> manageable D good content sector d' fs' meta \<and>
    fs_geo fs' = (fs_geo fs)\<lparr>geo_incompat := geo_incompat (fs_geo fs')\<rparr> \<and>
    fs_find_tail D fs' d' = Inr (cleared_state (geo_logsunit (fs_geo fs)) (ls_cycle state)) \<and>
    (\<forall>a<geo_agcount (fs_geo fs).
      slice sb_UUID 16 (sb_block (fs_geo fs) (content d') a) = uuid \<and>
      (has_meta (sb_block (fs_geo fs) (content d') a) \<longleftrightarrow> uuid \<noteq> meta) \<and>
      changes_only (uuid_places \<union> rewritten) (sb_block (fs_geo fs) (content d) a) (sb_block (fs_geo fs) (content d') a)) \<and>
    (\<forall>i. (\<forall>a<geo_agcount (fs_geo fs). \<not> in_superblock (fs_geo fs) a i) \<and> \<not> (st \<le> i \<and> i < st + n * 512) \<longrightarrow>
      content d' i = content d i)"
  by (rule block_device.set_uuid_effect [OF assms])

theorem set_uuid_done_witness:
  "\<exists>d fs d' fs'. set_uuid mem_ops (replicate 16 9) d = Inr d' \<and> manageable mem_ops md_good md_content md_sector d' fs' (replicate 16 7) \<and>
    fs_find_tail mem_ops fs' d' = Inr \<lparr>ls_head = 0, ls_tail = 0, ls_cycle = 2\<rparr> \<and> fs_open mem_ops d = Inr fs"
proof -
  obtain plans d where f: "formatted sample_device geometry_512m plans (replicate 16 7) \<lparr>secs = 0, nsecs = 0\<rparr> 42 [3, 1, 0, 2] d"
    and l: "md_logical sample_device \<le> bs geometry_512m"
    by (rule sample_formatted)
  have m: "manageable mem_ops md_good md_content md_sector d \<lparr>fs_geo = geo_of geometry_512m, fs_primary = sb_block (geo_of geometry_512m) (md_content d) 0\<rparr> (replicate 16 7)"
    by (rule mem.formatted_manageable [OF f l [folded mem_ops_simps]])
  obtain st n where "log_extent (geo_of geometry_512m) = (st, n)" by (cases "log_extent (geo_of geometry_512m)")
  moreover have "usable_cycle 1" by (simp add: usable_cycle_def HEADER_MAGIC_def)
  ultimately obtain d' fs' where "set_uuid mem_ops (replicate 16 9) d = Inr d'" "manageable mem_ops md_good md_content md_sector d' fs' (replicate 16 7)"
    "fs_find_tail mem_ops fs' d' = Inr (cleared_state (geo_logsunit (geo_of geometry_512m)) 1)"
    using set_uuid_done [OF mem.block_device_axioms m mem.formatted_tail [OF f l [folded mem_ops_simps]], of "replicate 16 9" st n] by (auto simp: dirty_def)
  then show ?thesis
    using mem.formatted_opens [OF f l [folded mem_ops_simps]] formatted_cleared_state [OF geometry_512m_ok(1), of 1] by auto
qed

text \<open>
  \<^bold>\<open>C12\<close>. \<^verbatim>\<open>xfs_admin -U restore\<close> undoes \<^verbatim>\<open>-U\<close>: after a new UUID was set, restoring reports a change and
  gives every superblock the old UUID without \<^verbatim>\<open>META_UUID\<close>; restoring once more reports that there is nothing to do
  and writes nothing.
\<close>

theorem uuid_restored:
  assumes b: "block_device D good content sector" and m: "manageable D good content sector d fs meta" and t: "fs_find_tail D fs d = Inr state" and c: "\<not> dirty state"
    and y: "usable_cycle (ls_cycle state)" "usable_cycle (ls_cycle state + 1)" and u: "length uuid = 16" "uuid \<noteq> meta"
  shows "\<exists>d1 d2. set_uuid D uuid d = Inr d1 \<and> restore_uuid D d1 = Inr (True, d2) \<and>
    (\<forall>a<geo_agcount (fs_geo fs). slice sb_UUID 16 (sb_block (fs_geo fs) (content d2) a) = meta \<and>
      \<not> has_meta (sb_block (fs_geo fs) (content d2) a)) \<and>
    restore_uuid D d2 = Inr (False, d2)"
  by (rule block_device.restored [OF assms])

theorem uuid_restored_witness:
  "\<exists>d d1 d2. set_uuid mem_ops (replicate 16 9) d = Inr d1 \<and> restore_uuid mem_ops d1 = Inr (True, d2) \<and>
    restore_uuid mem_ops d2 = Inr (False, d2)"
proof -
  obtain plans d where f: "formatted sample_device geometry_512m plans (replicate 16 7) \<lparr>secs = 0, nsecs = 0\<rparr> 42 [3, 1, 0, 2] d"
    and l: "md_logical sample_device \<le> bs geometry_512m"
    by (rule sample_formatted)
  have "usable_cycle 1" "usable_cycle (1 + 1)" by (simp_all add: usable_cycle_def HEADER_MAGIC_def)
  moreover have "(replicate 16 9 :: bytes) \<noteq> replicate 16 7" by simp
  ultimately show ?thesis
    using uuid_restored [OF mem.block_device_axioms mem.formatted_manageable [OF f l [folded mem_ops_simps]] mem.formatted_tail [OF f l [folded mem_ops_simps]], of "replicate 16 9"]
    by (auto simp: dirty_def)
qed

end
