(* ===== verification/Dump.thy ===== *)
theory Dump
  imports Inspect
begin

unbundle bit_operations_syntax

section \<open>The dump of a filesystem (\<^verbatim>\<open>src/inspect.rs\<close>)\<close>

text \<open>
  A dump is the list of fields in the order in which they are pushed. A structure's fields are a table of renderings:
  the name, the class and the text, which panics where the code reads out of range. Every function here returns the
  fields it pushes; the callers append them.
\<close>

datatype dump_class = Structural | Identity | Incidental

record dump_field =
  f_key :: string
  f_value :: string
  f_class :: dump_class

type_synonym dumped = "dump_field list"

definition push :: "string \<Rightarrow> string \<Rightarrow> dump_class \<Rightarrow> dump_field" where
  "push key v c = \<lparr>f_key = key, f_value = v, f_class = c\<rparr>"

definition push_s :: "string \<Rightarrow> string \<Rightarrow> dump_field" where
  "push_s key v = push key v Structural"

definition dump_get :: "dumped \<Rightarrow> string \<Rightarrow> string option" where
  "dump_get d key = map_option f_value (find (\<lambda>f. f_key f = key) d)"

definition to_text :: "dumped \<Rightarrow> string" where
  "to_text d = concat (map (\<lambda>f. f_key f @ '' = '' @ f_value f @ [CHR 0x0A]) d)"

subsection \<open>Numbers and bytes as text\<close>

definition digit :: "nat \<Rightarrow> char" where
  "digit n = ''0123456789abcdef'' ! n"

fun radix :: "nat \<Rightarrow> nat \<Rightarrow> string" where
  "radix b n = (if b < 2 \<or> n < b then [digit n] else radix b (n div b) @ [digit (n mod b)])"

declare radix.simps [simp del]

abbreviation dec :: "nat \<Rightarrow> string" where "dec \<equiv> radix 10"

definition padded :: "nat \<Rightarrow> string \<Rightarrow> string" where
  "padded w s = replicate (w - length s) CHR ''0'' @ s"

definition signed_dec :: "int \<Rightarrow> string" where
  "signed_dec i = (if i < 0 then ''-'' @ dec (nat (- i)) else dec (nat i))"

definition alt_hex :: "nat \<Rightarrow> string" where
  "alt_hex n = ''0x'' @ radix 16 n"

definition bool_str :: "bool \<Rightarrow> string" where
  "bool_str b = (if b then ''true'' else ''false'')"

definition joined :: "string list \<Rightarrow> string" where
  "joined xs = (case xs of [] \<Rightarrow> [] | x # xs \<Rightarrow> x @ concat (map (\<lambda>y. '','' @ y) xs))"

definition hex_trimmed_full :: "bytes \<Rightarrow> string" where
  "hex_trimmed_full b = concat (map (\<lambda>x. padded 2 (radix 16 (unat x))) b)"

definition hex_trimmed :: "bytes \<Rightarrow> string" where
  "hex_trimmed b = hex_trimmed_full (rev (dropWhile (\<lambda>x. x = 0) (rev b)))"

definition uuid_str :: "bytes \<Rightarrow> string" where
  "uuid_str b =
     (let h = hex_trimmed_full b in
      slice 0 8 h @ ''-'' @ slice 8 4 h @ ''-'' @ slice 12 4 h @ ''-'' @ slice 16 4 h @ ''-'' @ slice 20 12 h)"

definition time_str :: "timestamp \<Rightarrow> string" where
  "time_str t = signed_dec (sint (secs t)) @ ''.'' @ padded 9 (dec (unat (nsecs t)))"

subsection \<open>Renderings\<close>

type_synonym rendering = "string \<times> dump_class \<times> (bytes \<Rightarrow> error + string)"

definition shown :: "(bytes \<Rightarrow> error + 'a) \<Rightarrow> ('a \<Rightarrow> string) \<Rightarrow> bytes \<Rightarrow> error + string" where
  "shown r f b = and_then (r b) (\<lambda>v. Inr (f v))"

definition rd8 :: "string \<Rightarrow> nat \<Rightarrow> rendering" where
  "rd8 name off = (name, Structural, shown (\<lambda>b. byte b off) (\<lambda>v. dec (unat v)))"

definition rd16 :: "string \<Rightarrow> nat \<Rightarrow> rendering" where
  "rd16 name off = (name, Structural, shown (\<lambda>b. be16 b off) (\<lambda>v. dec (unat v)))"

definition rd32 :: "string \<Rightarrow> nat \<Rightarrow> rendering" where
  "rd32 name off = (name, Structural, shown (\<lambda>b. be32 b off) (\<lambda>v. dec (unat v)))"

definition rd64 :: "string \<Rightarrow> nat \<Rightarrow> rendering" where
  "rd64 name off = (name, Structural, shown (\<lambda>b. be64 b off) (\<lambda>v. dec (unat v)))"

definition rx16 :: "string \<Rightarrow> nat \<Rightarrow> rendering" where
  "rx16 name off = (name, Structural, shown (\<lambda>b. be16 b off) (\<lambda>v. alt_hex (unat v)))"

definition rx32 :: "string \<Rightarrow> nat \<Rightarrow> rendering" where
  "rx32 name off = (name, Structural, shown (\<lambda>b. be32 b off) (\<lambda>v. alt_hex (unat v)))"

definition rx64 :: "string \<Rightarrow> nat \<Rightarrow> rendering" where
  "rx64 name off = (name, Structural, shown (\<lambda>b. be64 b off) (\<lambda>v. alt_hex (unat v)))"

definition ruuid :: "string \<Rightarrow> nat \<Rightarrow> rendering" where
  "ruuid name off = (name, Identity, shown (read_slice off 16) uuid_str)"

text \<open>\<^verbatim>\<open>hex_trimmed\<close> of the bytes from \<open>off\<close> up to \<open>stop\<close>, and to the end.\<close>

definition rhex :: "string \<Rightarrow> nat \<Rightarrow> nat \<Rightarrow> rendering" where
  "rhex name off stop = (name, Structural, shown (\<lambda>b. if off \<le> stop then read_slice off (stop - off) b else Inl Panicked) hex_trimmed)"

definition rtail :: "string \<Rightarrow> nat \<Rightarrow> rendering" where
  "rtail name off = (name, Structural, shown (\<lambda>b. if off \<le> length b then Inr (drop off b) else Inl Panicked) hex_trimmed)"

definition crc_fields :: "nat \<Rightarrow> rendering list" where
  "crc_fields off =
     [(''crc'', Incidental, shown (\<lambda>b. le32 b off) (\<lambda>v. ''0x'' @ padded 8 (radix 16 (unat v)))),
      (''crc_ok'', Structural, shown (\<lambda>b. verify b off) bool_str)]"

definition render :: "string \<Rightarrow> rendering list \<Rightarrow> bytes \<Rightarrow> error + dumped" where
  "render p rs b = try_map (\<lambda>(name, c, f). and_then (f b) (\<lambda>v. Inr (push (p @ ''.'' @ name) v c))) rs"

subsection \<open>Headers of a group\<close>

definition sb_renderings :: "nat \<Rightarrow> rendering list" where
  "sb_renderings ss =
     [rd32 ''magicnum'' sb_MAGICNUM, rd32 ''blocksize'' sb_BLOCKSIZE, rd64 ''dblocks'' sb_DBLOCKS, rd64 ''rblocks'' sb_RBLOCKS,
      rd64 ''rextents'' sb_REXTENTS, ruuid ''uuid'' sb_UUID, rd64 ''logstart'' sb_LOGSTART, rd64 ''rootino'' sb_ROOTINO,
      rd64 ''rbmino'' sb_RBMINO, rd64 ''rsumino'' sb_RSUMINO, rd32 ''rextsize'' sb_REXTSIZE, rd32 ''agblocks'' sb_AGBLOCKS,
      rd32 ''agcount'' sb_AGCOUNT, rd32 ''rbmblocks'' sb_RBMBLOCKS, rd32 ''logblocks'' sb_LOGBLOCKS,
      rx16 ''versionnum'' sb_VERSIONNUM, rd16 ''sectsize'' sb_SECTSIZE, rd16 ''inodesize'' sb_INODESIZE,
      rd16 ''inopblock'' sb_INOPBLOCK, rhex ''fname'' sb_FNAME (sb_FNAME + 12),
      rd8 ''blocklog'' sb_BLOCKLOG, rd8 ''sectlog'' sb_SECTLOG, rd8 ''inodelog'' sb_INODELOG, rd8 ''inopblog'' sb_INOPBLOG,
      rd8 ''agblklog'' sb_AGBLKLOG, rd8 ''rextslog'' sb_REXTSLOG, rd8 ''inprogress'' sb_INPROGRESS, rd8 ''imax_pct'' sb_IMAX_PCT,
      rd64 ''icount'' sb_ICOUNT, rd64 ''ifree'' sb_IFREE, rd64 ''fdblocks'' sb_FDBLOCKS, rd64 ''frextents'' sb_FREXTENTS,
      rd64 ''uquotino'' sb_UQUOTINO, rd64 ''gquotino'' sb_GQUOTINO, rd16 ''qflags'' sb_QFLAGS, rd8 ''flags'' sb_FLAGS,
      rd8 ''shared_vn'' sb_SHARED_VN, rd32 ''inoalignmt'' sb_INOALIGNMT, rd32 ''unit'' sb_UNIT, rd32 ''width'' sb_WIDTH,
      rd8 ''dirblklog'' sb_DIRBLKLOG, rd8 ''logsectlog'' sb_LOGSECTLOG, rd16 ''logsectsize'' sb_LOGSECTSIZE,
      rd32 ''logsunit'' sb_LOGSUNIT, rx32 ''features2'' sb_FEATURES2, rx32 ''bad_features2'' sb_BAD_FEATURES2,
      rx32 ''features_compat'' sb_FEATURES_COMPAT, rx32 ''features_ro_compat'' sb_FEATURES_RO_COMPAT,
      rx32 ''features_incompat'' sb_FEATURES_INCOMPAT, rx32 ''features_log_incompat'' sb_FEATURES_LOG_INCOMPAT,
      rd32 ''spino_align'' sb_SPINO_ALIGN, rd64 ''pquotino'' sb_PQUOTINO, rd64 ''lsn'' sb_LSN,
      rhex ''meta_uuid'' sb_META_UUID (sb_META_UUID + 16), rhex ''tail'' sb_END ss] @
     crc_fields sb_CRC"

definition dump_sb :: "string \<Rightarrow> bytes \<Rightarrow> nat \<Rightarrow> error + dumped" where
  "dump_sb p b ss = render p (sb_renderings ss) b"

definition dump_agf :: "string \<Rightarrow> bytes \<Rightarrow> error + dumped" where
  "dump_agf p = render p
     ([rd32 ''magicnum'' agf_MAGICNUM, rd32 ''versionnum'' agf_VERSIONNUM, rd32 ''seqno'' agf_SEQNO, rd32 ''length'' agf_LENGTH,
       rd32 ''bnoroot'' agf_BNO_ROOT, rd32 ''cntroot'' agf_CNT_ROOT, rd32 ''rmaproot'' agf_RMAP_ROOT,
       rd32 ''bnolevel'' agf_BNO_LEVEL, rd32 ''cntlevel'' agf_CNT_LEVEL, rd32 ''rmaplevel'' agf_RMAP_LEVEL,
       rd32 ''flfirst'' agf_FLFIRST, rd32 ''fllast'' agf_FLLAST, rd32 ''flcount'' agf_FLCOUNT, rd32 ''freeblks'' agf_FREEBLKS,
       rd32 ''longest'' agf_LONGEST, rd32 ''btreeblks'' agf_BTREEBLKS, rd32 ''rmapblocks'' agf_RMAP_BLOCKS,
       rd32 ''refcntblocks'' agf_REFCOUNT_BLOCKS, rd32 ''refcntroot'' agf_REFCOUNT_ROOT, rd32 ''refcntlevel'' agf_REFCOUNT_LEVEL,
       ruuid ''uuid'' agf_UUID, rhex ''spare'' (agf_REFCOUNT_LEVEL + 4) agf_LSN, rd64 ''lsn'' agf_LSN, rtail ''tail'' (agf_CRC + 4)] @
      crc_fields agf_CRC)"

definition unlinked_str :: "bytes \<Rightarrow> error + string" where
  "unlinked_str = shown (\<lambda>b. try_map (\<lambda>i. be32 b (agi_UNLINKED + 4 * i)) [0..<64])
     (\<lambda>vs. joined (map (\<lambda>v. dec (unat v)) (filter (\<lambda>v. v \<noteq> NULL32) vs)))"

definition dump_agi :: "string \<Rightarrow> bytes \<Rightarrow> error + dumped" where
  "dump_agi p = render p
     ([rd32 ''magicnum'' agi_MAGICNUM, rd32 ''versionnum'' agi_VERSIONNUM, rd32 ''seqno'' agi_SEQNO, rd32 ''length'' agi_LENGTH,
       rd32 ''count'' agi_COUNT, rd32 ''root'' agi_ROOT, rd32 ''level'' agi_LEVEL, rd32 ''freecount'' agi_FREECOUNT,
       rd32 ''newino'' agi_NEWINO, rd32 ''dirino'' agi_DIRINO, rd32 ''free_root'' agi_FREE_ROOT, rd32 ''free_level'' agi_FREE_LEVEL,
       rd32 ''iblocks'' agi_IBLOCKS, rd32 ''fblocks'' agi_FBLOCKS,
       (''unlinked'', Structural, unlinked_str), ruuid ''uuid'' agi_UUID, rd64 ''lsn'' agi_LSN, rd32 ''pad'' (agi_CRC + 4),
       rtail ''tail'' agi_END] @
      crc_fields agi_CRC)"

definition free_list_str :: "bytes \<Rightarrow> error + string" where
  "free_list_str = shown (\<lambda>b. try_map (\<lambda>i. be32 b (agfl_BNO + 4 * i)) [0..<(length b - agfl_BNO) div 4])
     (\<lambda>vs. joined (map (\<lambda>(i, v). dec i @ '':'' @ dec (unat v)) (filter (\<lambda>(i, v). v \<noteq> NULL32) (enumerate 0 vs))))"

definition dump_agfl :: "string \<Rightarrow> bytes \<Rightarrow> error + dumped" where
  "dump_agfl p = render p
     ([rd32 ''magicnum'' agfl_MAGICNUM, rd32 ''seqno'' agfl_SEQNO, ruuid ''uuid'' agfl_UUID, rd64 ''lsn'' agfl_LSN,
       (''bno'', Structural, free_list_str)] @
      crc_fields agfl_CRC)"

subsection \<open>Btrees\<close>

record dump_tree_kind =
  t_name :: string
  t_magic :: u32
  t_key :: nat
  t_rec :: nat

definition BNOBT :: dump_tree_kind where "BNOBT = \<lparr>t_name = ''bnobt'', t_magic = btree_magic_BNO, t_key = 8, t_rec = ALLOC_REC\<rparr>"
definition CNTBT :: dump_tree_kind where "CNTBT = \<lparr>t_name = ''cntbt'', t_magic = btree_magic_CNT, t_key = 8, t_rec = ALLOC_REC\<rparr>"
definition INOBT :: dump_tree_kind where "INOBT = \<lparr>t_name = ''inobt'', t_magic = btree_magic_INO, t_key = 4, t_rec = INOBT_REC\<rparr>"
definition FINOBT :: dump_tree_kind where "FINOBT = \<lparr>t_name = ''finobt'', t_magic = btree_magic_FINO, t_key = 4, t_rec = INOBT_REC\<rparr>"
definition RMAPBT :: dump_tree_kind where "RMAPBT = \<lparr>t_name = ''rmapbt'', t_magic = btree_magic_RMAP, t_key = 40, t_rec = RMAP_REC\<rparr>"
definition REFCBT :: dump_tree_kind where "REFCBT = \<lparr>t_name = ''refcntbt'', t_magic = btree_magic_REFC, t_key = 4, t_rec = REFC_REC\<rparr>"

text \<open>\<^verbatim>\<open>name[i]\<close>.\<close>

definition indexed :: "string \<Rightarrow> nat \<Rightarrow> string" where
  "indexed name i = name @ ''['' @ dec i @ '']''"

definition tree_header :: "rendering list" where
  "tree_header =
     [rd16 ''level'' btree_LEVEL, rd16 ''numrecs'' btree_NUMRECS, rd32 ''leftsib'' btree_LEFTSIB, rd32 ''rightsib'' btree_RIGHTSIB,
      rd64 ''blkno'' btree_BLKNO, rd64 ''lsn'' btree_LSN, ruuid ''uuid'' btree_UUID, rd32 ''owner'' btree_OWNER] @
     crc_fields btree_CRC"

definition dump_leaf :: "string \<Rightarrow> dump_tree_kind \<Rightarrow> nat \<Rightarrow> bytes \<Rightarrow> error + dumped \<times> bytes list" where
  "dump_leaf bp t n b =
     (let n = min n ((length b - btree_RECS) div t_rec t) in
      and_then (try_map (\<lambda>r. read_slice (btree_RECS + r * t_rec t) (t_rec t) b) [0..<n]) (\<lambda>recs.
      and_then (render bp [rtail ''slack'' (btree_RECS + n * t_rec t)] b) (\<lambda>slack.
      Inr (map (\<lambda>(r, x). push_s (indexed (bp @ ''.rec'') r) (hex_trimmed_full x)) (enumerate 0 recs) @ slack, recs))))"

definition dump_node :: "string \<Rightarrow> dump_tree_kind \<Rightarrow> nat \<Rightarrow> bytes \<Rightarrow> error + dumped \<times> nat list" where
  "dump_node bp t n b =
     (let maxrecs = (length b - btree_RECS) div (t_key t + 4); n = min n maxrecs in
      and_then (try_map (\<lambda>r.
        and_then (be32 b (btree_RECS + maxrecs * t_key t + 4 * r)) (\<lambda>ptr.
        and_then (read_slice (btree_RECS + r * t_key t) (t_key t) b) (\<lambda>key.
        Inr ([push_s (indexed (bp @ ''.key'') r) (hex_trimmed_full key),
              push_s (indexed (bp @ ''.ptr'') r) (dec (unat ptr))], unat ptr)))) [0..<n]) (\<lambda>es.
      Inr (concat (map fst es), map snd es)))"

text \<open>One block: the fields, the blocks of the next level, the records.\<close>

definition dump_block :: "'d dev_ops \<Rightarrow> 'd \<Rightarrow> geo \<Rightarrow> nat \<Rightarrow> dump_tree_kind \<Rightarrow> string \<Rightarrow> nat \<Rightarrow> error + dumped \<times> nat list \<times> bytes list" where
  "dump_block D d g agno t bp agbno =
     (if ag_len g agno \<le> agbno then Inr ([push_s (bp @ ''.block'') (dec agbno @ '' (outside the AG)'')], [], [])
      else and_then (inspect_read D d (geo_byte g agno agbno) (geo_blocksize g)) (\<lambda>b.
        and_then (be32 b btree_MAGIC) (\<lambda>m.
        let start = [push_s (bp @ ''.block'') (dec agbno), push_s (bp @ ''.magic'') (alt_hex (unat m))] in
        if m \<noteq> t_magic t then Inr (start, [], [])
        else and_then (be16 b btree_LEVEL) (\<lambda>level. and_then (be16 b btree_NUMRECS) (\<lambda>n.
          and_then (render bp tree_header b) (\<lambda>header.
          if level = 0 then and_then (dump_leaf bp t (unat n) b) (\<lambda>(fs, recs). Inr (start @ header @ fs, [], recs))
          else and_then (dump_node bp t (unat n) b) (\<lambda>(fs, ptrs). Inr (start @ header @ fs, ptrs, [])))))) ))"

function dump_levels :: "'d dev_ops \<Rightarrow> 'd \<Rightarrow> geo \<Rightarrow> nat \<Rightarrow> dump_tree_kind \<Rightarrow> string \<Rightarrow> nat \<Rightarrow> nat list \<Rightarrow> error + dumped \<times> bytes list" where
  "dump_levels D d g agno t p depth blocks =
     (if blocks = [] then Inr ([], [])
      else and_then (try_map (\<lambda>(i, agbno). dump_block D d g agno t (indexed (p @ ''.l'' @ dec depth) i) agbno) (enumerate 0 blocks)) (\<lambda>bs.
        if depth + 1 > 16 then Inl (Corrupt (BtreeTooDeep p))
        else and_then (dump_levels D d g agno t p (depth + 1) (concat (map (\<lambda>(_, next, _). next) bs))) (\<lambda>(fs, recs).
             Inr (concat (map fst bs) @ fs, concat (map (\<lambda>(_, _, r). r) bs) @ recs))))"
  by pat_completeness auto
termination
  by (relation "measure (\<lambda>(D, d, g, agno, t, p, depth, blocks). 16 - depth)") auto

declare dump_levels.simps [simp del]

definition group_name :: "nat \<Rightarrow> string" where
  "group_name agno = indexed ''ag'' agno"

definition dump_tree :: "'d dev_ops \<Rightarrow> 'd \<Rightarrow> geo \<Rightarrow> nat \<Rightarrow> dump_tree_kind \<Rightarrow> nat \<Rightarrow> error + dumped \<times> bytes list" where
  "dump_tree D d g agno t root = dump_levels D d g agno t (group_name agno @ ''.'' @ t_name t) 0 [root]"

subsection \<open>Inodes\<close>

definition rtime :: "string \<Rightarrow> nat \<Rightarrow> rendering" where
  "rtime name off = (name, Incidental, shown (\<lambda>b. and_then (be64 b di_FLAGS2) (\<lambda>flags2.
     and_then (be64 b off) (\<lambda>raw. Inr (decode_time raw (flags2 AND DIFLAG2_BIGTIME \<noteq> 0))))) time_str)"

definition projid_str :: "bytes \<Rightarrow> error + string" where
  "projid_str = shown (\<lambda>b. and_then (be16 b di_PROJID_HI) (\<lambda>hi. and_then (be16 b di_PROJID_LO) (\<lambda>lo.
     Inr (push_bit 16 (ucast hi) OR ucast lo :: u32)))) (\<lambda>v. dec (unat v))"

definition inode_renderings :: "rendering list" where
  "inode_renderings =
     [rx16 ''magic'' di_MAGIC, (''mode'', Structural, shown (\<lambda>b. be16 b di_MODE) (\<lambda>v. radix 8 (unat v))),
      rd8 ''version'' di_VERSION, rd8 ''format'' di_FORMAT, rd16 ''metatype'' di_METATYPE, rd32 ''uid'' di_UID, rd32 ''gid'' di_GID,
      rd32 ''nlink'' di_NLINK, (''projid'', Structural, projid_str), rd64 ''big_nextents'' di_BIG_NEXTENTS,
      rtime ''atime'' di_ATIME, rtime ''mtime'' di_MTIME, rtime ''ctime'' di_CTIME, rtime ''crtime'' di_CRTIME,
      rd64 ''size'' di_SIZE, rd64 ''nblocks'' di_NBLOCKS, rd32 ''extsize'' di_EXTSIZE, rd32 ''nextents'' di_NEXTENTS,
      rd16 ''anextents'' di_ANEXTENTS, rd8 ''forkoff'' di_FORKOFF, rd8 ''aformat'' di_AFORMAT, rd32 ''dmevmask'' di_DMEVMASK,
      rd16 ''dmstate'' di_DMSTATE, rx16 ''flags'' di_FLAGS,
      (''gen'', Incidental, shown (\<lambda>b. be32 b di_GEN) (\<lambda>v. dec (unat v))),
      rd32 ''next_unlinked'' di_NEXT_UNLINKED, rd64 ''changecount'' di_CHANGECOUNT, rd64 ''lsn'' di_LSN, rx64 ''flags2'' di_FLAGS2,
      rd32 ''cowextsize'' di_COWEXTSIZE, rhex ''pad2'' (di_COWEXTSIZE + 4) di_CRTIME, rd64 ''ino'' di_INO,
      ruuid ''uuid'' di_UUID, rtail ''literal'' CORE_SIZE] @
     crc_fields di_CRC"

definition dump_inode :: "string \<Rightarrow> bytes \<Rightarrow> error + dumped" where
  "dump_inode p = render p inode_renderings"

text \<open>Inode \<open>i\<close> of the chunk that starts at \<open>start\<close>; an inode in a hole of the chunk is skipped.\<close>

definition dump_chunk_inode :: "'d dev_ops \<Rightarrow> 'd \<Rightarrow> geo \<Rightarrow> nat \<Rightarrow> nat \<Rightarrow> u16 \<Rightarrow> nat \<Rightarrow> error + dumped" where
  "dump_chunk_inode D d g agno start holemask i =
     (if holemask AND push_bit (i div 4) 1 \<noteq> 0 then Inr []
      else
        let agino = start + i;
            agbno = shr64 agino (geo_inopblog g);
            slot = agino AND sub64 (shl64 1 (geo_inopblog g)) 1 in
        if ag_len g agno \<le> agbno then Inl (Corrupt (ChunkOutsideAg start agno))
        else and_then (inspect_read D d (geo_byte g agno agbno) (geo_blocksize g)) (\<lambda>block.
          and_then (read_slice (mul64 slot (geo_inodesize g)) (geo_inodesize g) block) (\<lambda>b.
          let ino = shl64 agno (geo_agblklog g + geo_inopblog g) OR agino in
          dump_inode (indexed ''inode'' ino) b)))"

definition dump_chunk :: "'d dev_ops \<Rightarrow> 'd \<Rightarrow> geo \<Rightarrow> nat \<Rightarrow> bytes \<Rightarrow> error + dumped" where
  "dump_chunk D d g agno rec =
     and_then (be32 rec 0) (\<lambda>start.
     and_then (if geo_incompat g AND IN_SPINODES \<noteq> 0 then be16 rec 4 else Inr 0) (\<lambda>holemask.
     and_then (try_map (dump_chunk_inode D d g agno (unat start) holemask) [0..<64]) (\<lambda>fs.
     Inr (concat fs))))"

subsection \<open>Groups\<close>

definition tree_at :: "'d dev_ops \<Rightarrow> 'd \<Rightarrow> geo \<Rightarrow> nat \<Rightarrow> bytes \<Rightarrow> dump_tree_kind \<times> nat \<Rightarrow> error + dumped \<times> bytes list" where
  "tree_at D d g agno b = (\<lambda>(t, off). and_then (be32 b off) (\<lambda>root. dump_tree D d g agno t (unat root)))"

definition free_trees :: "geo \<Rightarrow> (dump_tree_kind \<times> nat) list" where
  "free_trees g =
     [(BNOBT, agf_BNO_ROOT), (CNTBT, agf_CNT_ROOT)] @ (if geo_has g RO_RMAPBT then [(RMAPBT, agf_RMAP_ROOT)] else []) @
     (if geo_has g RO_REFLINK then [(REFCBT, agf_REFCOUNT_ROOT)] else [])"

definition dump_group :: "'d dev_ops \<Rightarrow> 'd \<Rightarrow> geo \<Rightarrow> nat \<Rightarrow> error + dumped" where
  "dump_group D d g agno =
     (let ss = geo_sectsize g; p = group_name agno in
      and_then (inspect_read D d (geo_byte g agno 0) (div_ceil (4 * ss) (geo_blocksize g) * geo_blocksize g)) (\<lambda>head.
      and_then (read_slice 0 ss head) (\<lambda>sb_b.
      and_then (dump_sb (p @ ''.sb'') sb_b ss) (\<lambda>sbf.
      and_then (read_slice ss ss head) (\<lambda>agf_b.
      and_then (read_slice (2 * ss) ss head) (\<lambda>agi_b.
      and_then (read_slice (3 * ss) ss head) (\<lambda>agfl_b.
      and_then (be32 agf_b agf_MAGICNUM) (\<lambda>m1. and_then (be32 agi_b agi_MAGICNUM) (\<lambda>m2. and_then (be32 agfl_b agfl_MAGICNUM) (\<lambda>m3.
      if m1 \<noteq> AGF_MAGIC \<or> m2 \<noteq> AGI_MAGIC \<or> m3 \<noteq> AGFL_MAGIC
      then Inr (sbf @ [push_s (p @ ''.headers'') ''bad magic''])
      else
        and_then (dump_agf (p @ ''.agf'') agf_b) (\<lambda>agff.
        and_then (dump_agi (p @ ''.agi'') agi_b) (\<lambda>agif.
        and_then (dump_agfl (p @ ''.agfl'') agfl_b) (\<lambda>agflf.
        and_then (try_map (tree_at D d g agno agf_b) (free_trees g)) (\<lambda>trees.
        and_then (tree_at D d g agno agi_b (INOBT, agi_ROOT)) (\<lambda>(inof, chunks).
        and_then (try_map (tree_at D d g agno agi_b) (if geo_has g RO_FINOBT then [(FINOBT, agi_FREE_ROOT)] else [])) (\<lambda>fino.
        and_then (try_map (dump_chunk D d g agno) chunks) (\<lambda>inodes.
        Inr (sbf @ agff @ agif @ agflf @ concat (map fst trees) @ inof @ concat (map fst fino) @ concat inodes))))))))))))))))))"

subsection \<open>The log\<close>

definition log_renderings :: "rendering list" where
  "log_renderings =
     [rx32 ''magicno'' lr_MAGICNO, rx32 ''cycle'' lr_CYCLE, rx32 ''version'' lr_VERSION, rx32 ''len'' lr_LEN, rx32 ''crc'' lr_CRC,
      rx32 ''prev_block'' lr_PREV_BLOCK, rx32 ''num_logops'' lr_NUM_LOGOPS, rx32 ''cycle_data0'' lr_CYCLE_DATA, rx32 ''fmt'' lr_FMT,
      rx32 ''size'' lr_SIZE, rx64 ''lsn'' lr_LSN, rx64 ''tail_lsn'' lr_TAIL_LSN, ruuid ''uuid'' lr_FS_UUID, rtail ''rest'' (lr_SIZE + 4)]"

definition first_record_len :: "geo \<Rightarrow> nat" where
  "first_record_len g =
     (let sunit = clear_sunit (geo_logsunit g) (geo_logsectsize g)
      in max (if sunit > 0 then div_ceil sunit 512 else 2) 2 * 512)"

fun chunks_of :: "nat \<Rightarrow> 'a list \<Rightarrow> 'a list list" where
  "chunks_of n xs = (if n = 0 \<or> xs = [] then [] else take n xs # chunks_of n (drop n xs))"

declare chunks_of.simps [simp del]

definition count_nonzero :: "nat \<Rightarrow> bytes \<Rightarrow> nat" where
  "count_nonzero bsz b = length (filter (\<lambda>c. \<exists>x\<in>set c. x \<noteq> 0) (chunks_of bsz b))"

function nonzero_blocks :: "'d dev_ops \<Rightarrow> 'd \<Rightarrow> nat \<Rightarrow> nat \<Rightarrow> nat \<Rightarrow> nat \<Rightarrow> nat \<Rightarrow> error + nat" where
  "nonzero_blocks D d bsz at log_len pos acc =
     (if pos < log_len then
        let n = min (2 ^ 20) (log_len - pos) in
        and_then (inspect_read D d (add64 at pos) n) (\<lambda>buf.
        nonzero_blocks D d bsz at log_len (pos + n) (acc + count_nonzero bsz buf))
      else Inr acc)"
  by pat_completeness auto
termination
  by (relation "measure (\<lambda>(D, d, bsz, at, log_len, pos, acc). log_len - pos)") auto

declare nonzero_blocks.simps [simp del]

definition dump_log :: "'d dev_ops \<Rightarrow> 'd \<Rightarrow> geo \<Rightarrow> error + dumped" where
  "dump_log D d g =
     (let bsz = geo_blocksize g;
          log_ag = shr64 (geo_logstart g) (geo_agblklog g);
          log_agbno = geo_logstart g AND sub64 (shl64 1 (geo_agblklog g)) 1;
          at = geo_byte g log_ag log_agbno in
      and_then (inspect_read D d at bsz) (\<lambda>first.
      let len = min (first_record_len g) (length first) in
      and_then (read_slice 0 512 first) (\<lambda>h.
      and_then (render ''log.header'' log_renderings h) (\<lambda>header.
      and_then (render ''log'' [rhex ''record'' 512 len] first) (\<lambda>rec.
      and_then (nonzero_blocks D d bsz at (mul64 (geo_logblocks g) bsz) bsz
        (if \<exists>x\<in>set (drop len first). x \<noteq> 0 then 1 else 0)) (\<lambda>nonzero.
      Inr (header @ rec @ [push_s ''log.nonzero_blocks_after_first_record'' (dec nonzero)])))))))"

definition dump :: "'d dev_ops \<Rightarrow> 'd \<Rightarrow> error + dumped" where
  "dump D d =
     and_then (inspect_geometry D d) (\<lambda>g.
     and_then (try_map (dump_group D d g) [0..<geo_agcount g]) (\<lambda>groups.
     and_then (dump_log D d g) (\<lambda>log.
     Inr (concat groups @ log))))"

end
