(* ===== verification/Compare.thy ===== *)
theory Compare
  imports Dump "HOL-Library.Char_ord" "HOL-Library.List_Lexorder"
begin

unbundle bit_operations_syntax

section \<open>Comparing two dumps (\<^verbatim>\<open>src/compare.rs\<close>)\<close>

text \<open>
  A \<^verbatim>\<open>BTreeMap\<close> collected from the fields is a map in which the last field of a key counts, and the sorted list of its
  keys. Keys are compared as lists of characters, which for these keys is the order of their bytes.
\<close>

record difference =
  df_key :: string
  df_ours :: "string option"
  df_theirs :: "string option"
  df_class :: dump_class

definition class_str :: "dump_class \<Rightarrow> string" where
  "class_str c = (case c of Structural \<Rightarrow> ''Structural'' | Identity \<Rightarrow> ''Identity'' | Incidental \<Rightarrow> ''Incidental'')"

definition display :: "difference \<Rightarrow> string" where
  "display f =
     (let str = (\<lambda>v. case v of None \<Rightarrow> ''<absent>'' | Some s \<Rightarrow> s) in
      class_str (df_class f) @ '' '' @ df_key f @ '': ours '' @ str (df_ours f) @ '' theirs '' @ str (df_theirs f))"

definition dump_map :: "dumped \<Rightarrow> string \<Rightarrow> (string \<times> dump_class) option" where
  "dump_map d = map_of (rev (map (\<lambda>f. (f_key f, f_value f, f_class f)) d))"

definition dump_keys :: "dumped \<Rightarrow> string list" where
  "dump_keys d = sort (remdups (map f_key d))"

definition diff_class :: "(string \<times> dump_class) option \<Rightarrow> (string \<times> dump_class) option \<Rightarrow> dump_class" where
  "diff_class x y = (case (x, y) of (Some v, Some _) \<Rightarrow> snd v | _ \<Rightarrow> Structural)"

definition diff_key ::
  "(string \<Rightarrow> (string \<times> dump_class) option) \<Rightarrow> (string \<Rightarrow> (string \<times> dump_class) option) \<Rightarrow> string \<Rightarrow> difference option" where
  "diff_key a b k =
     (let x = a k; y = b k in
      if map_option fst x = map_option fst y then None
      else Some \<lparr>df_key = k, df_ours = map_option fst x, df_theirs = map_option fst y, df_class = diff_class x y\<rparr>)"

definition diff :: "dumped \<Rightarrow> dumped \<Rightarrow> difference list" where
  "diff ours theirs =
     (let a = dump_map ours; b = dump_map theirs in
      List.map_filter (diff_key a b) (remdups_adj (sort (dump_keys ours @ dump_keys theirs))))"

definition compare :: "'d dev_ops \<Rightarrow> 'd \<Rightarrow> 'e dev_ops \<Rightarrow> 'e \<Rightarrow> error + difference list" where
  "compare D ours E theirs = and_then (dump D ours) (\<lambda>a. and_then (dump E theirs) (\<lambda>b. Inr (diff a b)))"

definition structural :: "difference list \<Rightarrow> difference list" where
  "structural ds = filter (\<lambda>d. df_class d = Structural) ds"

subsection \<open>The maps\<close>

lemma dump_map_dom: "dom (dump_map d) = f_key ` set d"
  by (simp add: dump_map_def dom_map_of_conv_image_fst image_image)

lemma dump_keys_set [simp]: "set (dump_keys d) = dom (dump_map d)"
  by (simp add: dump_keys_def dump_map_dom)

lemma sorted_remdups_adj_strict: "sorted xs \<Longrightarrow> sorted_wrt (<) (remdups_adj xs)"
  by (induction xs rule: remdups_adj.induct) (auto simp: order.strict_iff_order)

lemma diff_keys:
  "set (remdups_adj (sort (dump_keys a @ dump_keys b))) = dom (dump_map a) \<union> dom (dump_map b)"
  "sorted_wrt (<) (remdups_adj (sort (dump_keys a @ dump_keys b)))"
  by (simp_all add: sorted_remdups_adj_strict)

lemma set_map_filter_iff: "y \<in> set (List.map_filter f xs) \<longleftrightarrow> (\<exists>x\<in>set xs. f x = Some y)"
  by (force simp: List.map_filter_def)

lemma sorted_map_filter:
  assumes "sorted_wrt (<) xs" "\<And>x y. f x = Some y \<Longrightarrow> g y = (x :: 'a :: linorder)"
  shows "sorted_wrt (<) (map g (List.map_filter f xs))"
proof -
  have s: "set (map g (List.map_filter f xs)) \<subseteq> set xs" for xs
    using assms(2) by (force simp: List.map_filter_def)
  show ?thesis
    using assms(1)
  proof (induction xs)
    case (Cons x xs)
    then show ?case using s [of xs] assms(2) [of x] by (cases "f x") (auto simp: List.map_filter_simps)
  qed (simp add: List.map_filter_simps)
qed

lemma diff_key_SomeD: "diff_key a b k = Some d \<Longrightarrow> df_key d = k"
  by (auto simp: diff_key_def Let_def split: if_splits)

lemma diff_member:
  "f \<in> set (diff a b) \<longleftrightarrow> diff_key (dump_map a) (dump_map b) (df_key f) = Some f"
proof -
  have "k \<in> dom (dump_map a) \<union> dom (dump_map b)" if "diff_key (dump_map a) (dump_map b) k = Some f" for k
    using that by (cases "dump_map a k"; cases "dump_map b k") (auto simp: diff_key_def Let_def split: if_splits)
  moreover have "f \<in> set (diff a b) \<longleftrightarrow> (\<exists>k\<in>dom (dump_map a) \<union> dom (dump_map b). diff_key (dump_map a) (dump_map b) k = Some f)"
    unfolding diff_def Let_def set_map_filter_iff diff_keys(1) ..
  ultimately show ?thesis by (metis diff_key_SomeD)
qed

lemma structural_empty:
  "structural (diff a b) = [] \<longleftrightarrow>
     (\<forall>k. map_option fst (dump_map a k) = map_option fst (dump_map b k) \<or>
       (\<exists>v w c. dump_map a k = Some (v, c) \<and> dump_map b k = Some w \<and> c \<noteq> Structural))"
proof -
  have "structural (diff a b) = [] \<longleftrightarrow> (\<forall>f. f \<in> set (diff a b) \<longrightarrow> df_class f \<noteq> Structural)"
    by (auto simp: structural_def filter_empty_conv)
  also have "\<dots> \<longleftrightarrow> (\<forall>k f. diff_key (dump_map a) (dump_map b) k = Some f \<longrightarrow> df_class f \<noteq> Structural)"
    unfolding diff_member using diff_key_SomeD by blast
  also have "\<dots> \<longleftrightarrow> (\<forall>k. map_option fst (dump_map a k) = map_option fst (dump_map b k) \<or>
       (\<exists>v w c. dump_map a k = Some (v, c) \<and> dump_map b k = Some w \<and> c \<noteq> Structural))"
  proof -
    have "(\<forall>f. diff_key (dump_map a) (dump_map b) k = Some f \<longrightarrow> df_class f \<noteq> Structural) \<longleftrightarrow>
        (map_option fst (dump_map a k) = map_option fst (dump_map b k) \<or>
         (\<exists>v w c. dump_map a k = Some (v, c) \<and> dump_map b k = Some w \<and> c \<noteq> Structural))" for k
      by (cases "dump_map a k"; cases "dump_map b k") (auto simp: diff_key_def diff_class_def Let_def)
    then show ?thesis by blast
  qed
  finally show ?thesis .
qed

text \<open>
  Two dumps \<open>match\<close> when they have the same keys and classes in the same places and equal values in
  the structural fields. Then no difference is structural.
\<close>

definition same_field :: "dump_field \<Rightarrow> dump_field \<Rightarrow> bool" where
  "same_field f g \<longleftrightarrow> f_key f = f_key g \<and> f_class f = f_class g \<and> (f_class f = Structural \<longrightarrow> f_value f = f_value g)"

definition matches :: "dumped \<Rightarrow> dumped \<Rightarrow> bool" where
  "matches = list_all2 same_field"

lemma matches_append: "matches a b \<Longrightarrow> matches c d \<Longrightarrow> matches (a @ c) (b @ d)"
  unfolding matches_def by (rule list_all2_appendI)

lemma matches_refl [simp]: "matches a a"
  by (simp add: matches_def list_all2_same same_field_def)

lemma matches_concat: "list_all2 matches xs ys \<Longrightarrow> matches (concat xs) (concat ys)"
proof (induction rule: list_all2_induct)
  case (Cons x xs y ys)
  then show ?case by (simp add: matches_append)
qed simp

lemma matches_map:
  assumes "matches a b"
  shows "rel_option (\<lambda>(v, c) (w, e). c = e \<and> (c = Structural \<longrightarrow> v = w)) (dump_map a k) (dump_map b k)"
proof -
  have "list_all2 same_field (rev a) (rev b)" using assms by (simp add: matches_def)
  then have "rel_option (\<lambda>(v, c) (w, e). c = e \<and> (c = Structural \<longrightarrow> v = w))
      (map_of (map (\<lambda>f. (f_key f, f_value f, f_class f)) (rev a)) k) (map_of (map (\<lambda>f. (f_key f, f_value f, f_class f)) (rev b)) k)"
    by (induction rule: list_all2_induct) (auto simp: same_field_def)
  then show ?thesis by (simp add: dump_map_def rev_map)
qed

lemma matches_structural:
  assumes "matches a b"
  shows "structural (diff a b) = []"
  unfolding structural_empty
proof
  fix k
  show "map_option fst (dump_map a k) = map_option fst (dump_map b k) \<or>
    (\<exists>v w c. dump_map a k = Some (v, c) \<and> dump_map b k = Some w \<and> c \<noteq> Structural)"
    using matches_map [OF assms, of k] by (cases "dump_map a k"; cases "dump_map b k") auto
qed

section \<open>Properties\<close>

text \<open>
  \<^bold>\<open>C18\<close>. The comparison is exact: \<^verbatim>\<open>diff\<close> lists, each once and in the order of the keys, exactly the
  keys whose values differ or that one side lacks, where the last field of a key counts; a key that one side lacks is a
  structural difference. In particular nothing is listed when the dumps give the same values.
\<close>

theorem diff_exact:
  "sorted_wrt (<) (map df_key (diff ours theirs)) \<and>
   (f \<in> set (diff ours theirs) \<longleftrightarrow>
     df_ours f = map_option fst (dump_map ours (df_key f)) \<and> df_theirs f = map_option fst (dump_map theirs (df_key f)) \<and>
     df_ours f \<noteq> df_theirs f \<and> df_class f = diff_class (dump_map ours (df_key f)) (dump_map theirs (df_key f))) \<and>
   (diff ours theirs = [] \<longleftrightarrow> (\<forall>k. map_option fst (dump_map ours k) = map_option fst (dump_map theirs k)))"
proof (intro conjI)
  show "sorted_wrt (<) (map df_key (diff ours theirs))"
    unfolding diff_def Let_def by (rule sorted_map_filter [OF diff_keys(2)]) (rule diff_key_SomeD)
  show "f \<in> set (diff ours theirs) \<longleftrightarrow>
     df_ours f = map_option fst (dump_map ours (df_key f)) \<and> df_theirs f = map_option fst (dump_map theirs (df_key f)) \<and>
     df_ours f \<noteq> df_theirs f \<and> df_class f = diff_class (dump_map ours (df_key f)) (dump_map theirs (df_key f))"
    unfolding diff_member by (cases f) (auto simp: diff_key_def Let_def)
  have "diff ours theirs = [] \<longleftrightarrow> (\<forall>f. f \<notin> set (diff ours theirs))" by auto
  also have "\<dots> \<longleftrightarrow> (\<forall>k f. diff_key (dump_map ours) (dump_map theirs) k \<noteq> Some f)"
    unfolding diff_member by (metis diff_key_SomeD)
  also have "\<dots> \<longleftrightarrow> (\<forall>k. map_option fst (dump_map ours k) = map_option fst (dump_map theirs k))"
    by (auto simp: diff_key_def Let_def split: if_splits)
  finally show "diff ours theirs = [] \<longleftrightarrow> (\<forall>k. map_option fst (dump_map ours k) = map_option fst (dump_map theirs k))" .
qed

end
