(* ===== verification/Alike.thy ===== *)
theory Alike
  imports Compare Admin_Format
begin

unbundle bit_operations_syntax

section \<open>Encoders that differ in their identity\<close>

text \<open>
  Two formats of one geometry write the same bytes but for the UUID, the times, the generation numbers and the checksums
  over them. \<open>edit_alike S e e'\<close>: on buffers that differ inside \<open>S\<close> at most, where \<open>e\<close> succeeds \<open>e'\<close> succeeds
  and the results differ inside \<open>S\<close> at most.
\<close>

definition edit_alike :: "nat set \<Rightarrow> (bytes \<Rightarrow> error + bytes) \<Rightarrow> (bytes \<Rightarrow> error + bytes) \<Rightarrow> bool" where
  "edit_alike S e e' \<longleftrightarrow>
     (\<forall>b b' c. changes_only S b b' \<longrightarrow> e b = Inr c \<longrightarrow> (\<exists>c'. e' b' = Inr c' \<and> changes_only S c c'))"

lemma alikeD: "edit_alike S e e' \<Longrightarrow> changes_only S b b' \<Longrightarrow> e b = Inr c \<Longrightarrow> e' b' = Inr c' \<Longrightarrow> changes_only S c c'"
  unfolding edit_alike_def by force

lemma alike_write:
  assumes "length y = length x" "{off..<off + length x} \<subseteq> S \<or> y = x"
  shows "edit_alike S (write_slice off x) (write_slice off y)"
  unfolding edit_alike_def
proof (intro allI impI)
  fix b b' c
  assume b: "changes_only S b b'" and c: "write_slice off x b = Inr c"
  have l: "off + length x \<le> length b" "c = splice off x b" using c by (auto dest: write_slice_InrD)
  have "changes_only S c (splice off y b')"
    using b l assms by (auto simp: changes_only_def nth_splice slice_simps)
  then show "\<exists>c'. write_slice off y b' = Inr c' \<and> changes_only S c c'"
    using l assms(1) changes_length [OF b] by (simp add: write_slice_ok)
qed

lemma alike_same [simp]:
  "edit_alike S (write_slice off x) (write_slice off x)" "edit_alike S (put16 off v) (put16 off v)"
  "edit_alike S (put32 off w) (put32 off w)" "edit_alike S (put64 off z) (put64 off z)" "edit_alike S (set_byte off u) (set_byte off u)"
proof -
  have f: "put16 off v = write_slice off (to_be 2 v)" "put32 off w = write_slice off (to_be 4 w)"
    "put64 off z = write_slice off (to_be 8 z)" "set_byte off u = write_slice off [u]" for v w z and u :: u8
    by (simp_all add: fun_eq_iff put16_def put32_def put64_def set_byte_def)
  show "edit_alike S (write_slice off x) (write_slice off x)" "edit_alike S (put16 off v) (put16 off v)"
    "edit_alike S (put32 off w) (put32 off w)" "edit_alike S (put64 off z) (put64 off z)" "edit_alike S (set_byte off u) (set_byte off u)"
    unfolding f by (simp_all add: alike_write)
qed

lemma alike_put:
  "{off..<off + 4} \<subseteq> S \<Longrightarrow> edit_alike S (put32 off v) (put32 off w)"
  "{off..<off + 8} \<subseteq> S \<Longrightarrow> edit_alike S (put64 off x) (put64 off y)"
proof -
  have f: "put32 off w = write_slice off (to_be 4 w)" "put64 off z = write_slice off (to_be 8 z)" for w z
    by (simp_all add: fun_eq_iff put32_def put64_def)
  show "{off..<off + 4} \<subseteq> S \<Longrightarrow> edit_alike S (put32 off v) (put32 off w)"
    "{off..<off + 8} \<subseteq> S \<Longrightarrow> edit_alike S (put64 off x) (put64 off y)"
    unfolding f by (intro alike_write; simp)+
qed

lemma alike_then:
  assumes "edit_alike S e e'" "edit_alike S f f'"
  shows "edit_alike S (\<lambda>b. and_then (e b) f) (\<lambda>b. and_then (e' b) f')"
  unfolding edit_alike_def
proof (intro allI impI)
  fix b b' c
  assume b: "changes_only S b b'" and "and_then (e b) f = Inr c"
  then obtain x where x: "e b = Inr x" "f x = Inr c" by (auto simp: and_then_eq_Inr)
  then obtain x' where x': "e' b' = Inr x'" "changes_only S x x'" using assms(1) b unfolding edit_alike_def by blast
  then show "\<exists>c'. and_then (e' b') f' = Inr c' \<and> changes_only S c c'" using assms(2) x(2) unfolding edit_alike_def by force
qed

lemma alike_run:
  assumes "list_all2 (edit_alike S) es es'"
  shows "edit_alike S (run_edits es) (run_edits es')"
  using assms
proof (induction rule: list_all2_induct)
  case Nil
  then show ?case by (auto simp: edit_alike_def)
next
  case (Cons e es e' es')
  have "run_edits (e # es) = (\<lambda>b. and_then (e b) (run_edits es))" for e :: "bytes \<Rightarrow> error + bytes" and es by (rule ext) simp
  then show ?case using alike_then [OF Cons(1,3)] by simp
qed

lemma alike_length:
  assumes "\<And>n. edit_alike S (e n) (e' n)"
  shows "edit_alike S (\<lambda>b. e (length b) b) (\<lambda>b. e' (length b) b)"
  using assms unfolding edit_alike_def by (metis changes_length)

lemma changes_slices:
  assumes "changes_only S b b'" "off + n \<le> length b"
  shows "changes_only {i. off + i \<in> S} (slice off n b) (slice off n b')"
  using assms by (auto simp: changes_only_def nth_slice)

lemma alike_on_slice:
  assumes "edit_alike {i. off + i \<in> S} e e'"
  shows "edit_alike S (on_slice off n e) (on_slice off n e')"
  unfolding edit_alike_def
proof (intro allI impI)
  fix b b' c
  assume b: "changes_only S b b'" and c: "on_slice off n e b = Inr c"
  obtain s where s: "off + n \<le> length b" "e (slice off n b) = Inr s" "write_slice off s b = Inr c"
    using c by (auto simp: on_slice_def and_then_eq_Inr read_slice_def split: if_splits)
  obtain s' where s': "e' (slice off n b') = Inr s'" "changes_only {i. off + i \<in> S} s s'"
    using assms changes_slices [OF b s(1)] s(2) unfolding edit_alike_def by blast
  have l: "length b' = length b" "length s' = length s" using changes_length b s'(2) by blast+
  have w: "off + length s \<le> length b" "c = splice off s b" using s(3) by (auto dest: write_slice_InrD)
  have "s' ! (i - off) = s ! (i - off)" if "off \<le> i" "i < off + length s" "i \<notin> S" for i
    using s'(2) that by (auto simp: changes_only_def)
  then have "changes_only S c (splice off s' b')"
    using b w l by (auto simp: changes_only_def nth_splice slice_simps)
  then show "\<exists>c'. on_slice off n e' b' = Inr c' \<and> changes_only S c c'"
    using s(1) s'(1) w(1) l by (simp add: on_slice_def read_slice_def write_slice_ok)
qed

lemma alike_stamp:
  assumes "{off..<off + 4} \<subseteq> S"
  shows "edit_alike S (stamp off) (stamp off)"
  unfolding edit_alike_def
proof (intro allI impI)
  fix b b' c
  assume b: "changes_only S b b'" and c: "stamp off b = Inr c"
  obtain x where x: "write_slice off (to_le 4 (x :: u32)) b = Inr c" using c by (auto simp: stamp_def and_then_eq_Inr)
  then have l: "off + 4 \<le> length b" by (auto dest: write_slice_InrD)
  then have l': "off + 4 \<le> length b'" using changes_length [OF b] by simp
  obtain x' where "stamp off b' = write_slice off (to_le 4 (x' :: u32)) b'"
    using cksum_eq [OF l'] by (force simp: stamp_def)
  moreover have "edit_alike S (write_slice off (to_le 4 x)) (write_slice off (to_le 4 x'))"
    using assms by (intro alike_write) simp_all
  ultimately show "\<exists>c'. stamp off b' = Inr c' \<and> changes_only S c c'" using x b unfolding edit_alike_def by auto
qed

subsection \<open>The structures\<close>

text \<open>The places of the identity, of the incidental fields and of the checksum in each structure.\<close>

definition uuid_crc :: "nat \<Rightarrow> nat \<Rightarrow> nat set" where
  "uuid_crc u c = {u..<u + 16} \<union> {c..<c + 4}"

definition inode_places :: "nat set" where
  "inode_places = {di_ATIME..<di_CTIME + 8} \<union> {di_GEN..<di_GEN + 4} \<union> {di_CRTIME..<di_CRTIME + 8} \<union> uuid_crc di_UUID di_CRC"

lemma alike_whole:
  "{off..<off + 4} \<subseteq> S \<Longrightarrow> edit_alike S (\<lambda>b. on_slice 0 (length b) (stamp off) b) (\<lambda>b. on_slice 0 (length b) (stamp off) b)"
  by (rule alike_length [where e = "\<lambda>n. on_slice 0 n (stamp off)"]) (simp add: alike_on_slice alike_stamp)

lemma sb_alike:
  assumes "uuid_crc sb_UUID sb_CRC \<subseteq> S" "length (s_uuid s) = 16" "length u = 16"
  shows "edit_alike S (sb_encode g s) (sb_encode g (s\<lparr>s_uuid := u\<rparr>))"
  unfolding sb_encode_def
  using assms
  by (intro alike_then alike_run) (auto simp: uuid_crc_def intro!: alike_write alike_on_slice alike_stamp)

lemma agf_alike:
  assumes "uuid_crc agf_UUID agf_CRC \<subseteq> S" "length uuid = 16" "length u = 16"
  shows "edit_alike S (agf_encode a uuid) (agf_encode a u)"
  unfolding agf_encode_def
  using assms by (intro alike_then alike_run alike_whole) (auto simp: uuid_crc_def intro!: alike_write)

lemma agi_alike:
  assumes "uuid_crc agi_UUID agi_CRC \<subseteq> S" "length uuid = 16" "length u = 16"
  shows "edit_alike S (agi_encode a uuid) (agi_encode a u)"
  unfolding agi_encode_def
  using assms by (intro alike_then alike_run alike_whole)
    (auto simp: uuid_crc_def list_all2_map1 list_all2_map2 list_all2_same intro!: alike_write list_all2_appendI)

lemma agfl_alike:
  assumes "uuid_crc agfl_UUID agfl_CRC \<subseteq> S" "length uuid = 16" "length u = 16"
  shows "edit_alike S (encode_agfl seqno uuid f l) (encode_agfl seqno u f l)"
proof -
  have put: "edit_alike S (agfl_put n f e) (agfl_put n f e)" for n e
  proof (cases "n = 0")
    case False
    then have "agfl_put n f e = put32 (agfl_BNO + 4 * ((unat f + fst e) mod n)) (snd e)" by (simp add: fun_eq_iff agfl_put_def)
    then show ?thesis by simp
  qed (simp add: edit_alike_def agfl_put_def)
  have "edit_alike S
      (\<lambda>b. and_then (run_edits (map (\<lambda>i. put32 (agfl_BNO + 4 * i) NULL32) [0..<sub64 n agfl_BNO div 4]) b) (\<lambda>b.
        and_then (run_edits (map (agfl_put (sub64 n agfl_BNO div 4) f) (enumerate 0 l)) b) (\<lambda>b. on_slice 0 (length b) (stamp agfl_CRC) b)))
      (\<lambda>b. and_then (run_edits (map (\<lambda>i. put32 (agfl_BNO + 4 * i) NULL32) [0..<sub64 n agfl_BNO div 4]) b) (\<lambda>b.
        and_then (run_edits (map (agfl_put (sub64 n agfl_BNO div 4) f) (enumerate 0 l)) b) (\<lambda>b. on_slice 0 (length b) (stamp agfl_CRC) b)))" for n
    using assms(1) by (intro alike_then alike_run alike_whole)
      (auto simp: uuid_crc_def list_all2_map1 list_all2_map2 list_all2_same put)
  note rest = alike_length [OF this]
  show ?thesis
    unfolding encode_agfl_def Let_def
    using assms by (intro alike_then alike_run rest) (auto simp: uuid_crc_def intro!: alike_write)
qed

lemma leaf_alike:
  assumes "uuid_crc btree_UUID btree_CRC \<subseteq> S" "length uuid = 16" "length u = 16"
  shows "edit_alike S (leaf_encode (leaf_of g agno uuid l)) (leaf_encode (leaf_of g agno u l))"
proof -
  obtain magic agbno recs n where l: "l = (magic, agbno, recs, n)" by (cases l)
  show ?thesis
    unfolding l leaf_of_def leaf_encode_def prod.case leaf_edits_def
    using assms by (intro alike_then alike_run alike_stamp) (auto simp: uuid_crc_def intro!: alike_write)
qed

lemma inode_alike:
  assumes "inode_places \<subseteq> S" "length uuid = 16" "length u = 16"
  shows "edit_alike S (dinode_encode d uuid)
      (dinode_encode (d\<lparr>d_gen := gen, d_atime := ta, d_mtime := tm, d_ctime := tc, d_crtime := tr\<rparr>) u)"
    "edit_alike S (encode_free inum gen0 uuid) (encode_free inum gen u)"
proof -
  have s: "{di_ATIME..<di_ATIME + 8} \<subseteq> S" "{di_MTIME..<di_MTIME + 8} \<subseteq> S" "{di_CTIME..<di_CTIME + 8} \<subseteq> S"
    "{di_GEN..<di_GEN + 4} \<subseteq> S" "{di_CRTIME..<di_CRTIME + 8} \<subseteq> S" "{di_UUID..<di_UUID + 16} \<subseteq> S" "{di_CRC..<di_CRC + 4} \<subseteq> S"
    using assms(1) by (auto simp: inode_places_def uuid_crc_def)
  note p = alike_put(1) [OF s(4)] alike_put(2) [OF s(1)] alike_put(2) [OF s(2)] alike_put(2) [OF s(3)] alike_put(2) [OF s(5)]
  have w: "edit_alike S (write_slice di_UUID uuid) (write_slice di_UUID u)"
    using s(6) assms(2,3) by (intro alike_write) simp_all
  show "edit_alike S (dinode_encode d uuid)
      (dinode_encode (d\<lparr>d_gen := gen, d_atime := ta, d_mtime := tm, d_ctime := tc, d_crtime := tr\<rparr>) u)"
    unfolding dinode_encode_def Let_def
    by (intro alike_then alike_run alike_stamp [OF s(7)]) (simp add: p w)
  show "edit_alike S (encode_free inum gen0 uuid) (encode_free inum gen u)"
    unfolding encode_free_def
    by (intro alike_then alike_run alike_stamp [OF s(7)]) (simp add: p w)
qed

subsection \<open>The log record\<close>

lemma alike_read:
  assumes "{off..<off + 4} \<inter> S = {}" "\<And>v. edit_alike S (h v) (h' v)"
  shows "edit_alike S (\<lambda>b. and_then (be32 b off) (\<lambda>v. h v b)) (\<lambda>b. and_then (be32 b off) (\<lambda>v. h' v b))"
  unfolding edit_alike_def
proof (intro allI impI)
  fix b b' c
  assume b: "changes_only S b b'" and c: "and_then (be32 b off) (\<lambda>v. h v b) = Inr c"
  then obtain v where v: "be32 b off = Inr v" "h v b = Inr c" by (auto simp: and_then_eq_Inr)
  then have l: "off + 4 \<le> length b" by (auto simp: be32_def and_then_eq_Inr read_slice_def split: if_splits)
  have "be32 b' off = Inr v" using changes_words(1) [OF b assms(1) l] v(1) by simp
  then show "\<exists>c'. and_then (be32 b' off) (\<lambda>v. h' v b') = Inr c' \<and> changes_only S c c'"
    using assms(2) [of v] b v(2) unfolding edit_alike_def by simp
qed

definition log_places :: "nat set" where
  "log_places = {lr_FS_UUID..<lr_FS_UUID + 16}"

lemma log_record_alike:
  assumes c: "log_record uuid su l t = Inr c" and u: "length u = length uuid" "length uuid = 16"
  shows "\<exists>c'. log_record u su l t = Inr c' \<and> changes_only log_places c c'"
proof -
  define rest where "rest = (\<lambda>b. and_then (run_edits (map (\<lambda>i. put32_from (i * BBSIZE) (ucast (drop_bit 32 l))) [1..<record_hdrs su]) b) (\<lambda>b.
      and_then (run_edits
        [put32 (record_hdrs su * BBSIZE) UNMOUNT_TID, put32 (record_hdrs su * BBSIZE + 4) 8,
         set_byte (record_hdrs su * BBSIZE + 8) CLIENT_LOG, set_byte (record_hdrs su * BBSIZE + 9) UNMOUNT_TRANS,
         write_slice (record_hdrs su * BBSIZE + 12) (to_le 2 UNMOUNT_TYPE)] b) (\<lambda>b.
      and_then (be32 b (record_hdrs su * BBSIZE)) (\<lambda>first.
      run_edits
        (put32 lr_CYCLE_DATA first # put32 (record_hdrs su * BBSIZE) (ucast (drop_bit 32 l)) #
         map (\<lambda>bb. put32 (bb * BBSIZE) (ucast (drop_bit 32 l))) [record_hdrs su + 1..<record_bbs su]) b))))"
  have eq: "log_record x su l t = and_then (on_slice 0 BBSIZE (run_edits (header_edits x su l t)) (replicate (record_bbs su * BBSIZE) 0)) rest" for x
    by (simp add: log_record_def Let_def rest_def)
  have "0 < record_hdrs su" by (simp add: record_hdrs_def div_ceil_def div_greater_zero_iff HEADER_CYCLE_SIZE_def)
  then have far: "{record_hdrs su * BBSIZE..<record_hdrs su * BBSIZE + 4} \<inter> log_places = {}"
    by (cases "record_hdrs su") (auto simp: log_places_def BBSIZE_def)
  have from': "edit_alike log_places (put32_from off v) (put32_from off v)" for off v
  proof -
    have "put32_from off v = (\<lambda>b. on_slice off (length b - off) (put32 0 v) b)" by (simp add: fun_eq_iff put32_from_def)
    then show ?thesis using alike_length [where e = "\<lambda>n. on_slice off (n - off) (put32 0 v)" and e' = "\<lambda>n. on_slice off (n - off) (put32 0 v)"]
      by (simp add: alike_on_slice)
  qed
  have "edit_alike log_places rest rest"
    unfolding rest_def
    by (intro alike_then alike_run alike_read [OF far]) (simp_all add: list_all2_map1 list_all2_map2 list_all2_same from')
  moreover have "edit_alike log_places (on_slice 0 BBSIZE (run_edits (header_edits uuid su l t)))
      (on_slice 0 BBSIZE (run_edits (header_edits u su l t)))"
    unfolding header_edits_def
    using u by (intro alike_on_slice alike_run) (auto simp: log_places_def intro!: alike_write)
  ultimately have "edit_alike log_places (\<lambda>b. and_then (on_slice 0 BBSIZE (run_edits (header_edits uuid su l t)) b) rest)
      (\<lambda>b. and_then (on_slice 0 BBSIZE (run_edits (header_edits u su l t)) b) rest)" by (intro alike_then)
  from this [unfolded edit_alike_def, rule_format, OF changes_refl c [unfolded eq]] show ?thesis by (simp add: eq)
qed

section \<open>Renderings of like structures\<close>

definition renders :: "bytes \<Rightarrow> bytes \<Rightarrow> rendering \<Rightarrow> bool" where
  "renders b b' r \<longleftrightarrow> (case r of (name, c, f) \<Rightarrow> \<exists>v v'. f b = Inr v \<and> f b' = Inr v' \<and> (c = Structural \<longrightarrow> v' = v))"

lemma render_matches:
  assumes "\<forall>r\<in>set rs. renders b b' r"
  shows "\<exists>x y. render p rs b = Inr x \<and> render p rs b' = Inr y \<and> matches x y"
  using assms
proof (induction rs)
  case Nil
  then show ?case by (simp add: render_def)
next
  case (Cons r rs)
  obtain name c f where r: "r = (name, c, f)" by (cases r)
  obtain v v' where v: "f b = Inr v" "f b' = Inr v'" "c = Structural \<longrightarrow> v' = v"
    using Cons.prems by (auto simp: renders_def r)
  obtain x y where "render p rs b = Inr x" "render p rs b' = Inr y" "matches x y" using Cons by auto
  then show ?case
    using v by (simp add: render_def r matches_def same_field_def push_def)
qed

lemma shown_Inr: "r b = Inr v \<Longrightarrow> shown r f b = Inr (f v)"
  by (simp add: shown_def)

lemma changes_byte: "changes_only S b b' \<Longrightarrow> off \<notin> S \<Longrightarrow> off < length b \<Longrightarrow> byte b' off = byte b off"
  by (simp add: changes_only_def byte_def)

lemma words_read:
  "off + 2 \<le> length b \<Longrightarrow> \<exists>v. be16 b off = Inr v" "off + 4 \<le> length b \<Longrightarrow> \<exists>v. be32 b off = Inr v"
  "off + 8 \<le> length b \<Longrightarrow> \<exists>v. be64 b off = Inr v" "off + 4 \<le> length b \<Longrightarrow> \<exists>v. le32 b off = Inr v"
  by (simp_all add: be16_def be32_def be64_def le32_def)

lemma renders_words:
  assumes ch: "changes_only S b b'"
  shows "off < length b \<Longrightarrow> off \<notin> S \<Longrightarrow> renders b b' (rd8 name off)"
    "off + 2 \<le> length b \<Longrightarrow> {off..<off + 2} \<inter> S = {} \<Longrightarrow> renders b b' (rd16 name off)"
    "off + 2 \<le> length b \<Longrightarrow> {off..<off + 2} \<inter> S = {} \<Longrightarrow> renders b b' (rx16 name off)"
    "off + 4 \<le> length b \<Longrightarrow> {off..<off + 4} \<inter> S = {} \<Longrightarrow> renders b b' (rd32 name off)"
    "off + 4 \<le> length b \<Longrightarrow> {off..<off + 4} \<inter> S = {} \<Longrightarrow> renders b b' (rx32 name off)"
    "off + 8 \<le> length b \<Longrightarrow> {off..<off + 8} \<inter> S = {} \<Longrightarrow> renders b b' (rd64 name off)"
    "off + 8 \<le> length b \<Longrightarrow> {off..<off + 8} \<inter> S = {} \<Longrightarrow> renders b b' (rx64 name off)"
proof -
  note r = renders_def shown_def
  show "renders b b' (rd8 name off)" if "off < length b" "off \<notin> S"
    using changes_byte [OF ch that(2,1)] that(1) by (simp add: r rd8_def byte_def)
  show "renders b b' (rd16 name off)" "renders b b' (rx16 name off)" if "off + 2 \<le> length b" "{off..<off + 2} \<inter> S = {}"
    using changes_words(3) [OF ch that(2,1)] words_read(1) [OF that(1)] by (auto simp: r rd16_def rx16_def)
  show "renders b b' (rd32 name off)" "renders b b' (rx32 name off)" if "off + 4 \<le> length b" "{off..<off + 4} \<inter> S = {}"
    using changes_words(1) [OF ch that(2,1)] words_read(2) [OF that(1)] by (auto simp: r rd32_def rx32_def)
  show "renders b b' (rd64 name off)" "renders b b' (rx64 name off)" if "off + 8 \<le> length b" "{off..<off + 8} \<inter> S = {}"
    using changes_words(2) [OF ch that(2,1)] words_read(3) [OF that(1)] by (auto simp: r rd64_def rx64_def)
qed

lemma renders_bytes:
  assumes ch: "changes_only S b b'"
  shows "off + 16 \<le> length b \<Longrightarrow> renders b b' (ruuid name off)"
    "off \<le> stop \<Longrightarrow> stop \<le> length b \<Longrightarrow> {off..<stop} \<inter> S = {} \<Longrightarrow> renders b b' (rhex name off stop)"
    "off \<le> length b \<Longrightarrow> {off..<length b} \<inter> S = {} \<Longrightarrow> renders b b' (rtail name off)"
proof -
  note r = renders_def shown_def
  have l: "length b' = length b" by (rule changes_length [OF ch])
  show "renders b b' (ruuid name off)" if "off + 16 \<le> length b"
    using that l by (simp add: r ruuid_def read_slice_def)
  show "renders b b' (rhex name off stop)" if "off \<le> stop" "stop \<le> length b" "{off..<stop} \<inter> S = {}"
    using changes_slice [OF ch, of off "stop - off"] that l by (simp add: r rhex_def read_slice_def)
  show "renders b b' (rtail name off)" if "off \<le> length b" "{off..<length b} \<inter> S = {}"
    using changes_slice [OF ch, of off "length b - off"] that l by (simp add: r rtail_def slice_def)
qed

lemma renders_crc:
  assumes "off + 4 \<le> length b" "off + 4 \<le> length b'" "verify b off = Inr True" "verify b' off = Inr True" "r \<in> set (crc_fields off)"
  shows "renders b b' r"
proof -
  obtain v v' where "le32 b off = Inr v" "le32 b' off = Inr v'" using words_read(4) assms(1,2) by blast
  then show ?thesis using assms(3-5) by (auto simp: crc_fields_def renders_def shown_def)
qed

text \<open>The words of an array.\<close>

lemma words_alike:
  assumes ch: "changes_only S b b'" and "off + 4 * n \<le> length b" "{off..<off + 4 * n} \<inter> S = {}"
  shows "try_map (\<lambda>i. be32 b' (off + 4 * i)) [0..<n] = try_map (\<lambda>i. be32 b (off + 4 * i)) [0..<n]"
    "\<exists>vs. try_map (\<lambda>i. be32 b (off + 4 * i)) [0..<n] = Inr vs"
proof -
  have e: "be32 b' (off + 4 * i) = be32 b (off + 4 * i)" if "i < n" for i
    using that assms(2,3) by (intro changes_words(1) [OF ch]) (auto simp: disjoint_iff)
  have "try_map f xs = try_map g xs" if "\<forall>x\<in>set xs. f x = g x" for f g :: "nat \<Rightarrow> error + u32" and xs
    using that by (induction xs) simp_all
  then show "try_map (\<lambda>i. be32 b' (off + 4 * i)) [0..<n] = try_map (\<lambda>i. be32 b (off + 4 * i)) [0..<n]" using e by auto
  show "\<exists>vs. try_map (\<lambda>i. be32 b (off + 4 * i)) [0..<n] = Inr vs"
    using assms(2) by (intro try_map_total words_read(2)) auto
qed

lemma places_apart: "{a..<b} \<inter> uuid_crc u c = {} \<longleftrightarrow> (b \<le> a \<or> ((b \<le> u \<or> u + 16 \<le> a) \<and> (b \<le> c \<or> c + 4 \<le> a)))"
  by (auto simp: uuid_crc_def Int_Un_distrib)

lemma place_apart: "i \<notin> uuid_crc u c \<longleftrightarrow> (i < u \<or> u + 16 \<le> i) \<and> (i < c \<or> c + 4 \<le> i)"
  by (auto simp: uuid_crc_def)

lemma sb_dump_alike:
  assumes "changes_only (uuid_crc sb_UUID sb_CRC) b b'" "length b = ss" "512 \<le> ss" "verify b sb_CRC = Inr True" "verify b' sb_CRC = Inr True"
  shows "\<exists>x y. dump_sb p b ss = Inr x \<and> dump_sb p b' ss = Inr y \<and> matches x y"
  unfolding dump_sb_def sb_renderings_def
proof (rule render_matches, unfold set_append ball_Un, intro conjI)
  show "\<forall>x\<in>set (crc_fields sb_CRC). renders b b' x"
    using assms changes_length [OF assms(1)] by (intro ballI renders_crc [of sb_CRC]) simp_all
qed (use assms(2,3) in \<open>simp add: renders_words [OF assms(1)] renders_bytes [OF assms(1)] places_apart place_apart\<close>)

lemma agf_dump_alike:
  assumes "changes_only (uuid_crc agf_UUID agf_CRC) b b'" "512 \<le> length b" "verify b agf_CRC = Inr True" "verify b' agf_CRC = Inr True"
  shows "\<exists>x y. dump_agf p b = Inr x \<and> dump_agf p b' = Inr y \<and> matches x y"
  unfolding dump_agf_def
proof (rule render_matches, unfold set_append ball_Un, intro conjI)
  show "\<forall>x\<in>set (crc_fields agf_CRC). renders b b' x"
    using assms changes_length [OF assms(1)] by (intro ballI renders_crc [of agf_CRC]) simp_all
qed (use assms(2) in \<open>simp add: renders_words [OF assms(1)] renders_bytes [OF assms(1)] places_apart\<close>)

lemma agi_dump_alike:
  assumes "changes_only (uuid_crc agi_UUID agi_CRC) b b'" "512 \<le> length b" "verify b agi_CRC = Inr True" "verify b' agi_CRC = Inr True"
  shows "\<exists>x y. dump_agi p b = Inr x \<and> dump_agi p b' = Inr y \<and> matches x y"
  unfolding dump_agi_def
proof (rule render_matches, unfold set_append ball_Un, intro conjI)
  show "\<forall>x\<in>set (crc_fields agi_CRC). renders b b' x"
    using assms changes_length [OF assms(1)] by (intro ballI renders_crc [of agi_CRC]) simp_all
  have "renders b b' (''unlinked'', Structural, unlinked_str)"
    using words_alike [OF assms(1), of agi_UNLINKED 64] assms(2) by (auto simp: renders_def unlinked_str_def shown_def places_apart)
  then show "\<forall>x\<in>set [rd32 ''magicnum'' agi_MAGICNUM, rd32 ''versionnum'' agi_VERSIONNUM, rd32 ''seqno'' agi_SEQNO, rd32 ''length'' agi_LENGTH,
       rd32 ''count'' agi_COUNT, rd32 ''root'' agi_ROOT, rd32 ''level'' agi_LEVEL, rd32 ''freecount'' agi_FREECOUNT,
       rd32 ''newino'' agi_NEWINO, rd32 ''dirino'' agi_DIRINO, rd32 ''free_root'' agi_FREE_ROOT, rd32 ''free_level'' agi_FREE_LEVEL,
       rd32 ''iblocks'' agi_IBLOCKS, rd32 ''fblocks'' agi_FBLOCKS,
       (''unlinked'', Structural, unlinked_str), ruuid ''uuid'' agi_UUID, rd64 ''lsn'' agi_LSN, rd32 ''pad'' (agi_CRC + 4),
       rtail ''tail'' agi_END]. renders b b' x"
    using assms(2) by (simp add: renders_words [OF assms(1)] renders_bytes [OF assms(1)] places_apart)
qed

lemma agfl_dump_alike:
  assumes "changes_only (uuid_crc agfl_UUID agfl_CRC) b b'" "512 \<le> length b" "verify b agfl_CRC = Inr True" "verify b' agfl_CRC = Inr True"
  shows "\<exists>x y. dump_agfl p b = Inr x \<and> dump_agfl p b' = Inr y \<and> matches x y"
  unfolding dump_agfl_def
proof (rule render_matches, unfold set_append ball_Un, intro conjI)
  show "\<forall>x\<in>set (crc_fields agfl_CRC). renders b b' x"
    using assms changes_length [OF assms(1)] by (intro ballI renders_crc [of agfl_CRC]) simp_all
  have "36 + 4 * ((length b - 36) div 4) \<le> length b" using assms(2) by simp
  then have "renders b b' (''bno'', Structural, free_list_str)"
    using words_alike [OF assms(1), of agfl_BNO "(length b - 36) div 4"] changes_length [OF assms(1)]
    by (auto simp: renders_def free_list_str_def shown_def places_apart)
  then show "\<forall>x\<in>set [rd32 ''magicnum'' agfl_MAGICNUM, rd32 ''seqno'' agfl_SEQNO, ruuid ''uuid'' agfl_UUID, rd64 ''lsn'' agfl_LSN,
       (''bno'', Structural, free_list_str)]. renders b b' x"
    using assms(2) by (simp add: renders_words [OF assms(1)] renders_bytes [OF assms(1)] places_apart)
qed

lemma inode_places_apart:
  "{a..<b} \<inter> inode_places = {} \<longleftrightarrow> (b \<le> a \<or> ((b \<le> 32 \<or> 56 \<le> a) \<and> (b \<le> 92 \<or> 96 \<le> a) \<and> (b \<le> 144 \<or> 152 \<le> a) \<and>
     (b \<le> 160 \<or> 176 \<le> a) \<and> (b \<le> 100 \<or> 104 \<le> a)))"
  "i \<notin> inode_places \<longleftrightarrow> (i < 32 \<or> 56 \<le> i) \<and> (i < 92 \<or> 96 \<le> i) \<and> (i < 144 \<or> 152 \<le> i) \<and> (i < 160 \<or> 176 \<le> i) \<and> (i < 100 \<or> 104 \<le> i)"
proof -
  have p: "inode_places = {32..<56} \<union> {92..<96} \<union> {144..<152} \<union> {160..<176} \<union> {100..<104}"
    by (simp add: inode_places_def uuid_crc_def Un_assoc)
  have e: "{a..<b} \<inter> {c..<d :: nat} = {} \<longleftrightarrow> b \<le> a \<or> b \<le> c \<or> d \<le> a" if "c < d" for c d using that by auto
  show "{a..<b} \<inter> inode_places = {} \<longleftrightarrow> (b \<le> a \<or> ((b \<le> 32 \<or> 56 \<le> a) \<and> (b \<le> 92 \<or> 96 \<le> a) \<and> (b \<le> 144 \<or> 152 \<le> a) \<and>
     (b \<le> 160 \<or> 176 \<le> a) \<and> (b \<le> 100 \<or> 104 \<le> a)))"
    unfolding p Int_Un_distrib Un_empty using e [of 32 56] e [of 92 96] e [of 144 152] e [of 160 176] e [of 100 104] by simp blast
  show "i \<notin> inode_places \<longleftrightarrow> (i < 32 \<or> 56 \<le> i) \<and> (i < 92 \<or> 96 \<le> i) \<and> (i < 144 \<or> 152 \<le> i) \<and> (i < 160 \<or> 176 \<le> i) \<and> (i < 100 \<or> 104 \<le> i)"
    by (simp add: inode_places_def uuid_crc_def not_le not_less)
qed

lemma renders_time: "off + 8 \<le> length b \<Longrightarrow> 128 \<le> length b \<Longrightarrow> length b' = length b \<Longrightarrow> renders b b' (rtime name off)"
  using words_read(3) [of off b] words_read(3) [of off b'] words_read(3) [of di_FLAGS2 b] words_read(3) [of di_FLAGS2 b']
  by (auto simp: renders_def rtime_def shown_def)

lemma inode_dump_alike:
  assumes ch: "changes_only inode_places b b'" and l: "176 \<le> length b" and "verify b di_CRC = Inr True" "verify b' di_CRC = Inr True"
  shows "\<exists>x y. dump_inode p b = Inr x \<and> dump_inode p b' = Inr y \<and> matches x y"
  unfolding dump_inode_def inode_renderings_def
proof (rule render_matches, unfold set_append ball_Un, intro conjI)
  have l': "length b' = length b" by (rule changes_length [OF ch])
  show "\<forall>x\<in>set (crc_fields di_CRC). renders b b' x"
    using assms l' by (intro ballI renders_crc [of di_CRC]) simp_all
  have w: "be16 b' off = be16 b off" "\<exists>v. be16 b off = Inr v" if "off \<in> {di_MODE, di_PROJID_LO, di_PROJID_HI}" for off
    using that l changes_words(3) [OF ch, of off] words_read(1) [of off b] by (auto simp: inode_places_apart)
  have "renders b b' (''mode'', Structural, shown (\<lambda>b. be16 b di_MODE) (\<lambda>v. radix 8 (unat v)))"
    "renders b b' (''projid'', Structural, projid_str)"
    using w(1) w(2) [of di_MODE] w(2) [of di_PROJID_LO] w(2) [of di_PROJID_HI] by (auto simp: renders_def shown_def projid_str_def)
  moreover have "renders b b' (''gen'', Incidental, shown (\<lambda>b. be32 b di_GEN) (\<lambda>v. dec (unat v)))"
    using words_read(2) [of di_GEN b] words_read(2) [of di_GEN b'] l l' by (auto simp: renders_def shown_def)
  ultimately show "\<forall>x\<in>set [rx16 ''magic'' di_MAGIC, (''mode'', Structural, shown (\<lambda>b. be16 b di_MODE) (\<lambda>v. radix 8 (unat v))),
      rd8 ''version'' di_VERSION, rd8 ''format'' di_FORMAT, rd16 ''metatype'' di_METATYPE, rd32 ''uid'' di_UID, rd32 ''gid'' di_GID,
      rd32 ''nlink'' di_NLINK, (''projid'', Structural, projid_str), rd64 ''big_nextents'' di_BIG_NEXTENTS,
      rtime ''atime'' di_ATIME, rtime ''mtime'' di_MTIME, rtime ''ctime'' di_CTIME, rtime ''crtime'' di_CRTIME,
      rd64 ''size'' di_SIZE, rd64 ''nblocks'' di_NBLOCKS, rd32 ''extsize'' di_EXTSIZE, rd32 ''nextents'' di_NEXTENTS,
      rd16 ''anextents'' di_ANEXTENTS, rd8 ''forkoff'' di_FORKOFF, rd8 ''aformat'' di_AFORMAT, rd32 ''dmevmask'' di_DMEVMASK,
      rd16 ''dmstate'' di_DMSTATE, rx16 ''flags'' di_FLAGS,
      (''gen'', Incidental, shown (\<lambda>b. be32 b di_GEN) (\<lambda>v. dec (unat v))),
      rd32 ''next_unlinked'' di_NEXT_UNLINKED, rd64 ''changecount'' di_CHANGECOUNT, rd64 ''lsn'' di_LSN, rx64 ''flags2'' di_FLAGS2,
      rd32 ''cowextsize'' di_COWEXTSIZE, rhex ''pad2'' (di_COWEXTSIZE + 4) di_CRTIME, rd64 ''ino'' di_INO,
      ruuid ''uuid'' di_UUID, rtail ''literal'' CORE_SIZE]. renders b b' x"
    using l l' by (simp add: renders_words [OF ch] renders_bytes [OF ch] inode_places_apart renders_time CORE_SIZE_def)
qed

lemma log_places_apart: "{a..<b} \<inter> log_places = {} \<longleftrightarrow> b \<le> a \<or> b \<le> 304 \<or> 320 \<le> a"
  by (auto simp: log_places_def)

lemma log_header_alike:
  assumes ch: "changes_only log_places b b'" and l: "512 \<le> length b"
  shows "\<exists>x y. render p log_renderings b = Inr x \<and> render p log_renderings b' = Inr y \<and> matches x y"
  unfolding log_renderings_def
  by (rule render_matches) (use l in \<open>simp add: renders_words [OF ch] renders_bytes [OF ch] log_places_apart\<close>)

end
