(* ===== verification/Tree_Alike.thy ===== *)
theory Tree_Alike
  imports Alike
begin

unbundle bit_operations_syntax

section \<open>Trees and inode chunks that read alike\<close>

text \<open>
  On two devices of one geometry the root of a tree of one level is read alike, with the same records, and
  so is an inode chunk whose slots differ in the places of the identity only.
\<close>

definition alike_dumps :: "error + dumped \<Rightarrow> error + dumped \<Rightarrow> bool" where
  "alike_dumps x y \<longleftrightarrow> (\<exists>a b. x = Inr a \<and> y = Inr b \<and> matches a b)"

lemma matches_Cons: "matches (f # a) (f # b) \<longleftrightarrow> matches a b"
  by (simp add: matches_def same_field_def)

lemma alike_dumps_try:
  assumes "\<forall>x\<in>set xs. alike_dumps (f x) (h x)"
  shows "\<exists>as bs. try_map f xs = Inr as \<and> try_map h xs = Inr bs \<and> list_all2 matches as bs"
  using assms by (induction xs) (auto simp: alike_dumps_def)

text \<open>The records of a leaf.\<close>

definition leaf_records :: "dump_tree_kind \<Rightarrow> nat \<Rightarrow> bytes \<Rightarrow> bytes list" where
  "leaf_records t n b =
     map (\<lambda>r. slice (btree_RECS + r * t_rec t) (t_rec t) b) [0..<min n ((length b - btree_RECS) div t_rec t)]"

lemma leaf_record_inside:
  assumes "r < min n ((length b - btree_RECS) div t_rec t)" "btree_RECS \<le> length b"
  shows "btree_RECS + r * t_rec t + t_rec t \<le> length b"
proof -
  have "Suc r * t_rec t \<le> (length b - btree_RECS) div t_rec t * t_rec t" using assms(1) by (intro mult_le_mono1) simp
  also have "\<dots> \<le> length b - btree_RECS" by (rule div_times_less_eq_dividend)
  finally show ?thesis using assms(2) by simp
qed

lemma try_map_Inr: "(\<And>x. x \<in> set xs \<Longrightarrow> f x = Inr (h x)) \<Longrightarrow> try_map f xs = Inr (map h xs)"
  by (induction xs) simp_all

lemma dump_leaf_records:
  assumes "btree_RECS \<le> length b"
  shows "dump_leaf p t n b =
    and_then (render p [rtail ''slack'' (btree_RECS + min n ((length b - btree_RECS) div t_rec t) * t_rec t)] b) (\<lambda>slack.
      Inr (map (\<lambda>(r, x). push_s (indexed (p @ ''.rec'') r) (hex_trimmed_full x)) (enumerate 0 (leaf_records t n b)) @ slack,
        leaf_records t n b))"
proof -
  define m where "m = min n ((length b - btree_RECS) div t_rec t)"
  have "try_map (\<lambda>r. read_slice (btree_RECS + r * t_rec t) (t_rec t) b) [0..<m] =
      Inr (map (\<lambda>r. slice (btree_RECS + r * t_rec t) (t_rec t) b) [0..<m])"
    using leaf_record_inside [OF _ assms, of _ n t] by (intro try_map_Inr) (simp add: m_def read_slice_def)
  then show ?thesis by (simp add: dump_leaf_def leaf_records_def Let_def flip: m_def)
qed

lemma dump_leaf_alike:
  assumes ch: "changes_only (uuid_crc btree_UUID btree_CRC) b b'" and l: "btree_RECS \<le> length b"
  shows "\<exists>x y. dump_leaf p t n b = Inr (x, leaf_records t n b) \<and> dump_leaf p t n b' = Inr (y, leaf_records t n b) \<and> matches x y"
proof -
  define m where "m = min n ((length b - btree_RECS) div t_rec t)"
  have l': "length b' = length b" by (rule changes_length [OF ch])
  have "btree_RECS + m * t_rec t \<le> length b"
  proof (cases m)
    case (Suc k)
    then have "k < min n ((length b - btree_RECS) div t_rec t)" unfolding m_def by simp
    from leaf_record_inside [OF this l] Suc show ?thesis by (simp add: ac_simps)
  qed (use l in simp)
  then have "\<forall>r\<in>set [rtail ''slack'' (btree_RECS + m * t_rec t)]. renders b b' r"
    by (simp add: renders_bytes [OF ch] places_apart)
  from render_matches [OF this, of p] obtain x y where "render p [rtail ''slack'' (btree_RECS + m * t_rec t)] b = Inr x"
    "render p [rtail ''slack'' (btree_RECS + m * t_rec t)] b' = Inr y" "matches x y" by blast
  moreover have "leaf_records t n b' = leaf_records t n b"
    unfolding leaf_records_def l'
    using leaf_record_inside [OF _ l, of _ n t] by (intro map_cong refl changes_slice [OF ch]) (auto simp: places_apart)
  ultimately show ?thesis
    using l by (simp add: dump_leaf_records l' matches_append flip: m_def)
qed

lemma tree_header_alike:
  assumes ch: "changes_only (uuid_crc btree_UUID btree_CRC) b b'" and l: "btree_RECS \<le> length b"
    and "verify b btree_CRC = Inr True" "verify b' btree_CRC = Inr True"
  shows "\<exists>x y. render p tree_header b = Inr x \<and> render p tree_header b' = Inr y \<and> matches x y"
  unfolding tree_header_def
proof (rule render_matches, unfold set_append ball_Un, intro conjI)
  show "\<forall>x\<in>set (crc_fields btree_CRC). renders b b' x"
    using assms changes_length [OF ch] by (intro ballI renders_crc [of btree_CRC]) simp_all
qed (use l in \<open>simp add: renders_words [OF ch] renders_bytes [OF ch] places_apart\<close>)

text \<open>The root of a tree that is a leaf.\<close>

definition leaf_root :: "geo \<Rightarrow> nat \<Rightarrow> dump_tree_kind \<Rightarrow> nat \<Rightarrow> bytes \<Rightarrow> bytes \<Rightarrow> bool" where
  "leaf_root G a t agbno b b' \<longleftrightarrow>
     agbno < ag_len G a \<and> changes_only (uuid_crc btree_UUID btree_CRC) b b' \<and> btree_RECS \<le> length b \<and>
     verify b btree_CRC = Inr True \<and> verify b' btree_CRC = Inr True \<and>
     be32 b btree_MAGIC = Inr (t_magic t) \<and> be16 b btree_LEVEL = Inr 0"

lemma dump_block_alike:
  assumes r: "leaf_root G a t agbno b b'" and n: "be16 b btree_NUMRECS = Inr n"
    and rd: "inspect_read D d (geo_byte G a agbno) (geo_blocksize G) = Inr b"
      "inspect_read E e (geo_byte G a agbno) (geo_blocksize G) = Inr b'"
  shows "\<exists>x y. dump_block D d G a t p agbno = Inr (x, [], leaf_records t (unat n) b) \<and>
    dump_block E e G a t p agbno = Inr (y, [], leaf_records t (unat n) b) \<and> matches x y"
proof -
  have r': "agbno < ag_len G a" "changes_only (uuid_crc btree_UUID btree_CRC) b b'" "btree_RECS \<le> length b"
    "verify b btree_CRC = Inr True" "verify b' btree_CRC = Inr True" "be32 b btree_MAGIC = Inr (t_magic t)" "be16 b btree_LEVEL = Inr 0"
    using r by (simp_all add: leaf_root_def)
  have "be32 b' btree_MAGIC = Inr (t_magic t)" "be16 b' btree_LEVEL = Inr 0" "be16 b' btree_NUMRECS = Inr n"
    using changes_words [OF r'(2)] r'(3,6,7) n by (simp_all add: places_apart)
  moreover obtain x y where "render p tree_header b = Inr x" "render p tree_header b' = Inr y" "matches x y"
    using tree_header_alike [OF r'(2-5)] by blast
  moreover obtain u v where "dump_leaf p t (unat n) b = Inr (u, leaf_records t (unat n) b)"
    "dump_leaf p t (unat n) b' = Inr (v, leaf_records t (unat n) b)" "matches u v"
    using dump_leaf_alike [OF r'(2,3)] by blast
  ultimately show ?thesis
    using r'(1,6,7) n rd by (auto simp: dump_block_def Let_def not_le matches_Cons intro!: matches_append)
qed

lemma dump_levels_leaf:
  assumes "dump_block D d G a t (indexed (p @ ''.l'' @ dec 0) 0) agbno = Inr (x, [], recs)"
  shows "dump_levels D d G a t p 0 [agbno] = Inr (x, recs)"
  using assms by (simp add: dump_levels.simps [of _ _ _ _ _ _ 0] dump_levels.simps [of _ _ _ _ _ _ "Suc 0"] enumerate_eq_zip)

lemma dump_tree_alike:
  assumes r: "leaf_root G a t agbno b b'" and n: "be16 b btree_NUMRECS = Inr n"
    and rd: "inspect_read D d (geo_byte G a agbno) (geo_blocksize G) = Inr b"
      "inspect_read E e (geo_byte G a agbno) (geo_blocksize G) = Inr b'"
  shows "\<exists>x y. dump_tree D d G a t agbno = Inr (x, leaf_records t (unat n) b) \<and>
    dump_tree E e G a t agbno = Inr (y, leaf_records t (unat n) b) \<and> matches x y"
  unfolding dump_tree_def using dump_block_alike [OF r n rd] dump_levels_leaf by metis

subsection \<open>Chunks\<close>

text \<open>\<open>slots_alike n isz c c'\<close>: \<open>n\<close> inodes that differ in the places of the identity only and verify.\<close>

definition slots_alike :: "nat \<Rightarrow> nat \<Rightarrow> bytes \<Rightarrow> bytes \<Rightarrow> bool" where
  "slots_alike n isz c c' \<longleftrightarrow> n * isz \<le> length c \<and> n * isz \<le> length c' \<and>
     (\<forall>i<n. changes_only inode_places (slice (i * isz) isz c) (slice (i * isz) isz c') \<and>
       verify (slice (i * isz) isz c) di_CRC = Inr True \<and> verify (slice (i * isz) isz c') di_CRC = Inr True)"

text \<open>A chunk in the blocks from \<open>agbno\<close>, as a device returns it.\<close>

definition chunk_read :: "'d dev_ops \<Rightarrow> 'd \<Rightarrow> geo \<Rightarrow> nat \<Rightarrow> nat \<Rightarrow> nat \<Rightarrow> bytes \<Rightarrow> bool" where
  "chunk_read D d G a agbno n c \<longleftrightarrow>
     (\<forall>k<n. inspect_read D d (geo_byte G a (agbno + k)) (geo_blocksize G) = Inr (slice (k * geo_blocksize G) (geo_blocksize G) c))"

lemma slice_of_slice: "o2 + n \<le> m \<Longrightarrow> slice o2 n (slice o1 m b) = slice (o1 + o2) n b"
  by (simp add: slice_def drop_take min_absorb1 add.commute)

lemma inode_found:
  assumes rd: "chunk_read D d G a agbno nb c" and c: "nb * geo_blocksize G \<le> length c"
    and G: "geo_blocksize G = 2 ^ l * geo_inodesize G" "geo_inopblog G = l" "l < 32" "geo_blocksize G < 2 ^ 32"
    and i: "i < nb * 2 ^ l" and in_ag: "agbno + nb \<le> ag_len G a"
  shows "dump_chunk_inode D d G a (agbno * 2 ^ l) 0 i =
    dump_inode (indexed ''inode'' (shl64 a (geo_agblklog G + l) OR (agbno * 2 ^ l + i))) (slice (i * geo_inodesize G) (geo_inodesize G) c)"
proof -
  define k s where "k = i div 2 ^ l" and "s = i mod 2 ^ l"
  have k: "k < nb" "s < 2 ^ l" "i = k * 2 ^ l + s"
    using i div_mult_mod_eq [of i "2 ^ l"] by (simp_all only: k_def s_def) (simp_all add: div_less_iff_less_mult)
  have at: "shr64 (agbno * 2 ^ l + i) l = agbno + k"
    using G(3) by (simp add: shr64_small k_def)
  have "shl64 1 l = 2 ^ l" using G(3) by (intro shl64_one) simp
  moreover have "sub64 (2 ^ l) 1 = mask l"
    using G(3) power_increasing [of l 32 "2::nat"] by (subst nowrap) (simp_all add: mask_eq_exp_minus_1)
  ultimately have slot: "(agbno * 2 ^ l + i) AND sub64 (shl64 1 l) 1 = s"
    by (simp only: s_def flip: take_bit_eq_mask) (simp add: take_bit_eq_mod)
  have si: "s * geo_inodesize G + geo_inodesize G \<le> geo_blocksize G"
    using mult_le_mono1 [of "Suc s" "2 ^ l" "geo_inodesize G"] k(2) by (simp add: G(1) add.commute)
  then have m: "mul64 s (geo_inodesize G) = s * geo_inodesize G" using G(4) by (intro nowrap) simp
  have kb: "k * geo_blocksize G + geo_blocksize G \<le> length c"
    using mult_le_mono1 [of "Suc k" nb "geo_blocksize G"] k(1) c by simp
  have "k * geo_blocksize G + s * geo_inodesize G = i * geo_inodesize G"
    by (simp add: k(3) G(1) algebra_simps)
  then have "read_slice (s * geo_inodesize G) (geo_inodesize G) (slice (k * geo_blocksize G) (geo_blocksize G) c) =
      Inr (slice (i * geo_inodesize G) (geo_inodesize G) c)"
    using si kb by (simp add: read_slice_def slice_of_slice)
  moreover have "\<not> ag_len G a \<le> agbno + k" using in_ag k(1) by simp
  ultimately show ?thesis
    using rd k(1) by (simp add: dump_chunk_inode_def Let_def G(2) at slot [simplified] m chunk_read_def)
qed

lemma dump_chunk_alike:
  assumes rd: "chunk_read D d G a agbno nb c" "chunk_read E e G a agbno nb c'"
    and G: "geo_blocksize G = 2 ^ l * geo_inodesize G" "geo_inopblog G = l" "l < 32" "geo_blocksize G < 2 ^ 32" "176 \<le> geo_inodesize G"
    and nb: "nb * 2 ^ l = 64" and in_ag: "agbno + nb \<le> ag_len G a"
    and rec: "be32 rec 0 = Inr st" "unat st = agbno * 2 ^ l" "be16 rec 4 = Inr 0"
    and al: "slots_alike 64 (geo_inodesize G) c c'"
  shows "alike_dumps (dump_chunk D d G a rec) (dump_chunk E e G a rec)"
proof -
  define isz where "isz = geo_inodesize G"
  have n: "nb * geo_blocksize G = 64 * isz"
    using nb by (simp add: G(1) isz_def flip: mult.assoc)
  have len: "nb * geo_blocksize G \<le> length c" "nb * geo_blocksize G \<le> length c'"
    using al by (simp_all add: slots_alike_def n isz_def)
  have "alike_dumps (dump_chunk_inode D d G a (agbno * 2 ^ l) 0 i) (dump_chunk_inode E e G a (agbno * 2 ^ l) 0 i)" if i: "i < 64" for i
  proof -
    have "i * isz + isz \<le> 64 * isz" using i mult_le_mono1 [of "Suc i" 64 isz] by simp
    then have "i * isz + isz \<le> length c" using len(1) unfolding n by (rule le_trans)
    then have "length (slice (i * isz) isz c) = isz" by (simp add: slice_simps)
    then show ?thesis
      using inode_found [OF rd(1) len(1) G(1-4) _ in_ag, of i] inode_found [OF rd(2) len(2) G(1-4) _ in_ag, of i] i nb al G(5)
        inode_dump_alike [of "slice (i * isz) isz c" "slice (i * isz) isz c'"]
      by (simp add: alike_dumps_def slots_alike_def isz_def)
  qed
  then obtain xs ys where "try_map (dump_chunk_inode D d G a (agbno * 2 ^ l) 0) [0..<64] = Inr xs"
    "try_map (dump_chunk_inode E e G a (agbno * 2 ^ l) 0) [0..<64] = Inr ys" "list_all2 matches xs ys"
    using alike_dumps_try [of "[0..<64]" "dump_chunk_inode D d G a (agbno * 2 ^ l) 0" "dump_chunk_inode E e G a (agbno * 2 ^ l) 0"] by auto
  then show ?thesis
    using rec by (simp add: alike_dumps_def dump_chunk_def matches_concat)
qed

end
