(* ===== verification/Formatted_Reads.thy ===== *)
theory Formatted_Reads
  imports Tree_Alike
begin

unbundle bit_operations_syntax

section \<open>What a dump reads on a formatted device\<close>

lemma mem_inspect:
  assumes "md_good d" "reads_bytes (md_content d) off b" "accepts mem_ops md_sector d off (length b)"
  shows "inspect_read mem_ops d off (length b) = Inr b"
  using mem.read_at [OF assms(1,3)] assms(2) by (simp add: inspect_read_def reads_bytes_def)

lemma reads_bytes_slice: "reads_bytes c off b \<Longrightarrow> k + n \<le> length b \<Longrightarrow> reads_bytes c (off + k) (slice k n b)"
  by (simp add: reads_bytes_iff nth_slice slice_simps add.assoc)

lemma formatted_D:
  assumes "formatted d g plans uuid time gen order d'"
  shows "format_ready mem_ops md_sector d g plans uuid order" "md_good d'" "md_size d' = md_size d" "md_sector d' = md_sector d"
    "md_content d' = format_image (md_size d) g plans uuid time gen order (md_content d)"
  using assms by (simp_all add: formatted_on_def same_device_def)

lemma formatted_read:
  assumes f: "formatted d g plans uuid time gen order d'" and a: "a < agcount g"
    and b: "reads_bytes (md_content d') (group_at g a + k * bs g) b" "length b = n * bs g" "0 < n" "k + n \<le> ag_blocks g a"
  shows "inspect_read mem_ops d' (geo_byte (geo_of g) a k) (n * bs g) = Inr b"
proof -
  note f = formatted_D [OF f]
  note g = ready_geometry [OF f(1)]
  have at: "geo_byte (geo_of g) a k = group_at g a + k * bs g"
    using agb_to_byte_eq(1) [OF g(1,2) a, of k] b(3,4) by (simp add: geo_of_blocks [OF g(1)] group_at_def bs_def add_mult_distrib)
  have "(k + n) * bs g \<le> ag_blocks g a * bs g" using b(4) by (rule mult_le_mono1)
  then have "group_at g a + k * bs g + n * bs g \<le> md_size d'"
    using ready_space(3) [OF f(1) a] g(4) f(3) unfolding mem_ops_simps by (simp add: add_mult_distrib)
  then have "accepts mem_ops md_sector d' (group_at g a + k * bs g) (length b)"
    using g(5) f(4) by (simp add: accepts_def b(2)) (simp add: group_at_def)
  from mem_inspect [OF f(2) b(1) this] show ?thesis by (simp add: at b(2))
qed

text \<open>The header sectors and the btree roots of a group.\<close>

lemma formatted_head:
  assumes f: "formatted d g plans uuid time gen order d'" and a: "a < agcount g"
  obtains h s f i l where
    "inspect_read mem_ops d' (geo_byte (geo_of g) a 0) (header_blocks g * bs g) = Inr h" "4 * sectsize g \<le> length h"
    "slice 0 (sectsize g) h = s" "slice (sectsize g) (sectsize g) h = f" "slice (2 * sectsize g) (sectsize g) h = i"
    "slice (3 * sectsize g) (sectsize g) h = l"
    "sb_encode g (final_sb g uuid plans a) (replicate (sectsize g) 0) = Inr s"
    "agf_encode (plan_agf g (plans ! a)) uuid (replicate (sectsize g) 0) = Inr f"
    "agi_encode (plan_agi g (plans ! a)) uuid (replicate (sectsize g) 0) = Inr i"
    "encode_agfl (of_nat a) uuid 1 (map of_nat (ap_agfl (plans ! a))) (replicate (sectsize g) 0) = Inr l"
    "\<forall>x\<in>set (head_leaves g (plans ! a)). fst (snd x) < ag_blocks g a \<and>
       inspect_read mem_ops d' (geo_byte (geo_of g) a (fst (snd x))) (bs g) = Inr (leaf_bytes g a uuid x)"
proof -
  note f' = formatted_D [OF f]
  note g = ready_geometry [OF f'(1)] and p = plan_ag_InrD [OF ready_geometry(1,2) [OF f'(1)] a ready_plans(1) [OF f'(1) a]]
  define ss sbs where "ss = sectsize g" and "sbs = final_sb g uuid plans a"
  obtain f i l rest where
    r: "agf_encode (plan_agf g (plans ! a)) uuid (replicate ss 0) = Inr f" "length f = ss"
    "agi_encode (plan_agi g (plans ! a)) uuid (replicate ss 0) = Inr i" "length i = ss"
    "encode_agfl (of_nat (ap_agno (plans ! a))) uuid 1 (map of_nat (ap_agfl (plans ! a))) (replicate ss 0) = Inr l" "length l = ss"
    and h: "holds ([(ss, f), (2 * ss, i), (3 * ss, l)] @ map (leaf_region g (ap_agno (plans ! a)) uuid) (head_leaves g (plans ! a)))
      (replicate ss 0 @ rest)"
    and len: "length rest = prealloc_blocks g * bs g - ss"
    and ag: "\<forall>sbs s. sb_encode g sbs (replicate ss 0) = Inr s \<longrightarrow> length s = ss \<longrightarrow> ag_head g (plans ! a) uuid sbs = Inr (s @ rest)"
    unfolding ss_def by (rule group_head_regions [OF g(1) p(2) g(3)])
  have u: "length (s_uuid sbs) = 16" using g(3) by (simp add: sbs_def final_sb_def)
  obtain s where s: "sb_encode g sbs (replicate ss 0) = Inr s" "length s = ss"
    unfolding ss_def using sb_sector [OF g(1) u] by blast
  define b where "b = s @ rest"
  have hb: "4 * ss \<le> header_blocks g * bs g" "header_blocks g * bs g \<le> prealloc_blocks g * bs g"
    using head_sizes(4,5) [OF g(1)] by (simp_all add: ss_def)
  have "ss \<le> prealloc_blocks g * bs g" using hb by linarith
  then have lb: "length b = prealloc_blocks g * bs g" using len s(2) by (simp add: b_def)
  have "head_bytes g plans uuid sbs a = b" using ag s by (simp add: head_bytes_def b_def)
  then have rb: "reads_bytes (md_content d') (group_at g a) b"
    using image_groups [OF f'(1) a, of "md_size d" time gen "md_content d"] f'(5) by (simp add: sbs_def)
  have pa: "prealloc_blocks g \<le> ag_blocks g a" using p(4) by (simp add: group_start_def)
  have sl: "slice off n b = c" if "(off, c) \<in> set ([(ss, f), (2 * ss, i), (3 * ss, l)] @
      map (leaf_region g (ap_agno (plans ! a)) uuid) (head_leaves g (plans ! a)))" "length c = n" "ss \<le> off" for off n c
    using holds_member [OF h that(1)] that(2,3) s(2) by (simp add: slice_def b_def)
  define hd where "hd = slice 0 (header_blocks g * bs g) b"
  have lh: "length hd = header_blocks g * bs g" using hb lb by (simp add: hd_def slice_simps)
  have "reads_bytes (md_content d') (group_at g a + 0 * bs g) hd"
    using reads_bytes_slice [OF rb, of 0 "header_blocks g * bs g"] hb lb by (simp add: hd_def)
  then have rd: "inspect_read mem_ops d' (geo_byte (geo_of g) a 0) (header_blocks g * bs g) = Inr hd"
    using group_prealloc(1) [OF g(1)] head_sizes(5) [OF g(1)] pa by (intro formatted_read [OF f a _ lh]) simp_all
  have sect: "slice 0 ss hd = s" "slice ss ss hd = f" "slice (2 * ss) ss hd = i" "slice (3 * ss) ss hd = l"
  proof -
    have "slice k ss hd = slice k ss b" if "k + ss \<le> 4 * ss" for k
      using slice_of_slice [of k ss "header_blocks g * bs g" 0 b] that hb by (simp add: hd_def)
    moreover have "slice 0 ss b = s" using s(2) by (simp add: b_def slice_def)
    ultimately show "slice 0 ss hd = s" "slice ss ss hd = f" "slice (2 * ss) ss hd = i" "slice (3 * ss) ss hd = l"
      using sl r(2,4,6) by simp_all
  qed
  have leaf: "fst (snd x) < ag_blocks g a \<and>
      inspect_read mem_ops d' (geo_byte (geo_of g) a (fst (snd x))) (bs g) = Inr (leaf_bytes g a uuid x)"
    if x: "x \<in> set (head_leaves g (plans ! a))" for x
  proof -
    have "fst (snd x) \<in> set (map (fst \<circ> snd) (head_leaves g (plans ! a)))" using x by simp
    then have k: "header_blocks g \<le> fst (snd x)" "fst (snd x) + 1 \<le> prealloc_blocks g" unfolding head_leaf_blocks(1) by simp_all
    have m: "header_blocks g * bs g \<le> fst (snd x) * bs g" "(fst (snd x) + 1) * bs g \<le> prealloc_blocks g * bs g"
      using k by (intro mult_le_mono1; simp)+
    have lx: "length (leaf_bytes g a uuid x) = 1 * bs g"
      using leaf_bytes_ok(2) [OF p(2) head_sizes(3) [OF g(1)] g(3) x, of a] by simp
    have "leaf_region g (ap_agno (plans ! a)) uuid x = (fst (snd x) * bs g, leaf_bytes g a uuid x)"
      by (simp add: leaf_region_def p(3))
    moreover have "ss \<le> fst (snd x) * bs g" using m(1) hb by linarith
    ultimately have "slice (fst (snd x) * bs g) (bs g) b = leaf_bytes g a uuid x"
      using x lx by (intro sl) (force simp: image_iff)+
    then have "reads_bytes (md_content d') (group_at g a + fst (snd x) * bs g) (leaf_bytes g a uuid x)"
      using reads_bytes_slice [OF rb, of "fst (snd x) * bs g" "bs g"] m(2) lb by simp
    then show ?thesis using formatted_read [OF f a _ lx] k pa by simp
  qed
  show thesis
    using that [OF rd _ sect [unfolded ss_def]] lh hb r(1,3,5) s(1) leaf by (simp add: ss_def sbs_def p(3))
qed

text \<open>The root inode chunk.\<close>

lemma image_chunk:
  assumes r: "format_ready D sector d g plans uuid order"
  shows "reads_bytes (format_image sz g plans uuid time gen order c) (root_chunk_agbno g * bs g)
    (the_bytes (root_chunk g (root_chunk_agbno g) uuid time gen))"
proof -
  note g = ready_geometry [OF r]
  define hb where "hb = header_blocks g * bs g"
  define fin where "fin = take hb (head_bytes g plans uuid (finished_sb g uuid plans) 0)"
  define chunk where "chunk = the_bytes (root_chunk g (root_chunk_agbno g) uuid time gen)"
  define c2 where "c2 = overwrite (fold (group_effect g plans uuid) order
     (fold (\<lambda>e c. e c) (take 4 (format_effects sz g plans uuid time gen order)) c)) (root_chunk_agbno g * bs g) chunk"
  have img: "format_image sz g plans uuid time gen order c = overwrite c2 0 fin"
    by (simp add: format_image_def format_effects_def Let_def fold_effects c2_def hb_def fin_def chunk_def)
  have "hb \<le> root_chunk_agbno g * bs g"
    using root_chunk_bounds(1) [OF g(1)] head_sizes(5) [OF g(1)] unfolding hb_def by (intro mult_le_mono1) simp
  then have "length fin \<le> root_chunk_agbno g * bs g" by (simp add: fin_def)
  moreover have "reads_bytes c2 (root_chunk_agbno g * bs g) chunk" by (simp add: c2_def)
  ultimately show ?thesis
    unfolding img chunk_def [symmetric] by (intro reads_bytes_frame(1) [OF _ _ refl]) simp_all
qed

lemma formatted_chunk:
  assumes f: "formatted d g plans uuid time gen order d'"
  obtains c where "root_chunk g (root_chunk_agbno g) uuid time gen = Inr c" "length c = 64 * inodesize g"
    "chunk_read mem_ops d' (geo_of g) 0 (root_chunk_agbno g) (chunk_blocks g) c"
    "\<forall>i<64. verify (slice (i * inodesize g) (inodesize g) c) di_CRC = Inr True"
    "root_chunk_agbno g + chunk_blocks g \<le> ag_blocks g 0"
proof -
  note f' = formatted_D [OF f]
  note g = ready_geometry [OF f'(1)]
  obtain c where c: "root_chunk g (root_chunk_agbno g) uuid time gen = Inr c" "length c = 64 * inodesize g"
    "\<forall>i<64. verify (slot g c i) di_CRC = Inr True"
    using root_chunk_ok [OF g(1,3), of "root_chunk_agbno g" time gen] by blast
  have in_ag: "root_chunk_agbno g + chunk_blocks g \<le> ag_blocks g 0"
    using root_chunk_bounds(2) [OF g(1)] ag_blocks_bounds(1) [OF g(1,2,7)] by linarith
  have rb: "reads_bytes (md_content d') (root_chunk_agbno g * bs g) c"
    using image_chunk [OF f'(1), of "md_size d" time gen "md_content d"] f'(5) c(1) by simp
  have "inspect_read mem_ops d' (geo_byte (geo_of g) 0 (root_chunk_agbno g + k)) (bs g) = Inr (slice (k * bs g) (bs g) c)"
    if k: "k < chunk_blocks g" for k
  proof -
    have "k * bs g + bs g \<le> chunk_blocks g * bs g" using k mult_le_mono1 [of "Suc k" "chunk_blocks g" "bs g"] by simp
    then have in_c: "k * bs g + bs g \<le> length c" using c(2) chunk_bytes(1) [OF g(1)] by simp
    have "reads_bytes (md_content d') (group_at g 0 + (root_chunk_agbno g + k) * bs g) (slice (k * bs g) (bs g) c)"
      using reads_bytes_slice [OF rb in_c] by (simp add: group_at_def add_mult_distrib add.assoc)
    then show ?thesis
      using formatted_read [OF f g(7), of "root_chunk_agbno g + k" "slice (k * bs g) (bs g) c" 1] in_c in_ag k
      by (simp add: slice_simps)
  qed
  then show thesis using that [OF c(1,2)] c(3) in_ag by (simp add: chunk_read_def geo_of_position slot_def)
qed

text \<open>The log: its first block and the zeros after it.\<close>

lemma formatted_first_block:
  assumes f: "formatted d g plans uuid time gen order d'"
  obtains b where "first_log_block g uuid = Inr b" "length b = bs g"
    "inspect_read mem_ops d' (log_at g) (bs g) = Inr b"
    "reads_bytes (md_content d') (log_at g) (b @ replicate (logblocks g * bs g - bs g) 0)"
proof -
  note f' = formatted_D [OF f]
  note g = ready_geometry [OF f'(1)] and l = formatted_log_inside [OF f]
  obtain b where b: "first_log_block g uuid = Inr b" "length b = bs g" using first_log_block_ok [OF g(1,3)] by blast
  have rb: "reads_bytes (md_content d') (log_at g) (b @ replicate (logblocks g * bs g - bs g) 0)"
    using image_log [OF f'(1) b(1), of "md_size d" time gen "md_content d"] f'(5) b(2) by simp
  have "geo_byte (geo_of g) (logagno g) (log_agbno g) = log_at g" by (simp add: geo_of_blocks [OF g(1)] log_at_def)
  moreover have "log_at g = group_at g (logagno g) + log_agbno g * bs g"
    using log_region(1) [OF f'(1)] geometry_okD(24) [OF g(1)] by simp
  ultimately have "inspect_read mem_ops d' (log_at g) (bs g) = Inr b"
    using formatted_read [OF f g(10), of "log_agbno g" b 1] rb b(2) log_position(3) [OF f'(1)] by (simp add: reads_bytes_append)
  then show thesis by (rule that [OF b _ rb])
qed

end
