(* ===== verification/Run_Reads.thy ===== *)
theory Run_Reads
  imports Group_Writers Formatted_Reads Admin_Uuid
begin

unbundle bit_operations_syntax

section \<open>What a run of the format leaves to be read\<close>

text \<open>
  The results on formatted images, brought back to the runs of \<open>format_run\<close>: whatever the schedule of the writers, the device
  that a run returns is \<open>formatted_on\<close>, and what it holds is read through its own \<^verbatim>\<open>read_at\<close>.
\<close>

context block_device
begin

lemma run_formatted:
  assumes "good d" "compute p (dev_size D d) (dev_logical D d) (dev_physical D d) = Inr g" "p_agcount p = None \<or> agcount g \<le> agsize g"
    and "group_start g (logagno g) + min_freelist g \<le> ag_blocks g (logagno g)"
    and "p_uuid p = Some uuid" "length uuid = 16" "sector d dvd bs g"
    and "format_run D p new_uuid now new_seed d (Inr (d', r))"
  obtains plans where "try_map (plan_ag g) [0..<agcount g] = Inr plans"
    "formatted_on D good content sector d g plans uuid (case p_time p of Some t \<Rightarrow> t | None \<Rightarrow> now)
       (case p_gen_seed p of Some s \<Rightarrow> s | None \<Rightarrow> new_seed) [0..<agcount g] d'"
  using format_run_image [OF assms] by (metis formatted_on_def)

text \<open>Bytes of the image that lie within the data blocks, from a block on, are read in whole blocks.\<close>

lemma formatted_read_at:
  assumes f: "formatted_on D good content sector d g plans uuid time gen order d'"
    and b: "reads_bytes (content d') off b" "bs g dvd off" "length b = k * bs g" "off + k * bs g \<le> dblocks g * bs g"
  shows "dev_read_at D d' off (k * bs g) = Inr b"
proof -
  have r: "format_ready D sector d g plans uuid order" and s: "same_device D sector d d'" "good d'"
    using f by (simp_all add: formatted_on_def)
  note g = ready_geometry [OF r]
  have "accepts D sector d' off (k * bs g)"
    using b(2,4) g(4,5) s(1) by (auto simp: accepts_def same_device_def intro: dvd_trans dvd_mult)
  from read_at [OF s(2) this] show ?thesis using b(1,3) by (simp add: reads_bytes_def)
qed

lemma formatted_heads:
  assumes f: "formatted_on D good content sector d g plans uuid time gen order d'" and a: "a < agcount g"
  shows "dev_read_at D d' (agb_to_byte g a 0) (prealloc_blocks g * bs g) = ag_head g (plans ! a) uuid (final_sb g uuid plans a)"
proof -
  have r: "format_ready D sector d g plans uuid order" using f by (simp add: formatted_on_def)
  have u: "length (s_uuid (final_sb g uuid plans a)) = 16" using ready_geometry(3) [OF r] by (simp add: final_sb_def)
  note h = ready_head [OF r a u] and sp = ready_space [OF r a]
  have "reads_bytes (content d') (group_at g a) (head_bytes g plans uuid (final_sb g uuid plans a) a)"
    using image_groups [OF r a] f by (simp add: formatted_on_def)
  moreover have "group_at g a + prealloc_blocks g * bs g \<le> dblocks g * bs g"
    using head_in_group(2) [OF r a] sp(3) by linarith
  ultimately show ?thesis
    using formatted_read_at [OF f, of "group_at g a" "head_bytes g plans uuid (final_sb g uuid plans a) a" "prealloc_blocks g"] h sp(1)
    by (simp add: group_at_def)
qed

lemma formatted_chunk_at:
  assumes f: "formatted_on D good content sector d g plans uuid time gen order d'"
  shows "dev_read_at D d' (agb_to_byte g 0 (root_chunk_agbno g)) (chunk_blocks g * bs g) =
    root_chunk g (root_chunk_agbno g) uuid time gen"
proof -
  have r: "format_ready D sector d g plans uuid order" using f by (simp add: formatted_on_def)
  note g = ready_geometry [OF r]
  obtain c where c: "root_chunk g (root_chunk_agbno g) uuid time gen = Inr c" "length c = 64 * inodesize g"
    using root_chunk_ok [OF g(1,3), of "root_chunk_agbno g" time gen] by blast
  have "reads_bytes (content d') (root_chunk_agbno g * bs g) c"
    using image_chunk [OF r, of "dev_size D d" time gen "content d"] f c(1) by (simp add: formatted_on_def)
  moreover have b: "root_chunk_agbno g + chunk_blocks g \<le> ag_blocks g 0" "root_chunk_agbno g < ag_blocks g 0"
    using root_chunk_bounds [OF g(1)] ag_blocks_bounds(1) [OF g(1,2,7)] by linarith+
  have "(root_chunk_agbno g + chunk_blocks g) * bs g \<le> dblocks g * bs g"
    using mult_le_mono1 [OF b(1)] ready_space(3) [OF r g(7)] by (auto simp: group_at_def intro: order_trans)
  moreover have "agb_to_byte g 0 (root_chunk_agbno g) = root_chunk_agbno g * bs g"
    using agb_to_byte_eq(1) [OF g(1,2,7), of "root_chunk_agbno g"] b(2) by (simp add: bs_def)
  ultimately show ?thesis
    using formatted_read_at [OF f, of "root_chunk_agbno g * bs g" c "chunk_blocks g"] c chunk_bytes(1) [OF g(1)]
    by (simp add: add_mult_distrib)
qed

lemma formatted_log_at:
  assumes f: "formatted_on D good content sector d g plans uuid time gen order d'"
  shows "\<exists>b. first_log_block g uuid = Inr b \<and>
    dev_read_at D d' (agb_to_byte g (logagno g) (log_agbno g)) (logblocks g * bs g) = Inr (b @ replicate (logblocks g * bs g - bs g) 0)"
proof -
  have r: "format_ready D sector d g plans uuid order" using f by (simp add: formatted_on_def)
  note g = ready_geometry [OF r] and l = log_region [OF r]
  obtain b where b: "first_log_block g uuid = Inr b" "length b = bs g" using first_log_block_ok [OF g(1,3)] by blast
  have "1 * bs g \<le> logblocks g * bs g" using l(4) by (intro mult_le_mono1) simp
  then have len: "length (b @ replicate (logblocks g * bs g - bs g) 0) = logblocks g * bs g" using b(2) by simp
  have rb: "reads_bytes (content d') (log_at g) (b @ replicate (logblocks g * bs g - bs g) 0)"
    using image_log [OF r b(1), of "dev_size D d" time gen "content d"] f b(2) by (simp add: formatted_on_def)
  have at: "log_at g = group_at g (logagno g) + log_agbno g * bs g" using l(1) geometry_okD(24) [OF g(1)] by simp
  have lb: "log_agbno g < ag_blocks g (logagno g)" "log_agbno g + logblocks g \<le> ag_blocks g (logagno g)"
    using ready_space(2) [OF r g(10)] geometry_okD(24) [OF g(1)] l(4) head_sizes(3) [OF g(1)] by (auto simp: group_start_def)
  have "(log_agbno g + logblocks g) * bs g \<le> ag_blocks g (logagno g) * bs g" using lb(2) by (rule mult_le_mono1)
  then have "log_at g + logblocks g * bs g \<le> dblocks g * bs g"
    using ready_space(3) [OF r g(10)] by (simp add: at add_mult_distrib)
  moreover have "agb_to_byte g (logagno g) (log_agbno g) = log_at g"
    using agb_to_byte_eq(1) [OF g(1,2,10) lb(1)] by (simp add: at group_at_def bs_def add_mult_distrib)
  moreover have "bs g dvd log_at g" by (simp add: at group_at_def)
  ultimately show ?thesis
    using formatted_read_at [OF f rb] b(1) len by (intro exI [of _ b]) simp
qed

lemma formatted_managed:
  assumes f: "formatted_on D good content sector d g plans uuid time gen order d'" and l: "dev_logical D d \<le> bs g"
  shows "inspect_geometry D d' = Inr (geo_of g) \<and>
    fs_log_state D d' = Inr \<lparr>ls_head = record_bbs (log_sunit g), ls_tail = record_bbs (log_sunit g), ls_cycle = 1\<rparr> \<and>
    (length uuid' = 16 \<longrightarrow> (\<exists>d''. set_uuid D uuid' d' = Inr d'' \<and>
      fs_log_state D d'' = Inr \<lparr>ls_head = 0, ls_tail = 0, ls_cycle = 2\<rparr> \<and>
      (\<forall>a<agcount g. slice sb_UUID 16 (sb_block (geo_of g) (content d'') a) = uuid' \<and>
        meta_uuid (sb_block (geo_of g) (content d'') a) = Inr uuid)))"
proof -
  have r: "format_ready D sector d g plans uuid order" using f by (simp add: formatted_on_def)
  note g = ready_geometry(1) [OF r] and m = formatted_manageable [OF f l] and t = formatted_tail [OF f l]
  have o: "fs_open D d' = Inr \<lparr>fs_geo = geo_of g, fs_primary = sb_block (geo_of g) (content d') 0\<rparr>"
    by (rule formatted_opens [OF f l])
  have "usable_cycle 1" by (simp add: usable_cycle_def HEADER_MAGIC_def)
  then have u: "usable_cycle (ls_cycle \<lparr>ls_head = record_bbs (log_sunit g), ls_tail = record_bbs (log_sunit g), ls_cycle = 1\<rparr>)"
    by simp
  have "\<exists>d''. set_uuid D uuid' d' = Inr d'' \<and> fs_log_state D d'' = Inr \<lparr>ls_head = 0, ls_tail = 0, ls_cycle = 2\<rparr> \<and>
      (\<forall>a<agcount g. slice sb_UUID 16 (sb_block (geo_of g) (content d'') a) = uuid' \<and>
        meta_uuid (sb_block (geo_of g) (content d'') a) = Inr uuid)" if u': "length uuid' = 16"
  proof -
    have c: "\<not> dirty \<lparr>ls_head = record_bbs (log_sunit g), ls_tail = record_bbs (log_sunit g), ls_cycle = 1\<rparr>"
      by (simp add: dirty_def)
    obtain d'' fs' where d'': "set_uuid D uuid' d' = Inr d''" "manageable D good content sector d'' fs' uuid"
      "fs_geo fs' = (geo_of g)\<lparr>geo_incompat := geo_incompat (fs_geo fs')\<rparr>"
      "fs_find_tail D fs' d'' = Inr (cleared_state (geo_logsunit (geo_of g)) 1)"
      and b: "\<forall>a<agcount g. slice sb_UUID 16 (sb_block (geo_of g) (content d'') a) = uuid'"
      using set_uuid_again [OF m t c u u'] by (auto simp: geo_of_position)
    obtain w where w: "fs_geo fs' = (geo_of g)\<lparr>geo_incompat := w\<rparr>" using d''(3) by blast
    have "fs_log_state D d'' = Inr \<lparr>ls_head = 0, ls_tail = 0, ls_cycle = 2\<rparr>"
      using d''(2,4) formatted_cleared_state [OF g, of 1] by (simp add: fs_log_state_def manageable_def)
    moreover have "\<forall>a<agcount g. meta_uuid (sb_block (geo_of g) (content d'') a) = Inr uuid"
      using d''(2) by (simp add: manageable_def w geo_of_position)
    ultimately show ?thesis using d''(1) b by blast
  qed
  then show ?thesis using fs_open_InrD(1) [OF o] o t by (simp add: fs_log_state_def)
qed

end

subsection \<open>A sample run\<close>

lemma sample_run:
  obtains d' r where "format_run mem_ops sample_params (replicate 16 9) \<lparr>secs = 0, nsecs = 0\<rparr> 42 sample_device (Inr (d', r))"
proof -
  have s: "p_agcount sample_params = None \<or> agcount geometry_512m \<le> agsize geometry_512m" using sample_facts(8) by simp
  have d: "md_sector sample_device dvd bs geometry_512m" "length (replicate 16 (7 :: u8)) = 16" by (simp_all add: sample_facts(5))
  obtain x where x: "format_run mem_ops sample_params (replicate 16 9) \<lparr>secs = 0, nsecs = 0\<rparr> 42 sample_device x"
    using format_run_total [of mem_ops] by blast
  then show thesis
    using mem.format_run_done [OF sample_facts(1) sample_facts(6) [folded mem_ops_simps] s sample_log_group sample_facts(9) d(2,1) x] that
    by blast
qed

section \<open>Properties\<close>

text \<open>
  \<^bold>\<open>C5\<close>. What every run of the format writes can be read back through the device, whatever the schedule of the writers: each
  group starts with the head of its own plan, at the byte where the geometry puts the group, with the finished superblock in group 0
  and a secondary one elsewhere; the root inode chunk and the whole log, one record and zeroes after it, are where the geometry says.
\<close>

theorem run_reads_back:
  assumes "block_device D good content sector" "good d"
    and "compute p (dev_size D d) (dev_logical D d) (dev_physical D d) = Inr g" "p_agcount p = None \<or> agcount g \<le> agsize g"
    and "group_start g (logagno g) + min_freelist g \<le> ag_blocks g (logagno g)"
    and "p_uuid p = Some uuid" "length uuid = 16" "sector d dvd bs g"
    and "format_run D p new_uuid now new_seed d (Inr (d', r))"
  shows "\<exists>plans. try_map (plan_ag g) [0..<agcount g] = Inr plans \<and>
    (\<forall>a<agcount g. dev_read_at D d' (agb_to_byte g a 0) (prealloc_blocks g * bs g) =
      ag_head g (plans ! a) uuid (if a = 0 then finished_sb g uuid plans else group_sb g uuid plans a)) \<and>
    dev_read_at D d' (agb_to_byte g 0 (root_chunk_agbno g)) (chunk_blocks g * bs g) =
      root_chunk g (root_chunk_agbno g) uuid (case p_time p of Some t \<Rightarrow> t | None \<Rightarrow> now)
        (case p_gen_seed p of Some s \<Rightarrow> s | None \<Rightarrow> new_seed) \<and>
    (\<exists>b. first_log_block g uuid = Inr b \<and>
      dev_read_at D d' (agb_to_byte g (logagno g) (log_agbno g)) (logblocks g * bs g) = Inr (b @ replicate (logblocks g * bs g - bs g) 0))"
proof -
  obtain plans where p: "try_map (plan_ag g) [0..<agcount g] = Inr plans"
    and f: "formatted_on D good content sector d g plans uuid (case p_time p of Some t \<Rightarrow> t | None \<Rightarrow> now)
      (case p_gen_seed p of Some s \<Rightarrow> s | None \<Rightarrow> new_seed) [0..<agcount g] d'"
    by (rule block_device.run_formatted [OF assms])
  note h = block_device.formatted_heads [OF assms(1) f, unfolded final_sb_def]
  show ?thesis
    by (intro exI [of _ plans] conjI allI impI p h block_device.formatted_chunk_at [OF assms(1) f] block_device.formatted_log_at [OF assms(1) f])
qed

theorem run_reads_back_witness:
  "\<exists>d' r plans b. format_run mem_ops sample_params (replicate 16 9) \<lparr>secs = 0, nsecs = 0\<rparr> 42 sample_device (Inr (d', r)) \<and>
     md_read_at d' (agb_to_byte geometry_512m 3 0) (prealloc_blocks geometry_512m * bs geometry_512m) =
       ag_head geometry_512m (plans ! 3) (replicate 16 7) (group_sb geometry_512m (replicate 16 7) plans 3) \<and>
     first_log_block geometry_512m (replicate 16 7) = Inr b \<and>
     md_read_at d' (agb_to_byte geometry_512m (logagno geometry_512m) (log_agbno geometry_512m)) (logblocks geometry_512m * bs geometry_512m) =
       Inr (b @ replicate (logblocks geometry_512m * bs geometry_512m - bs geometry_512m) 0)"
proof -
  have s: "p_agcount sample_params = None \<or> agcount geometry_512m \<le> agsize geometry_512m" using sample_facts(8) by simp
  have d: "md_sector sample_device dvd bs geometry_512m" "length (replicate 16 (7 :: u8)) = 16" by (simp_all add: sample_facts(5))
  note c = sample_facts(6) [folded mem_ops_simps]
  obtain d' r where run: "format_run mem_ops sample_params (replicate 16 9) \<lparr>secs = 0, nsecs = 0\<rparr> 42 sample_device (Inr (d', r))"
    by (rule sample_run)
  have "3 < agcount geometry_512m" by (simp add: sample_facts(7))
  with run_reads_back [OF mem.block_device_axioms sample_facts(1) c s sample_log_group sample_facts(9) d(2,1) run] run
  show ?thesis unfolding mem_ops_simps
    by (intro exI [of _ d'] exI [of _ r]) force
qed

text \<open>
  \<^bold>\<open>C6\<close>. Every run of the format, on any device and whatever its schedule, leaves a filesystem that the other tools
  take: the reader finds the geometry that was computed, the log reader finds the log clean in cycle 1 after its only record, and
  \<^verbatim>\<open>set_uuid\<close> gives any UUID to every group, keeping the one of the format as the metadata UUID, and leaves the log clean in
  cycle 2.
\<close>

theorem run_managed:
  assumes "block_device D good content sector" "good d"
    and "compute p (dev_size D d) (dev_logical D d) (dev_physical D d) = Inr g" "p_agcount p = None \<or> agcount g \<le> agsize g"
    and "group_start g (logagno g) + min_freelist g \<le> ag_blocks g (logagno g)"
    and "p_uuid p = Some uuid" "length uuid = 16" "sector d dvd bs g"
    and "format_run D p new_uuid now new_seed d (Inr (d', r))" and l: "dev_logical D d \<le> bs g"
  shows "inspect_geometry D d' = Inr (geo_of g) \<and>
    fs_log_state D d' = Inr \<lparr>ls_head = record_bbs (log_sunit g), ls_tail = record_bbs (log_sunit g), ls_cycle = 1\<rparr> \<and>
    (length uuid' = 16 \<longrightarrow> (\<exists>d''. set_uuid D uuid' d' = Inr d'' \<and>
      fs_log_state D d'' = Inr \<lparr>ls_head = 0, ls_tail = 0, ls_cycle = 2\<rparr> \<and>
      (\<forall>a<agcount g. slice sb_UUID 16 (sb_block (geo_of g) (content d'') a) = uuid' \<and>
        meta_uuid (sb_block (geo_of g) (content d'') a) = Inr uuid)))"
proof -
  obtain plans where f: "formatted_on D good content sector d g plans uuid (case p_time p of Some t \<Rightarrow> t | None \<Rightarrow> now)
      (case p_gen_seed p of Some s \<Rightarrow> s | None \<Rightarrow> new_seed) [0..<agcount g] d'"
    by (rule block_device.run_formatted [OF assms(1-9)])
  show ?thesis by (rule block_device.formatted_managed [OF assms(1) f l])
qed

theorem run_managed_witness:
  "\<exists>d' r d''. format_run mem_ops sample_params (replicate 16 9) \<lparr>secs = 0, nsecs = 0\<rparr> 42 sample_device (Inr (d', r)) \<and>
     inspect_geometry mem_ops d' = Inr (geo_of geometry_512m) \<and> set_uuid mem_ops (replicate 16 5) d' = Inr d'' \<and>
     slice sb_UUID 16 (sb_block (geo_of geometry_512m) (md_content d'') 3) = replicate 16 5"
proof -
  have s: "p_agcount sample_params = None \<or> agcount geometry_512m \<le> agsize geometry_512m" using sample_facts(8) by simp
  have d: "md_sector sample_device dvd bs geometry_512m" "length (replicate 16 (7 :: u8)) = 16" "length (replicate 16 (5 :: u8)) = 16"
    by (simp_all add: sample_facts(5))
  note c = sample_facts(6) [folded mem_ops_simps]
  have l: "dev_logical mem_ops sample_device \<le> bs geometry_512m" by (simp add: sample_facts(3) bs_def geometry_512m_def)
  obtain d' r where run: "format_run mem_ops sample_params (replicate 16 9) \<lparr>secs = 0, nsecs = 0\<rparr> 42 sample_device (Inr (d', r))"
    by (rule sample_run)
  have "3 < agcount geometry_512m" by (simp add: sample_facts(7))
  note m = run_managed [OF mem.block_device_axioms sample_facts(1) c s sample_log_group sample_facts(9) d(2,1) run l, of "replicate 16 5"]
  obtain d'' where u: "set_uuid mem_ops (replicate 16 5) d' = Inr d''"
    and sb: "\<forall>a<agcount geometry_512m. slice sb_UUID 16 (sb_block (geo_of geometry_512m) (md_content d'') a) = replicate 16 5"
    using mp [OF conjunct2 [OF conjunct2 [OF m]] d(3)] by auto
  show ?thesis
    by (intro exI [of _ d'] exI [of _ r] exI [of _ d''] conjI run conjunct1 [OF m] u sb [rule_format])
      (simp add: sample_facts(7))
qed

end
