(* ===== verification/Same_Dump.thy ===== *)
theory Same_Dump
  imports Formatted_Reads
begin

unbundle bit_operations_syntax

section \<open>Two formats of one geometry\<close>

text \<open>
  The same geometry formatted twice, on any two devices, with any two UUIDs, times and generator seeds and in any
  order of the groups: what the dump reads on one is alike what it reads on the other.
\<close>

lemma final_sb_uuid: "final_sb g u plans a = (final_sb g uuid plans a)\<lparr>s_uuid := u\<rparr>"
  by (simp add: final_sb_def finished_sb_def group_sb_def secondary_sb_def Let_def)

lemma same_plans:
  assumes "formatted d g plans uuid time gen order d'" "formatted e g plans2 u time2 gen2 order2 e'"
  shows "plans2 = plans"
  using assms by (simp add: formatted_on_def format_ready_def)

subsection \<open>The btree roots\<close>

lemma leaf_roots:
  assumes f: "formatted d g plans uuid time gen order d'" and a: "a < agcount g" and u: "length u = 16"
    and x: "x \<in> set (head_leaves g (plans ! a))" "fst x = t_magic t"
  shows "leaf_root (geo_of g) a t (fst (snd x)) (leaf_bytes g a uuid x) (leaf_bytes g a u x)"
    "be16 (leaf_bytes g a uuid x) btree_NUMRECS = Inr (of_nat (snd (snd (snd x))))"
    "slice btree_RECS (length (fst (snd (snd x)))) (leaf_bytes g a uuid x) = fst (snd (snd x))"
    "btree_RECS + length (fst (snd (snd x))) \<le> bs g" "length (leaf_bytes g a uuid x) = bs g"
proof -
  note f' = formatted_D [OF f]
  note g = ready_geometry [OF f'(1)] and p = plan_ag_InrD [OF ready_geometry(1,2) [OF f'(1)] a ready_plans(1) [OF f'(1) a]]
  obtain magic agbno recs n where xe: "x = (magic, agbno, recs, n)" by (cases x)
  note l = leaf_bytes_ok [OF p(2) head_sizes(3) [OF g(1)] g(3) x(1), of a]
  note l' = leaf_bytes_ok [OF p(2) head_sizes(3) [OF g(1)] u x(1), of a]
  have h: "holds (leaf_fields (magic, of_nat (agb_to_daddr g a agbno), of_nat a, uuid, recs, of_nat n) (bs g)) (leaf_bytes g a uuid x)"
    using l(4) by (simp add: leaf_of_def xe)
  show "be16 (leaf_bytes g a uuid x) btree_NUMRECS = Inr (of_nat (snd (snd (snd x))))"
    by (rule holds_be16 [OF h]) (simp add: leaf_fields_def xe)
  have m: "be32 (leaf_bytes g a uuid x) btree_MAGIC = Inr (t_magic t)"
    using x(2) by (intro holds_be32 [OF h]) (simp add: leaf_fields_def xe)
  have lv: "be16 (leaf_bytes g a uuid x) btree_LEVEL = Inr 0" by (rule holds_be16 [OF h]) (simp add: leaf_fields_def)
  show "slice btree_RECS (length (fst (snd (snd x)))) (leaf_bytes g a uuid x) = fst (snd (snd x))"
    using holds_member [OF h, of btree_RECS recs] by (simp add: leaf_fields_def xe)
  show r: "btree_RECS + length (fst (snd (snd x))) \<le> bs g"
    using head_leaves_ok [OF p(2) head_sizes(3) [OF g(1)] g(3) x(1), of a] by (simp add: leaf_ok_def leaf_of_def xe)
  have "changes_only (uuid_crc btree_UUID btree_CRC) (leaf_bytes g a uuid x) (leaf_bytes g a u x)"
    by (rule alikeD [OF leaf_alike [OF subset_refl g(3) u] changes_refl l(1) l'(1)])
  moreover have "fst (snd x) < ag_blocks g a"
    using f by (rule formatted_head [OF _ a]) (use x(1) in blast)
  ultimately show "leaf_root (geo_of g) a t (fst (snd x)) (leaf_bytes g a uuid x) (leaf_bytes g a u x)"
    using l(2,3) l'(3) m lv r by (simp add: leaf_root_def geo_of_blocks [OF g(1)])
  show "length (leaf_bytes g a uuid x) = bs g" by (rule l(2))
qed

text \<open>A tree whose root field points to a leaf of the head.\<close>

definition points_to :: "geometry \<Rightarrow> ag_plan \<Rightarrow> bytes \<Rightarrow> dump_tree_kind \<times> nat \<Rightarrow> u32 \<times> nat \<times> bytes \<times> nat \<Rightarrow> bool" where
  "points_to g plan b tr x \<longleftrightarrow> x \<in> set (head_leaves g plan) \<and> fst x = t_magic (fst tr) \<and>
     be32 b (snd tr) = Inr (of_nat (fst (snd x)))"

lemma head_leaf_small:
  assumes g: "geometry_ok g" and x: "x \<in> set (head_leaves g plan)"
  shows "unat (of_nat (fst (snd x)) :: u32) = fst (snd x)"
proof -
  have "fst (snd x) \<in> set (map (fst \<circ> snd) (head_leaves g plan))" using x by simp
  then have "fst (snd x) < prealloc_blocks g" unfolding head_leaf_blocks(1) by simp
  then show ?thesis using group_prealloc(3) [OF g] by (simp add: unat_of_nat_small)
qed

lemma tree_at_alike:
  assumes fA: "formatted d g plans uuid time gen order d'" and fB: "formatted e g plans u time2 gen2 order2 e'" and a: "a < agcount g"
    and p: "points_to g (plans ! a) b tr x" "points_to g (plans ! a) b' tr x"
  shows "\<exists>v w. tree_at mem_ops d' (geo_of g) a b tr =
      Inr (v, leaf_records (fst tr) (unat (of_nat (snd (snd (snd x))) :: u16)) (leaf_bytes g a uuid x)) \<and>
    tree_at mem_ops e' (geo_of g) a b' tr =
      Inr (w, leaf_records (fst tr) (unat (of_nat (snd (snd (snd x))) :: u16)) (leaf_bytes g a uuid x)) \<and> matches v w"
proof -
  obtain t off where tr: "tr = (t, off)" by force
  note g = ready_geometry [OF formatted_D(1) [OF fA]]
  have u: "length u = 16" using ready_geometry(3) [OF formatted_D(1) [OF fB]] .
  have x: "x \<in> set (head_leaves g (plans ! a))" "fst x = t_magic t" "be32 b off = Inr (of_nat (fst (snd x)))"
    "be32 b' off = Inr (of_nat (fst (snd x)))"
    using p by (simp_all add: points_to_def tr)
  note l = leaf_roots [OF fA a u x(1,2)]
  have "inspect_read mem_ops d' (geo_byte (geo_of g) a (fst (snd x))) (bs g) = Inr (leaf_bytes g a uuid x)"
    using fA by (rule formatted_head [OF _ a]) (use x(1) in blast)
  moreover have "inspect_read mem_ops e' (geo_byte (geo_of g) a (fst (snd x))) (bs g) = Inr (leaf_bytes g a u x)"
    using fB by (rule formatted_head [OF _ a]) (use x(1) in blast)
  ultimately show ?thesis
    using dump_tree_alike [OF l(1,2), of mem_ops d' mem_ops e'] x(3,4) head_leaf_small [OF g(1) x(1)]
    by (simp add: tree_at_def tr geo_of_position)
qed

text \<open>The records that an inode btree root of the head gives back.\<close>

lemma inode_records:
  assumes f: "formatted d g plans uuid time gen order d'" and a: "a < agcount g"
    and x: "x = (btree_magic_INO, ibt_block g, concat (map (inobt_bytes sp) rs), length rs)"
    and m: "x \<in> set (head_leaves g (plans ! a))" and n: "length rs \<le> 1"
  shows "leaf_records INOBT (unat (of_nat (length rs) :: u16)) (leaf_bytes g a uuid x) = map (inobt_bytes sp) rs"
proof -
  have u: "length uuid = 16" by (rule ready_geometry(3) [OF formatted_D(1) [OF f]])
  have t: "fst x = t_magic INOBT" by (simp add: x INOBT_def)
  note l = leaf_roots [OF f a u m t]
  have len: "length (concat (map (inobt_bytes sp) rs)) = length rs * 16" by (rule length_concat_enc) simp
  have "btree_RECS + length rs * 16 \<le> bs g" using l(4) len by (simp add: x)
  then have c: "length rs \<le> (bs g - btree_RECS) div 16" by (simp add: less_eq_div_iff_mult_less_eq)
  have "unat (of_nat (length rs) :: u16) = length rs" using n by (simp add: unat_of_nat_small)
  moreover have "slice (btree_RECS + r * 16) 16 (leaf_bytes g a uuid x) = inobt_bytes sp (rs ! r)" if r: "r < length rs" for r
  proof -
    have "r * 16 + 16 \<le> length rs * 16" using r mult_le_mono1 [of "Suc r" "length rs" 16] by simp
    then have "slice (btree_RECS + r * 16) 16 (leaf_bytes g a uuid x) =
        slice (r * 16) 16 (slice btree_RECS (length rs * 16) (leaf_bytes g a uuid x))"
      by (simp add: slice_of_slice)
    also have "\<dots> = slice (r * 16) 16 (concat (map (inobt_bytes sp) rs))" using l(3) len by (simp add: x)
    also have "\<dots> = inobt_bytes sp (rs ! r)" using r by (intro slice_concat) simp_all
    finally show ?thesis .
  qed
  ultimately show ?thesis
    using c l(5) by (intro nth_equalityI) (simp_all add: leaf_records_def INOBT_def INOBT_REC_def min_absorb1)
qed

subsection \<open>The header sectors\<close>

lemma header_fields:
  assumes g: "geometry_ok g" and u: "length uuid = 16"
  shows "agf_encode a uuid (replicate (sectsize g) 0) = Inr f \<Longrightarrow>
      length f = sectsize g \<and> verify f agf_CRC = Inr True \<and> holds (agf_fields (a, uuid) (sectsize g)) f"
    and "agi_encode x uuid (replicate (sectsize g) 0) = Inr i \<Longrightarrow>
      length i = sectsize g \<and> verify i agi_CRC = Inr True \<and> holds (agi_fields (x, uuid) (sectsize g)) i"
    and "encode_agfl agno uuid first list (replicate (sectsize g) 0) = Inr l \<Longrightarrow>
      length l = sectsize g \<and> verify l agfl_CRC = Inr True \<and> be32 l agfl_MAGICNUM = Inr AGFL_MAGIC"
    and "sb_encode g sbs (replicate (sectsize g) 0) = Inr s \<Longrightarrow> length (s_uuid sbs) = 16 \<Longrightarrow>
      length s = sectsize g \<and> verify s sb_CRC = Inr True"
proof -
  note z = head_sizes [OF g]
  have ok: "agf_ok (a, uuid) (length (replicate (sectsize g) (0 :: u8)))" "agi_ok (x, uuid) (length (replicate (sectsize g) (0 :: u8)))"
    "agfl_ok (agno, uuid, first, list) (length (replicate (sectsize g) (0 :: u8)))"
    using z u by (simp_all add: agf_ok_def agi_ok_def agfl_ok_def)
  show "agf_encode a uuid (replicate (sectsize g) 0) = Inr f \<Longrightarrow>
      length f = sectsize g \<and> verify f agf_CRC = Inr True \<and> holds (agf_fields (a, uuid) (sectsize g)) f"
    using agf.checked [OF ok(1)] by simp
  show "agi_encode x uuid (replicate (sectsize g) 0) = Inr i \<Longrightarrow>
      length i = sectsize g \<and> verify i agi_CRC = Inr True \<and> holds (agi_fields (x, uuid) (sectsize g)) i"
    using agi.checked [OF ok(2)] by simp
  show "length l = sectsize g \<and> verify l agfl_CRC = Inr True \<and> be32 l agfl_MAGICNUM = Inr AGFL_MAGIC"
    if "encode_agfl agno uuid first list (replicate (sectsize g) 0) = Inr l"
  proof -
    note c = agfl.checked [OF ok(3), unfolded case_prod_conv, OF that]
    have "be32 l agfl_MAGICNUM = Inr AGFL_MAGIC"
      by (rule holds_be32 [OF c(3)]) (simp add: agfl_fields_def agfl_header_def)
    then show ?thesis using c(1,2) by simp
  qed
  show "sb_encode g sbs (replicate (sectsize g) 0) = Inr s \<Longrightarrow> length (s_uuid sbs) = 16 \<Longrightarrow>
      length s = sectsize g \<and> verify s sb_CRC = Inr True"
    using sb_sector [OF g, of sbs] by force
qed

lemma agf_points:
  assumes tr: "tr \<in> set (free_trees (geo_of g))"
  shows "\<exists>x. \<forall>uuid n f. holds (agf_fields (plan_agf g plan, uuid) n) f \<longrightarrow> points_to g plan f tr x"
proof -
  have roots: "be32 f agf_BNO_ROOT = Inr (agf_bno_root (plan_agf g plan)) \<and>
      be32 f agf_CNT_ROOT = Inr (agf_cnt_root (plan_agf g plan)) \<and>
      be32 f agf_RMAP_ROOT = Inr (agf_rmap_root (plan_agf g plan)) \<and>
      be32 f agf_REFCOUNT_ROOT = Inr (agf_refcount_root (plan_agf g plan))"
    if "holds (agf_fields (plan_agf g plan, uuid) n) f" for uuid n f
    by (intro conjI; rule holds_be32 [OF that]; simp add: agf_fields_def Let_def)
  have "tr \<in> {(BNOBT, agf_BNO_ROOT), (CNTBT, agf_CNT_ROOT)} \<or> (rmapbt (features g) \<and> tr = (RMAPBT, agf_RMAP_ROOT)) \<or>
      (reflink (features g) \<and> tr = (REFCBT, agf_REFCOUNT_ROOT))"
    using tr by (auto simp: free_trees_def geo_of_features split: if_splits)
  then show ?thesis
  proof (elim disjE insertE conjE emptyE)
    assume "tr = (BNOBT, agf_BNO_ROOT)"
    then show ?thesis
      using roots by (intro exI [of _ "head_leaves g plan ! 0"]) (simp add: points_to_def head_leaves_def Let_def plan_agf_def BNOBT_def)
  next
    assume "tr = (CNTBT, agf_CNT_ROOT)"
    then show ?thesis
      using roots by (intro exI [of _ "head_leaves g plan ! 1"]) (simp add: points_to_def head_leaves_def Let_def plan_agf_def CNTBT_def)
  next
    assume "rmapbt (features g)" "tr = (RMAPBT, agf_RMAP_ROOT)"
    then show ?thesis
      using roots by (intro exI [of _ "(btree_magic_RMAP, rmap_block g, concat (map rmap_bytes (ap_rmap plan)), length (ap_rmap plan))"])
        (simp add: points_to_def head_leaves_def Let_def plan_agf_def RMAPBT_def)
  next
    assume "reflink (features g)" "tr = (REFCBT, agf_REFCOUNT_ROOT)"
    then show ?thesis
      using roots by (intro exI [of _ "(btree_magic_REFC, refc_block g, [], 0)"])
        (simp add: points_to_def head_leaves_def Let_def plan_agf_def REFCBT_def)
  qed
qed

definition inode_leaf :: "geometry \<Rightarrow> ag_plan \<Rightarrow> u32 \<Rightarrow> nat \<Rightarrow> u32 \<times> nat \<times> bytes \<times> nat" where
  "inode_leaf g plan magic block =
     (magic, block, concat (map (inobt_bytes (sparse (features g))) (plan_inodes g plan)), length (plan_inodes g plan))"

lemma agi_points:
  assumes "holds (agi_fields (plan_agi g plan, uuid) n) i"
  shows "points_to g plan i (INOBT, agi_ROOT) (inode_leaf g plan btree_magic_INO (ibt_block g))"
    "finobt (features g) \<Longrightarrow> points_to g plan i (FINOBT, agi_FREE_ROOT) (inode_leaf g plan btree_magic_FINO (fibt_block g))"
proof -
  have r: "be32 i agi_ROOT = Inr (agi_root (plan_agi g plan))" "be32 i agi_FREE_ROOT = Inr (agi_free_root (plan_agi g plan))"
    by (rule holds_be32 [OF assms]; simp add: agi_fields_def Let_def)+
  show "points_to g plan i (INOBT, agi_ROOT) (inode_leaf g plan btree_magic_INO (ibt_block g))"
    "finobt (features g) \<Longrightarrow> points_to g plan i (FINOBT, agi_FREE_ROOT) (inode_leaf g plan btree_magic_FINO (fibt_block g))"
    using r by (simp_all add: points_to_def inode_leaf_def head_leaves_def Let_def plan_agi_def INOBT_def FINOBT_def split: prod.split)
qed

subsection \<open>The inode chunk\<close>

definition chunk_places :: "nat \<Rightarrow> nat set" where
  "chunk_places isz = {k. k mod isz \<in> inode_places}"

lemma inode_places_small: "j \<in> inode_places \<Longrightarrow> j < 176"
  by (auto simp: inode_places_def uuid_crc_def)

lemma chunk_places_slot:
  assumes "176 \<le> isz"
  shows "inode_places \<subseteq> {j. i * isz + j \<in> chunk_places isz}"
proof
  fix j
  assume "j \<in> inode_places"
  then show "j \<in> {j. i * isz + j \<in> chunk_places isz}"
    using inode_places_small [of j] assms by (simp add: chunk_places_def)
qed

lemma root_chunk_alike:
  assumes g: "geometry_ok g" and u: "length uuid = 16" "length u = 16"
    and c: "root_chunk g agbno uuid time gen = Inr c" "root_chunk g agbno u time2 gen2 = Inr c'"
  shows "changes_only (chunk_places (inodesize g)) c c'"
proof -
  define isz where "isz = inodesize g"
  have z: "176 \<le> isz" using chunk_bytes(3) [OF g] by (simp add: isz_def)
  define S where "S = chunk_places isz"
  define len where "len = mul64 (chunk_blocks g) (bs g)"
  define first :: u64 where "first = of_nat (ino g 0 agbno 0)"
  obtain data where data: "empty_sf_dir first = Inr data" using empty_sf_dir_ok by blast
  obtain cg s1 bg s2 sg s3 where n: "gen_next gen = (cg, s1)" "gen_next s1 = (bg, s2)" "gen_next s2 = (sg, s3)"
    by (metis prod.exhaust)
  obtain cg' s1' bg' s2' sg' s3' where n': "gen_next gen2 = (cg', s1')" "gen_next s1' = (bg', s2')" "gen_next s2' = (sg', s3')"
    by (metis prod.exhaust)
  define root where "root = size_from_data ((base_inode g first time)\<lparr>d_mode := 0x41ed, d_format := FMT_LOCAL, d_nlink := 2, d_data := data\<rparr>)"
  define rbm where "rbm = (base_inode g first time)\<lparr>d_ino := first + 1, d_mode := 0x8000, d_flags := DIFLAG_NEWRTBM, d_gen := bg,
                       d_atime := \<lparr>secs = 0, nsecs = 0\<rparr>\<rparr>"
  define rsum where "rsum = (base_inode g first time)\<lparr>d_ino := first + 2, d_mode := 0x8000, d_gen := sg\<rparr>"
  define stamped where "stamped = (\<lambda>(d :: dinode) gen ta t. d\<lparr>d_gen := gen, d_atime := ta, d_mtime := t, d_ctime := t, d_crtime := (t :: timestamp)\<rparr>)"
  have second: "size_from_data ((base_inode g first time2)\<lparr>d_mode := 0x41ed, d_format := FMT_LOCAL, d_nlink := 2, d_data := data\<rparr>) =
      stamped root 0 time2 time2"
    "(base_inode g first time2)\<lparr>d_ino := first + 1, d_mode := 0x8000, d_flags := DIFLAG_NEWRTBM, d_gen := bg',
       d_atime := \<lparr>secs = 0, nsecs = 0\<rparr>\<rparr> = stamped rbm bg' \<lparr>secs = 0, nsecs = 0\<rparr> time2"
    "(base_inode g first time2)\<lparr>d_ino := first + 2, d_mode := 0x8000, d_gen := sg'\<rparr> = stamped rsum sg' time2 time2"
    by (simp_all add: stamped_def root_def rbm_def rsum_def size_from_data_def base_inode_def)
  define es where "es = (\<lambda>cg root rbm rsum uuid.
      map (\<lambda>i. on_slice (i * isz) (min isz (len - i * isz)) (encode_free (first + of_nat i) cg uuid)) [0..<div_ceil len isz] @
      [on_slice 0 isz (dinode_encode root uuid), on_slice isz isz (dinode_encode rbm uuid), on_slice (2 * isz) isz (dinode_encode rsum uuid)])"
  have nz: "(isz = 0) = False" using z by simp
  have c1: "run_edits (es cg root rbm rsum uuid) (replicate len 0) = Inr c"
    using c(1) unfolding root_chunk_def Let_def isz_def [symmetric] len_def [symmetric] first_def [symmetric] n prod.case data and_then_simps
      root_def [symmetric] rbm_def [symmetric] rsum_def [symmetric] nz if_False es_def .
  have c2: "run_edits (es cg' (stamped root 0 time2 time2) (stamped rbm bg' \<lparr>secs = 0, nsecs = 0\<rparr> time2) (stamped rsum sg' time2 time2) u)
      (replicate len 0) = Inr c'"
    using c(2) unfolding root_chunk_def Let_def isz_def [symmetric] len_def [symmetric] first_def [symmetric] n' prod.case data and_then_simps
      second nz if_False es_def .
  note sl = alike_on_slice [OF inode_alike(1) [OF chunk_places_slot [OF z] u]] alike_on_slice [OF inode_alike(2) [OF chunk_places_slot [OF z] u]]
  have "edit_alike S (on_slice (k * isz) m (dinode_encode d uuid)) (on_slice (k * isz) m (dinode_encode (stamped d gen ta t) u))" for k m d gen ta t
    unfolding S_def stamped_def by (rule sl(1))
  from this [of 0] this [of 1] this [of 2]
  have "list_all2 (edit_alike S) (es cg root rbm rsum uuid)
      (es cg' (stamped root 0 time2 time2) (stamped rbm bg' \<lparr>secs = 0, nsecs = 0\<rparr> time2) (stamped rsum sg' time2 time2) u)"
    unfolding es_def S_def
    by (intro list_all2_appendI) (simp_all add: list_all2_map1 list_all2_map2 list_all2_same sl(2))
  from alikeD [OF alike_run [OF this] changes_refl c1 c2] show ?thesis by (simp add: S_def isz_def)
qed

lemma changes_into:
  assumes "changes_only S b b'" "\<And>i. i < length b \<Longrightarrow> i \<in> S \<Longrightarrow> i \<in> T"
  shows "changes_only T b b'"
  using assms by (auto simp: changes_only_def)

lemma chunk_slots_alike:
  assumes ch: "changes_only (chunk_places isz) c c'" and z: "176 \<le> isz" "length c = 64 * isz"
    and v: "\<forall>i<64. verify (slice (i * isz) isz c) di_CRC = Inr True" "\<forall>i<64. verify (slice (i * isz) isz c') di_CRC = Inr True"
  shows "slots_alike 64 isz c c'"
proof -
  have "changes_only inode_places (slice (i * isz) isz c) (slice (i * isz) isz c')" if i: "i < 64" for i
  proof -
    have "i * isz + isz \<le> 64 * isz" using i mult_le_mono1 [of "Suc i" 64 isz] by simp
    then have in_c: "i * isz + isz \<le> length c" using z(2) by simp
    from changes_slices [OF ch in_c] show ?thesis
      by (rule changes_into) (use in_c in \<open>auto simp: chunk_places_def slice_simps\<close>)
  qed
  then show ?thesis using v z(2) changes_length [OF ch] by (simp add: slots_alike_def)
qed

lemma inobt_bytes_start:
  "be32 (inobt_bytes sp (InobtRec st 0 64 61 free)) 0 = Inr st" "be16 (inobt_bytes sp (InobtRec st 0 64 61 free)) 4 = Inr 0"
proof -
  show "be32 (inobt_bytes sp (InobtRec st 0 64 61 free)) 0 = Inr st" by (simp add: inobt_bytes_def be32_def slice_def)
  have "to_be 4 (61 :: u32) = [0, 0, 0, 61]" "to_be 2 (0 :: u16) = [0, 0]" by code_simp+
  then show "be16 (inobt_bytes sp (InobtRec st 0 64 61 free)) 4 = Inr 0"
    by (simp add: inobt_bytes_def be16_def slice_def from_be_def)
qed

lemma inode_chunk_alike:
  assumes fA: "formatted d g plans uuid time gen order d'" and fB: "formatted e g plans u time2 gen2 order2 e'"
    and st: "st = of_nat (shl64 (root_chunk_agbno g) (inopblog g))"
  shows "alike_dumps (dump_chunk mem_ops d' (geo_of g) 0 (inobt_bytes sp (InobtRec st 0 64 61 free)))
    (dump_chunk mem_ops e' (geo_of g) 0 (inobt_bytes sp (InobtRec st 0 64 61 free)))"
proof -
  note g = ready_geometry [OF formatted_D(1) [OF fA]]
  have u: "length u = 16" by (rule ready_geometry(3) [OF formatted_D(1) [OF fB]])
  obtain c where c: "root_chunk g (root_chunk_agbno g) uuid time gen = Inr c" "length c = 64 * inodesize g"
    "chunk_read mem_ops d' (geo_of g) 0 (root_chunk_agbno g) (chunk_blocks g) c"
    "\<forall>i<64. verify (slice (i * inodesize g) (inodesize g) c) di_CRC = Inr True"
    "root_chunk_agbno g + chunk_blocks g \<le> ag_blocks g 0"
    by (rule formatted_chunk [OF fA])
  obtain c' where c': "root_chunk g (root_chunk_agbno g) u time2 gen2 = Inr c'" "length c' = 64 * inodesize g"
    "chunk_read mem_ops e' (geo_of g) 0 (root_chunk_agbno g) (chunk_blocks g) c'"
    "\<forall>i<64. verify (slice (i * inodesize g) (inodesize g) c') di_CRC = Inr True"
    by (rule formatted_chunk [OF fB])
  note z = chunk_bytes [OF g(1)]
  have z3: "176 \<le> inodesize g" using z(3) by simp
  have al: "slots_alike 64 (inodesize g) c c'"
    by (rule chunk_slots_alike [OF root_chunk_alike [OF g(1,3) u c(1) c'(1)] z3 c(2,4) c'(4)])
  define l where "l = inopblog g"
  have l: "l = blocklog g - inodelog g" "l < 32" using geometry_okD(3,12) [OF g(1)] by (simp_all add: l_def)
  have bsz: "bs g = 2 ^ l * inodesize g"
    using geometry_okD(1,8,11) [OF g(1)] by (simp add: bs_def l(1) flip: power_add)
  have nb: "chunk_blocks g * 2 ^ l = 64"
    using z(1) z3 unfolding bsz mult.assoc [symmetric] by simp
  have "2 ^ l \<le> (2::nat) ^ 5" using geometry_okD(3,9) [OF g(1)] l(1) by (intro power_increasing) simp_all
  moreover have "root_chunk_agbno g \<le> 80" using root_chunk_bounds(2) [OF g(1)] by simp
  ultimately have "root_chunk_agbno g * 2 ^ l \<le> 80 * 2 ^ 5" by (rule mult_le_mono [rotated])
  then have sm: "root_chunk_agbno g * 2 ^ l < 2 ^ 32" by simp
  then have "shl64 (root_chunk_agbno g) l = root_chunk_agbno g * 2 ^ l" using l(2) by (intro nowrap) simp_all
  then have "st = of_nat (root_chunk_agbno g * 2 ^ l)" using st by (simp only: l_def)
  moreover have "unat (of_nat (root_chunk_agbno g * 2 ^ l) :: u32) = root_chunk_agbno g * 2 ^ l"
    using sm by (intro unat_of_nat_small) simp
  ultimately have "unat st = root_chunk_agbno g * 2 ^ l" by (simp only:)
  moreover have "bs g < 2 ^ 32" using bs_facts(3) [OF g(1)] by simp
  ultimately show ?thesis
    using dump_chunk_alike [of mem_ops d' "geo_of g" 0 "root_chunk_agbno g" "chunk_blocks g" c mem_ops e' c' l] c(3,5) c'(3) bsz l(2) nb al z3 inobt_bytes_start [of sp st]
    by (simp add: geo_of_position geo_of_blocks [OF g(1)]) (simp add: geo_of_def l_def)
qed

subsection \<open>A group\<close>

lemma trees_alike:
  assumes fA: "formatted d g plans uuid time gen order d'" and fB: "formatted e g plans u time2 gen2 order2 e'" and a: "a < agcount g"
    and p: "\<forall>tr\<in>set ts. \<exists>x. points_to g (plans ! a) b tr x \<and> points_to g (plans ! a) b' tr x"
  shows "\<exists>xs ys. try_map (tree_at mem_ops d' (geo_of g) a b) ts = Inr xs \<and> try_map (tree_at mem_ops e' (geo_of g) a b') ts = Inr ys \<and>
    matches (concat (map fst xs)) (concat (map fst ys))"
  using p
proof (induction ts)
  case (Cons tr ts)
  obtain x where "points_to g (plans ! a) b tr x" "points_to g (plans ! a) b' tr x" using Cons.prems by auto
  then obtain v w rs where "tree_at mem_ops d' (geo_of g) a b tr = Inr (v, rs)" "tree_at mem_ops e' (geo_of g) a b' tr = Inr (w, rs)"
    "matches v w"
    using tree_at_alike [OF fA fB a] by blast
  then show ?case using Cons by (auto simp: matches_append)
qed simp

lemma chunks_alike:
  assumes fA: "formatted d g plans uuid time gen order d'" and fB: "formatted e g plans u time2 gen2 order2 e'" and a: "a < agcount g"
  defines "rs \<equiv> map (inobt_bytes (sparse (features g))) (plan_inodes g (plans ! a))"
  shows "\<exists>xs ys. try_map (dump_chunk mem_ops d' (geo_of g) a) rs = Inr xs \<and> try_map (dump_chunk mem_ops e' (geo_of g) a) rs = Inr ys \<and>
    matches (concat xs) (concat ys)"
proof -
  note g = ready_geometry [OF formatted_D(1) [OF fA]]
  have gp: "good_plan g a (plans ! a)" by (rule plan_ag_InrD(1) [OF g(1,2) a ready_plans(1) [OF formatted_D(1) [OF fA] a]])
  have "plan_inodes g (plans ! a) = (if a = 0 then [InobtRec (of_nat (shl64 (root_chunk_agbno g) (inopblog g))) 0 64 61 (NOT 7)] else [])"
    using gp by (simp add: plan_inodes_def plan_startino_def good_plan_def Let_def)
  then have "\<forall>r\<in>set rs. alike_dumps (dump_chunk mem_ops d' (geo_of g) a r) (dump_chunk mem_ops e' (geo_of g) a r)"
    using inode_chunk_alike [OF fA fB refl] by (simp add: rs_def)
  from alike_dumps_try [OF this] show ?thesis using matches_concat by blast
qed

text \<open>The four header sectors of a group.\<close>

definition group_sectors :: "geometry \<Rightarrow> ag_plan list \<Rightarrow> bytes \<Rightarrow> nat \<Rightarrow> bytes \<Rightarrow> bytes \<Rightarrow> bytes \<Rightarrow> bytes \<Rightarrow> bool" where
  "group_sectors g plans uuid a s f i l \<longleftrightarrow>
     sb_encode g (final_sb g uuid plans a) (replicate (sectsize g) 0) = Inr s \<and>
     agf_encode (plan_agf g (plans ! a)) uuid (replicate (sectsize g) 0) = Inr f \<and>
     agi_encode (plan_agi g (plans ! a)) uuid (replicate (sectsize g) 0) = Inr i \<and>
     encode_agfl (of_nat a) uuid 1 (map of_nat (ap_agfl (plans ! a))) (replicate (sectsize g) 0) = Inr l"

lemma group_sectorsD:
  assumes g: "geometry_ok g" and u: "length uuid = 16" and s: "group_sectors g plans uuid a s f i l"
  shows "length s = sectsize g" "length f = sectsize g" "length i = sectsize g" "length l = sectsize g"
    "verify s sb_CRC = Inr True" "verify f agf_CRC = Inr True" "verify i agi_CRC = Inr True" "verify l agfl_CRC = Inr True"
    "holds (agf_fields (plan_agf g (plans ! a), uuid) (sectsize g)) f" "holds (agi_fields (plan_agi g (plans ! a), uuid) (sectsize g)) i"
    "be32 f agf_MAGICNUM = Inr AGF_MAGIC" "be32 i agi_MAGICNUM = Inr AGI_MAGIC" "be32 l agfl_MAGICNUM = Inr AGFL_MAGIC"
proof -
  have "length (s_uuid (final_sb g uuid plans a)) = 16" using u by (simp add: final_sb_def)
  note v = header_fields(1,2,3) [OF g u] header_fields(4) [OF g u _ this]
  show "length s = sectsize g" "length f = sectsize g" "length i = sectsize g" "length l = sectsize g"
    "verify s sb_CRC = Inr True" "verify f agf_CRC = Inr True" "verify i agi_CRC = Inr True" "verify l agfl_CRC = Inr True"
    "be32 l agfl_MAGICNUM = Inr AGFL_MAGIC"
    and h: "holds (agf_fields (plan_agf g (plans ! a), uuid) (sectsize g)) f" "holds (agi_fields (plan_agi g (plans ! a), uuid) (sectsize g)) i"
    using v s unfolding group_sectors_def by blast+
  show "be32 f agf_MAGICNUM = Inr AGF_MAGIC" by (rule holds_be32 [OF h(1)]) (simp add: agf_fields_def Let_def)
  show "be32 i agi_MAGICNUM = Inr AGI_MAGIC" by (rule holds_be32 [OF h(2)]) (simp add: agi_fields_def Let_def)
qed

lemma sector_dumps_alike:
  assumes g: "geometry_ok g" and u: "length uuid = 16" "length u = 16"
    and A: "group_sectors g plans uuid a s f i l" and B: "group_sectors g plans u a s' f' i' l'"
  shows "alike_dumps (dump_sb p s (sectsize g)) (dump_sb p s' (sectsize g))" "alike_dumps (dump_agf p f) (dump_agf p f')"
    "alike_dumps (dump_agi p i) (dump_agi p i')" "alike_dumps (dump_agfl p l) (dump_agfl p l')"
proof -
  note eA = A [unfolded group_sectors_def] and eB = B [unfolded group_sectors_def]
  note vA = group_sectorsD [OF g u(1) A] and vB = group_sectorsD [OF g u(2) B]
  have su: "length (s_uuid (final_sb g uuid plans a)) = 16" using u(1) by (simp add: final_sb_def)
  have ss: "512 \<le> sectsize g" by (rule head_sizes(1) [OF g])
  have "changes_only (uuid_crc sb_UUID sb_CRC) s s'"
    using alikeD [OF sb_alike [OF subset_refl su u(2)] changes_refl] eA eB [unfolded final_sb_uuid [of g u plans a uuid]] by blast
  from sb_dump_alike [OF this vA(1) ss vA(5) vB(5)]
  show "alike_dumps (dump_sb p s (sectsize g)) (dump_sb p s' (sectsize g))" by (auto simp: alike_dumps_def)
  have "changes_only (uuid_crc agf_UUID agf_CRC) f f'"
    using alikeD [OF agf_alike [OF subset_refl u] changes_refl] eA eB by blast
  from agf_dump_alike [OF this _ vA(6) vB(6)] show "alike_dumps (dump_agf p f) (dump_agf p f')"
    using ss vA(2) by (auto simp: alike_dumps_def)
  have "changes_only (uuid_crc agi_UUID agi_CRC) i i'"
    using alikeD [OF agi_alike [OF subset_refl u] changes_refl] eA eB by blast
  from agi_dump_alike [OF this _ vA(7) vB(7)] show "alike_dumps (dump_agi p i) (dump_agi p i')"
    using ss vA(3) by (auto simp: alike_dumps_def)
  have "changes_only (uuid_crc agfl_UUID agfl_CRC) l l'"
    using alikeD [OF agfl_alike [OF subset_refl u] changes_refl] eA eB by blast
  from agfl_dump_alike [OF this _ vA(8) vB(8)] show "alike_dumps (dump_agfl p l) (dump_agfl p l')"
    using ss vA(4) by (auto simp: alike_dumps_def)
qed

text \<open>The inode btree of a group: its dump, and the same chunks on both devices.\<close>

lemma inode_tree_alike:
  assumes fA: "formatted d g plans uuid time gen order d'" and fB: "formatted e g plans u time2 gen2 order2 e'" and a: "a < agcount g"
    and i: "points_to g (plans ! a) i (INOBT, agi_ROOT) (inode_leaf g (plans ! a) btree_magic_INO (ibt_block g))"
      "points_to g (plans ! a) i' (INOBT, agi_ROOT) (inode_leaf g (plans ! a) btree_magic_INO (ibt_block g))"
  shows "\<exists>v w rs xs ys. tree_at mem_ops d' (geo_of g) a i (INOBT, agi_ROOT) = Inr (v, rs) \<and>
    tree_at mem_ops e' (geo_of g) a i' (INOBT, agi_ROOT) = Inr (w, rs) \<and> matches v w \<and>
    try_map (dump_chunk mem_ops d' (geo_of g) a) rs = Inr xs \<and> try_map (dump_chunk mem_ops e' (geo_of g) a) rs = Inr ys \<and>
    matches (concat xs) (concat ys)"
proof -
  define rs where "rs = map (inobt_bytes (sparse (features g))) (plan_inodes g (plans ! a))"
  have "length (plan_inodes g (plans ! a)) \<le> 1" by (simp add: plan_inodes_def split: option.split)
  moreover have "inode_leaf g (plans ! a) btree_magic_INO (ibt_block g) \<in> set (head_leaves g (plans ! a))" using i(1) by (simp add: points_to_def)
  ultimately have "leaf_records INOBT (unat (of_nat (length (plan_inodes g (plans ! a))) :: u16))
      (leaf_bytes g a uuid (inode_leaf g (plans ! a) btree_magic_INO (ibt_block g))) = rs"
    unfolding rs_def by (intro inode_records [OF fA a]) (simp_all add: inode_leaf_def)
  then have "\<exists>v w. tree_at mem_ops d' (geo_of g) a i (INOBT, agi_ROOT) = Inr (v, rs) \<and>
      tree_at mem_ops e' (geo_of g) a i' (INOBT, agi_ROOT) = Inr (w, rs) \<and> matches v w"
    using tree_at_alike [OF fA fB a i] by (simp add: inode_leaf_def)
  then show ?thesis using chunks_alike [OF fA fB a, folded rs_def] by blast
qed

lemma dump_group_eq:
  assumes "inspect_read D d (geo_byte (geo_of g) a 0) (header_blocks g * bs g) = Inr h" "4 * sectsize g \<le> length h"
    and "slice 0 (sectsize g) h = s" "slice (sectsize g) (sectsize g) h = f" "slice (2 * sectsize g) (sectsize g) h = i"
    "slice (3 * sectsize g) (sectsize g) h = l"
    and "be32 f agf_MAGICNUM = Inr AGF_MAGIC" "be32 i agi_MAGICNUM = Inr AGI_MAGIC" "be32 l agfl_MAGICNUM = Inr AGFL_MAGIC"
    and "dump_sb (group_name a @ ''.sb'') s (sectsize g) = Inr x1" "dump_agf (group_name a @ ''.agf'') f = Inr x2"
    "dump_agi (group_name a @ ''.agi'') i = Inr x3" "dump_agfl (group_name a @ ''.agfl'') l = Inr x4"
    and "try_map (tree_at D d (geo_of g) a f) (free_trees (geo_of g)) = Inr ts"
    "tree_at D d (geo_of g) a i (INOBT, agi_ROOT) = Inr (v, rs)"
    "try_map (tree_at D d (geo_of g) a i) (if geo_has (geo_of g) RO_FINOBT then [(FINOBT, agi_FREE_ROOT)] else []) = Inr us"
    "try_map (dump_chunk D d (geo_of g) a) rs = Inr xs"
  shows "dump_group D d (geo_of g) a = Inr (x1 @ x2 @ x3 @ x4 @ concat (map fst ts) @ v @ concat (map fst us) @ concat xs)"
proof -
  have rd: "read_slice k (sectsize g) h = Inr (slice k (sectsize g) h)" if "k + sectsize g \<le> 4 * sectsize g" for k
    using that assms(2) by (simp add: read_slice_def)
  show ?thesis
    using assms(1,3-) by (simp add: dump_group_def Let_def geo_of_position rd flip: header_blocks_def)
qed

lemma dump_group_alike:
  assumes fA: "formatted d g plans uuid time gen order d'" and fB: "formatted e g plans u time2 gen2 order2 e'" and a: "a < agcount g"
  shows "alike_dumps (dump_group mem_ops d' (geo_of g) a) (dump_group mem_ops e' (geo_of g) a)"
proof -
  note g = ready_geometry [OF formatted_D(1) [OF fA]]
  have u: "length u = 16" by (rule ready_geometry(3) [OF formatted_D(1) [OF fB]])
  obtain h s f i l where A: "inspect_read mem_ops d' (geo_byte (geo_of g) a 0) (header_blocks g * bs g) = Inr h" "4 * sectsize g \<le> length h"
    "slice 0 (sectsize g) h = s" "slice (sectsize g) (sectsize g) h = f" "slice (2 * sectsize g) (sectsize g) h = i"
    "slice (3 * sectsize g) (sectsize g) h = l" and sA: "group_sectors g plans uuid a s f i l"
    unfolding group_sectors_def by (rule formatted_head [OF fA a]) blast
  obtain h' s' f' i' l' where B: "inspect_read mem_ops e' (geo_byte (geo_of g) a 0) (header_blocks g * bs g) = Inr h'" "4 * sectsize g \<le> length h'"
    "slice 0 (sectsize g) h' = s'" "slice (sectsize g) (sectsize g) h' = f'" "slice (2 * sectsize g) (sectsize g) h' = i'"
    "slice (3 * sectsize g) (sectsize g) h' = l'" and sB: "group_sectors g plans u a s' f' i' l'"
    unfolding group_sectors_def by (rule formatted_head [OF fB a]) blast
  note vA = group_sectorsD [OF g(1,3) sA] and vB = group_sectorsD [OF g(1) u sB]
  note al = sector_dumps_alike [OF g(1,3) u sA sB, unfolded alike_dumps_def]
  obtain x1 y1 x2 y2 x3 y3 x4 y4 where hd:
    "dump_sb (group_name a @ ''.sb'') s (sectsize g) = Inr x1" "dump_sb (group_name a @ ''.sb'') s' (sectsize g) = Inr y1" "matches x1 y1"
    "dump_agf (group_name a @ ''.agf'') f = Inr x2" "dump_agf (group_name a @ ''.agf'') f' = Inr y2" "matches x2 y2"
    "dump_agi (group_name a @ ''.agi'') i = Inr x3" "dump_agi (group_name a @ ''.agi'') i' = Inr y3" "matches x3 y3"
    "dump_agfl (group_name a @ ''.agfl'') l = Inr x4" "dump_agfl (group_name a @ ''.agfl'') l' = Inr y4" "matches x4 y4"
    using al by meson
  have "\<exists>x. points_to g (plans ! a) f tr x \<and> points_to g (plans ! a) f' tr x" if "tr \<in> set (free_trees (geo_of g))" for tr
    using agf_points [OF that, of "plans ! a"] vA(9) vB(9) by blast
  then obtain t1 t2 where trees: "try_map (tree_at mem_ops d' (geo_of g) a f) (free_trees (geo_of g)) = Inr t1"
    "try_map (tree_at mem_ops e' (geo_of g) a f') (free_trees (geo_of g)) = Inr t2" "matches (concat (map fst t1)) (concat (map fst t2))"
    using trees_alike [OF fA fB a, of "free_trees (geo_of g)" f f'] by blast
  note pt = agi_points [OF vA(10)] agi_points [OF vB(10)]
  obtain v w rs xs ys where ino: "tree_at mem_ops d' (geo_of g) a i (INOBT, agi_ROOT) = Inr (v, rs)"
    "tree_at mem_ops e' (geo_of g) a i' (INOBT, agi_ROOT) = Inr (w, rs)" "matches v w"
    "try_map (dump_chunk mem_ops d' (geo_of g) a) rs = Inr xs" "try_map (dump_chunk mem_ops e' (geo_of g) a) rs = Inr ys"
    "matches (concat xs) (concat ys)"
    using inode_tree_alike [OF fA fB a pt(1,3)] by blast
  define fino where "fino = (if geo_has (geo_of g) RO_FINOBT then [(FINOBT, agi_FREE_ROOT)] else [])"
  have "\<forall>tr\<in>set fino. \<exists>x. points_to g (plans ! a) i tr x \<and> points_to g (plans ! a) i' tr x"
    using pt(2,4) unfolding fino_def by (simp add: geo_of_features del: split_paired_Ex) blast
  then obtain t5 t6 where fin: "try_map (tree_at mem_ops d' (geo_of g) a i) fino = Inr t5"
    "try_map (tree_at mem_ops e' (geo_of g) a i') fino = Inr t6" "matches (concat (map fst t5)) (concat (map fst t6))"
    using trees_alike [OF fA fB a] by blast
  note eqA = dump_group_eq [OF A vA(11-13) hd(1,4,7,10) trees(1) ino(1) fin(1) [unfolded fino_def] ino(4)]
  note eqB = dump_group_eq [OF B vB(11-13) hd(2,5,8,11) trees(2) ino(2) fin(2) [unfolded fino_def] ino(5)]
  show ?thesis
    unfolding alike_dumps_def eqA eqB
    using hd(3,6,9,12) trees(3) ino(3,6) fin(3) by (simp add: matches_append)
qed

end
