(* ===== verification/Reproducible.thy ===== *)
theory Reproducible
  imports Same_Dump
begin

unbundle bit_operations_syntax

section \<open>Formatting is reproducible\<close>

text \<open>
  The log of two formats of one geometry is dumped alike, and with the groups the whole dump. The theorem is the
  one the comparison of the command line relies on: two filesystems made with the same geometry show no structural
  difference.
\<close>

subsection \<open>The log\<close>

definition log_readable :: "mem_device \<Rightarrow> nat \<Rightarrow> nat \<Rightarrow> bool" where
  "log_readable d at n \<longleftrightarrow> md_good d \<and> md_sector d dvd at \<and> md_sector d dvd n \<and> at + n \<le> md_size d"

lemma log_piece:
  assumes "log_readable d at n" "pos + k \<le> n" "md_sector d dvd pos" "md_sector d dvd k"
  shows "inspect_read mem_ops d (add64 at pos) k = Inr (map (md_content d) [at + pos..<at + pos + k])"
proof -
  have l: "md_good d" "md_sector d dvd at" "at + n \<le> md_size d" using assms(1) by (simp_all add: log_readable_def)
  have "md_size d < 2 ^ 64" using l(1) by (simp add: md_good_def)
  then have "add64 at pos = at + pos" using l(3) assms(2) by (intro nowrap) simp
  moreover have "accepts mem_ops md_sector d (at + pos) k" using l assms by (simp add: accepts_def)
  ultimately show ?thesis using mem.read_at [OF l(1)] by (simp add: inspect_read_def)
qed

lemma nonzero_blocks_same:
  assumes "log_readable d at n" "log_readable e at n" "md_sector d dvd pos" "md_sector e dvd pos"
    and "\<forall>i<n. pos \<le> i \<longrightarrow> md_content e (at + i) = md_content d (at + i)"
  shows "\<exists>r. nonzero_blocks mem_ops d bsz at n pos acc = Inr r \<and> nonzero_blocks mem_ops e bsz at n pos acc = Inr r"
  using assms(3-)
proof (induction "n - pos" arbitrary: pos acc rule: less_induct)
  case less
  show ?case
  proof (cases "pos < n")
    case False
    then show ?thesis by (simp add: nonzero_blocks.simps [of _ _ _ _ _ pos])
  next
    case True
    define k where "k = min (2 ^ 20) (n - pos)"
    have k: "0 < k" "pos + k \<le> n" using True by (simp_all add: k_def)
    have "md_sector x dvd k" if "log_readable x at n" "md_sector x dvd pos" for x
      using that mem.sector_dvd [of x] by (auto simp: k_def log_readable_def ZERO_CHUNK_def min_def intro: dvd_diff_nat)
    then have s: "md_sector d dvd k" "md_sector e dvd k" using assms(1,2) less.prems(1,2) by blast+
    define buf where "buf = map (md_content d) [at + pos..<at + pos + k]"
    have rd: "inspect_read mem_ops d (add64 at pos) k = Inr buf"
      unfolding buf_def by (rule log_piece [OF assms(1) k(2) less.prems(1) s(1)])
    have re: "inspect_read mem_ops e (add64 at pos) k = Inr buf"
    proof -
      have "map (md_content e) [at + pos..<at + pos + k] = buf"
        unfolding buf_def
      proof (rule map_cong [OF refl])
        fix j
        assume "j \<in> set [at + pos..<at + pos + k]"
        then have "at + (j - at) = j" "j - at < n" "pos \<le> j - at" using k(2) by auto
        then show "md_content e j = md_content d j" using less.prems(3) by metis
      qed
      then show ?thesis using log_piece [OF assms(2) k(2) less.prems(2) s(2)] by simp
    qed
    have "n - (pos + k) < n - pos" "md_sector d dvd pos + k" "md_sector e dvd pos + k"
      "\<forall>i<n. pos + k \<le> i \<longrightarrow> md_content e (at + i) = md_content d (at + i)"
      using k less.prems s by auto
    from less.hyps [OF this, of "acc + count_nonzero bsz buf"] show ?thesis
      unfolding nonzero_blocks.simps [of _ _ _ _ _ pos] Let_def if_P [OF True] k_def [symmetric] rd re and_then_simps .
  qed
qed

lemma first_blocks_alike:
  assumes "first_log_block g uuid = Inr b" "first_log_block g u = Inr b'" "length uuid = 16" "length u = 16"
  shows "changes_only log_places b b'"
proof -
  define su where "su = clear_sunit (logsunit g) (if sectsize g > 512 then lsectsize g else 0)"
  obtain rec where r: "first_record uuid su = Inr rec" "write_slice 0 rec (replicate (bs g) 0) = Inr b"
    using assms(1) by (auto simp: first_log_block_def Let_def su_def and_then_eq_Inr)
  obtain rec' where r': "first_record u su = Inr rec'" "write_slice 0 rec' (replicate (bs g) 0) = Inr b'"
    using assms(2) by (auto simp: first_log_block_def Let_def su_def and_then_eq_Inr)
  have "changes_only log_places rec rec'"
    using log_record_alike [of uuid su "log_lsn 1 0" "log_lsn 1 0" rec u] r(1) r'(1) assms(3,4)
    by (simp add: first_record_def Let_def)
  then show ?thesis
    using write_slice_InrD [OF r(2)] write_slice_InrD [OF r'(2)]
    by (auto simp: changes_only_def splice_def nth_append)
qed

lemma log_first_alike:
  assumes ch: "changes_only log_places b b'" and l: "1024 \<le> length b" and n: "1024 \<le> n" "n \<le> length b"
  shows "\<exists>x y x' y' h h'. read_slice 0 512 b = Inr h \<and> read_slice 0 512 b' = Inr h' \<and>
    render ''log.header'' log_renderings h = Inr x \<and> render ''log.header'' log_renderings h' = Inr y \<and> matches x y \<and>
    render ''log'' [rhex ''record'' 512 n] b = Inr x' \<and> render ''log'' [rhex ''record'' 512 n] b' = Inr y' \<and> matches x' y' \<and>
    drop n b' = drop n b"
proof -
  have l': "length b' = length b" by (rule changes_length [OF ch])
  have "changes_only log_places (slice 0 512 b) (slice 0 512 b')"
    using changes_slices [OF ch, of 0 512] l by simp
  from log_header_alike [OF this] obtain x y where h: "render ''log.header'' log_renderings (slice 0 512 b) = Inr x"
    "render ''log.header'' log_renderings (slice 0 512 b') = Inr y" "matches x y"
    using l by (fastforce simp: slice_simps)
  have "\<forall>r\<in>set [rhex ''record'' 512 n]. renders b b' r"
    using l n by (simp add: renders_bytes [OF ch] log_places_apart)
  from render_matches [OF this] obtain x' y' where r: "render ''log'' [rhex ''record'' 512 n] b = Inr x'"
    "render ''log'' [rhex ''record'' 512 n] b' = Inr y'" "matches x' y'" by blast
  have "drop n b' = drop n b"
    using changes_slice [OF ch, of n "length b - n"] n l' by (simp add: log_places_apart slice_def)
  then show ?thesis using h r l l' by (simp add: read_slice_def)
qed

lemma formatted_readable:
  assumes f: "formatted d g plans uuid time gen order d'"
  shows "log_readable d' (log_at g) (logblocks g * bs g)" "md_sector d' dvd bs g"
  using formatted_log_inside [OF f] formatted_D [OF f] bs_facts(5) [OF ready_geometry(1) [OF formatted_D(1) [OF f]]]
    ready_geometry(5) [OF formatted_D(1) [OF f]]
  by (simp_all add: log_readable_def log_inside_def)

lemma dump_log_alike:
  assumes fA: "formatted d g plans uuid time gen order d'" and fB: "formatted e g plans u time2 gen2 order2 e'"
  shows "alike_dumps (dump_log mem_ops d' (geo_of g)) (dump_log mem_ops e' (geo_of g))"
proof -
  have r: "format_ready mem_ops md_sector d g plans uuid order" by (rule formatted_D(1) [OF fA])
  note g = ready_geometry [OF r] and p = log_position [OF r] and z = bs_facts [OF g(1)]
  have u: "length u = 16" by (rule ready_geometry(3) [OF formatted_D(1) [OF fB]])
  obtain b where b: "first_log_block g uuid = Inr b" "length b = bs g" "inspect_read mem_ops d' (log_at g) (bs g) = Inr b"
    "reads_bytes (md_content d') (log_at g) (b @ replicate (logblocks g * bs g - bs g) 0)"
    by (rule formatted_first_block [OF fA])
  obtain b' where b': "first_log_block g u = Inr b'" "length b' = bs g" "inspect_read mem_ops e' (log_at g) (bs g) = Inr b'"
    "reads_bytes (md_content e') (log_at g) (b' @ replicate (logblocks g * bs g - bs g) 0)"
    by (rule formatted_first_block [OF fB])
  define n where "n = min (first_record_len (geo_of g)) (bs g)"
  have n: "1024 \<le> n" "n \<le> bs g" using z(4) by (simp_all add: n_def first_record_len_def Let_def)
  obtain x y x' y' h h' where f: "read_slice 0 512 b = Inr h" "read_slice 0 512 b' = Inr h'"
    "render ''log.header'' log_renderings h = Inr x" "render ''log.header'' log_renderings h' = Inr y" "matches x y"
    "render ''log'' [rhex ''record'' 512 n] b = Inr x'" "render ''log'' [rhex ''record'' 512 n] b' = Inr y'" "matches x' y'"
    "drop n b' = drop n b"
    using log_first_alike [OF first_blocks_alike [OF b(1) b'(1) g(3) u], of n] b(2) z(4) n by auto
  have "\<forall>i<logblocks g * bs g. bs g \<le> i \<longrightarrow> md_content e' (log_at g + i) = md_content d' (log_at g + i)"
    using b(2,4) b'(2,4) by (auto simp: reads_bytes_iff nth_append)
  then obtain m where m: "nonzero_blocks mem_ops d' (bs g) (log_at g) (logblocks g * bs g) (bs g)
      (if \<exists>x\<in>set (drop n b). x \<noteq> 0 then 1 else 0) = Inr m"
    "nonzero_blocks mem_ops e' (bs g) (log_at g) (logblocks g * bs g) (bs g) (if \<exists>x\<in>set (drop n b). x \<noteq> 0 then 1 else 0) = Inr m"
    using nonzero_blocks_same [OF formatted_readable(1) [OF fA] formatted_readable(1) [OF fB]
        formatted_readable(2) [OF fA] formatted_readable(2) [OF fB]] by blast
  have at: "geo_byte (geo_of g) (logagno g) (log_agbno g) = log_at g" by (simp add: geo_of_blocks [OF g(1)] log_at_def)
  have k: "geo_logstart (geo_of g) = logstart g" "geo_agblklog (geo_of g) = agblklog g" "geo_logblocks (geo_of g) = logblocks g"
    "geo_blocksize (geo_of g) = bs g"
    by (simp_all add: geo_of_def bs_def)
  have "dump_log mem_ops d' (geo_of g) = Inr (x @ x' @ [push_s ''log.nonzero_blocks_after_first_record'' (dec m)])"
    unfolding dump_log_def Let_def k p at b(3) and_then_simps b(2) n_def [symmetric] f(1,3,6) m(1) ..
  moreover have "dump_log mem_ops e' (geo_of g) = Inr (y @ y' @ [push_s ''log.nonzero_blocks_after_first_record'' (dec m)])"
    unfolding dump_log_def Let_def k p at b'(3) and_then_simps b'(2) n_def [symmetric] f(2,4,7,9) m(2) ..
  ultimately show ?thesis using f(5,8) by (simp add: alike_dumps_def matches_append)
qed

lemma dump_alike:
  assumes fA: "formatted d g plans uuid time gen order d'" "md_logical d \<le> bs g"
    and fB: "formatted e g plans u time2 gen2 order2 e'" "md_logical e \<le> bs g"
  shows "alike_dumps (dump mem_ops d') (dump mem_ops e')"
proof -
  have "\<forall>a\<in>set [0..<agcount g]. alike_dumps (dump_group mem_ops d' (geo_of g) a) (dump_group mem_ops e' (geo_of g) a)"
    using dump_group_alike [OF fA(1) fB(1)] by simp
  from alike_dumps_try [OF this] obtain xs ys where "try_map (dump_group mem_ops d' (geo_of g)) [0..<agcount g] = Inr xs"
    "try_map (dump_group mem_ops e' (geo_of g)) [0..<agcount g] = Inr ys" "list_all2 matches xs ys" by blast
  moreover obtain l m where "dump_log mem_ops d' (geo_of g) = Inr l" "dump_log mem_ops e' (geo_of g) = Inr m" "matches l m"
    using dump_log_alike [OF fA(1) fB(1)] by (auto simp: alike_dumps_def)
  ultimately show ?thesis
    using mem.formatted_geometry [OF fA(1) fA(2) [folded mem_ops_simps]] mem.formatted_geometry [OF fB(1) fB(2) [folded mem_ops_simps]]
    by (simp add: dump_def alike_dumps_def geo_of_position matches_append matches_concat)
qed

section \<open>Properties\<close>

text \<open>
  \<^bold>\<open>C7\<close>. Formatting is reproducible up to identity: two devices formatted with the same geometry, whatever
  they held, with whatever UUIDs, times, generator seeds and orders of the groups, are both dumped without an error, and
  the comparison of the two finds no structural difference.
\<close>

theorem same_geometry_same_structure:
  assumes "formatted d g plans uuid time gen order d'" "md_logical d \<le> bs g"
    and "formatted e g plans2 u time2 gen2 order2 e'" "md_logical e \<le> bs g"
  shows "\<exists>ds. compare mem_ops d' mem_ops e' = Inr ds \<and> structural ds = []"
proof -
  have "formatted e g plans u time2 gen2 order2 e'" using assms(3) same_plans [OF assms(1,3)] by simp
  then obtain x y where "dump mem_ops d' = Inr x" "dump mem_ops e' = Inr y" "matches x y"
    using dump_alike [OF assms(1,2) _ assms(4)] unfolding alike_dumps_def by blast
  then show ?thesis by (simp add: compare_def matches_structural)
qed

theorem same_geometry_same_structure_witness:
  "\<exists>d e uuid u ds. uuid \<noteq> u \<and>
     (\<exists>plans. formatted sample_device geometry_512m plans uuid \<lparr>secs = 0, nsecs = 0\<rparr> 42 [3, 1, 0, 2] d \<and>
        formatted sample_device geometry_512m plans u \<lparr>secs = 5, nsecs = 6\<rparr> 43 [0, 1, 2, 3] e) \<and>
     compare mem_ops d mem_ops e = Inr ds \<and> structural ds = []"
proof -
  obtain plans d where f: "formatted sample_device geometry_512m plans (replicate 16 7) \<lparr>secs = 0, nsecs = 0\<rparr> 42 [3, 1, 0, 2] d"
    and l: "md_logical sample_device \<le> bs geometry_512m"
    by (rule sample_formatted)
  have r: "format_ready mem_ops md_sector sample_device geometry_512m plans (replicate 16 9) [0, 1, 2, 3]"
    using formatted_D(1) [OF f] by (simp add: format_ready_def add_mset_commute)
  obtain e where e: "formatted sample_device geometry_512m plans (replicate 16 9) \<lparr>secs = 5, nsecs = 6\<rparr> 43 [0, 1, 2, 3] e"
    using mem.format_image_left [OF sample_facts(1) r] r by (auto simp: formatted_on_def)
  have "replicate 16 (7 :: u8) \<noteq> replicate 16 9" by simp
  then show ?thesis
    using same_geometry_same_structure [OF f l e l] f e by blast
qed

end
