(* ===== verification/File_Device.thy ===== *)
theory File_Device
  imports Device
begin

section \<open>\<^verbatim>\<open>FileDevice\<close> (\<^verbatim>\<open>src/device.rs\<close>)\<close>

text \<open>
  A device over a file of the operating system. What the code asks of the system is the record \<open>os_ops\<close>, a parameter of
  the model: a call that can fail is an option, and the offset in an error is the one the code passes. On systems other
  than Linux the ioctls and the punching of holes are not compiled in, which is a system in which these calls always fail. The
  locale \<open>os_file\<close> states what the calls do on a file that is in order; under it the device meets the contract
  \<open>block_device\<close>.
\<close>

record 'f os_ops =
  os_metadata :: "'f \<Rightarrow> (bool \<times> nat) option"
  os_try_clone :: "'f \<Rightarrow> 'f option"
  os_seek_end :: "'f \<Rightarrow> nat option"
  os_blksszget :: "'f \<Rightarrow> nat option"
  os_blkpbszget :: "'f \<Rightarrow> nat option"
  os_set_len :: "'f \<Rightarrow> nat \<Rightarrow> 'f option"
  os_read_exact_at :: "'f \<Rightarrow> nat \<Rightarrow> nat \<Rightarrow> bytes option"
  os_write_all_at :: "'f \<Rightarrow> nat \<Rightarrow> bytes \<Rightarrow> 'f option"
  os_sync_data :: "'f \<Rightarrow> 'f option"
  os_punch_hole :: "'f \<Rightarrow> nat \<Rightarrow> nat \<Rightarrow> bool \<times> 'f"

record 'f file_device =
  fd_file :: 'f
  fd_size :: nat
  fd_logical :: nat
  fd_physical :: nat
  fd_regular :: bool

text \<open>\<^verbatim>\<open>map_err(|e| Error::io(offset, e))\<close>.\<close>

definition io_result :: "nat \<Rightarrow> 'a option \<Rightarrow> error + 'a" where
  "io_result off r = (case r of None \<Rightarrow> Inl (Io off) | Some x \<Rightarrow> Inr x)"

subsection \<open>Opening and creating\<close>

definition seek_size :: "'f os_ops \<Rightarrow> 'f \<Rightarrow> error + nat" where
  "seek_size os f = and_then (io_result 0 (os_try_clone os f)) (\<lambda>f. io_result 0 (os_seek_end os f))"

definition sector_sizes :: "'f os_ops \<Rightarrow> 'f \<Rightarrow> bool \<Rightarrow> nat \<times> nat" where
  "sector_sizes os f regular =
     (if \<not> regular then
        let logical = max (case os_blksszget os f of Some n \<Rightarrow> n | None \<Rightarrow> 512) 512;
            physical = max (case os_blkpbszget os f of Some n \<Rightarrow> n | None \<Rightarrow> logical) logical in
        (logical, physical)
      else (512, 512))"

text \<open>\<open>opened\<close> is what the system answers to the opening of the path.\<close>

definition fd_open :: "'f os_ops \<Rightarrow> 'f option \<Rightarrow> error + 'f file_device" where
  "fd_open os opened =
     and_then (io_result 0 opened) (\<lambda>f.
     and_then (io_result 0 (os_metadata os f)) (\<lambda>(regular, len).
     and_then (if regular then Inr len else seek_size os f) (\<lambda>sz.
     let (logical, physical) = sector_sizes os f regular in
     Inr \<lparr>fd_file = f, fd_size = sz, fd_logical = logical, fd_physical = physical, fd_regular = regular\<rparr>)))"

definition fd_create :: "'f os_ops \<Rightarrow> 'f option \<Rightarrow> nat \<Rightarrow> error + 'f file_device" where
  "fd_create os opened sz =
     and_then (io_result 0 opened) (\<lambda>f.
     and_then (io_result 0 (os_set_len os f sz)) (\<lambda>f.
     Inr \<lparr>fd_file = f, fd_size = sz, fd_logical = 512, fd_physical = 512, fd_regular = True\<rparr>))"

definition fd_with_sector_size :: "nat \<Rightarrow> 'f file_device \<Rightarrow> 'f file_device" where
  "fd_with_sector_size sector d = d\<lparr>fd_logical := sector, fd_physical := sector\<rparr>"

subsection \<open>The operations\<close>

definition fd_read_at :: "'f os_ops \<Rightarrow> 'f file_device \<Rightarrow> nat \<Rightarrow> nat \<Rightarrow> error + bytes" where
  "fd_read_at os d off len =
     and_then (check_bounds off len (fd_size d)) (\<lambda>_. io_result off (os_read_exact_at os (fd_file d) off len))"

definition fd_write_at :: "'f os_ops \<Rightarrow> 'f file_device \<Rightarrow> nat \<Rightarrow> bytes \<Rightarrow> error + 'f file_device" where
  "fd_write_at os d off buf =
     and_then (check_bounds off (length buf) (fd_size d)) (\<lambda>_.
     and_then (io_result off (os_write_all_at os (fd_file d) off buf)) (\<lambda>f. Inr (d\<lparr>fd_file := f\<rparr>)))"

definition fd_flush :: "'f os_ops \<Rightarrow> 'f file_device \<Rightarrow> error + 'f file_device" where
  "fd_flush os d = and_then (io_result 0 (os_sync_data os (fd_file d))) (\<lambda>f. Inr (d\<lparr>fd_file := f\<rparr>))"

text \<open>A hole that cannot be punched is written, as the default does it.\<close>

definition fd_write_zeroes :: "'f os_ops \<Rightarrow> 'f file_device \<Rightarrow> nat \<Rightarrow> nat \<Rightarrow> error + 'f file_device" where
  "fd_write_zeroes os d off len =
     and_then (check_bounds off len (fd_size d)) (\<lambda>_.
     let (punched, d) =
       (if fd_regular d
        then let (ok, f) = os_punch_hole os (fd_file d) off len in (ok, d\<lparr>fd_file := f\<rparr>)
        else (False, d)) in
     if punched then Inr d
     else zero_loop (fd_write_at os) off len (max (min (2 ^ 20) len) 1) 0 d)"

definition file_ops :: "'f os_ops \<Rightarrow> 'f file_device dev_ops" where
  "file_ops os = \<lparr>dev_size = fd_size, dev_logical = fd_logical, dev_physical = fd_physical,
     dev_read_at = fd_read_at os, dev_write_at = fd_write_at os, dev_flush = fd_flush os,
     dev_write_zeroes = fd_write_zeroes os\<rparr>"

text \<open>A borrowed or shared device (\<^verbatim>\<open>impl BlockDevice for &D\<close>, \<^verbatim>\<open>for Arc<D>\<close>) forwards every operation.\<close>

definition borrowed_ops :: "'d dev_ops \<Rightarrow> 'd dev_ops" where
  "borrowed_ops D = \<lparr>dev_size = \<lambda>d. dev_size D d, dev_logical = \<lambda>d. dev_logical D d, dev_physical = \<lambda>d. dev_physical D d,
     dev_read_at = \<lambda>d off len. dev_read_at D d off len, dev_write_at = \<lambda>d off buf. dev_write_at D d off buf,
     dev_flush = \<lambda>d. dev_flush D d, dev_write_zeroes = \<lambda>d off len. dev_write_zeroes D d off len\<rparr>"

lemma borrowed_ops_eq [simp]: "borrowed_ops D = D"
  by (simp add: borrowed_ops_def)

lemma file_ops_simps [simp]:
  "dev_size (file_ops os) = fd_size" "dev_logical (file_ops os) = fd_logical" "dev_physical (file_ops os) = fd_physical"
  "dev_read_at (file_ops os) = fd_read_at os" "dev_write_at (file_ops os) = fd_write_at os" "dev_flush (file_ops os) = fd_flush os"
  "dev_write_zeroes (file_ops os) = fd_write_zeroes os"
  by (simp_all add: file_ops_def)

section \<open>A file in order\<close>

definition fd_good :: "('f \<Rightarrow> bool) \<Rightarrow> ('f \<Rightarrow> nat) \<Rightarrow> 'f file_device \<Rightarrow> bool" where
  "fd_good intact extent d \<longleftrightarrow> intact (fd_file d) \<and> fd_size d \<le> extent (fd_file d) \<and> fd_size d \<le> 2 ^ 63"

definition fd_content :: "('f \<Rightarrow> nat \<Rightarrow> u8) \<Rightarrow> 'f file_device \<Rightarrow> nat \<Rightarrow> u8" where
  "fd_content stored d = stored (fd_file d)"

text \<open>A file takes requests at any byte.\<close>

definition fd_sector :: "'f file_device \<Rightarrow> nat" where
  "fd_sector d = 1"

lemma fd_sector_one [simp]: "fd_sector d = 1"
  by (simp add: fd_sector_def)


text \<open>
  \<open>os_file\<close>: within its length a file in order is read and written in full, as an array of bytes; punching a hole
  may fail, but touches nothing outside the hole, and when it succeeds the hole reads as zeroes.
\<close>

locale os_file =
  fixes os :: "'f os_ops"
    and intact :: "'f \<Rightarrow> bool"
    and stored :: "'f \<Rightarrow> nat \<Rightarrow> u8"
    and extent :: "'f \<Rightarrow> nat"
  assumes reads_file: "intact f \<Longrightarrow> off + n \<le> extent f \<Longrightarrow>
      os_read_exact_at os f off n = Some (map (stored f) [off..<off + n])"
    and writes_file: "intact f \<Longrightarrow> off + length b \<le> extent f \<Longrightarrow>
      \<exists>f'. os_write_all_at os f off b = Some f' \<and> intact f' \<and> extent f' = extent f \<and> stored f' = overwrite (stored f) off b"
    and syncs_file: "intact f \<Longrightarrow>
      \<exists>f'. os_sync_data os f = Some f' \<and> intact f' \<and> extent f' = extent f \<and> stored f' = stored f"
    and punches_file: "intact f \<Longrightarrow> off + n \<le> extent f \<Longrightarrow> os_punch_hole os f off n = (ok, f') \<Longrightarrow>
      intact f' \<and> extent f' = extent f \<and> zeroed (stored f') off n = zeroed (stored f) off n \<and>
      (ok \<longrightarrow> stored f' = zeroed (stored f) off n)"
begin

lemma fd_checks:
  assumes "fd_good intact extent d" "accepts (file_ops os) fd_sector d off len"
  shows "check_bounds off len (fd_size d) = Inr ()" "intact (fd_file d)" "off + len \<le> extent (fd_file d)"
  using assms by (auto simp: fd_good_def accepts_def check_bounds_def)

sublocale arr: array_device "file_ops os" "fd_good intact extent" "fd_content stored" fd_sector
proof
  fix d :: "'f file_device"
  assume good: "fd_good intact extent d"
  show "fd_sector d dvd ZERO_CHUNK" "dev_size (file_ops os) d \<le> 2 ^ 63" "fd_sector d dvd max (dev_logical (file_ops os) d) 512"
    using good by (simp_all add: fd_good_def)
  show "dev_read_at (file_ops os) d off len = Inr (map (fd_content stored d) [off..<off + len])"
    if "accepts (file_ops os) fd_sector d off len" for off len
    using fd_checks [OF good that] reads_file by (simp add: fd_read_at_def io_result_def fd_content_def)
  show "\<exists>d'. dev_write_at (file_ops os) d off buf = Inr d' \<and> fd_good intact extent d' \<and>
      same_device (file_ops os) fd_sector d d' \<and> fd_content stored d' = overwrite (fd_content stored d) off buf"
    if "accepts (file_ops os) fd_sector d off (length buf)" for off buf
    using fd_checks [OF good that] writes_file [of "fd_file d" off buf] good
    by (auto simp: fd_write_at_def io_result_def fd_content_def fd_good_def same_device_def)
  show "\<exists>d'. dev_flush (file_ops os) d = Inr d' \<and> fd_good intact extent d' \<and>
      same_device (file_ops os) fd_sector d d' \<and> fd_content stored d' = fd_content stored d"
    using syncs_file [of "fd_file d"] good
    by (auto simp: fd_flush_def io_result_def fd_content_def fd_good_def same_device_def)
qed

lemma fd_zeroes:
  assumes good: "fd_good intact extent d" and acc: "accepts (file_ops os) fd_sector d off len"
  shows "\<exists>d'. fd_write_zeroes os d off len = Inr d' \<and> fd_good intact extent d' \<and>
    same_device (file_ops os) fd_sector d d' \<and> fd_content stored d' = zeroed (fd_content stored d) off len"
proof -
  note c = fd_checks [OF good acc]
  have loop: "\<exists>d'. zero_loop (fd_write_at os) off len (max (min (2 ^ 20) len) 1) 0 x = Inr d' \<and> fd_good intact extent d' \<and>
      same_device (file_ops os) fd_sector x d' \<and> fd_content stored d' = zeroed (fd_content stored x) off len"
    if "fd_good intact extent x" "fd_size x = fd_size d" for x
    using arr.default_zeroes_ok [OF that(1), of off len] acc that(2)
    by (simp add: default_write_zeroes_def ZERO_CHUNK_def accepts_def)
  show ?thesis
  proof (cases "fd_regular d")
    case False
    then show ?thesis using loop [OF good refl] c(1) by (simp add: fd_write_zeroes_def)
  next
    case True
    obtain ok f where p: "os_punch_hole os (fd_file d) off len = (ok, f)" by force
    note h = punches_file [OF c(2,3) p]
    have g: "fd_good intact extent (d\<lparr>fd_file := f\<rparr>)" using good h by (simp add: fd_good_def)
    show ?thesis
      using True c(1) p h g loop [OF g] by (auto simp: fd_write_zeroes_def fd_content_def same_device_def)
  qed
qed

lemma file_is_array:
  assumes good: "fd_good intact extent d" and acc: "accepts (file_ops os) fd_sector d off len"
  shows "fd_read_at os d off len = Inr (map (fd_content stored d) [off..<off + len])"
    "\<exists>d'. fd_write_zeroes os d off len = Inr d' \<and> fd_good intact extent d' \<and> fd_size d' = fd_size d \<and>
       fd_content stored d' = zeroed (fd_content stored d) off len"
    "length b = len \<Longrightarrow> \<exists>d'. fd_write_at os d off b = Inr d' \<and> fd_good intact extent d' \<and> fd_size d' = fd_size d \<and>
       fd_content stored d' = overwrite (fd_content stored d) off b"
  using arr.read_at [OF assms] fd_zeroes [OF assms] arr.write_at [OF good, of off b] acc
  by (auto simp: same_device_def)

sublocale dev: block_device "file_ops os" "fd_good intact extent" "fd_content stored" fd_sector
  by unfold_locales (simp add: fd_zeroes)

end

subsection \<open>Measuring a file\<close>

text \<open>
  \<open>os_measured\<close>: what the system says of the size of a file. The metadata of a regular file give its length (those of a
  block device do not), a duplicated descriptor is the same file, and seeking to the end returns the length.
\<close>

locale os_measured = os_file os intact stored extent
  for os :: "'f os_ops" and intact :: "'f \<Rightarrow> bool" and stored :: "'f \<Rightarrow> nat \<Rightarrow> u8" and extent :: "'f \<Rightarrow> nat" +
  assumes regular_length: "intact f \<Longrightarrow> os_metadata os f = Some (True, n) \<Longrightarrow> n = extent f"
    and clones_file: "intact f \<Longrightarrow> os_try_clone os f = Some h \<Longrightarrow> intact h \<and> extent h = extent f"
    and seeks_end: "intact f \<Longrightarrow> os_seek_end os f = Some n \<Longrightarrow> n = extent f"
begin

lemma sought: "intact f \<Longrightarrow> seek_size os f = Inr n \<Longrightarrow> n = extent f"
  by (auto simp: seek_size_def io_result_def and_then_eq_Inr split: option.splits dest: clones_file seeks_end)

lemma open_measured:
  assumes "intact f" "os_metadata os f = Some (regular, len)" "regular \<or> seek_size os f = Inr n"
  shows "fd_open os (Some f) = Inr \<lparr>fd_file = f, fd_size = extent f, fd_logical = fst (sector_sizes os f regular),
    fd_physical = snd (sector_sizes os f regular), fd_regular = regular\<rparr>"
  using assms regular_length [OF assms(1), of len] sought [OF assms(1), of n]
  by (auto simp: fd_open_def io_result_def Let_def split: prod.splits)

lemma read_measured:
  assumes "intact f" "extent f \<le> 2 ^ 63" "fd_file d = f" "fd_size d = extent f"
  shows "fd_read_at os d off len =
    (if off + len \<le> extent f then Inr (map (stored f) [off..<off + len]) else Inl (OutOfBounds off len (extent f)))"
  using assms reads_file [OF assms(1), of off len] by (auto simp: fd_read_at_def check_bounds_def io_result_def)

end

section \<open>An in-memory file\<close>

text \<open>
  \<^verbatim>\<open>MemDevice\<close> without strict sectors stands in for the file of a system: its requests succeed or fail as
  they do on the device, a hole is punched by \<^verbatim>\<open>write_zeroes\<close>, and there are no ioctls.
\<close>

definition done_with :: "error + 'a \<Rightarrow> 'a option" where
  "done_with r = (case r of Inl _ \<Rightarrow> None | Inr x \<Rightarrow> Some x)"

definition mem_os :: "mem_device os_ops" where
  "mem_os = \<lparr>os_metadata = \<lambda>d. Some (True, md_size d), os_try_clone = Some, os_seek_end = \<lambda>d. Some (md_size d),
     os_blksszget = \<lambda>_. None, os_blkpbszget = \<lambda>_. None, os_set_len = \<lambda>_ n. Some (md_new n),
     os_read_exact_at = \<lambda>d off n. done_with (md_read_at d off n), os_write_all_at = \<lambda>d off b. done_with (md_write_at d off b),
     os_sync_data = \<lambda>d. done_with (md_flush d),
     os_punch_hole = \<lambda>d off n. (case md_write_zeroes d off n of Inl _ \<Rightarrow> (False, d) | Inr d' \<Rightarrow> (True, d'))\<rparr>"

definition mem_intact :: "mem_device \<Rightarrow> bool" where
  "mem_intact d \<longleftrightarrow> md_good d \<and> \<not> md_strict d"

lemma md_strict_kept:
  "md_write_at d off b = Inr d' \<Longrightarrow> md_strict d' = md_strict d" "md_write_zeroes d off n = Inr d' \<Longrightarrow> md_strict d' = md_strict d"
  by (auto simp: md_write_at_def md_write_zeroes_def copy_in_def and_then_eq_Inr Let_def)

lemma mem_intact_accepts: "mem_intact d \<Longrightarrow> off + n \<le> md_size d \<Longrightarrow> md_good d \<and> accepts mem_ops md_sector d off n"
  by (simp add: mem_intact_def accepts_def md_sector_def)

interpretation memfile: os_file mem_os mem_intact md_content md_size
proof
  fix f :: mem_device and off n :: nat and b :: bytes
  assume i: "mem_intact f"
  show "os_read_exact_at mem_os f off n = Some (map (md_content f) [off..<off + n])" if "off + n \<le> md_size f"
    using mem_intact_accepts [OF i that] mem.read_at by (auto simp: mem_os_def done_with_def)
  show "\<exists>f'. os_write_all_at mem_os f off b = Some f' \<and> mem_intact f' \<and> md_size f' = md_size f \<and>
      md_content f' = overwrite (md_content f) off b" if inside: "off + length b \<le> md_size f"
  proof -
    obtain f' where w: "md_write_at f off b = Inr f'" "md_good f'" "same_device mem_ops md_sector f f'"
      "md_content f' = overwrite (md_content f) off b"
      using mem_intact_accepts [OF i inside] mem.write_at [of f off b] by auto
    then show ?thesis
      using i md_strict_kept(1) [OF w(1)] by (simp add: mem_os_def done_with_def mem_intact_def same_device_def)
  qed
  show "\<exists>f'. os_sync_data mem_os f = Some f' \<and> mem_intact f' \<and> md_size f' = md_size f \<and> md_content f' = md_content f"
    using i by (simp add: mem_os_def done_with_def md_flush_def)
  show "mem_intact f' \<and> md_size f' = md_size f \<and> zeroed (md_content f') off n = zeroed (md_content f) off n \<and>
      (ok \<longrightarrow> md_content f' = zeroed (md_content f) off n)"
    if inside: "off + n \<le> md_size f" and p: "os_punch_hole mem_os f off n = (ok, f')" for ok f'
  proof -
    obtain z where z: "md_write_zeroes f off n = Inr z" "md_good z" "same_device mem_ops md_sector f z"
      "md_content z = zeroed (md_content f) off n"
      using mem_intact_accepts [OF i inside] mem.write_zeroes [of f off n] by auto
    have "f' = z" using p z(1) by (simp add: mem_os_def)
    then show ?thesis
      using i z md_strict_kept(2) [OF z(1)] by (auto simp: mem_intact_def same_device_def zeroed_def fun_eq_iff)
  qed
qed

interpretation memfile: os_measured mem_os mem_intact md_content md_size
  by unfold_locales (simp_all add: mem_os_def)

text \<open>
  The same file as a block device: its metadata say nothing of its size, and the ioctls answer with the sectors given.
\<close>

definition block_os :: "nat option \<Rightarrow> nat option \<Rightarrow> mem_device os_ops" where
  "block_os logical physical = mem_os\<lparr>os_metadata := \<lambda>_. Some (False, 0), os_blksszget := \<lambda>_. logical, os_blkpbszget := \<lambda>_. physical\<rparr>"

interpretation blockfile: os_measured "block_os logical physical" mem_intact md_content md_size
proof
  fix f :: mem_device and off n :: nat and b :: bytes and ok f'
  assume i: "mem_intact f"
  note d = block_os_def mem_os_def
  show "os_read_exact_at (block_os logical physical) f off n = Some (map (md_content f) [off..<off + n])" if "off + n \<le> md_size f"
    using memfile.reads_file [OF i that] by (simp add: d)
  show "\<exists>f'. os_write_all_at (block_os logical physical) f off b = Some f' \<and> mem_intact f' \<and> md_size f' = md_size f \<and>
      md_content f' = overwrite (md_content f) off b" if "off + length b \<le> md_size f"
    using memfile.writes_file [OF i that] by (simp add: d)
  show "\<exists>f'. os_sync_data (block_os logical physical) f = Some f' \<and> mem_intact f' \<and> md_size f' = md_size f \<and> md_content f' = md_content f"
    using memfile.syncs_file [OF i] by (simp add: d)
  show "mem_intact f' \<and> md_size f' = md_size f \<and> zeroed (md_content f') off n = zeroed (md_content f) off n \<and>
      (ok \<longrightarrow> md_content f' = zeroed (md_content f) off n)"
    if "off + n \<le> md_size f" "os_punch_hole (block_os logical physical) f off n = (ok, f')"
    using memfile.punches_file [OF i that(1), of ok f'] that(2) by (simp add: d)
qed (simp_all add: block_os_def mem_os_def)

section \<open>Properties\<close>

text \<open>
  \<^bold>\<open>C30\<close>. A file device refines a flat array of bytes, whether or not the system can punch holes: inside the device every
  request succeeds, a read returns the bytes, a write and a zeroing change exactly their range; a request that reaches beyond
  the end is refused with its bounds, before the system is asked.
\<close>

theorem file_device_refines_array:
  assumes "os_file os intact stored extent" "fd_good intact extent d"
  shows "if off + len \<le> fd_size d
    then fd_read_at os d off len = Inr (map (fd_content stored d) [off..<off + len]) \<and>
      (\<exists>d'. fd_write_zeroes os d off len = Inr d' \<and> fd_good intact extent d' \<and> fd_size d' = fd_size d \<and>
        fd_content stored d' = zeroed (fd_content stored d) off len) \<and>
      (\<forall>b. length b = len \<longrightarrow> (\<exists>d'. fd_write_at os d off b = Inr d' \<and> fd_good intact extent d' \<and> fd_size d' = fd_size d \<and>
        fd_content stored d' = overwrite (fd_content stored d) off b))
    else fd_read_at os d off len = Inl (OutOfBounds off len (fd_size d)) \<and>
      fd_write_zeroes os d off len = Inl (OutOfBounds off len (fd_size d)) \<and>
      (\<forall>b. length b = len \<longrightarrow> fd_write_at os d off b = Inl (OutOfBounds off len (fd_size d)))"
proof (cases "off + len \<le> fd_size d")
  case True
  then have acc: "accepts (file_ops os) fd_sector d off len" by (simp add: accepts_def)
  note f = os_file.file_is_array [OF assms acc]
  show ?thesis using f True by auto
next
  case False
  then show ?thesis by (simp add: fd_read_at_def fd_write_at_def fd_write_zeroes_def check_bounds_def)
qed

theorem file_device_refines_array_witness:
  "\<exists>d. fd_write_at mem_os \<lparr>fd_file = md_new 4096, fd_size = 4096, fd_logical = 512, fd_physical = 512, fd_regular = True\<rparr> 100 [1, 2, 3] = Inr d \<and>
     fd_read_at mem_os d 4095 2 = Inl (OutOfBounds 4095 2 4096)"
proof -
  have "mem_intact (md_new 4096)" using md_new_good [of 4096] by (simp add: mem_intact_def md_new_def md_with_sector_size_def)
  moreover have "md_size (md_new 4096) = 4096" by (simp add: md_new_def md_with_sector_size_def)
  ultimately have good: "fd_good mem_intact md_size \<lparr>fd_file = md_new 4096, fd_size = 4096, fd_logical = 512, fd_physical = 512, fd_regular = True\<rparr>"
    by (simp add: fd_good_def)
  obtain d where "fd_write_at mem_os \<lparr>fd_file = md_new 4096, fd_size = 4096, fd_logical = 512, fd_physical = 512, fd_regular = True\<rparr> 100 [1, 2, 3] = Inr d"
    "fd_good mem_intact md_size d" "fd_size d = 4096"
    using file_device_refines_array [OF memfile.os_file_axioms good, of 100 3] by (auto dest: spec [of _ "[1, 2, 3]"])
  then show ?thesis using file_device_refines_array [OF memfile.os_file_axioms, of d 4095 2] by auto
qed

text \<open>
  \<^bold>\<open>C31\<close>. \<^verbatim>\<open>FileDevice::open\<close> in every case. When the path cannot be opened, the metadata cannot be read, or a file that is
  not regular cannot be duplicated or has no end to seek to, the result is the error of that call at offset 0. Otherwise it is
  a device in order over that file, as long as the file, whose reads return the bytes of the file up to its end and are
  refused beyond it. A regular file has sectors of 512 bytes; elsewhere the logical sector is what the ioctl answers, but at
  least 512, and the physical sector what the ioctl answers, but at least the logical one, which also stands in for no answer.
\<close>

theorem opened_file:
  assumes "os_measured os intact stored extent"
    and "\<And>f. opened = Some f \<Longrightarrow> intact f \<and> extent f \<le> 2 ^ 63"
  shows "case opened of None \<Rightarrow> fd_open os opened = Inl (Io 0) | Some f \<Rightarrow>
    (case os_metadata os f of None \<Rightarrow> fd_open os opened = Inl (Io 0) | Some (regular, _) \<Rightarrow>
     (if \<not> regular \<and> (case os_try_clone os f of None \<Rightarrow> True | Some h \<Rightarrow> os_seek_end os h = None)
      then fd_open os opened = Inl (Io 0)
      else \<exists>d. fd_open os opened = Inr d \<and> fd_file d = f \<and> fd_good intact extent d \<and> fd_regular d = regular \<and>
        fd_size d = extent f \<and>
        (\<forall>off len. fd_read_at os d off len =
          (if off + len \<le> extent f then Inr (map (stored f) [off..<off + len]) else Inl (OutOfBounds off len (extent f)))) \<and>
        fd_logical d = (if regular then 512 else case os_blksszget os f of None \<Rightarrow> 512 | Some n \<Rightarrow> max n 512) \<and>
        fd_physical d = (if regular then 512 else case os_blkpbszget os f of None \<Rightarrow> fd_logical d | Some n \<Rightarrow> max n (fd_logical d))))"
proof (cases opened)
  case None
  then show ?thesis by (simp add: fd_open_def io_result_def)
next
  case (Some f)
  note good = assms(2) [OF Some]
  show ?thesis
  proof (cases "os_metadata os f")
    case None
    then show ?thesis using Some by (simp add: fd_open_def io_result_def)
  next
    case meta: (Some m)
    obtain regular len where m: "m = (regular, len)" by force
    show ?thesis
    proof (cases "\<not> regular \<and> (case os_try_clone os f of None \<Rightarrow> True | Some h \<Rightarrow> os_seek_end os h = None)")
      case True
      then have "fd_open os opened = Inl (Io 0)"
        using Some meta m by (auto simp: fd_open_def io_result_def seek_size_def split: option.splits)
      then show ?thesis using Some meta m True by simp
    next
      case False
      then obtain n where "regular \<or> seek_size os f = Inr n"
        by (auto simp: seek_size_def io_result_def intro: that split: option.splits)
      from os_measured.open_measured [OF assms(1) _ meta [unfolded m] this] good
      have o: "fd_open os (Some f) = Inr \<lparr>fd_file = f, fd_size = extent f, fd_logical = fst (sector_sizes os f regular),
        fd_physical = snd (sector_sizes os f regular), fd_regular = regular\<rparr>" by blast
      show ?thesis
        using good os_measured.read_measured [OF assms(1), of f]
        by (simp only: Some meta m option.case prod.case False if_False o)
           (auto simp: fd_good_def sector_sizes_def Let_def max.commute split: option.splits)
    qed
  qed
qed

theorem opened_file_witness:
  "\<exists>d. fd_open (block_os (Some 4096) (Some 512)) (Some (md_new 8192)) = Inr d \<and> \<not> fd_regular d \<and> fd_size d = 8192 \<and>
     fd_logical d = 4096 \<and> fd_physical d = 4096 \<and>
     fd_read_at (block_os (Some 4096) (Some 512)) d 8000 200 = Inl (OutOfBounds 8000 200 8192)"
proof -
  have new: "mem_intact (md_new 8192)" "md_size (md_new 8192) = 8192"
    using md_new_good [of 8192] by (simp_all add: mem_intact_def md_new_def md_with_sector_size_def)
  have sys: "os_metadata (block_os l p) f = Some (False, 0)" "os_try_clone (block_os l p) f = Some f"
    "os_seek_end (block_os l p) f = Some (md_size f)" "os_blksszget (block_os l p) f = l" "os_blkpbszget (block_os l p) f = p" for l p f
    by (simp_all add: block_os_def mem_os_def)
  show ?thesis
    using opened_file [OF blockfile.os_measured_axioms, of "Some (md_new 8192)" "Some 4096" "Some 512"]
    by (auto simp: sys new)
qed

end
