(* ===== verification/File_Format.thy ===== *)
theory File_Format
  imports File_Device Format_Image
begin

unbundle bit_operations_syntax

section \<open>Formatting a file\<close>

text \<open>
  The formatter asks a device for no more than \<open>block_device\<close>, so its theorems carry over to a file device over any
  system that meets \<open>os_file\<close>.
\<close>

context os_file
begin

lemma file_format_done:
  assumes "fd_good intact extent d" "compute p (fd_size d) (fd_logical d) (fd_physical d) = Inr g" "p_agcount p = None \<or> agcount g \<le> agsize g"
    and "group_start g (logagno g) + min_freelist g \<le> ag_blocks g (logagno g)"
    and "p_uuid p = Some uuid" "length uuid = 16" "mset order = mset [0..<agcount g]"
  shows "\<exists>d' plans. format (file_ops os) p new_uuid now new_seed order d =
      Inr (d', \<lparr>r_geometry = g, r_uuid = uuid, r_rootino = of_nat (rootino g), r_fdblocks = total_fdblocks plans\<rparr>) \<and>
    try_map (plan_ag g) [0..<agcount g] = Inr plans \<and> fd_good intact extent d' \<and>
    fd_content stored d' = format_image (fd_size d) g plans uuid
      (case p_time p of Some t \<Rightarrow> t | None \<Rightarrow> now) (case p_gen_seed p of Some s \<Rightarrow> s | None \<Rightarrow> new_seed) order (fd_content stored d)"
  using dev.format_done [OF assms(1), of p g uuid order new_uuid now new_seed] assms(2-) by simp

end

section \<open>Properties\<close>

text \<open>
  Formatting a file does what formatting memory does: over every system whose files are arrays of bytes, whether or
  not holes can be punched in them, the format of a file device runs to the end with the same report as the format of an in-memory
  device of that size and sectors, and leaves the same bytes wherever they started from the same bytes.
\<close>

theorem file_formatted_like_memory:
  assumes "os_file os intact stored extent" "fd_good intact extent d" "md_good m" "md_sector m dvd bs g"
    and "md_size m = fd_size d" "md_logical m = fd_logical d" "md_physical m = fd_physical d" "md_content m = fd_content stored d"
    and "compute p (fd_size d) (fd_logical d) (fd_physical d) = Inr g" "p_agcount p = None \<or> agcount g \<le> agsize g"
    and "group_start g (logagno g) + min_freelist g \<le> ag_blocks g (logagno g)"
    and "p_uuid p = Some uuid" "length uuid = 16" "mset order = mset [0..<agcount g]"
  shows "\<exists>d' m' r. format (file_ops os) p new_uuid now new_seed order d = Inr (d', r) \<and>
    format mem_ops p new_uuid now new_seed order m = Inr (m', r) \<and> r_geometry r = g \<and> fd_content stored d' = md_content m'"
proof -
  obtain d' plans where d: "format (file_ops os) p new_uuid now new_seed order d =
      Inr (d', \<lparr>r_geometry = g, r_uuid = uuid, r_rootino = of_nat (rootino g), r_fdblocks = total_fdblocks plans\<rparr>)"
    "try_map (plan_ag g) [0..<agcount g] = Inr plans"
    "fd_content stored d' = format_image (fd_size d) g plans uuid
      (case p_time p of Some t \<Rightarrow> t | None \<Rightarrow> now) (case p_gen_seed p of Some s \<Rightarrow> s | None \<Rightarrow> new_seed) order (fd_content stored d)"
    using os_file.file_format_done [OF assms(1,2,9-14)] by blast
  obtain m' where "format mem_ops p new_uuid now new_seed order m =
      Inr (m', \<lparr>r_geometry = g, r_uuid = uuid, r_rootino = of_nat (rootino g), r_fdblocks = total_fdblocks plans\<rparr>)"
    "md_content m' = format_image (md_size m) g plans uuid
      (case p_time p of Some t \<Rightarrow> t | None \<Rightarrow> now) (case p_gen_seed p of Some s \<Rightarrow> s | None \<Rightarrow> new_seed) order (md_content m)"
    using mem.format_done [OF assms(3), of p g uuid order new_uuid now new_seed] assms(4-) d(2) by auto
  then show ?thesis using d assms(5,8) by (intro exI [of _ d'] exI [of _ m'] exI) auto
qed

text \<open>A new file of the size of the sample device.\<close>

definition sample_file :: "mem_device file_device" where
  "sample_file = \<lparr>fd_file = sample_device, fd_size = md_size sample_device, fd_logical = 512, fd_physical = 512, fd_regular = True\<rparr>"

lemma sample_file_created: "fd_create mem_os (Some sample_device) (512 * 2 ^ 20) = Inr sample_file"
  using sample_facts(2) by (simp add: fd_create_def io_result_def mem_os_def sample_file_def sample_device_def)

theorem file_formatted_like_memory_witness:
  "\<exists>d d' m' r. fd_create mem_os (Some sample_device) (512 * 2 ^ 20) = Inr d \<and>
     format (file_ops mem_os) sample_params (replicate 16 9) \<lparr>secs = 0, nsecs = 0\<rparr> 42 [3, 1, 0, 2] d = Inr (d', r) \<and>
     format mem_ops sample_params (replicate 16 9) \<lparr>secs = 0, nsecs = 0\<rparr> 42 [3, 1, 0, 2] sample_device = Inr (m', r) \<and>
     fd_content md_content d' = md_content m'"
proof -
  have "mem_intact sample_device"
    using sample_facts(1) by (simp add: mem_intact_def sample_device_def md_new_def md_with_sector_size_def)
  then have good: "fd_good mem_intact md_size sample_file" using sample_facts(2) by (simp add: fd_good_def sample_file_def)
  have f: "fd_size sample_file = md_size sample_device" "fd_logical sample_file = md_logical sample_device"
    "fd_physical sample_file = md_physical sample_device" "fd_content md_content sample_file = md_content sample_device"
    using sample_facts(3,4) by (simp_all add: sample_file_def fd_content_def)
  have "md_sector sample_device dvd bs geometry_512m" by (simp add: sample_facts(5))
  from file_formatted_like_memory [OF memfile.os_file_axioms good sample_facts(1) this, unfolded f, OF refl refl refl refl sample_facts(6)
      _ sample_log_group sample_facts(9) _ sample_facts(10), of "replicate 16 9" "\<lparr>secs = 0, nsecs = 0\<rparr>" 42]
  show ?thesis using sample_file_created sample_facts(8) by fastforce
qed

end
