(* ===== verification/Mkfs_Cli.thy ===== *)
theory Mkfs_Cli
  imports Dump
begin

unbundle bit_operations_syntax

section \<open>The options of \<^verbatim>\<open>mkfs-xfs\<close> (\<^verbatim>\<open>src/bin/mkfs_xfs.rs\<close>)\<close>

text \<open>
  The parsers of the option arguments and the parameters they build; \<^verbatim>\<open>clap\<close> splits the command line into
  the lists of \<open>cli\<close>. Strings are ASCII. \<^verbatim>\<open>Uuid::parse_str\<close> is the parameter \<open>uuid_of\<close>. The builder of
  \<^verbatim>\<open>Params\<close> (\<^verbatim>\<open>src/geometry.rs\<close>) is here too, and the report that is printed.
\<close>

subsection \<open>The builder of the parameters\<close>

definition with_size :: "nat \<Rightarrow> params \<Rightarrow> params" where
  "with_size n p = p\<lparr>p_size := Some n\<rparr>"

definition with_block_size :: "nat \<Rightarrow> params \<Rightarrow> params" where
  "with_block_size n p = p\<lparr>p_block_size := Some n\<rparr>"

definition with_sector_size :: "nat \<Rightarrow> params \<Rightarrow> params" where
  "with_sector_size n p = p\<lparr>p_sector_size := Some n\<rparr>"

definition with_inode_size :: "nat \<Rightarrow> params \<Rightarrow> params" where
  "with_inode_size n p = p\<lparr>p_inode_size := Some n\<rparr>"

definition with_agcount :: "nat \<Rightarrow> params \<Rightarrow> params" where
  "with_agcount n p = p\<lparr>p_agcount := Some n\<rparr>"

definition with_label :: "bytes \<Rightarrow> params \<Rightarrow> params" where
  "with_label l p = p\<lparr>p_label := Some l\<rparr>"

definition with_uuid :: "bytes \<Rightarrow> params \<Rightarrow> params" where
  "with_uuid u p = p\<lparr>p_uuid := Some u\<rparr>"

definition with_time :: "u64 \<Rightarrow> u32 \<Rightarrow> params \<Rightarrow> params" where
  "with_time s n p = p\<lparr>p_time := Some \<lparr>secs = s, nsecs = n\<rparr>\<rparr>"

definition with_gen_seed :: "u64 \<Rightarrow> params \<Rightarrow> params" where
  "with_gen_seed s p = p\<lparr>p_gen_seed := Some s\<rparr>"

definition with_features :: "feature_flags \<Rightarrow> params \<Rightarrow> params" where
  "with_features f p = p\<lparr>p_features := f\<rparr>"

subsection \<open>Strings\<close>

definition is_space :: "char \<Rightarrow> bool" where
  "is_space c \<longleftrightarrow> c \<in> set [CHR 0x09, CHR 0x0A, CHR 0x0B, CHR 0x0C, CHR 0x0D, CHR '' '']"

definition trim :: "string \<Rightarrow> string" where
  "trim s = rev (dropWhile is_space (rev (dropWhile is_space s)))"

definition lower :: "string \<Rightarrow> string" where
  "lower s = map (\<lambda>c. if 65 \<le> (of_char c :: nat) \<and> of_char c \<le> (90 :: nat) then char_of (of_char c + 32 :: nat) else c) s"

definition digit_value :: "char \<Rightarrow> nat option" where
  "digit_value c = (let n = of_char c in if 48 \<le> n \<and> n \<le> 57 then Some (n - 48) else None)"

fun digits_value :: "nat \<Rightarrow> string \<Rightarrow> nat option" where
  "digits_value acc [] = Some acc"
| "digits_value acc (c # cs) = (case digit_value c of None \<Rightarrow> None | Some d \<Rightarrow> digits_value (10 * acc + d) cs)"

text \<open>\<^verbatim>\<open>str::parse\<close> of an unsigned integer of \<open>w\<close> bits.\<close>

definition parse_unsigned :: "nat \<Rightarrow> string \<Rightarrow> nat option" where
  "parse_unsigned w s =
     (let ds = (case s of c # c' # cs \<Rightarrow> if c = CHR ''+'' then c' # cs else s | _ \<Rightarrow> s) in
      if ds = [] then None
      else case digits_value 0 ds of None \<Rightarrow> None | Some n \<Rightarrow> if n < 2 ^ w then Some n else None)"

fun split_on :: "char \<Rightarrow> string \<Rightarrow> string list" where
  "split_on c [] = [[]]"
| "split_on c (x # xs) = (if x = c then [] # split_on c xs else case split_on c xs of [] \<Rightarrow> [[x]] | p # ps \<Rightarrow> (x # p) # ps)"

definition split_once :: "char \<Rightarrow> string \<Rightarrow> (string \<times> string) option" where
  "split_once c s = (if c \<in> set s then Some (takeWhile (\<lambda>x. x \<noteq> c) s, tl (dropWhile (\<lambda>x. x \<noteq> c) s)) else None)"

definition string_bytes :: "string \<Rightarrow> bytes" where
  "string_bytes s = map (\<lambda>c. of_nat (of_char c)) s"

subsection \<open>Option arguments\<close>

datatype cli_error =
    BadSize string
  | SizeOverflows string
  | ExpectedBool string
  | BadUuid string
  | BadNumber string
  | UnknownOption string string
  | NotSupported string string
  | ValueNotSupported string string string

definition size_suffix :: "string \<Rightarrow> string \<times> nat" where
  "size_suffix s =
     (case rev s of
        c # cs \<Rightarrow>
          if c = CHR ''k'' then (rev cs, 10) else if c = CHR ''m'' then (rev cs, 20) else if c = CHR ''g'' then (rev cs, 30)
          else if c = CHR ''t'' then (rev cs, 40) else if c = CHR ''p'' then (rev cs, 50) else (s, 0)
      | [] \<Rightarrow> (s, 0))"

definition parse_size :: "string \<Rightarrow> cli_error + nat" where
  "parse_size s =
     (let s = lower (trim s); (num, shift) = size_suffix s in
      case parse_unsigned 64 num of
        None \<Rightarrow> Inl (BadSize s)
      | Some n \<Rightarrow> if n * 2 ^ shift < 2 ^ 64 then Inr (n * 2 ^ shift) else Inl (SizeOverflows s))"

definition parse_bool :: "string \<Rightarrow> cli_error + bool" where
  "parse_bool s = (if s = ''1'' then Inr True else if s = ''0'' then Inr False else Inl (ExpectedBool s))"

definition parse_uuid :: "(string \<Rightarrow> bytes option) \<Rightarrow> string \<Rightarrow> cli_error + bytes" where
  "parse_uuid uuid_of s = (case uuid_of s of None \<Rightarrow> Inl (BadUuid s) | Some u \<Rightarrow> Inr u)"

definition parse_number :: "nat \<Rightarrow> string \<Rightarrow> cli_error + nat" where
  "parse_number w s = (case parse_unsigned w s of None \<Rightarrow> Inl (BadNumber s) | Some n \<Rightarrow> Inr n)"

definition subopts :: "string list \<Rightarrow> (string \<times> string) list" where
  "subopts os =
     map (\<lambda>kv. case split_once (CHR ''='') kv of Some x \<Rightarrow> x | None \<Rightarrow> (kv, ''1''))
       (filter (\<lambda>kv. kv \<noteq> []) (concat (map (split_on (CHR '','')) os)))"

subsection \<open>The parameters\<close>

record cli =
  cli_block :: "string list"
  cli_data :: "string list"
  cli_inode :: "string list"
  cli_meta :: "string list"
  cli_sector :: "string list"
  cli_label :: "string option"

definition block_opt :: "string \<times> string \<Rightarrow> params \<Rightarrow> cli_error + params" where
  "block_opt = (\<lambda>(k, v) p.
     if k = ''size'' then and_then (parse_size v) (\<lambda>n. Inr (p\<lparr>p_block_size := Some (as_u32 n)\<rparr>))
     else Inl (UnknownOption ''-b'' k))"

definition sector_opt :: "string \<times> string \<Rightarrow> params \<Rightarrow> cli_error + params" where
  "sector_opt = (\<lambda>(k, v) p.
     if k = ''size'' then and_then (parse_size v) (\<lambda>n. Inr (p\<lparr>p_sector_size := Some (as_u32 n)\<rparr>))
     else Inl (UnknownOption ''-s'' k))"

definition data_opt :: "string \<times> string \<Rightarrow> params \<Rightarrow> cli_error + params" where
  "data_opt = (\<lambda>(k, v) p.
     if k = ''size'' then and_then (parse_size v) (\<lambda>n. Inr (p\<lparr>p_size := Some n\<rparr>))
     else if k = ''agcount'' then and_then (parse_number 64 v) (\<lambda>n. Inr (p\<lparr>p_agcount := Some n\<rparr>))
     else if k = ''agsize'' then and_then (parse_size v) (\<lambda>n. Inr (p\<lparr>p_agsize := Some n\<rparr>))
     else Inl (NotSupported ''-d'' k))"

definition inode_opt :: "string \<times> string \<Rightarrow> params \<Rightarrow> cli_error + params" where
  "inode_opt = (\<lambda>(k, v) p.
     if k = ''size'' then and_then (parse_size v) (\<lambda>n. Inr (p\<lparr>p_inode_size := Some (as_u32 n)\<rparr>))
     else if k = ''maxpct'' then and_then (parse_number 8 v) (\<lambda>n. Inr (p\<lparr>p_imaxpct := Some n\<rparr>))
     else if k = ''sparse'' then and_then (parse_bool v) (\<lambda>b. Inr (p\<lparr>p_features := (p_features p)\<lparr>sparse := b\<rparr>\<rparr>))
     else if k = ''nrext64'' then and_then (parse_bool v) (\<lambda>b. Inr (p\<lparr>p_features := (p_features p)\<lparr>nrext64 := b\<rparr>\<rparr>))
     else Inl (NotSupported ''-i'' k))"

definition meta_opt :: "(string \<Rightarrow> bytes option) \<Rightarrow> string \<times> string \<Rightarrow> params \<Rightarrow> cli_error + params" where
  "meta_opt uuid_of = (\<lambda>(k, v) p.
     let f = p_features p in
     if k = ''uuid'' then and_then (parse_uuid uuid_of v) (\<lambda>u. Inr (p\<lparr>p_uuid := Some u\<rparr>))
     else if k = ''crc'' \<and> v = ''1'' then Inr p
     else if k = ''finobt'' then and_then (parse_bool v) (\<lambda>b. Inr (p\<lparr>p_features := f\<lparr>finobt := b\<rparr>\<rparr>))
     else if k = ''rmapbt'' then and_then (parse_bool v) (\<lambda>b. Inr (p\<lparr>p_features := f\<lparr>rmapbt := b\<rparr>\<rparr>))
     else if k = ''reflink'' then and_then (parse_bool v) (\<lambda>b. Inr (p\<lparr>p_features := f\<lparr>reflink := b\<rparr>\<rparr>))
     else if k = ''inobtcount'' then and_then (parse_bool v) (\<lambda>b. Inr (p\<lparr>p_features := f\<lparr>inobtcount := b\<rparr>\<rparr>))
     else if k = ''bigtime'' then and_then (parse_bool v) (\<lambda>b. Inr (p\<lparr>p_features := f\<lparr>bigtime := b\<rparr>\<rparr>))
     else Inl (ValueNotSupported ''-m'' k v))"

definition cli_params :: "(string \<Rightarrow> bytes option) \<Rightarrow> 'a cli_scheme \<Rightarrow> cli_error + params" where
  "cli_params uuid_of c =
     and_then (try_fold block_opt (subopts (cli_block c)) params_new) (\<lambda>p.
     and_then (try_fold sector_opt (subopts (cli_sector c)) p) (\<lambda>p.
     and_then (try_fold data_opt (subopts (cli_data c)) p) (\<lambda>p.
     and_then (try_fold inode_opt (subopts (cli_inode c)) p) (\<lambda>p.
     and_then (try_fold (meta_opt uuid_of) (subopts (cli_meta c)) p) (\<lambda>p.
     Inr (p\<lparr>p_label := map_option string_bytes (cli_label c)\<rparr>))))))"

subsection \<open>The report\<close>

text \<open>\<^verbatim>\<open>{:<w}\<close>.\<close>

definition left :: "nat \<Rightarrow> string \<Rightarrow> string" where
  "left w s = s @ replicate (w - length s) CHR '' ''"

definition bit_str :: "bool \<Rightarrow> string" where
  "bit_str b = dec (of_bool b)"

definition report_lines :: "geometry \<Rightarrow> string \<Rightarrow> string list" where
  "report_lines g name =
     (let f = features g; none = left 22 [] in
      [''meta-data='' @ left 22 name @ '' isize='' @ left 6 (dec (inodesize g)) @ '' agcount='' @ dec (agcount g) @
         '', agsize='' @ dec (agsize g) @ '' blks'',
       ''         ='' @ none @ '' sectsz='' @ left 5 (dec (sectsize g)) @ '' attr=2, projid32bit=1'',
       ''         ='' @ none @ '' crc=1        finobt='' @ bit_str (finobt f) @ '', sparse='' @ bit_str (sparse f) @
         '', rmapbt='' @ bit_str (rmapbt f),
       ''         ='' @ none @ '' reflink='' @ bit_str (reflink f) @ ''    bigtime='' @ bit_str (bigtime f) @
         '' inobtcount='' @ bit_str (inobtcount f) @ '' nrext64='' @ bit_str (nrext64 f),
       ''data     ='' @ none @ '' bsize='' @ left 6 (dec (blocksize g)) @ '' blocks='' @ dec (dblocks g) @
         '', imaxpct='' @ dec (imaxpct g),
       ''naming   =version 2              bsize='' @ left 6 (dec (2 ^ (dirblocklog g mod 32))) @
         '' ascii-ci=0, ftype=1, parent=0'',
       ''log      =internal log           bsize='' @ left 6 (dec (blocksize g)) @ '' blocks='' @ dec (logblocks g) @ '', version=2'',
       ''         ='' @ none @ '' sectsz='' @ left 5 (dec (lsectsize g)) @ '' sunit='' @
         dec (lsunit_bytes g div blocksize g) @ '' blks, lazy-count=1''])"

subsection \<open>Decimal numbers are read back\<close>

lemma digit_value_digit: "d < 10 \<Longrightarrow> digit_value (digit d) = Some d"
  by (auto simp: less_Suc_eq numeral_eq_Suc digit_def digit_value_def Let_def)

lemma digits_value_append:
  "digits_value acc (s @ t) = (case digits_value acc s of None \<Rightarrow> None | Some n \<Rightarrow> digits_value n t)"
  by (induction acc s rule: digits_value.induct) (simp_all split: option.split)

lemma digits_value_dec: "digits_value 0 (dec n) = Some n"
proof (induction n rule: less_induct)
  case (less n)
  show ?case
  proof (cases "n < 10")
    case True
    then show ?thesis by (simp add: radix.simps [of 10 n] digit_value_digit)
  next
    case False
    then have "digits_value 0 (dec (n div 10)) = Some (n div 10)" by (intro less) simp
    then show ?thesis using False digit_value_digit [of "n mod 10"]
      by (simp add: radix.simps [of 10 n] digits_value_append)
  qed
qed

lemma dec_chars: "c \<in> set (dec n) \<Longrightarrow> \<exists>d<10. c = digit d"
proof (induction n rule: less_induct)
  case (less n)
  show ?case
  proof (cases "n < 10")
    case True
    then show ?thesis using less.prems by (auto simp: radix.simps [of 10 n])
  next
    case False
    then consider "c = digit (n mod 10)" | "c \<in> set (dec (n div 10))"
      using less.prems by (auto simp: radix.simps [of 10 n])
    then show ?thesis
    proof cases
      case 1
      then show ?thesis by (intro exI [of _ "n mod 10"]) simp
    next
      case 2
      then show ?thesis using less.IH [of "n div 10"] False by simp
    qed
  qed
qed

lemma dec_not [simp]: "dec n \<noteq> []"
  by (simp add: radix.simps [of 10 n])

lemma digit_facts:
  assumes "d < 10"
  shows "\<not> is_space (digit d)" "lower [digit d] = [digit d]" "digit d \<notin> set ''+,=kmgtp''"
  using assms by (auto simp: less_Suc_eq numeral_eq_Suc digit_def is_space_def lower_def)

lemma dec_facts:
  "c \<in> set (dec n) \<Longrightarrow> \<not> is_space c" "lower (dec n) = dec n" "c \<in> set ''+,=kmgtp'' \<Longrightarrow> c \<notin> set (dec n)"
proof -
  show "c \<in> set (dec n) \<Longrightarrow> \<not> is_space c" "c \<in> set ''+,=kmgtp'' \<Longrightarrow> c \<notin> set (dec n)"
    using dec_chars [of c n] digit_facts(1,3) by blast+
  have "\<forall>x\<in>set (dec n). lower [x] = [x]" using dec_chars [of _ n] digit_facts(2) by metis
  then have "\<forall>x\<in>set (dec n). (if 65 \<le> (of_char x :: nat) \<and> of_char x \<le> (90 :: nat) then char_of (of_char x + 32 :: nat) else x) = x"
    by (simp add: lower_def)
  then show "lower (dec n) = dec n" unfolding lower_def by (simp cong: map_cong)
qed

lemma trim_none: "s \<noteq> [] \<Longrightarrow> \<not> is_space (hd s) \<Longrightarrow> \<not> is_space (List.last s) \<Longrightarrow> trim s = s"
proof -
  assume s: "s \<noteq> []" "\<not> is_space (hd s)" "\<not> is_space (List.last s)"
  have keep: "dropWhile is_space x = x" if "x \<noteq> []" "\<not> is_space (hd x)" for x using that by (cases x) simp_all
  show "trim s = s" using s keep [of s] keep [of "rev s"] by (simp add: trim_def hd_rev)
qed

lemma parse_dec: "n < 2 ^ w \<Longrightarrow> parse_unsigned w (dec n) = Some n"
proof -
  assume n: "n < 2 ^ w"
  have "(case dec n of c # c' # cs \<Rightarrow> if c = CHR ''+'' then c' # cs else dec n | _ \<Rightarrow> dec n) = dec n"
    using dec_facts(3) [of "CHR ''+''" n] by (auto split: list.split)
  then show ?thesis using n by (simp add: parse_unsigned_def digits_value_dec)
qed

definition suffixes :: "(char \<times> nat) list" where
  "suffixes = [(CHR ''k'', 10), (CHR ''m'', 20), (CHR ''g'', 30), (CHR ''t'', 40), (CHR ''p'', 50)]"

lemma suffix_facts:
  assumes "(c, k) \<in> set suffixes"
  shows "\<not> is_space c" "lower [c] = [c]" "size_suffix (s @ [c]) = (s, k)"
  using assms by (auto simp: suffixes_def is_space_def lower_def size_suffix_def)

lemma size_suffix_dec: "size_suffix (dec n) = (dec n, 0)"
proof -
  obtain c cs where r: "rev (dec n) = c # cs" by (cases "rev (dec n)") auto
  then have "c \<in> set (dec n)" by (metis list.set_intros(1) set_rev)
  then have "c \<notin> set ''+,=kmgtp''" using dec_facts(3) by blast
  then show ?thesis by (simp add: size_suffix_def r)
qed

lemma dec_ends: "\<not> is_space (hd (dec n))" "\<not> is_space (List.last (dec n))"
  using dec_facts(1) [OF hd_in_set [OF dec_not]] dec_facts(1) [OF last_in_set [OF dec_not]] by blast+

lemma parse_size_dec: "n < 2 ^ 64 \<Longrightarrow> parse_size (dec n) = Inr n"
  by (simp add: parse_size_def trim_none dec_ends dec_facts(2) size_suffix_dec parse_dec)

lemma split_on_none: "c \<notin> set s \<Longrightarrow> split_on c s = [s]"
  by (induction s) auto

lemma subopts_one:
  assumes "CHR '','' \<notin> set k" "CHR ''='' \<notin> set k" "CHR '','' \<notin> set v"
  shows "subopts [k @ ''='' @ v] = [(k, v)]"
proof -
  have "split_on (CHR '','') (k @ ''='' @ v) = [k @ ''='' @ v]" using assms(1,3) by (intro split_on_none) auto
  moreover have "split_once (CHR ''='') (k @ ''='' @ v) = Some (k, v)"
    using assms(2) by (auto simp: split_once_def takeWhile_tail dropWhile_append)
  ultimately show ?thesis by (simp add: subopts_def)
qed

section \<open>Properties\<close>

text \<open>
  \<^bold>\<open>C19\<close>. A size is read exactly or refused: a decimal number of 64 bits is that many bytes, with a suffix it is
  multiplied by the power of two of the suffix, and when the product does not fit 64 bits the size is refused as an overflow. No
  argument at all yields a size of more than 64 bits.
\<close>

theorem parse_size_exact:
  assumes "n < 2 ^ 64" "(c, k) \<in> set suffixes"
  shows "parse_size (dec n) = Inr n \<and>
    parse_size (dec n @ [c]) = (if n * 2 ^ k < 2 ^ 64 then Inr (n * 2 ^ k) else Inl (SizeOverflows (dec n @ [c]))) \<and>
    (\<forall>s m. parse_size s = Inr m \<longrightarrow> m < 2 ^ 64)"
proof (intro conjI allI impI)
  note f = suffix_facts [OF assms(2)]
  show "parse_size (dec n) = Inr n" by (rule parse_size_dec [OF assms(1)])
  have "trim (dec n @ [c]) = dec n @ [c]" using dec_ends(1) f(1) by (intro trim_none) (simp_all add: hd_append)
  moreover have "lower (dec n @ [c]) = dec n @ [c]" using dec_facts(2) [of n] f(2) by (simp add: lower_def)
  ultimately show "parse_size (dec n @ [c]) = (if n * 2 ^ k < 2 ^ 64 then Inr (n * 2 ^ k) else Inl (SizeOverflows (dec n @ [c])))"
    using f(3) parse_dec [OF assms(1)] by (simp add: parse_size_def)
  show "m < 2 ^ 64" if "parse_size s = Inr m" for s m
    using that by (auto simp: parse_size_def Let_def split: prod.splits option.splits if_splits)
qed

theorem parse_size_exact_witness:
  "parse_size ''512m'' = Inr (512 * 2 ^ 20) \<and> parse_size ''20000000000000000000'' = Inl (BadSize ''20000000000000000000'')"
proof -
  have "dec 512 = ''512''" by (simp add: radix.simps digit_def)
  then have "parse_size ''512m'' = Inr (512 * 2 ^ 20)"
    using parse_size_exact [of 512 "CHR ''m''" 20] by (simp add: suffixes_def)
  moreover have "parse_size ''20000000000000000000'' = Inl (BadSize ''20000000000000000000'')"
    by (simp add: parse_size_def parse_unsigned_def trim_def is_space_def lower_def size_suffix_def digit_value_def)
  ultimately show ?thesis by blast
qed

text \<open>
  \<^bold>\<open>C20\<close>. A block size of more than 32 bits is not refused but cut to its low 32 bits: \<^verbatim>\<open>-b size=\<close>\<open>n\<close> asks for
  \<open>n mod 2 ^ 32\<close>, so that \<open>2 ^ 32 + 4096\<close> is taken as 4096 and formats as if nothing had been wrong.
\<close>

theorem block_size_truncated:
  assumes "n < 2 ^ 64"
  shows "cli_params uuid_of
      \<lparr>cli_block = [''size='' @ dec n], cli_data = [], cli_inode = [], cli_meta = [], cli_sector = [], cli_label = None\<rparr> =
    Inr (with_block_size (n mod 2 ^ 32) params_new)"
proof -
  have "CHR '','' \<notin> set (dec n)" by (rule dec_facts(3)) simp
  then have "subopts [''size='' @ dec n] = [(''size'', dec n)]" using subopts_one [of "''size''" "dec n"] by simp
  moreover have "subopts [] = []" by (simp add: subopts_def)
  ultimately show ?thesis
    using parse_size_dec [OF assms]
    by (simp add: cli_params_def block_opt_def with_block_size_def as_u32_def params_new_def)
qed

theorem block_size_truncated_witness:
  "cli_params (\<lambda>_. None)
      \<lparr>cli_block = [''size='' @ dec 4294971392], cli_data = [], cli_inode = [], cli_meta = [], cli_sector = [], cli_label = None\<rparr> =
    Inr (with_block_size 4096 params_new)"
  using block_size_truncated [of 4294971392 "\<lambda>_. None"] by simp

end
