(* ===== verification/Mkfs_Main.thy ===== *)
theory Mkfs_Main
  imports Mkfs_Cli File_Format Inspect
begin

unbundle bit_operations_syntax

section \<open>The \<^verbatim>\<open>mkfs-xfs\<close> command (\<^verbatim>\<open>src/bin/mkfs_xfs.rs\<close>)\<close>

text \<open>
  What \<^verbatim>\<open>main\<close> does with the options that \<^verbatim>\<open>clap\<close> has read: the parameters first, then the device, opened or created,
  then the geometry alone or the format, and the lines printed. \<open>opens\<close> and \<open>creates\<close> are the answers of the
  system to opening a path and to creating or truncating it; \<open>clock\<close> is the time since the epoch that it gives. \<open>force\<close> is
  read and ignored.
\<close>

record mkfs_cli = cli +
  cli_dry_run :: bool
  cli_quiet :: bool
  cli_force :: bool
  cli_create :: "string option"
  cli_device :: string

datatype mkfs_error = BadOption cli_error | MkfsFailed error

definition bad_option :: "cli_error + 'a \<Rightarrow> mkfs_error + 'a" where
  "bad_option r = (case r of Inl e \<Rightarrow> Inl (BadOption e) | Inr x \<Rightarrow> Inr x)"

definition mkfs_failed :: "error + 'a \<Rightarrow> mkfs_error + 'a" where
  "mkfs_failed r = (case r of Inl e \<Rightarrow> Inl (MkfsFailed e) | Inr x \<Rightarrow> Inr x)"

definition mkfs_device ::
  "'f os_ops \<Rightarrow> (string \<Rightarrow> 'f option) \<Rightarrow> (string \<Rightarrow> 'f option) \<Rightarrow> mkfs_cli \<Rightarrow> mkfs_error + 'f file_device" where
  "mkfs_device os opens creates c =
     (case cli_create c of
        Some sz \<Rightarrow> and_then (bad_option (parse_size sz)) (\<lambda>n. mkfs_failed (fd_create os (creates (cli_device c)) n))
      | None \<Rightarrow> mkfs_failed (fd_open os (opens (cli_device c))))"

definition mkfs_main ::
  "'f os_ops \<Rightarrow> (string \<Rightarrow> bytes option) \<Rightarrow> bytes \<Rightarrow> (nat \<times> nat) option \<Rightarrow> u64 \<Rightarrow> nat list \<Rightarrow>
   (string \<Rightarrow> 'f option) \<Rightarrow> (string \<Rightarrow> 'f option) \<Rightarrow> mkfs_cli \<Rightarrow> mkfs_error + 'f file_device \<times> string list" where
  "mkfs_main os uuid_of new_uuid clock new_seed order opens creates c =
     and_then (bad_option (cli_params uuid_of c)) (\<lambda>p.
     and_then (mkfs_device os opens creates c) (\<lambda>dev.
     if cli_dry_run c
     then and_then (mkfs_failed (compute p (fd_size dev) (fd_logical dev) (fd_physical dev))) (\<lambda>g.
          Inr (dev, report_lines g (cli_device c)))
     else and_then (mkfs_failed (format (file_ops os) p new_uuid (timestamp_now clock) new_seed order dev)) (\<lambda>(dev, r).
          Inr (dev, if cli_quiet c then [] else report_lines (r_geometry r) (cli_device c)))))"

lemma mkfs_simps [simp]:
  "bad_option (Inr x) = Inr x" "bad_option (Inl a) = Inl (BadOption a)" "mkfs_failed (Inr x) = Inr x" "mkfs_failed (Inl e) = Inl (MkfsFailed e)"
  by (simp_all add: bad_option_def mkfs_failed_def)

lemma mkfs_Inr [simp]:
  "bad_option r = Inr x \<longleftrightarrow> r = Inr x" "mkfs_failed s = Inr y \<longleftrightarrow> s = Inr y"
  by (cases r; cases s; simp)+

text \<open>The other switches play no part in the parameters and the device.\<close>

lemma switches_ignored [simp]:
  "cli_params uuid_of (c\<lparr>cli_dry_run := b\<rparr>) = cli_params uuid_of c" "cli_params uuid_of (c\<lparr>cli_quiet := b\<rparr>) = cli_params uuid_of c"
  "mkfs_device os opens creates (c\<lparr>cli_dry_run := b\<rparr>) = mkfs_device os opens creates c"
  "mkfs_device os opens creates (c\<lparr>cli_quiet := b\<rparr>) = mkfs_device os opens creates c"
  by (simp_all add: cli_params_def mkfs_device_def split: option.split)

text \<open>A format that draws its UUID is the format with that UUID asked for.\<close>

lemma format_drawn_uuid:
  "format D p new_uuid now new_seed order d =
   format D (p\<lparr>p_uuid := Some (case p_uuid p of Some u \<Rightarrow> u | None \<Rightarrow> new_uuid)\<rparr>) new_uuid now new_seed order d"
  by (simp add: format_def compute_uuid)

context os_file
begin

lemma file_format_read:
  assumes "fd_good intact extent d" "compute p (fd_size d) (fd_logical d) (fd_physical d) = Inr g" "p_agcount p = None \<or> agcount g \<le> agsize g"
    and "group_start g (logagno g) + min_freelist g \<le> ag_blocks g (logagno g)"
    and "p_uuid p = Some uuid" "length uuid = 16" "mset order = mset [0..<agcount g]"
  shows "\<exists>d' plans. format (file_ops os) p new_uuid now new_seed order d =
      Inr (d', \<lparr>r_geometry = g, r_uuid = uuid, r_rootino = of_nat (rootino g), r_fdblocks = total_fdblocks plans\<rparr>) \<and>
    try_map (plan_ag g) [0..<agcount g] = Inr plans \<and> fd_good intact extent d' \<and> fd_size d' = fd_size d \<and>
    format_ready (file_ops os) fd_sector d' g plans uuid order \<and>
    fd_content stored d' = format_image (fd_size d) g plans uuid
      (case p_time p of Some t \<Rightarrow> t | None \<Rightarrow> now) (case p_gen_seed p of Some s \<Rightarrow> s | None \<Rightarrow> new_seed) order (fd_content stored d) \<and>
    inspect_geometry (file_ops os) d' = Inr (geo_of g)"
proof -
  obtain d' plans where d': "format (file_ops os) p new_uuid now new_seed order d =
      Inr (d', \<lparr>r_geometry = g, r_uuid = uuid, r_rootino = of_nat (rootino g), r_fdblocks = total_fdblocks plans\<rparr>)"
    "try_map (plan_ag g) [0..<agcount g] = Inr plans" "fd_good intact extent d'"
    "fd_content stored d' = format_image (fd_size d) g plans uuid
      (case p_time p of Some t \<Rightarrow> t | None \<Rightarrow> now) (case p_gen_seed p of Some s \<Rightarrow> s | None \<Rightarrow> new_seed) order (fd_content stored d)"
    using file_format_done [OF assms] by blast
  have "compute p (dev_size (file_ops os) d) (dev_logical (file_ops os) d) (dev_physical (file_ops os) d) = Inr g"
    using assms(2) by simp
  moreover have "fd_sector d dvd bs g" by simp
  ultimately obtain plans' where r: "format_ready (file_ops os) fd_sector d g plans' uuid order"
    using dev.accepted_ready [OF assms(1) _ assms(3,4,6,7)] by blast
  have "plans' = plans" using r d'(2) by (simp add: format_ready_def)
  have "same_device (file_ops os) fd_sector d d'"
    by (rule dev.format_keeps_device [OF assms(1) d'(1) assms(5)]) (simp, rule r)
  then have s: "fd_size d' = fd_size d" by (simp add: same_device_def)
  have "inspect_geometry (file_ops os) d' = Inr (geo_of g)"
  proof (rule dev.geometry_found [OF d'(3) ready_geometry(1) [OF r]])
    show "has_primary g (finished_sb g uuid plans') (fd_content stored d')"
      unfolding d'(4) \<open>plans' = plans\<close> by (rule image_primary [OF r [unfolded \<open>plans' = plans\<close>]])
    show "accepts (file_ops os) fd_sector d' 0 (min (max (dev_logical (file_ops os) d') 512) (dev_size (file_ops os) d'))"
      by (simp add: accepts_def)
    have "1 * bs g \<le> dblocks g * bs g" using geometry_okD(13,18) [OF ready_geometry(1) [OF r]] by (intro mult_le_mono1) linarith
    then have "bs g \<le> fd_size d" using ready_geometry(4) [OF r] unfolding mult_1 file_ops_simps by (rule order_trans)
    then show "512 \<le> dev_size (file_ops os) d'" using head_sizes(3) [OF ready_geometry(1) [OF r]] s by simp
  qed
  moreover have "format_ready (file_ops os) fd_sector d' g plans uuid order"
    using r s \<open>plans' = plans\<close> by (simp add: format_ready_def)
  ultimately show ?thesis using d' s by blast
qed

end

subsection \<open>Creating a file\<close>

lemma create_formats:
  assumes "os_file os intact stored extent" "\<not> cli_dry_run c" "cli_create c = Some sz" "parse_size sz = Inr n"
    and "creates (cli_device c) = Some f0" "os_set_len os f0 n = Some f" "intact f" "extent f = n" "n \<le> 2 ^ 63"
    and "cli_params uuid_of c = Inr p" "compute p n 512 512 = Inr g" "p_agcount p = None \<or> agcount g \<le> agsize g"
    and "group_start g (logagno g) + min_freelist g \<le> ag_blocks g (logagno g)"
    and "uuid = (case p_uuid p of Some u \<Rightarrow> u | None \<Rightarrow> new_uuid)" "length uuid = 16" "mset order = mset [0..<agcount g]"
  shows "\<exists>d plans. mkfs_main os uuid_of new_uuid clock new_seed order opens creates c =
      Inr (d, if cli_quiet c then [] else report_lines g (cli_device c)) \<and>
    try_map (plan_ag g) [0..<agcount g] = Inr plans \<and> fd_good intact extent d \<and> fd_size d = n \<and>
    format_ready (file_ops os) fd_sector d g plans uuid order \<and>
    fd_content stored d = format_image n g plans uuid (case p_time p of Some t \<Rightarrow> t | None \<Rightarrow> timestamp_now clock)
      (case p_gen_seed p of Some s \<Rightarrow> s | None \<Rightarrow> new_seed) order (stored f) \<and>
    inspect_geometry (file_ops os) d = Inr (geo_of g)"
proof -
  define d0 where "d0 = \<lparr>fd_file = f, fd_size = n, fd_logical = 512, fd_physical = 512, fd_regular = True\<rparr>"
  have good: "fd_good intact extent d0" using assms(7-9) by (simp add: fd_good_def d0_def)
  have c: "mkfs_device os opens creates c = Inr d0" using assms(3-6) by (simp add: mkfs_device_def fd_create_def io_result_def d0_def)
  have g: "compute (p\<lparr>p_uuid := Some uuid\<rparr>) (fd_size d0) (fd_logical d0) (fd_physical d0) = Inr g"
    using assms(11) by (simp add: compute_uuid d0_def)
  have a: "p_agcount (p\<lparr>p_uuid := Some uuid\<rparr>) = None \<or> agcount g \<le> agsize g" using assms(12) by simp
  have u: "p_uuid (p\<lparr>p_uuid := Some uuid\<rparr>) = Some uuid" by simp
  note r = os_file.file_format_read [OF assms(1) good g a assms(13) u assms(15,16), of new_uuid "timestamp_now clock" new_seed,
      folded format_drawn_uuid [of _ p new_uuid, folded assms(14)]]
  then show ?thesis using assms(2,10) c by (force simp: mkfs_main_def d0_def fd_content_def)
qed

subsection \<open>The defaults\<close>

text \<open>The log that the default parameters choose leaves room for the free list of its group.\<close>

lemma default_geometry:
  assumes "300 * 2 ^ 20 \<le> n" "n < 2 ^ 64"
  obtains g where "compute params_new n 512 512 = Inr g" "4 \<le> agcount g"
    "group_start g (logagno g) + min_freelist g \<le> ag_blocks g (logagno g)"
proof -
  obtain g where g: "compute params_new n 512 512 = Inr g" "4 \<le> agcount g" "prealloc_blocks g + logblocks g + 6 \<le> agsize g"
    by (rule compute_default [OF assms])
  note ok = compute_geometry(1) [OF g(1) assms(2)]
  have l: "logagno g = agcount g div 2" and m: "agcount g \<le> MAX_AGNUMBER" using ok unfolding geometry_ok_def by blast+
  have "sub64 (agcount g) 1 = agcount g - 1" using g(2) m by (intro nowrap) (simp_all add: MAX_AGNUMBER_def)
  moreover have "agcount g div 2 < agcount g - 1" using g(2) by linarith
  ultimately have "ag_blocks g (logagno g) = agsize g" by (simp add: ag_blocks_def l)
  then show thesis using g min_freelist_bounds(2) [of g] by (intro that [OF g(1,2)]) (simp add: group_start_def)
qed

definition sample_cli :: mkfs_cli where
  "sample_cli = \<lparr>cli_block = [], cli_data = [], cli_inode = [], cli_meta = [], cli_sector = [], cli_label = None, cli_dry_run = False,
     cli_quiet = False, cli_force = False, cli_create = Some ''512m'', cli_device = ''disk''\<rparr>"

lemma sample_cli_simps [simp]:
  "cli_dry_run sample_cli = False" "cli_quiet sample_cli = False" "cli_create sample_cli = Some ''512m''" "cli_device sample_cli = ''disk''"
  by (simp_all add: sample_cli_def)

lemma sample_cli_facts:
  "parse_size ''512m'' = Inr (512 * 2 ^ 20)" "cli_params (\<lambda>_. None) sample_cli = Inr params_new"
  "mem_intact (md_new (512 * 2 ^ 20))" "md_size (md_new (512 * 2 ^ 20)) = 512 * 2 ^ 20"
  "os_set_len mem_os (md_new 0) (512 * 2 ^ 20) = Some (md_new (512 * 2 ^ 20))"
proof -
  show "parse_size ''512m'' = Inr (512 * 2 ^ 20)"
    by (simp add: parse_size_def trim_def is_space_def lower_def size_suffix_def parse_unsigned_def digit_value_def)
  show "cli_params (\<lambda>_. None) sample_cli = Inr params_new" by (simp add: cli_params_def sample_cli_def subopts_def params_new_def)
  show "mem_intact (md_new (512 * 2 ^ 20))" using md_new_good by (simp add: mem_intact_def md_new_def md_with_sector_size_def)
qed (simp_all add: md_new_def md_with_sector_size_def mem_os_def)

subsection \<open>The other ends of the command\<close>

text \<open>A geometry whose log leaves no room for the free list of its group is refused, whatever the order.\<close>

lemma plans_refused:
  assumes "geometry_ok g" "tiles g" "\<not> group_start g (logagno g) + min_freelist g \<le> ag_blocks g (logagno g)"
  shows "try_map (plan_ag g) [0..<agcount g] = Inl (InvalidParams (NoSpaceForFreeList (logagno g)))"
proof -
  have one: "plan_ag g a = Inl (InvalidParams (NoSpaceForFreeList (logagno g)))" if "a = logagno g" "a < agcount g" for a
    using plan_ag_result [OF assms(1,2) that(2)] assms(3) that(1) by simp
  have other: "\<exists>p. plan_ag g a = Inr p" if "a \<noteq> logagno g" "a < agcount g" for a
    using plan_ag_result [OF assms(1,2) that(2)] group_start_small(2) [OF assms(1,2) that(2)] min_freelist_bounds(2) [of g] that(1)
    by (auto split: if_split_asm)
  have l: "logagno g < agcount g" using geometry_okD(15,23) [OF assms(1)] by simp
  have "try_map (plan_ag g) xs = Inl (InvalidParams (NoSpaceForFreeList (logagno g)))"
    if "logagno g \<in> set xs" "set xs \<subseteq> {..<agcount g}" for xs
    using that
  proof (induction xs)
    case (Cons a xs)
    then show ?case
    proof (cases "a = logagno g")
      case True
      then show ?thesis using one [OF True] Cons.prems by simp
    next
      case False
      then obtain p where "plan_ag g a = Inr p" using other Cons.prems by auto
      then show ?thesis using Cons False by simp
    qed
  qed simp
  from this [of "[0..<agcount g]"] show ?thesis using l by (simp add: atLeast0LessThan)
qed

lemma create_refused:
  assumes "\<not> cli_dry_run c" "cli_create c = Some sz" "parse_size sz = Inr n" "creates (cli_device c) = Some h" "os_set_len os h n = Some f"
    and "cli_params uuid_of c = Inr p" "compute p n 512 512 = Inr g" "n < 2 ^ 64" "p_agcount p = None \<or> agcount g \<le> agsize g"
    and "\<not> group_start g (logagno g) + min_freelist g \<le> ag_blocks g (logagno g)"
  shows "mkfs_main os uuid_of new_uuid clock new_seed order opens creates c =
    Inl (MkfsFailed (InvalidParams (NoSpaceForFreeList (logagno g))))"
proof -
  note c = compute_geometry [OF assms(7,8)]
  have "tiles g" using c(4) assms(9) by blast
  then show ?thesis
    using plans_refused [OF c(1) _ assms(10)] assms(1-7)
    by (simp add: mkfs_main_def mkfs_device_def fd_create_def io_result_def format_def)
qed

text \<open>The UUID in the parameters is one that the option argument named.\<close>

lemma try_fold_keeps_uuid:
  assumes "\<And>x s s'. f x s = Inr s' \<Longrightarrow> p_uuid s' = p_uuid s" "try_fold f xs p = Inr p'"
  shows "p_uuid p' = p_uuid p"
  using try_fold_invariant [of f xs p p' "\<lambda>q. p_uuid q = p_uuid p"] assms by metis

lemma cli_params_uuid:
  assumes "cli_params uuid_of c = Inr p" "p_uuid p = Some u"
  obtains t where "uuid_of t = Some u"
proof -
  have keeps: "block_opt x s = Inr s' \<Longrightarrow> p_uuid s' = p_uuid s" "sector_opt x s = Inr s' \<Longrightarrow> p_uuid s' = p_uuid s"
    "data_opt x s = Inr s' \<Longrightarrow> p_uuid s' = p_uuid s" "inode_opt x s = Inr s' \<Longrightarrow> p_uuid s' = p_uuid s" for x s s'
    by (cases x; auto simp: block_opt_def sector_opt_def data_opt_def inode_opt_def and_then_eq_Inr split: if_splits)+
  obtain p1 p2 p3 p4 p5 where f: "try_fold block_opt (subopts (cli_block c)) params_new = Inr p1"
    "try_fold sector_opt (subopts (cli_sector c)) p1 = Inr p2" "try_fold data_opt (subopts (cli_data c)) p2 = Inr p3"
    "try_fold inode_opt (subopts (cli_inode c)) p3 = Inr p4" "try_fold (meta_opt uuid_of) (subopts (cli_meta c)) p4 = Inr p5"
    and p: "p = p5\<lparr>p_label := map_option string_bytes (cli_label c)\<rparr>"
    using assms(1) by (auto simp: cli_params_def and_then_eq_Inr)
  have "p_uuid p4 = None"
    using try_fold_keeps_uuid [OF keeps(1) f(1)] try_fold_keeps_uuid [OF keeps(2) f(2)] try_fold_keeps_uuid [OF keeps(3) f(3)]
      try_fold_keeps_uuid [OF keeps(4) f(4)]
    by (simp add: params_new_def)
  moreover have "meta_opt uuid_of x s = Inr s' \<Longrightarrow> p_uuid s' = p_uuid s \<or> (\<exists>t. p_uuid s' = uuid_of t)" for x s s'
    by (cases x) (auto simp: meta_opt_def parse_uuid_def Let_def and_then_eq_Inr split: if_splits option.splits, metis)
  ultimately have "p_uuid p5 = None \<or> (\<exists>t. p_uuid p5 = uuid_of t)"
    using try_fold_invariant [OF f(5), of "\<lambda>q. p_uuid q = None \<or> (\<exists>t. p_uuid q = uuid_of t)"] by metis
  then show thesis using that p assms(2) by force
qed

section \<open>Properties\<close>

text \<open>
  \<^bold>\<open>C9\<close>. \<^verbatim>\<open>mkfs-xfs --create\<close> from the command line to the disk, in every case but that of more groups asked for than
  blocks in a group. Options or a size that do not parse are reported as such; a file that
  cannot be created or given its size is an error at offset 0; parameters that \<^verbatim>\<open>compute\<close> refuses end with its error.
  An accepted geometry is formatted when the group of the log keeps room for its free list, and otherwise the command fails with
  the error that names this group (as \<^verbatim>\<open>--create 200g -d agsize=65m\<close> does). A format gives a file of exactly the size
  asked for that holds the image of the format, in whose content the reader finds the geometry, and prints the
  report of that geometry, or nothing with \<^verbatim>\<open>-q\<close>.
\<close>

theorem create_formats_file:
  assumes "os_file os intact stored extent" "\<not> cli_dry_run c" "cli_create c = Some sz"
    and system: "\<And>h n f. parse_size sz = Inr n \<Longrightarrow> creates (cli_device c) = Some h \<Longrightarrow> os_set_len os h n = Some f \<Longrightarrow>
      intact f \<and> extent f = n \<and> n \<le> 2 ^ 63"
    and uuids: "length new_uuid = 16" "\<And>t u. uuid_of t = Some u \<Longrightarrow> length u = 16"
    and run: "run = mkfs_main os uuid_of new_uuid clock new_seed order opens creates c"
  shows "case cli_params uuid_of c of Inl e \<Rightarrow> run = Inl (BadOption e) | Inr p \<Rightarrow>
    (case parse_size sz of Inl e \<Rightarrow> run = Inl (BadOption e) | Inr n \<Rightarrow>
    (case creates (cli_device c) of None \<Rightarrow> run = Inl (MkfsFailed (Io 0)) | Some h \<Rightarrow>
    (case os_set_len os h n of None \<Rightarrow> run = Inl (MkfsFailed (Io 0)) | Some f \<Rightarrow>
    (case compute p n 512 512 of Inl e \<Rightarrow> run = Inl (MkfsFailed e) | Inr g \<Rightarrow>
     (p_agcount p = None \<or> agcount g \<le> agsize g) \<longrightarrow> mset order = mset [0..<agcount g] \<longrightarrow>
     (if group_start g (logagno g) + min_freelist g \<le> ag_blocks g (logagno g)
      then \<exists>d plans. run = Inr (d, if cli_quiet c then [] else report_lines g (cli_device c)) \<and>
        try_map (plan_ag g) [0..<agcount g] = Inr plans \<and> fd_size d = n \<and>
        fd_content stored d = format_image n g plans (case p_uuid p of Some u \<Rightarrow> u | None \<Rightarrow> new_uuid)
          (case p_time p of Some t \<Rightarrow> t | None \<Rightarrow> timestamp_now clock)
          (case p_gen_seed p of Some s \<Rightarrow> s | None \<Rightarrow> new_seed) order (stored f) \<and>
        inspect_geometry (file_ops os) d = Inr (geo_of g)
      else run = Inl (MkfsFailed (InvalidParams (NoSpaceForFreeList (logagno g)))))))))"
proof (cases "cli_params uuid_of c")
  case (Inr p)
  note prm = this
  show ?thesis
  proof (cases "parse_size sz")
    case (Inr n)
    note n = this
    show ?thesis
    proof (cases "and_then (io_result 0 (creates (cli_device c))) (\<lambda>h. io_result 0 (os_set_len os h n))")
      case (Inl e)
      then show ?thesis using assms(2,3) prm n
        by (auto simp: run mkfs_main_def mkfs_device_def fd_create_def io_result_def split: option.splits)
    next
      case (Inr f)
      then obtain h where h: "creates (cli_device c) = Some h" "os_set_len os h n = Some f"
        by (auto simp: io_result_def and_then_eq_Inr split: option.splits)
      note f = system [OF n h]
      have u: "length (case p_uuid p of Some u \<Rightarrow> u | None \<Rightarrow> new_uuid) = 16"
        using uuids by (cases "p_uuid p") (auto elim: cli_params_uuid [OF prm])
      show ?thesis
      proof (cases "compute p n 512 512")
        case (Inl e)
        then show ?thesis using prm n h assms(2,3) by (simp add: run mkfs_main_def mkfs_device_def fd_create_def io_result_def format_def)
      next
        case (Inr g)
        note g = this
        have n64: "n < 2 ^ 64" using f by simp
        note refused = create_refused [where uuid_of = uuid_of and order = order and new_uuid = new_uuid and creates = creates and clock = clock and new_seed = new_seed and opens = opens,
          OF assms(2,3) n h prm g n64, folded run]
        have made: "\<exists>d plans. run = Inr (d, if cli_quiet c then [] else report_lines g (cli_device c)) \<and>
            try_map (plan_ag g) [0..<agcount g] = Inr plans \<and> fd_size d = n \<and>
            fd_content stored d = format_image n g plans (case p_uuid p of Some u \<Rightarrow> u | None \<Rightarrow> new_uuid)
              (case p_time p of Some t \<Rightarrow> t | None \<Rightarrow> timestamp_now clock)
              (case p_gen_seed p of Some s \<Rightarrow> s | None \<Rightarrow> new_seed) order (stored f) \<and>
            inspect_geometry (file_ops os) d = Inr (geo_of g)"
          if "p_agcount p = None \<or> agcount g \<le> agsize g" "mset order = mset [0..<agcount g]"
            "group_start g (logagno g) + min_freelist g \<le> ag_blocks g (logagno g)"
          unfolding run
          using create_formats [where uuid_of = uuid_of and creates = creates and clock = clock and new_seed = new_seed and opens = opens,
              OF assms(1-3) n h _ _ _ prm g that(1,3) refl u that(2)] f
          by blast
        show ?thesis
          unfolding prm n h g sum.case option.case by (intro impI) (use made refused in presburger)
      qed
    qed
  qed (use prm assms(2,3) in \<open>simp add: run mkfs_main_def mkfs_device_def\<close>)
qed (simp add: run mkfs_main_def)

theorem create_formats_file_witness:
  "(\<exists>d. mkfs_main mem_os (\<lambda>_. None) (replicate 16 9) None 42 [3, 1, 0, 2] (\<lambda>_. None) (\<lambda>_. Some (md_new 0)) sample_cli =
       Inr (d, report_lines geometry_512m ''disk'') \<and>
     fd_size d = 512 * 2 ^ 20 \<and> inspect_geometry (file_ops mem_os) d = Inr (geo_of geometry_512m)) \<and>
   mkfs_main mem_os (\<lambda>_. None) (replicate 16 9) None 42 [0..<3151] (\<lambda>_. None) (\<lambda>_. Some (md_new 0))
       (sample_cli\<lparr>cli_create := Some ''200g'', cli_data := [''agsize=65m'']\<rparr>) =
     Inl (MkfsFailed (InvalidParams (NoSpaceForFreeList 1575)))"
proof
  have len: "os_set_len mem_os h n = Some f \<Longrightarrow> n \<le> 2 ^ 63 \<Longrightarrow> mem_intact f \<and> md_size f = n \<and> n \<le> 2 ^ 63" for h n f
    using md_new_good [of n] by (auto simp: mem_os_def mem_intact_def md_new_def md_with_sector_size_def)
  have set: "os_set_len mem_os h n = Some (md_new n)" for h n by (simp add: mem_os_def)
  note T = create_formats_file [where creates = "\<lambda>_. Some (md_new 0)" and new_uuid = "replicate 16 9" and clock = None and new_seed = 42
    and opens = "\<lambda>_. None" and uuid_of = "\<lambda>_. None", OF memfile.os_file_axioms _ _ len]
  show "\<exists>d. mkfs_main mem_os (\<lambda>_. None) (replicate 16 9) None 42 [3, 1, 0, 2] (\<lambda>_. None) (\<lambda>_. Some (md_new 0)) sample_cli =
       Inr (d, report_lines geometry_512m ''disk'') \<and>
     fd_size d = 512 * 2 ^ 20 \<and> inspect_geometry (file_ops mem_os) d = Inr (geo_of geometry_512m)"
  proof -
    have p: "p_agcount params_new = None" by (simp add: params_new_def)
    show ?thesis
      using T [of sample_cli "''512m''", OF _ _ _ _ _ _ refl, of _ "[3, 1, 0, 2]"] sample_cli_facts(1,2) compute_512m sample_log_group sample_facts(10)
      by (auto simp: set p simp del: mset_upt One_nat_def)
  qed
  have size: "parse_size ''200g'' = Inr (200 * 2 ^ 30)" "parse_size ''65m'' = Inr (65 * 2 ^ 20)"
    by (simp_all add: parse_size_def trim_def is_space_def lower_def size_suffix_def parse_unsigned_def digit_value_def)
  let ?c = "sample_cli\<lparr>cli_create := Some ''200g'', cli_data := [''agsize=65m'']\<rparr>"
  have prm: "cli_params (\<lambda>_. None) ?c = Inr tight_params"
    using size(2) by (simp add: cli_params_def sample_cli_def subopts_def split_once_def data_opt_def params_new_def tight_params_def)
  show "mkfs_main mem_os (\<lambda>_. None) (replicate 16 9) None 42 [0..<3151] (\<lambda>_. None) (\<lambda>_. Some (md_new 0)) ?c =
     Inl (MkfsFailed (InvalidParams (NoSpaceForFreeList 1575)))"
  proof -
    obtain g where g: "compute tight_params (200 * 2 ^ 30) 512 512 = Inr g"
      "agcount g = 3151" "agsize g = 16640" "logagno g = 1575" "logblocks g = 16628" "prealloc_blocks g = 7"
      "features g = default_features"
      by (rule tight_geometry)
    have ok: "geometry_ok g" "tiles g" using compute_geometry(1,4) [OF g(1)] by (simp_all add: tight_params_def params_new_def)
    have "\<not> group_start g (logagno g) + min_freelist g \<le> ag_blocks g (logagno g)"
      using g ag_blocks_eq [OF ok, of "logagno g"] by (simp add: group_start_def min_freelist_def)
    then show ?thesis
      using T [of ?c "''200g''", OF _ _ _ _ _ _ refl, of _ "[0..<3151]"] size(1) prm g
      by (simp add: set del: mset_upt)
  qed
qed

text \<open>
  \<^bold>\<open>C3\<close>. With no options \<^verbatim>\<open>mkfs-xfs --create\<close> works for every size from 300 MiB to the largest file: the default
  parameters give a geometry of four groups or more, the format runs to the end in whatever order the groups are
  written, and the reader finds the geometry in the file.
\<close>

theorem default_mkfs_succeeds:
  assumes "os_file os intact stored extent" "\<not> cli_dry_run c" "cli_create c = Some sz" "parse_size sz = Inr n"
    and "creates (cli_device c) = Some f0" "os_set_len os f0 n = Some f" "intact f" "extent f = n"
    and "300 * 2 ^ 20 \<le> n" "n \<le> 2 ^ 63" "length new_uuid = 16"
    and "cli_block c = []" "cli_data c = []" "cli_inode c = []" "cli_meta c = []" "cli_sector c = []" "cli_label c = None"
  shows "\<exists>g. compute params_new n 512 512 = Inr g \<and> 4 \<le> agcount g \<and>
    (\<forall>order. mset order = mset [0..<agcount g] \<longrightarrow>
      (\<exists>d. mkfs_main os uuid_of new_uuid clock new_seed order opens creates c =
          Inr (d, if cli_quiet c then [] else report_lines g (cli_device c)) \<and>
        fd_size d = n \<and> inspect_geometry (file_ops os) d = Inr (geo_of g)))"
proof -
  have "n < 2 ^ 64" using assms(10) by simp
  then obtain g where g: "compute params_new n 512 512 = Inr g" "4 \<le> agcount g"
    "group_start g (logagno g) + min_freelist g \<le> ag_blocks g (logagno g)"
    by (rule default_geometry [OF assms(9)])
  have p: "cli_params uuid_of c = Inr params_new"
    using assms(12-17) by (simp add: cli_params_def subopts_def params_new_def)
  have q: "p_agcount params_new = None \<or> agcount g \<le> agsize g" "new_uuid = (case p_uuid params_new of Some u \<Rightarrow> u | None \<Rightarrow> new_uuid)"
    by (simp_all add: params_new_def)
  show ?thesis
    using create_formats [where uuid_of = uuid_of and creates = creates and c = c and clock = clock and new_seed = new_seed and opens = opens,
        OF assms(1-8,10) p g(1) q(1) g(3) q(2) assms(11)] g(1,2)
    by blast
qed

theorem default_mkfs_succeeds_witness:
  "\<exists>d. mkfs_main mem_os (\<lambda>_. None) (replicate 16 9) None 42 [3, 1, 0, 2] (\<lambda>_. None) (\<lambda>_. Some (md_new 0)) sample_cli =
       Inr (d, report_lines geometry_512m ''disk'')"
proof -
  have c: "cli_block sample_cli = []" "cli_data sample_cli = []" "cli_inode sample_cli = []" "cli_meta sample_cli = []"
    "cli_sector sample_cli = []" "cli_label sample_cli = None"
    by (simp_all add: sample_cli_def)
  obtain g where g: "compute params_new (512 * 2 ^ 20) 512 512 = Inr g"
    and run: "\<forall>order. mset order = mset [0..<agcount g] \<longrightarrow>
      (\<exists>d. mkfs_main mem_os (\<lambda>_. None) (replicate 16 9) None 42 order (\<lambda>_. None) (\<lambda>_. Some (md_new 0)) sample_cli =
        Inr (d, report_lines g ''disk''))"
    using default_mkfs_succeeds [where creates = "\<lambda>_. Some (md_new 0)" and new_uuid = "replicate 16 9" and clock = None and new_seed = 42
      and opens = "\<lambda>_. None" and uuid_of = "\<lambda>_. None", OF memfile.os_file_axioms _ _ sample_cli_facts(1) _ sample_cli_facts(5,3,4) _ _ _ c]
    by fastforce
  have "g = geometry_512m" using g compute_512m by simp
  then show ?thesis using run sample_facts(10) by blast
qed

text \<open>
  \<^verbatim>\<open>-N\<close> prints what the format would: whenever the command formats, the same command with \<^verbatim>\<open>-N\<close> succeeds, leaves
  the device as it was opened or created, and prints the report that the format prints; and \<^verbatim>\<open>-q\<close> changes nothing but the
  printing.
\<close>

theorem dry_run_reports_format:
  assumes "mkfs_main os uuid_of new_uuid clock new_seed order opens creates c = Inr (d, out)" "\<not> cli_dry_run c" "\<not> cli_quiet c"
  shows "\<exists>d0. mkfs_device os opens creates c = Inr d0 \<and>
    mkfs_main os uuid_of new_uuid clock new_seed order opens creates (c\<lparr>cli_dry_run := True\<rparr>) = Inr (d0, out) \<and>
    mkfs_main os uuid_of new_uuid clock new_seed order opens creates (c\<lparr>cli_quiet := True\<rparr>) = Inr (d, [])"
proof -
  obtain p d0 r where f: "cli_params uuid_of c = Inr p" "mkfs_device os opens creates c = Inr d0"
    "format (file_ops os) p new_uuid (timestamp_now clock) new_seed order d0 = Inr (d, r)"
    "out = report_lines (r_geometry r) (cli_device c)"
    using assms by (auto simp: mkfs_main_def)
  then show ?thesis using format_geometry [OF f(3)] assms(2) by (simp add: mkfs_main_def)
qed

theorem dry_run_reports_format_witness:
  "\<exists>d0 out. mkfs_main mem_os (\<lambda>_. None) (replicate 16 9) None 42 [3, 1, 0, 2] (\<lambda>_. None) (\<lambda>_. Some (md_new 0))
      (sample_cli\<lparr>cli_dry_run := True\<rparr>) = Inr (d0, out) \<and> out = report_lines geometry_512m ''disk''"
proof -
  have "p_agcount params_new = None \<or> agcount geometry_512m \<le> agsize geometry_512m" by (simp add: params_new_def)
  from create_formats [where creates = "\<lambda>_. Some (md_new 0)" and new_uuid = "replicate 16 9" and clock = None and new_seed = 42 and opens = "\<lambda>_. None",
      OF memfile.os_file_axioms _ _ sample_cli_facts(1) _ sample_cli_facts(5,3,4) _ sample_cli_facts(2) compute_512m this
      sample_log_group refl _ sample_facts(10)]
  obtain d where "mkfs_main mem_os (\<lambda>_. None) (replicate 16 9) None 42 [3, 1, 0, 2] (\<lambda>_. None) (\<lambda>_. Some (md_new 0)) sample_cli =
      Inr (d, report_lines geometry_512m ''disk'')"
    by (auto simp: params_new_def)
  from dry_run_reports_format [OF this] show ?thesis by auto
qed

text \<open>
  A dry run writes nothing only without \<^verbatim>\<open>--create\<close>: with it the file has been created or truncated, and given its new
  size, before \<^verbatim>\<open>-N\<close> is looked at; without it the device is the one opened, untouched.
\<close>

theorem dry_run_device:
  assumes "mkfs_main os uuid_of new_uuid clock new_seed order opens creates c = Inr (d, out)" "cli_dry_run c"
  shows "case cli_create c of
      None \<Rightarrow> opens (cli_device c) = Some (fd_file d)
    | Some sz \<Rightarrow> \<exists>n f. parse_size sz = Inr n \<and> creates (cli_device c) = Some f \<and> os_set_len os f n = Some (fd_file d) \<and> fd_size d = n"
proof -
  have o: "fd_open os (opens (cli_device c)) = Inr d \<Longrightarrow> opens (cli_device c) = Some (fd_file d)"
    by (auto simp: fd_open_def io_result_def case_prod_beta Let_def and_then_eq_Inr split: option.splits)
  have "mkfs_device os opens creates c = Inr d" using assms by (auto simp: mkfs_main_def)
  then show ?thesis
    using o by (auto simp: mkfs_device_def fd_create_def io_result_def and_then_eq_Inr split: option.splits)
qed

theorem dry_run_device_witness:
  "\<exists>d out. mkfs_main mem_os (\<lambda>_. None) (replicate 16 9) None 42 [] (\<lambda>_. None) (\<lambda>_. Some (md_new 0))
      (sample_cli\<lparr>cli_dry_run := True\<rparr>) = Inr (d, out) \<and> fd_file d = md_new (512 * 2 ^ 20)"
proof -
  have "\<exists>d out. mkfs_main mem_os (\<lambda>_. None) (replicate 16 9) None 42 [] (\<lambda>_. None) (\<lambda>_. Some (md_new 0))
      (sample_cli\<lparr>cli_dry_run := True\<rparr>) = Inr (d, out)"
    using sample_cli_facts(1,2,5) compute_512m
    by (auto simp: mkfs_main_def mkfs_device_def fd_create_def io_result_def)
  then obtain d out where d: "mkfs_main mem_os (\<lambda>_. None) (replicate 16 9) None 42 [] (\<lambda>_. None) (\<lambda>_. Some (md_new 0))
      (sample_cli\<lparr>cli_dry_run := True\<rparr>) = Inr (d, out)" by blast
  then show ?thesis using dry_run_device [OF d] sample_cli_facts(1,5) by auto
qed

end
