(* ===== verification/Admin_Cli.thy ===== *)
theory Admin_Cli
  imports Admin_Uuid Mkfs_Cli File_Device
begin

section \<open>The \<^verbatim>\<open>xfs-admin\<close> command (\<^verbatim>\<open>src/bin/xfs_admin.rs\<close>)\<close>

text \<open>
  What the command does once \<^verbatim>\<open>clap\<close> has read its options: it refuses to do nothing, opens the device, sets the label and
  then the UUID, and prints a line for each. \<^verbatim>\<open>Uuid::parse_str\<close> is the parameter \<open>uuid_of\<close>, the text of a UUID
  \<open>uuid_text\<close>, and \<open>fresh\<close> the UUID that \<^verbatim>\<open>new_v4\<close> draws.
\<close>

datatype admin_error = NothingToDo | OpeningFailed string error | InvalidUuid string | Failed error

record admin_cli =
  ac_uuid :: "string option"
  ac_label :: "string option"
  ac_device :: string

definition failed :: "error + 'a \<Rightarrow> admin_error + 'a" where
  "failed r = (case r of Inl e \<Rightarrow> Inl (Failed e) | Inr x \<Rightarrow> Inr x)"

definition label_arg :: "string \<Rightarrow> string" where
  "label_arg l = (if l \<in> set [''--'', [CHR 0x22, CHR 0x22], [CHR 0x27, CHR 0x27]] then [] else l)"

definition label_command :: "'d dev_ops \<Rightarrow> string \<Rightarrow> 'd \<Rightarrow> admin_error + 'd \<times> string list" where
  "label_command D l d =
     (let l = label_arg l in
      and_then (failed (set_label D (string_bytes l) d)) (\<lambda>d. Inr (d, [''new label = '' @ [CHR 0x22] @ l @ [CHR 0x22]])))"

definition uuid_command ::
  "'d dev_ops \<Rightarrow> (string \<Rightarrow> bytes option) \<Rightarrow> (bytes \<Rightarrow> string) \<Rightarrow> bytes \<Rightarrow> string \<Rightarrow> 'd \<Rightarrow> admin_error + 'd \<times> string list" where
  "uuid_command D uuid_of uuid_text fresh u d =
     (let s = lower u;
          change = (\<lambda>x. and_then (failed (set_uuid D x d)) (\<lambda>d. Inr (d, [''new UUID = '' @ uuid_text x]))) in
      if s = ''generate'' then change fresh
      else if s = ''nil'' then change (replicate 16 0)
      else if s = ''restore'' then and_then (failed (restore_uuid D d)) (\<lambda>(_, d). Inr (d, []))
      else case uuid_of s of None \<Rightarrow> Inl (InvalidUuid s) | Some x \<Rightarrow> change x)"

definition admin_commands ::
  "'d dev_ops \<Rightarrow> (string \<Rightarrow> bytes option) \<Rightarrow> (bytes \<Rightarrow> string) \<Rightarrow> bytes \<Rightarrow> admin_cli \<Rightarrow> 'd \<Rightarrow> admin_error + 'd \<times> string list" where
  "admin_commands D uuid_of uuid_text fresh c d =
     and_then (case ac_label c of None \<Rightarrow> Inr (d, []) | Some l \<Rightarrow> label_command D l d) (\<lambda>(d, out).
     and_then (case ac_uuid c of None \<Rightarrow> Inr (d, []) | Some u \<Rightarrow> uuid_command D uuid_of uuid_text fresh u d) (\<lambda>(d, out').
     Inr (d, out @ out')))"

text \<open>\<open>opens\<close> is what the system answers to opening a path.\<close>

definition admin_main ::
  "'f os_ops \<Rightarrow> (string \<Rightarrow> bytes option) \<Rightarrow> (bytes \<Rightarrow> string) \<Rightarrow> bytes \<Rightarrow> (string \<Rightarrow> 'f option) \<Rightarrow> admin_cli \<Rightarrow>
   admin_error + 'f file_device \<times> string list" where
  "admin_main os uuid_of uuid_text fresh opens c =
     (if ac_uuid c = None \<and> ac_label c = None then Inl NothingToDo
      else case fd_open os (opens (ac_device c)) of
        Inl e \<Rightarrow> Inl (OpeningFailed (ac_device c) e)
      | Inr d \<Rightarrow> admin_commands (file_ops os) uuid_of uuid_text fresh c d)"

lemma failed_simps [simp]: "failed (Inr x) = Inr x" "failed (Inl e) = Inl (Failed e)"
  by (simp_all add: failed_def)

end
