(* ===== verification/Admin_Commands.thy ===== *)
theory Admin_Commands
  imports Admin_Cli
begin

unbundle bit_operations_syntax

section \<open>The commands one after the other\<close>

text \<open>
  A label keeps a filesystem manageable and its log as it is, so that the label and the UUID of one \<^verbatim>\<open>xfs-admin\<close>
  command, or of several, can be set in sequence.
\<close>

text \<open>The log reader sees only the bytes of the log.\<close>

lemma find_tail_cong:
  assumes "TOTAL_REC_BBS \<le> n" "\<And>i. i < n \<Longrightarrow> blk' i = blk i"
  shows "and_then (find_tail (plain blk') n ()) (\<lambda>(x, _). Inr x) = and_then (find_tail (plain blk) n ()) (\<lambda>(x, _). Inr x)"
proof (rule agrees_value)
  have "log_source (plain blk') (\<lambda>_. True) blk n" by unfold_locales (simp add: plain_def assms(2))
  then show "agrees (\<lambda>_. True) (find_tail (plain blk') n) (find_tail (plain blk) n)"
    by (rule log_source.tail) (rule assms(1))
qed simp

lemma log_block_cong:
  assumes "\<And>j. st \<le> j \<Longrightarrow> j < st + n * 512 \<Longrightarrow> c' j = c j" "i < n"
  shows "log_block c' st i = log_block c st i"
proof -
  have "i * 512 + 512 \<le> n * 512" using assms(2) by simp
  then show ?thesis unfolding log_block_def by (intro map_cong refl assms(1)) auto
qed

definition label_places :: "nat set" where
  "label_places = {sb_FNAME..<sb_FNAME + 12}"

text \<open>What \<^verbatim>\<open>fs_open\<close> and \<^verbatim>\<open>meta_uuid\<close> read is not touched by a label.\<close>

lemma label_keeps:
  assumes "changes_only (label_places \<union> rewritten) b b'" "sb_END \<le> length b"
  shows "be32 b' sb_FEATURES_INCOMPAT = be32 b sb_FEATURES_INCOMPAT" "be64 b' sb_RBLOCKS = be64 b sb_RBLOCKS"
    "meta_uuid b' = meta_uuid b" "slice sb_UUID 16 b' = slice sb_UUID 16 b"
proof -
  have s: "slice off 16 b' = slice off 16 b" if "off \<in> {sb_UUID, sb_META_UUID}" for off
    using that assms(2) by (intro changes_slice [OF assms(1)]) (auto simp: label_places_def rewritten_def)
  show i: "be32 b' sb_FEATURES_INCOMPAT = be32 b sb_FEATURES_INCOMPAT"
    using assms(2) by (intro changes_words(1) [OF assms(1)]) (auto simp: label_places_def rewritten_def)
  show "be64 b' sb_RBLOCKS = be64 b sb_RBLOCKS"
    using assms(2) by (intro changes_words(2) [OF assms(1)]) (auto simp: label_places_def rewritten_def)
  show "slice sb_UUID 16 b' = slice sb_UUID 16 b" by (rule s) simp
  have "has_meta b' = has_meta b" by (simp add: has_meta_def i)
  then show "meta_uuid b' = meta_uuid b" using s assms(2) changes_length [OF assms(1)] by (simp add: meta_uuid_eq)
qed

context block_device
begin

text \<open>A change that leaves alone what \<^verbatim>\<open>fs_open\<close> reads: the filesystem opens as before.\<close>

lemma reopens_same:
  assumes m: "manageable D good content sector d fs meta" and good: "good d'" and same: "same_device D sector d d'"
    and ok: "superblocks_ok (fs_geo fs) (content d')"
    and ch: "changes_only (label_places \<union> rewritten) (sb_block (fs_geo fs) (content d) 0) (sb_block (fs_geo fs) (content d') 0)"
  shows "fs_open D d' = Inr \<lparr>fs_geo = fs_geo fs, fs_primary = sb_block (fs_geo fs) (content d') 0\<rparr>"
proof -
  define G where "G = fs_geo fs"
  have d: "good d" "fs_open D d = Inr fs" "sb_room D sector d G" "dev_logical D d \<le> geo_blocksize G"
    using m by (simp_all add: manageable_def G_def)
  note g = fs_open_primary [OF d(1,2) d(3) [unfolded G_def], folded G_def]
  note o = fs_open_InrD [OF d(2), folded G_def]
  have lb: "sb_END \<le> length (sb_block G (content d) 0)" using g(4,5) by simp
  note keeps = label_keeps [OF ch [folded G_def] lb]
  have room: "sb_room D sector d' G" "dev_logical D d' \<le> geo_blocksize G"
    using d(3,4) same by (simp_all add: sb_room_def same_device_def)
  have "inspect_geometry D d' = geo_parse (sb_block G (content d') 0)"
    by (rule geometry_of_primary [OF good room(1) g(3) room(2) g(2)])
  also have "\<dots> = geo_parse (sb_block G (content d) 0)"
  proof (rule geo_parse_changes [OF ch [folded G_def] _ lb])
    show "(label_places \<union> rewritten) \<inter> geo_places = {}" by (auto simp: label_places_def rewritten_def geo_places_def)
  qed
  also have "\<dots> = Inr G" using geometry_of_primary [OF d(1,3) g(3) d(4) g(2)] o(1) by simp
  finally have i: "inspect_geometry D d' = Inr G" .
  have "read_sb D G d' 0 = Inr (sb_block G (content d') 0)"
    using read_sb_ok [OF good room(1) g(2)] ok g(2) by (simp add: superblocks_ok_def G_def)
  then show ?thesis
    using d(2) i g(1) keeps(1,2) o(4) unfolding G_def [symmetric]
    by (auto simp: fs_open_def and_then_eq_Inr split: if_splits)
qed

text \<open>What is left to check after a change of a manageable filesystem.\<close>

lemma manageable_after:
  assumes "manageable D good content sector d fs meta" "good d'" "same_device D sector d d'" "superblocks_ok (fs_geo fs) (content d')"
    and "fs_open D d' = Inr fs'" "fs_geo fs' = (fs_geo fs)\<lparr>geo_incompat := w\<rparr>"
    and "\<And>a. a < geo_agcount (fs_geo fs) \<Longrightarrow> meta_uuid (sb_block (fs_geo fs) (content d') a) = Inr meta"
  shows "manageable D good content sector d' fs' meta"
  using assms by (simp add: manageable_def same_device_def sb_room_def log_inside_def)

lemma manageable_label:
  assumes m: "manageable D good content sector d fs meta" and l: "length lab \<le> LABEL_MAX" "0 \<notin> set lab"
  shows "\<exists>d' fs'. set_label D lab d = Inr d' \<and> manageable D good content sector d' fs' meta \<and> fs_geo fs' = fs_geo fs \<and>
    fs_find_tail D fs' d' = fs_find_tail D fs d \<and>
    (\<forall>a<geo_agcount (fs_geo fs).
      slice sb_FNAME 12 (sb_block (fs_geo fs) (content d') a) = lab @ replicate (12 - length lab) 0 \<and>
      changes_only (label_places \<union> rewritten) (sb_block (fs_geo fs) (content d) a) (sb_block (fs_geo fs) (content d') a)) \<and>
    (\<forall>i. (\<forall>a<geo_agcount (fs_geo fs). \<not> in_superblock (fs_geo fs) a i) \<longrightarrow> content d' i = content d i)"
proof -
  define G where "G = fs_geo fs"
  obtain st n where e: "log_extent G = (st, n)" by (cases "log_extent G")
  note M = m [unfolded manageable_def, folded G_def, unfolded e fst_conv snd_conv]
  have d: "good d" "fs_open D d = Inr fs" "sb_room D sector d G" "superblocks_ok G (content d)"
    "dev_logical D d \<le> geo_blocksize G" "log_inside D sector d st n" using M by blast+
  note g = fs_open_primary [OF d(1,2) d(3) [unfolded G_def], folded G_def]
  obtain d' where d': "set_label D lab d = Inr d'" "good d'" "same_device D sector d d'" "superblocks_ok G (content d')"
    "inspect_geometry D d' = Inr G"
    and each: "\<forall>a<geo_agcount G. slice sb_FNAME 12 (sb_block G (content d') a) = lab @ replicate (12 - length lab) 0 \<and>
      changes_only (label_places \<union> rewritten) (sb_block G (content d) a) (sb_block G (content d') a)"
    and out: "\<forall>i. (\<forall>a<geo_agcount G. \<not> in_superblock G a i) \<longrightarrow> content d' i = content d i"
    using label_effect [OF d(1,2) d(3-5) [unfolded G_def] l] unfolding G_def label_places_def by blast
  have keeps: "meta_uuid (sb_block G (content d') a) = meta_uuid (sb_block G (content d) a)" if "a < geo_agcount G" for a
    using label_keeps [of "sb_block G (content d) a" "sb_block G (content d') a"] each that g(4,5) by auto
  define fs' where "fs' = \<lparr>fs_geo = G, fs_primary = sb_block G (content d') 0\<rparr>"
  have o: "fs_open D d' = Inr fs'"
    using reopens_same [OF m d'(2,3) d'(4) [unfolded G_def]] each g(2) by (simp add: fs'_def G_def)
  have li: "log_inside D sector d' st n" using d(6) d'(3) by (simp add: log_inside_def same_device_def)
  have apart: "log_apart G" "TOTAL_REC_BBS \<le> n" using M e by (auto simp: log_apart_def)
  have same: "content d' j = content d j" if "st \<le> j" "j < st + n * 512" for j
    using out apart(1) that e by (auto simp: log_apart_def)
  have "fs_find_tail D fs' d' = fs_find_tail D \<lparr>fs_geo = G, fs_primary = fs_primary fs\<rparr> d"
    unfolding fs'_def device_find_tail [OF d'(2) e li apart(2)] device_find_tail [OF d(1) e d(6) apart(2)]
    by (intro find_tail_cong apart(2) log_block_cong same)
  moreover have "\<lparr>fs_geo = G, fs_primary = fs_primary fs\<rparr> = fs" by (simp add: G_def)
  moreover have "manageable D good content sector d' fs' meta"
    by (rule manageable_after [OF m d'(2,3) d'(4) [unfolded G_def] o, where w = "geo_incompat G"])
      (use M keeps in \<open>simp_all add: fs'_def G_def\<close>)
  ultimately show ?thesis
    using d'(1) each out unfolding G_def [symmetric] by (intro exI [of _ d'] exI [of _ fs']) (simp add: fs'_def)
qed

end

text \<open>The UUID that the argument of \<^verbatim>\<open>-U\<close> asks for.\<close>

definition requested :: "(string \<Rightarrow> bytes option) \<Rightarrow> bytes \<Rightarrow> string \<Rightarrow> bytes \<Rightarrow> bool" where
  "requested uuid_of fresh u x \<longleftrightarrow>
     (let s = lower u in
      if s = ''generate'' then x = fresh else if s = ''nil'' then x = replicate 16 0
      else s \<noteq> ''restore'' \<and> uuid_of s = Some x)"

lemma uuid_command_requested:
  assumes "requested uuid_of fresh u x" "set_uuid D x d = Inr d'"
  shows "uuid_command D uuid_of uuid_text fresh u d = Inr (d', [''new UUID = '' @ uuid_text x])"
  using assms by (auto simp: requested_def uuid_command_def Let_def split: if_splits)

context block_device
begin

lemma label_and_uuid:
  assumes m: "manageable D good content sector d fs meta" and t: "fs_find_tail D fs d = Inr state" and c: "\<not> dirty state" "usable_cycle (ls_cycle state)"
    and l: "ac_label c = Some l" "lab = string_bytes (label_arg l)" "length lab \<le> LABEL_MAX" "0 \<notin> set lab"
    and u: "ac_uuid c = Some u" "requested uuid_of fresh u x" "length x = 16" and e: "log_extent (fs_geo fs) = (st, n)"
  shows "\<exists>d' fs'. admin_commands D uuid_of uuid_text fresh c d =
      Inr (d', [''new label = '' @ [CHR 0x22] @ label_arg l @ [CHR 0x22], ''new UUID = '' @ uuid_text x]) \<and>
    manageable D good content sector d' fs' meta \<and>
    fs_find_tail D fs' d' = Inr (cleared_state (geo_logsunit (fs_geo fs)) (ls_cycle state)) \<and>
    (\<forall>a<geo_agcount (fs_geo fs).
      slice sb_FNAME 12 (sb_block (fs_geo fs) (content d') a) = lab @ replicate (12 - length lab) 0 \<and>
      slice sb_UUID 16 (sb_block (fs_geo fs) (content d') a) = x \<and>
      (has_meta (sb_block (fs_geo fs) (content d') a) \<longleftrightarrow> x \<noteq> meta) \<and>
      changes_only (label_places \<union> uuid_places \<union> rewritten) (sb_block (fs_geo fs) (content d) a) (sb_block (fs_geo fs) (content d') a)) \<and>
    (\<forall>i. (\<forall>a<geo_agcount (fs_geo fs). \<not> in_superblock (fs_geo fs) a i) \<and> \<not> (st \<le> i \<and> i < st + n * 512) \<longrightarrow>
      content d' i = content d i)"
proof -
  define G where "G = fs_geo fs"
  obtain d1 fs1 where d1: "set_label D lab d = Inr d1" "manageable D good content sector d1 fs1 meta" "fs_geo fs1 = G"
    "fs_find_tail D fs1 d1 = Inr state"
    and b1: "\<forall>a<geo_agcount G. slice sb_FNAME 12 (sb_block G (content d1) a) = lab @ replicate (12 - length lab) 0 \<and>
      changes_only (label_places \<union> rewritten) (sb_block G (content d) a) (sb_block G (content d1) a)"
    and o1: "\<forall>i. (\<forall>a<geo_agcount G. \<not> in_superblock G a i) \<longrightarrow> content d1 i = content d i"
    using manageable_label [OF m l(3,4)] t unfolding G_def by metis
  obtain d2 fs2 where d2: "set_uuid D x d1 = Inr d2" "manageable D good content sector d2 fs2 meta"
    "fs_find_tail D fs2 d2 = Inr (cleared_state (geo_logsunit G) (ls_cycle state))"
    and b2: "\<forall>a<geo_agcount G. slice sb_UUID 16 (sb_block G (content d2) a) = x \<and>
      (has_meta (sb_block G (content d2) a) \<longleftrightarrow> x \<noteq> meta) \<and>
      changes_only (uuid_places \<union> rewritten) (sb_block G (content d1) a) (sb_block G (content d2) a)"
    and o2: "\<forall>i. (\<forall>a<geo_agcount G. \<not> in_superblock G a i) \<and> \<not> (st \<le> i \<and> i < st + n * 512) \<longrightarrow> content d2 i = content d1 i"
    using set_uuid_effect [OF d1(2,4) c u(3), of st n] e unfolding d1(3) G_def by blast
  have run: "admin_commands D uuid_of uuid_text fresh c d =
      Inr (d2, [''new label = '' @ [CHR 0x22] @ label_arg l @ [CHR 0x22], ''new UUID = '' @ uuid_text x])"
    using d1(1) l(1,2) u(1) uuid_command_requested [OF u(2) d2(1)] by (simp add: admin_commands_def label_command_def)
  have "slice sb_FNAME 12 (sb_block G (content d2) a) = lab @ replicate (12 - length lab) 0"
    "changes_only (label_places \<union> uuid_places \<union> rewritten) (sb_block G (content d) a) (sb_block G (content d2) a)"
    if a: "a < geo_agcount G" for a
  proof -
    have ch: "changes_only (uuid_places \<union> rewritten) (sb_block G (content d1) a) (sb_block G (content d2) a)" using b2 a by blast
    have lb: "sb_END \<le> geo_blocksize G" using d1(2) by (simp add: manageable_def sb_room_def d1(3))
    have "slice sb_FNAME 12 (sb_block G (content d2) a) = slice sb_FNAME 12 (sb_block G (content d1) a)"
      using lb by (intro changes_slice [OF ch]) (auto simp: uuid_places_def rewritten_def)
    then show "slice sb_FNAME 12 (sb_block G (content d2) a) = lab @ replicate (12 - length lab) 0" using b1 a by simp
    have "changes_only ((label_places \<union> rewritten) \<union> (uuid_places \<union> rewritten)) (sb_block G (content d) a) (sb_block G (content d2) a)"
      by (rule changes_trans [OF _ ch]) (use b1 a in blast)
    then show "changes_only (label_places \<union> uuid_places \<union> rewritten) (sb_block G (content d) a) (sb_block G (content d2) a)"
      by (simp add: Un_ac)
  qed
  then show ?thesis using run d2 b2 o1 o2 unfolding G_def [symmetric] by (intro exI [of _ d2] exI [of _ fs2]) auto
qed

end

section \<open>Properties\<close>

text \<open>
  \<^bold>\<open>C13\<close>. \<^verbatim>\<open>xfs-admin -L l -U u\<close> on a filesystem whose log is clean does both: every superblock has the padded label and the
  UUID asked for, drawn or nil, keeps the metadata UUID, and has changed nowhere else but in the fields every write of a superblock
  refreshes; nothing outside the superblocks and the log has changed; the log is clean in the next cycle, what
  was done is printed, and the filesystem can be managed again.
\<close>

theorem label_and_uuid_set:
  assumes b: "block_device D good content sector" and m: "manageable D good content sector d fs meta" and t: "fs_find_tail D fs d = Inr state" and c: "\<not> dirty state" "usable_cycle (ls_cycle state)"
    and l: "ac_label c = Some l" "lab = string_bytes (label_arg l)" "length lab \<le> LABEL_MAX" "0 \<notin> set lab"
    and u: "ac_uuid c = Some u" "requested uuid_of fresh u x" "length x = 16" and e: "log_extent (fs_geo fs) = (st, n)"
  shows "\<exists>d' fs'. admin_commands D uuid_of uuid_text fresh c d =
      Inr (d', [''new label = '' @ [CHR 0x22] @ label_arg l @ [CHR 0x22], ''new UUID = '' @ uuid_text x]) \<and>
    manageable D good content sector d' fs' meta \<and>
    fs_find_tail D fs' d' = Inr (cleared_state (geo_logsunit (fs_geo fs)) (ls_cycle state)) \<and>
    (\<forall>a<geo_agcount (fs_geo fs).
      slice sb_FNAME 12 (sb_block (fs_geo fs) (content d') a) = lab @ replicate (12 - length lab) 0 \<and>
      slice sb_UUID 16 (sb_block (fs_geo fs) (content d') a) = x \<and>
      (has_meta (sb_block (fs_geo fs) (content d') a) \<longleftrightarrow> x \<noteq> meta) \<and>
      changes_only (label_places \<union> uuid_places \<union> rewritten) (sb_block (fs_geo fs) (content d) a) (sb_block (fs_geo fs) (content d') a)) \<and>
    (\<forall>i. (\<forall>a<geo_agcount (fs_geo fs). \<not> in_superblock (fs_geo fs) a i) \<and> \<not> (st \<le> i \<and> i < st + n * 512) \<longrightarrow>
      content d' i = content d i)"
  by (rule block_device.label_and_uuid [OF assms])

theorem label_and_uuid_set_witness:
  "\<exists>d fs d' fs' out. admin_commands mem_ops (\<lambda>_. None) (\<lambda>_. []) (replicate 16 9)
      \<lparr>ac_uuid = Some ''generate'', ac_label = Some ''data'', ac_device = ''disk''\<rparr> d = Inr (d', out) \<and> length out = 2 \<and>
    fs_open mem_ops d = Inr fs \<and> manageable mem_ops md_good md_content md_sector d' fs' (replicate 16 7)"
proof -
  obtain plans d where f: "formatted sample_device geometry_512m plans (replicate 16 7) \<lparr>secs = 0, nsecs = 0\<rparr> 42 [3, 1, 0, 2] d"
    and l: "md_logical sample_device \<le> bs geometry_512m"
    by (rule sample_formatted)
  obtain st n where e: "log_extent (geo_of geometry_512m) = (st, n)" by (cases "log_extent (geo_of geometry_512m)")
  have lab: "string_bytes (label_arg ''data'') = [100, 97, 116, 97]" by (simp add: string_bytes_def label_arg_def)
  have "usable_cycle 1" by (simp add: usable_cycle_def HEADER_MAGIC_def)
  moreover have "requested (\<lambda>_. None) (replicate 16 9) ''generate'' (replicate 16 9)" by (simp add: requested_def lower_def)
  ultimately show ?thesis
    using label_and_uuid_set [OF mem.block_device_axioms mem.formatted_manageable [OF f l [folded mem_ops_simps]] mem.formatted_tail [OF f l [folded mem_ops_simps]], of
        "\<lparr>ac_uuid = Some ''generate'', ac_label = Some ''data'', ac_device = ''disk''\<rparr>" "''data''" "[100, 97, 116, 97]"
        "''generate''" "\<lambda>_. None" "replicate 16 9" "replicate 16 9" st n "\<lambda>_. []"] e lab mem.formatted_opens [OF f l [folded mem_ops_simps]]
    by (fastforce simp: dirty_def LABEL_MAX_def)
qed

end
