(* ===== verification/Admin_Resume.thy ===== *)
theory Admin_Resume
  imports Admin_Commands
begin

unbundle bit_operations_syntax

section \<open>A change of the UUID that was cut short\<close>

text \<open>
  \<^verbatim>\<open>set_uuid\<close> clears the log, flushes it, and then rewrites the superblocks one after the other. Cut short among the
  superblocks, it leaves groups with two UUIDs. Each of them still tells the metadata UUID, so that the filesystem is
  manageable, and its log is clean: the command can be repeated, or the change undone.
\<close>

context block_device
begin

lemma cut_uuid_manageable:
  assumes m: "manageable D good content sector d fs meta" and c: "usable_cycle cycle" and u: "length uuid = 16"
    and k: "k \<le> geo_agcount (fs_geo fs)"
  shows "\<exists>d' fs'. cut_uuid D fs uuid meta (cycle + 1) k d = Inr d' \<and> manageable D good content sector d' fs' meta \<and>
    fs_geo fs' = (fs_geo fs)\<lparr>geo_incompat := geo_incompat (fs_geo fs')\<rparr> \<and>
    fs_find_tail D fs' d' = Inr (cleared_state (geo_logsunit (fs_geo fs)) cycle) \<and>
    (\<forall>a<geo_agcount (fs_geo fs). sb_block (fs_geo fs) (content d') a =
      (if a < k then new_sb fs uuid meta (sb_block (fs_geo fs) (content d) a) else sb_block (fs_geo fs) (content d) a))"
proof -
  define G where "G = fs_geo fs"
  obtain st n where e: "log_extent G = (st, n)" by (cases "log_extent G")
  note M = m [unfolded manageable_def, folded G_def, unfolded e fst_conv snd_conv]
  obtain d' S where d': "cut_uuid D fs uuid meta (cycle + 1) k d = Inr d'" "good d'" "same_device D sector d d'"
    "superblocks_ok G (content d')"
    and out: "\<forall>i. (\<forall>a<geo_agcount G. \<not> in_superblock G a i) \<longrightarrow> content d' i = overwrite (content d) st S i"
    and b: "\<forall>a<geo_agcount G. sb_block G (content d') a =
      (if a < k then new_sb fs uuid meta (sb_block G (content d) a) else sb_block G (content d) a)"
    and S: "log_reads st n (cleared_state (geo_logsunit G) cycle) S"
    using cut_uuid_effect [OF m c u e [unfolded G_def] k] unfolding G_def by blast
  have g: "0 < geo_agcount G" using manageable_meta(5) [OF m] by (simp add: G_def)
  obtain w where o: "fs_open D d' = Inr \<lparr>fs_geo = G\<lparr>geo_incompat := w\<rparr>, fs_primary = sb_block G (content d') 0\<rparr>"
  proof (cases "k = 0")
    case True
    then have "fs_open D d' = Inr \<lparr>fs_geo = G, fs_primary = sb_block G (content d') 0\<rparr>"
      using reopens_same [OF m d'(2,3) d'(4) [unfolded G_def]] b g by (simp add: G_def)
    then show thesis by (intro that [of "geo_incompat G"]) simp
  next
    case False
    then show thesis using reopens [OF m d'(2,3) d'(4) [unfolded G_def] u] b g that by (auto simp: G_def)
  qed
  define fs' where "fs' = \<lparr>fs_geo = G\<lparr>geo_incompat := w\<rparr>, fs_primary = sb_block G (content d') 0\<rparr>"
  have mu: "meta_uuid (sb_block G (content d') a) = Inr meta" if "a < geo_agcount G" for a
    using b that new_sb_each(3) [OF m u, folded G_def] M by simp
  have "manageable D good content sector d' fs' meta"
    by (rule manageable_after [OF m d'(2,3) d'(4) [unfolded G_def] o [folded fs'_def], where w = w])
      (use mu in \<open>simp_all add: fs'_def G_def\<close>)
  moreover have n: "TOTAL_REC_BBS \<le> n" "2 dvd n" using M e by (auto simp: log_apart_def)
  have "length S = n * 512" using S by (simp add: log_reads_def)
  then have "reads_bytes (content d') st S"
    using out M e by (auto simp: reads_bytes_iff overwrite_def log_apart_def)
  then have tail: "find_tail (plain (log_block (content d') st)) n () = Inr (cleared_state (geo_logsunit G) cycle, ())"
    using S by (simp add: log_reads_def)
  have li: "log_inside D sector d' st n" using M d'(3) by (simp add: log_inside_def same_device_def)
  have "fs_find_tail D fs' d' = Inr (cleared_state (geo_logsunit G) cycle)"
    using device_find_tail [OF d'(2) _ li n(1), of "G\<lparr>geo_incompat := w\<rparr>"] e tail by (simp add: fs'_def)
  ultimately show ?thesis
    using d'(1) b unfolding G_def [symmetric] by (intro exI [of _ d'] exI [of _ fs']) (simp add: fs'_def)
qed

lemma cut_resumed:
  assumes m: "manageable D good content sector d fs meta" and c: "usable_cycle cycle" "usable_cycle (cycle + 1)"
    and u: "length uuid = 16" "length uuid' = 16" and k: "k \<le> geo_agcount (fs_geo fs)"
  shows "\<exists>d1 fs1 d2 fs2. cut_uuid D fs uuid meta (cycle + 1) k d = Inr d1 \<and> fs_open D d1 = Inr fs1 \<and>
    fs_find_tail D fs1 d1 = Inr (cleared_state (geo_logsunit (fs_geo fs)) cycle) \<and>
    (\<forall>a<geo_agcount (fs_geo fs). slice sb_UUID 16 (sb_block (fs_geo fs) (content d1) a) =
      (if a < k then uuid else slice sb_UUID 16 (sb_block (fs_geo fs) (content d) a))) \<and>
    set_uuid D uuid' d1 = Inr d2 \<and> manageable D good content sector d2 fs2 meta \<and>
    (\<forall>a<geo_agcount (fs_geo fs). slice sb_UUID 16 (sb_block (fs_geo fs) (content d2) a) = uuid' \<and>
      (has_meta (sb_block (fs_geo fs) (content d2) a) \<longleftrightarrow> uuid' \<noteq> meta))"
proof -
  obtain d1 fs1 where d1: "cut_uuid D fs uuid meta (cycle + 1) k d = Inr d1" "manageable D good content sector d1 fs1 meta"
    "fs_geo fs1 = (fs_geo fs)\<lparr>geo_incompat := geo_incompat (fs_geo fs1)\<rparr>"
    "fs_find_tail D fs1 d1 = Inr (cleared_state (geo_logsunit (fs_geo fs)) cycle)"
    and b1: "\<forall>a<geo_agcount (fs_geo fs). sb_block (fs_geo fs) (content d1) a =
      (if a < k then new_sb fs uuid meta (sb_block (fs_geo fs) (content d) a) else sb_block (fs_geo fs) (content d) a)"
    using cut_uuid_manageable [OF m c(1) u(1) k] by blast
  obtain w where G1: "fs_geo fs1 = (fs_geo fs)\<lparr>geo_incompat := w\<rparr>" using d1(3) by blast
  obtain d2 fs2 where d2: "set_uuid D uuid' d1 = Inr d2" "manageable D good content sector d2 fs2 meta"
    and b2: "\<forall>a<geo_agcount (fs_geo fs1). slice sb_UUID 16 (sb_block (fs_geo fs1) (content d2) a) = uuid'"
      "\<forall>a<geo_agcount (fs_geo fs1). has_meta (sb_block (fs_geo fs1) (content d2) a) \<longleftrightarrow> uuid' \<noteq> meta"
    using set_uuid_again [OF d1(2,4) cleared_state_simps(1) _ u(2)] c(2) by auto
  have "fs_open D d1 = Inr fs1" using d1(2) by (simp add: manageable_def)
  moreover have "\<forall>a<geo_agcount (fs_geo fs). slice sb_UUID 16 (sb_block (fs_geo fs) (content d1) a) =
      (if a < k then uuid else slice sb_UUID 16 (sb_block (fs_geo fs) (content d) a))"
    using b1 new_sb_each(1) [OF m u(1)] by simp
  ultimately show ?thesis
    using d1(1,4) d2 b2 unfolding G1 by (intro exI [of _ d1] exI [of _ fs1] exI [of _ d2] exI [of _ fs2]) simp
qed

text \<open>
  A log that was zeroed has no record and no cycle: the search finds cycle 0, and clearing it starts the log over.
\<close>

lemma zeroed_log_tail:
  assumes "\<And>j. j < 512 \<Longrightarrow> c (st + j) = 0" "TOTAL_REC_BBS \<le> n"
  shows "find_tail (plain (log_block c st)) n () = Inr (\<lparr>ls_head = 0, ls_tail = 0, ls_cycle = 0\<rparr>, ())"
proof -
  have z: "log_block c st 0 = replicate 512 0" by (rule nth_equalityI) (simp_all add: log_block_def assms(1))
  have w: "word_at (replicate 512 0) 0 = 0" by (simp add: word_at_def slice_def from_be_def numeral_eq_Suc)
  have "log_cycle (plain (log_block c st)) 0 () = Inr (0, ())"
    by (subst plain_cycle) (simp_all add: cycle_of_def z w HEADER_MAGIC_def)
  then show ?thesis by (simp add: find_tail_def find_head_def find_zeroed_def rd_then_def rd_return_def)
qed

lemma zeroed_log:
  assumes m: "manageable D good content sector d fs meta" and e: "log_extent (fs_geo fs) = (st, n)"
  shows "\<exists>d0. dev_write_zeroes D d st (n * 512) = Inr d0 \<and> manageable D good content sector d0 fs meta \<and>
    fs_find_tail D fs d0 = Inr \<lparr>ls_head = 0, ls_tail = 0, ls_cycle = 0\<rparr> \<and> content d0 = zeroed (content d) st (n * 512) \<and>
    (\<forall>a<geo_agcount (fs_geo fs). sb_block (fs_geo fs) (content d0) a = sb_block (fs_geo fs) (content d) a)"
proof -
  define G where "G = fs_geo fs"
  note M = m [unfolded manageable_def e fst_conv snd_conv, folded G_def]
  have n: "TOTAL_REC_BBS \<le> n" "0 < n"
    and apart: "\<And>i a. st \<le> i \<Longrightarrow> i < st + n * 512 \<Longrightarrow> a < geo_agcount G \<Longrightarrow> \<not> in_superblock G a i"
    using M e by (auto simp: log_apart_def G_def TOTAL_REC_BBS_def BBSIZE_def)
  have "accepts D sector d st (n * 512)" using M by (simp add: accepts_def log_inside_def)
  then obtain d0 where d0: "dev_write_zeroes D d st (n * 512) = Inr d0" "good d0" "same_device D sector d d0"
    "content d0 = zeroed (content d) st (n * 512)" using write_zeroes M by blast
  have b: "sb_block G (content d0) a = sb_block G (content d) a" if "a < geo_agcount G" for a
    using apart that by (intro sb_block_cong) (auto simp: d0(4) zeroed_def)
  have ok: "superblocks_ok G (content d0)" using M b by (simp add: superblocks_ok_def)
  note g = manageable_meta(4,5) [OF m, folded G_def]
  have fs: "fs = \<lparr>fs_geo = G, fs_primary = sb_block G (content d0) 0\<rparr>" using b g by (simp add: G_def)
  then have o: "fs_open D d0 = Inr fs"
    using reopens_same [OF m d0(2,3) ok [unfolded G_def]] b g by (simp add: G_def)
  have "manageable D good content sector d0 fs meta"
    by (rule manageable_after [OF m d0(2,3) ok [unfolded G_def] o, where w = "geo_incompat G"]) (use M b in \<open>simp_all add: G_def\<close>)
  moreover have li: "log_inside D sector d0 st n" using M d0(3) by (simp add: log_inside_def same_device_def)
  have z: "find_tail (plain (log_block (content d0) st)) n () = Inr (\<lparr>ls_head = 0, ls_tail = 0, ls_cycle = 0\<rparr>, ())"
    using n by (intro zeroed_log_tail) (simp_all add: d0(4) zeroed_def)
  have "fs_find_tail D fs d0 = Inr \<lparr>ls_head = 0, ls_tail = 0, ls_cycle = 0\<rparr>"
    using device_find_tail [OF d0(2) e [folded G_def] li n(1), of "sb_block G (content d0) 0", folded fs] z by simp
  ultimately show ?thesis using d0(1,4) b unfolding G_def by blast
qed

end

section \<open>Properties\<close>

text \<open>
  \<^bold>\<open>C14\<close>. An interrupted \<^verbatim>\<open>set_uuid\<close> can be repeated or undone. \<open>cut_uuid\<close> is what \<^verbatim>\<open>set_uuid\<close> does up to any number of
  superblocks: on a clean log \<^verbatim>\<open>set_uuid\<close> is \<open>cut_uuid\<close>, the rewriting of the groups that are left and the last flush.
  Whatever number of superblocks was rewritten when it was cut short, the log is clean, and setting any UUID on what it left succeeds and gives that UUID to every group, those already
  rewritten and those not, with \<^verbatim>\<open>META_UUID\<close> exactly where it differs from the metadata UUID; setting the metadata UUID undoes
  the change.
\<close>

theorem cut_uuid_resumed:
  assumes b: "block_device D good content sector" and m: "manageable D good content sector d fs meta" and c: "usable_cycle cycle" "usable_cycle (cycle + 1)"
    and u: "length uuid = 16" "length uuid' = 16" and k: "k \<le> geo_agcount (fs_geo fs)"
  shows "(\<forall>state. fs_find_tail D fs d = Inr state \<and> \<not> dirty state \<and> ls_cycle state = cycle \<longrightarrow>
      set_uuid D uuid d = and_then (cut_uuid D fs uuid meta (cycle + 1) k d) (\<lambda>d.
        and_then (try_fold (edit_sb D (fs_geo fs) (uuid_edit uuid meta)) [k..<geo_agcount (fs_geo fs)] d) (dev_flush D))) \<and>
    (\<exists>d1 fs1 d2 fs2. cut_uuid D fs uuid meta (cycle + 1) k d = Inr d1 \<and> fs_open D d1 = Inr fs1 \<and>
    fs_find_tail D fs1 d1 = Inr (cleared_state (geo_logsunit (fs_geo fs)) cycle) \<and>
    (\<forall>a<geo_agcount (fs_geo fs). slice sb_UUID 16 (sb_block (fs_geo fs) (content d1) a) =
      (if a < k then uuid else slice sb_UUID 16 (sb_block (fs_geo fs) (content d) a))) \<and>
    set_uuid D uuid' d1 = Inr d2 \<and> manageable D good content sector d2 fs2 meta \<and>
    (\<forall>a<geo_agcount (fs_geo fs). slice sb_UUID 16 (sb_block (fs_geo fs) (content d2) a) = uuid' \<and>
      (has_meta (sb_block (fs_geo fs) (content d2) a) \<longleftrightarrow> uuid' \<noteq> meta)))"
proof (rule conjI [OF _ block_device.cut_resumed [OF assms]], intro allI impI)
  show "set_uuid D uuid d = and_then (cut_uuid D fs uuid meta (cycle + 1) k d) (\<lambda>d.
      and_then (try_fold (edit_sb D (fs_geo fs) (uuid_edit uuid meta)) [k..<geo_agcount (fs_geo fs)] d) (dev_flush D))"
    if "fs_find_tail D fs d = Inr state \<and> \<not> dirty state \<and> ls_cycle state = cycle" for state
    using block_device.set_uuid_cut [OF b m _ _ k, of state] that by blast
qed

theorem cut_uuid_resumed_witness:
  "\<exists>d fs d1 d2. cut_uuid mem_ops fs (replicate 16 9) (replicate 16 7) 2 2 d = Inr d1 \<and> fs_open mem_ops d = Inr fs \<and>
    set_uuid mem_ops (replicate 16 9) d1 = Inr d2"
proof -
  obtain plans d where f: "formatted sample_device geometry_512m plans (replicate 16 7) \<lparr>secs = 0, nsecs = 0\<rparr> 42 [3, 1, 0, 2] d"
    and l: "md_logical sample_device \<le> bs geometry_512m"
    by (rule sample_formatted)
  have "usable_cycle 1" "usable_cycle (1 + 1)" by (simp_all add: usable_cycle_def HEADER_MAGIC_def)
  moreover have "2 \<le> geo_agcount (geo_of geometry_512m)" by (simp add: geo_of_position sample_facts(7))
  ultimately show ?thesis
    using cut_uuid_resumed [OF mem.block_device_axioms mem.formatted_manageable [OF f l [folded mem_ops_simps]], of 1 "replicate 16 9" "replicate 16 9" 2] mem.formatted_opens [OF f l [folded mem_ops_simps]]
    by (fastforce simp: one_add_one)
qed

text \<open>
  \<^bold>\<open>C15\<close>. A filesystem whose log was zeroed is taken up again: the log reads as empty, in cycle 0, and \<^verbatim>\<open>set_uuid\<close> starts it
  over in cycle 1, clean after its only record, gives the UUID to every group, keeps the metadata UUID, and changes nothing
  outside the superblocks and the log.
\<close>

theorem zeroed_log_restarted:
  assumes "block_device D good content sector" "manageable D good content sector d fs meta" "log_extent (fs_geo fs) = (st, n)"
    "length uuid = 16"
  shows "\<exists>d0 d' fs'. dev_write_zeroes D d st (n * 512) = Inr d0 \<and> fs_open D d0 = Inr fs \<and>
    fs_find_tail D fs d0 = Inr \<lparr>ls_head = 0, ls_tail = 0, ls_cycle = 0\<rparr> \<and>
    set_uuid D uuid d0 = Inr d' \<and> manageable D good content sector d' fs' meta \<and>
    fs_find_tail D fs' d' = Inr \<lparr>ls_head = record_bbs (geo_logsunit (fs_geo fs)), ls_tail = record_bbs (geo_logsunit (fs_geo fs)), ls_cycle = 1\<rparr> \<and>
    (\<forall>a<geo_agcount (fs_geo fs). slice sb_UUID 16 (sb_block (fs_geo fs) (content d') a) = uuid \<and>
      (has_meta (sb_block (fs_geo fs) (content d') a) \<longleftrightarrow> uuid \<noteq> meta)) \<and>
    (\<forall>i. (\<forall>a<geo_agcount (fs_geo fs). \<not> in_superblock (fs_geo fs) a i) \<and> \<not> (st \<le> i \<and> i < st + n * 512) \<longrightarrow>
      content d' i = content d i)"
proof -
  obtain d0 where d0: "dev_write_zeroes D d st (n * 512) = Inr d0" "manageable D good content sector d0 fs meta"
    "fs_find_tail D fs d0 = Inr \<lparr>ls_head = 0, ls_tail = 0, ls_cycle = 0\<rparr>" "content d0 = zeroed (content d) st (n * 512)"
    using block_device.zeroed_log [OF assms(1-3)] by blast
  have "usable_cycle 0" by (simp add: usable_cycle_def HEADER_MAGIC_def)
  then obtain d' fs' where "set_uuid D uuid d0 = Inr d'" "manageable D good content sector d' fs' meta"
    "fs_find_tail D fs' d' = Inr (cleared_state (geo_logsunit (fs_geo fs)) 0)"
    "\<forall>a<geo_agcount (fs_geo fs). slice sb_UUID 16 (sb_block (fs_geo fs) (content d') a) = uuid \<and>
      (has_meta (sb_block (fs_geo fs) (content d') a) \<longleftrightarrow> uuid \<noteq> meta)"
    "\<forall>i. (\<forall>a<geo_agcount (fs_geo fs). \<not> in_superblock (fs_geo fs) a i) \<and> \<not> (st \<le> i \<and> i < st + n * 512) \<longrightarrow>
      content d' i = content d0 i"
    using block_device.set_uuid_effect [OF assms(1) d0(2,3) _ _ assms(4,3)] by (auto simp: dirty_def)
  moreover have "fs_open D d0 = Inr fs" using d0(2) by (simp add: manageable_def)
  ultimately show ?thesis
    using d0(1,3) by (intro exI [of _ d0] exI [of _ d'] exI [of _ fs']) (simp add: d0(4) zeroed_def cleared_state_def Let_def)
qed

theorem zeroed_log_restarted_witness:
  "\<exists>d fs st n d0 d' fs'. md_write_zeroes d st (n * 512) = Inr d0 \<and> fs_open mem_ops d0 = Inr fs \<and>
    set_uuid mem_ops (replicate 16 9) d0 = Inr d' \<and> fs_open mem_ops d' = Inr fs' \<and> fs_geo fs = geo_of geometry_512m \<and>
    slice sb_UUID 16 (sb_block (geo_of geometry_512m) (md_content d') 3) = replicate 16 9"
proof -
  obtain plans d where f: "formatted sample_device geometry_512m plans (replicate 16 7) \<lparr>secs = 0, nsecs = 0\<rparr> 42 [3, 1, 0, 2] d"
    and l: "md_logical sample_device \<le> bs geometry_512m"
    by (rule sample_formatted)
  obtain st n where e: "log_extent (geo_of geometry_512m) = (st, n)" by (cases "log_extent (geo_of geometry_512m)")
  note z = zeroed_log_restarted [OF mem.block_device_axioms mem.formatted_manageable [OF f l [folded mem_ops_simps]], of st n "replicate 16 9"]
  obtain d0 d' fs' where "md_write_zeroes d st (n * 512) = Inr d0"
    "fs_open mem_ops d0 = Inr \<lparr>fs_geo = geo_of geometry_512m, fs_primary = sb_block (geo_of geometry_512m) (md_content d) 0\<rparr>"
    "set_uuid mem_ops (replicate 16 9) d0 = Inr d'" "manageable mem_ops md_good md_content md_sector d' fs' (replicate 16 7)"
    "\<forall>a<geo_agcount (geo_of geometry_512m). slice sb_UUID 16 (sb_block (geo_of geometry_512m) (md_content d') a) = replicate 16 9"
    using z e by auto
  moreover have "3 < geo_agcount (geo_of geometry_512m)" by (simp add: geo_of_position sample_facts(7))
  ultimately have "md_write_zeroes d st (n * 512) = Inr d0 \<and>
    fs_open mem_ops d0 = Inr \<lparr>fs_geo = geo_of geometry_512m, fs_primary = sb_block (geo_of geometry_512m) (md_content d) 0\<rparr> \<and>
    set_uuid mem_ops (replicate 16 9) d0 = Inr d' \<and> fs_open mem_ops d' = Inr fs' \<and>
    fs_geo \<lparr>fs_geo = geo_of geometry_512m, fs_primary = sb_block (geo_of geometry_512m) (md_content d) 0\<rparr> = geo_of geometry_512m \<and>
    slice sb_UUID 16 (sb_block (geo_of geometry_512m) (md_content d') 3) = replicate 16 9"
    by (simp add: manageable_def)
  then show ?thesis by blast
qed

end
