(* ===== verification/File_Managed.thy ===== *)
theory File_Managed
  imports Mkfs_Main Admin_Commands
begin

unbundle bit_operations_syntax

section \<open>From \<^verbatim>\<open>mkfs-xfs\<close> to \<^verbatim>\<open>xfs-admin\<close>\<close>

text \<open>
  A file that \<^verbatim>\<open>mkfs-xfs --create\<close> has made is opened by \<^verbatim>\<open>xfs-admin\<close>: the administration commands ask for no more than
  \<open>block_device\<close> and a formatted device, and a file device over a system that meets \<open>os_file\<close> is one.
\<close>

text \<open>A file in order keeps its length, so that the contract holds of the files of one length.\<close>

lemma os_file_narrowed:
  assumes "os_file os intact stored extent"
  shows "os_file os (\<lambda>f. intact f \<and> extent f = n) stored extent"
proof
  fix f and off m :: nat and b
  assume i: "intact f \<and> extent f = n"
  show "os_read_exact_at os f off m = Some (map (stored f) [off..<off + m])" if "off + m \<le> extent f"
    by (rule os_file.reads_file [OF assms]) (use i that in simp_all)
  show "\<exists>f'. os_write_all_at os f off b = Some f' \<and> (intact f' \<and> extent f' = n) \<and> extent f' = extent f \<and> stored f' = overwrite (stored f) off b"
    if "off + length b \<le> extent f"
    using os_file.writes_file [OF assms, of f off b] i that by auto
  show "\<exists>f'. os_sync_data os f = Some f' \<and> (intact f' \<and> extent f' = n) \<and> extent f' = extent f \<and> stored f' = stored f"
    using os_file.syncs_file [OF assms, of f] i by auto
  show "(intact f' \<and> extent f' = n) \<and> extent f' = extent f \<and> zeroed (stored f') off m = zeroed (stored f) off m \<and>
      (ok \<longrightarrow> stored f' = zeroed (stored f) off m)"
    if "off + m \<le> extent f" "os_punch_hole os f off m = (ok, f')" for ok f'
    using os_file.punches_file [OF assms _ that] i by simp
qed

context os_file
begin

lemma formatted_file_managed:
  assumes f: "formatted_on (file_ops os) (fd_good intact extent) (fd_content stored) fd_sector d0 g plans uuid time gen order d"
    and s: "fd_logical d0 \<le> bs g"
    and l: "ac_label c = Some l" "lab = string_bytes (label_arg l)" "length lab \<le> LABEL_MAX" "0 \<notin> set lab"
    and u: "ac_uuid c = Some u" "requested uuid_of fresh u x" "length x = 16"
  shows "\<exists>d' out. admin_commands (file_ops os) uuid_of uuid_text fresh c d = Inr (d', out) \<and>
    fs_log_state (file_ops os) d' = Inr \<lparr>ls_head = 0, ls_tail = 0, ls_cycle = 2\<rparr> \<and>
    (\<forall>a<agcount g.
      slice sb_FNAME 12 (sb_block (geo_of g) (fd_content stored d') a) = lab @ replicate (12 - length lab) 0 \<and>
      slice sb_UUID 16 (sb_block (geo_of g) (fd_content stored d') a) = x)"
proof -
  have s': "dev_logical (file_ops os) d0 \<le> bs g" using s by simp
  obtain st n where e: "log_extent (geo_of g) = (st, n)" by (cases "log_extent (geo_of g)")
  have c: "usable_cycle 1" by (simp add: usable_cycle_def HEADER_MAGIC_def)
  have st: "cleared_state (geo_logsunit (geo_of g)) 1 = \<lparr>ls_head = 0, ls_tail = 0, ls_cycle = 1 + 1\<rparr>"
    using f by (intro formatted_cleared_state ready_geometry(1)) (auto simp: formatted_on_def)
  obtain d' fs' where "admin_commands (file_ops os) uuid_of uuid_text fresh c d =
      Inr (d', [''new label = '' @ [CHR 0x22] @ label_arg l @ [CHR 0x22], ''new UUID = '' @ uuid_text x])"
    "manageable (file_ops os) (fd_good intact extent) (fd_content stored) fd_sector d' fs' uuid"
    "fs_find_tail (file_ops os) fs' d' = Inr \<lparr>ls_head = 0, ls_tail = 0, ls_cycle = 1 + 1\<rparr>"
    "\<forall>a<geo_agcount (geo_of g).
      slice sb_FNAME 12 (sb_block (geo_of g) (fd_content stored d') a) = lab @ replicate (12 - length lab) 0 \<and>
      slice sb_UUID 16 (sb_block (geo_of g) (fd_content stored d') a) = x"
    using dev.label_and_uuid [OF dev.formatted_manageable [OF f s'] dev.formatted_tail [OF f s'] _ _ l u, of st n uuid_text] c e st
    by (auto simp: dirty_def)
  then show ?thesis by (auto simp: fs_log_state_def manageable_def geo_of_position)
qed

end

section \<open>Properties\<close>

text \<open>
  \<^bold>\<open>C2\<close>. The two programs fit together, over every system whose files are arrays of bytes: the file that
  \<^verbatim>\<open>mkfs-xfs --create\<close> leaves is opened by \<^verbatim>\<open>xfs-admin -L -U\<close>, which succeeds: every group has the label and the
  UUID, and the log is clean, in cycle 2.
\<close>

theorem created_file_managed:
  assumes "os_file os intact stored extent" "\<And>h. intact h \<Longrightarrow> os_metadata os h = Some (True, extent h)"
    and "\<not> cli_dry_run c" "cli_create c = Some sz" "parse_size sz = Inr n"
    and "creates (cli_device c) = Some f0" "os_set_len os f0 n = Some f" "intact f" "extent f = n" "n \<le> 2 ^ 63"
    and "cli_params uuid_of c = Inr p" "compute p n 512 512 = Inr g" "p_agcount p = None \<or> agcount g \<le> agsize g"
    and "group_start g (logagno g) + min_freelist g \<le> ag_blocks g (logagno g)"
    and "uuid = (case p_uuid p of Some u \<Rightarrow> u | None \<Rightarrow> new_uuid)" "length uuid = 16" "mset order = mset [0..<agcount g]"
    and "ac_label a = Some l" "lab = string_bytes (label_arg l)" "length lab \<le> LABEL_MAX" "0 \<notin> set lab"
    and "ac_uuid a = Some u" "requested uuid_of fresh u x" "length x = 16"
  shows "\<exists>d out d' out'. mkfs_main os uuid_of new_uuid clock new_seed order opens creates c = Inr (d, out) \<and>
    admin_main os uuid_of uuid_text fresh (\<lambda>_. Some (fd_file d)) a = Inr (d', out') \<and>
    fs_log_state (file_ops os) d' = Inr \<lparr>ls_head = 0, ls_tail = 0, ls_cycle = 2\<rparr> \<and>
    (\<forall>k<agcount g.
      slice sb_FNAME 12 (sb_block (geo_of g) (fd_content stored d') k) = lab @ replicate (12 - length lab) 0 \<and>
      slice sb_UUID 16 (sb_block (geo_of g) (fd_content stored d') k) = x)"
proof -
  let ?intact = "\<lambda>h. intact h \<and> extent h = n"
  note o = os_file_narrowed [OF assms(1), of n]
  have "?intact f" using assms(8,9) by simp
  then obtain d out plans where d: "mkfs_main os uuid_of new_uuid clock new_seed order opens creates c = Inr (d, out)"
    "fd_good ?intact extent d" "fd_size d = n" "format_ready (file_ops os) fd_sector d g plans uuid order"
    "fd_content stored d = format_image n g plans uuid (case p_time p of Some t \<Rightarrow> t | None \<Rightarrow> timestamp_now clock)
      (case p_gen_seed p of Some s \<Rightarrow> s | None \<Rightarrow> new_seed) order (stored f)"
    using create_formats [where uuid_of = uuid_of and order = order and clock = clock and new_seed = new_seed and opens = opens, OF o assms(3-5)]
      assms(6-17) by blast
  define e where "e = \<lparr>fd_file = fd_file d, fd_size = n, fd_logical = 512, fd_physical = 512, fd_regular = True\<rparr>"
  define e0 where "e0 = e\<lparr>fd_file := f\<rparr>"
  have i: "intact (fd_file d)" "extent (fd_file d) = n" using d(2) by (simp_all add: fd_good_def)
  have opened: "fd_open os (Some (fd_file d)) = Inr e"
    using assms(2) [OF i(1)] i(2) by (simp add: fd_open_def io_result_def sector_sizes_def e_def)
  have "formatted_on (file_ops os) (fd_good ?intact extent) (fd_content stored) fd_sector e0 g plans uuid
      (case p_time p of Some t \<Rightarrow> t | None \<Rightarrow> timestamp_now clock) (case p_gen_seed p of Some s \<Rightarrow> s | None \<Rightarrow> new_seed) order e"
    using d(2-5) by (simp add: formatted_on_def e_def e0_def fd_good_def same_device_def format_ready_def fd_content_def)
  moreover have "512 \<le> bs g" using head_sizes(3) [OF ready_geometry(1) [OF d(4)]] by simp
  then have "fd_logical e0 \<le> bs g" by (simp add: e0_def e_def)
  ultimately obtain d' out' where "admin_commands (file_ops os) uuid_of uuid_text fresh a e = Inr (d', out')"
    "fs_log_state (file_ops os) d' = Inr \<lparr>ls_head = 0, ls_tail = 0, ls_cycle = 2\<rparr>"
    "\<forall>k<agcount g. slice sb_FNAME 12 (sb_block (geo_of g) (fd_content stored d') k) = lab @ replicate (12 - length lab) 0 \<and>
      slice sb_UUID 16 (sb_block (geo_of g) (fd_content stored d') k) = x"
    using os_file.formatted_file_managed [OF o _ _ assms(18-24)] by blast
  then show ?thesis using d(1) opened assms(18) by (intro exI [of _ d] exI [of _ out] exI [of _ d'] exI [of _ out']) (simp add: admin_main_def)
qed

theorem created_file_managed_witness:
  "\<exists>d out d' out'. mkfs_main mem_os (\<lambda>_. None) (replicate 16 9) None 42 [3, 1, 0, 2] (\<lambda>_. None) (\<lambda>_. Some (md_new 0)) sample_cli = Inr (d, out) \<and>
    admin_main mem_os (\<lambda>_. None) (\<lambda>_. []) (replicate 16 5) (\<lambda>_. Some (fd_file d))
      \<lparr>ac_uuid = Some ''generate'', ac_label = Some ''data'', ac_device = ''disk''\<rparr> = Inr (d', out') \<and>
    slice sb_UUID 16 (sb_block (geo_of geometry_512m) (fd_content md_content d') 3) = replicate 16 5"
proof -
  have p: "p_agcount params_new = None \<or> agcount geometry_512m \<le> agsize geometry_512m" by (simp add: params_new_def)
  have lab: "string_bytes (label_arg ''data'') = [100, 97, 116, 97]" by (simp add: string_bytes_def label_arg_def)
  have r: "requested (\<lambda>_. None) (replicate 16 5) ''generate'' (replicate 16 5)" by (simp add: requested_def lower_def)
  have m: "\<And>h. mem_intact h \<Longrightarrow> os_metadata mem_os h = Some (True, md_size h)" by (simp add: mem_os_def)
  have "3 < agcount geometry_512m" by (simp add: sample_facts(7))
  then show ?thesis
    using created_file_managed [where creates = "\<lambda>_. Some (md_new 0)" and new_uuid = "replicate 16 9" and clock = None and new_seed = 42
        and opens = "\<lambda>_. None" and uuid_text = "\<lambda>_. []" and a = "\<lparr>ac_uuid = Some ''generate'', ac_label = Some ''data'', ac_device = ''disk''\<rparr>",
        OF memfile.os_file_axioms m _ _ sample_cli_facts(1) _ sample_cli_facts(5,3,4) _ sample_cli_facts(2) compute_512m p
        sample_log_group refl _ sample_facts(10) _ lab [symmetric] _ _ _ r]
    by (fastforce simp: params_new_def LABEL_MAX_def)
qed

end
