(* ===== verification/Spec2Isabelle.thy ===== *)
theory Spec2Isabelle
  imports Prelude Bytes Crc Field_Table Geometry Layout Superblock Ag_Headers Btree_Blocks Inodes
    Log_Record Device Ag_Plan Group_Plan Format Group_Head Format_Image Group_Writers Inspect
    Log_Reader Log_State Admin Sb_Edit Admin_Device Admin_Format Log_Clear Log_Wrapped
    Admin_Uuid Dump Compare Alike Tree_Alike Formatted_Reads Run_Reads
    Same_Dump Reproducible File_Device File_Format Mkfs_Cli Mkfs_Main
    Admin_Cli Admin_Commands Admin_Resume File_Managed
begin

text \<open>
  A verification library for \<^verbatim>\<open>mkfs-xfs\<close>, an implementation of \<^verbatim>\<open>mkfs.xfs\<close> and of the UUID and
  label commands of \<^verbatim>\<open>xfs_admin\<close> in Rust.

  \<^bold>\<open>The program\<close>. \<^verbatim>\<open>Geometry::compute\<close> turns parameters and a device size into the layout of a
  filesystem, or refuses them. \<^verbatim>\<open>plan_ag\<close> works out the end state of each allocation group. \<^verbatim>\<open>format\<close> zeroes
  the ends of the device and the log, writes the log's first record, the head of every group (concurrently),
  the root inode chunk and, last, the finished superblock, over a \<^verbatim>\<open>BlockDevice\<close>. The encoders of
  \<^verbatim>\<open>src/structs\<close> lay out each structure; \<^verbatim>\<open>crc.rs\<close> stamps it. \<^verbatim>\<open>inspect::geometry\<close> reads a superblock
  back, and \<^verbatim>\<open>admin.rs\<close> changes the UUID or the label of an existing filesystem, after finding the head and
  tail of its log.

  \<^bold>\<open>Theories and code\<close>.
  \<^item> \<open>Prelude\<close>: errors (\<^verbatim>\<open>src/error.rs\<close>), results, wrapping arithmetic, slices of byte lists and
    sequences of edits; the collections \<open>nowrap\<close> and \<open>slice_simps\<close>.
  \<^item> \<open>Bytes\<close>, \<open>Crc\<close>: \<^verbatim>\<open>src/bytes.rs\<close>, \<^verbatim>\<open>src/crc.rs\<close>.
  \<^item> \<open>Field_Table\<close>: tables of fields and the locale \<open>stamped_encoder\<close>, the contract of every encoder.
    \<open>Superblock\<close>, \<open>Ag_Headers\<close>, \<open>Btree_Blocks\<close>, \<open>Inodes\<close>, \<open>Log_Record\<close>: the encoders of
    \<^verbatim>\<open>src/structs\<close>, each interpreted as a \<open>stamped_encoder\<close> where it is stamped.
  \<^item> \<open>Geometry\<close>, \<open>Layout\<close>: \<^verbatim>\<open>src/geometry.rs\<close>; the invariant \<open>geometry_ok\<close> and what follows from it
    (group sizes, addresses, the log).
  \<^item> \<open>Device\<close>: \<^verbatim>\<open>src/device.rs\<close>, the trait as a record of operations, \<^verbatim>\<open>MemDevice\<close>, and the locales
    \<open>array_device\<close> and \<open>block_device\<close>: for the requests it accepts a device is a flat array of bytes.
  \<^item> \<open>File_Device\<close>, \<open>File_Format\<close>: \<^verbatim>\<open>FileDevice\<close>. The calls of the operating system are the parameter \<open>os_ops\<close>, what they
    do on a file in order is the locale \<open>os_file\<close>, under which \<open>FileDevice\<close> is a \<open>block_device\<close>; \<open>os_measured\<close> adds what
    seeking to the end and the sizes of a sector return. Both are interpreted on \<^verbatim>\<open>MemDevice\<close> standing in for a file
    and for the block device of given sectors.
  \<^item> \<open>Ag_Plan\<close>, \<open>Group_Plan\<close>, \<open>Format\<close>, \<open>Group_Head\<close>, \<open>Format_Image\<close>: \<^verbatim>\<open>src/format.rs\<close>. The plan of a
    group; the head of a group as regions; the format as a list of device steps, each refining an effect on an
    array of bytes; the image the effects leave.
  \<^item> \<open>Group_Writers\<close>: the concurrent writers of the groups in \<^verbatim>\<open>format\<close>, and the whole format around them, run to its end
    or cut short. The stream that runs the writers is code of the crate \<^verbatim>\<open>futures\<close>: the step relation \<open>writer_step\<close> states what its
    documentation promises of the order of the writes (at most \<^verbatim>\<open>AG_CONCURRENCY\<close> at a time, in any order, none after an
    error), and the theorems are about what the writes of the program leave under any such order.
  \<^item> \<open>Inspect\<close>: the geometry reader of \<^verbatim>\<open>src/inspect.rs\<close>.
  \<^item> \<open>Log_Reader\<close>, \<open>Log_State\<close>, \<open>Admin\<close>: \<^verbatim>\<open>src/admin.rs\<close>. The log reader and the locale
    \<open>log_source\<close> that its window meets; the log of a new filesystem; the superblock and log operations.
  \<^item> \<open>Sb_Edit\<close>, \<open>Admin_Device\<close>, \<open>Admin_Format\<close>: the edits of a superblock sector, the operations of
    \<^verbatim>\<open>src/admin.rs\<close> over a device as effects on an array, and what they do to a filesystem that has just been
    formatted.
  \<^item> \<open>Log_Clear\<close>, \<open>Log_Wrapped\<close>, \<open>Admin_Uuid\<close>: \<^verbatim>\<open>clear_log\<close> as an effect, the log it leaves, whose records are in
    a later cycle, and the change of the UUID over any filesystem \<open>manageable\<close> by it, on any \<open>block_device\<close>: a formatted one or one whose
    UUID has been changed, one with a log stripe unit up to 256 KiB, and one whose log was zeroed.
  \<^item> \<open>Dump\<close>, \<open>Compare\<close>, \<open>Alike\<close>: the dump of \<^verbatim>\<open>src/inspect.rs\<close> field by field, \<^verbatim>\<open>src/compare.rs\<close>, and the
    encoders run with two identities: what they write differs in the identity only, and so do the dumps.
  \<^item> \<open>Tree_Alike\<close>, \<open>Formatted_Reads\<close>, \<open>Same_Dump\<close>, \<open>Reproducible\<close>: what the dump reads on a formatted device, and the
    dumps of two formats of one geometry, structure by structure.
  \<^item> \<open>Run_Reads\<close>: what is said of a formatted device said of every run of the format: what a run leaves is read back, opened and
    given a UUID.
  \<^item> \<open>Mkfs_Cli\<close>, \<open>Mkfs_Main\<close>: \<^verbatim>\<open>src/bin/mkfs_xfs.rs\<close>, the values of the options, the parameters they set, the
    report, and \<^verbatim>\<open>main\<close>, from the options to a file and the lines printed.
  \<^item> \<open>Admin_Cli\<close>, \<open>Admin_Commands\<close>, \<open>Admin_Resume\<close>: \<^verbatim>\<open>src/bin/xfs_admin.rs\<close>; the label and the UUID set by one command;
    and a change of the UUID that was cut short.
  \<^item> \<open>File_Managed\<close>: the two programs one after the other, on a file.

  \<^bold>\<open>How state and effects are modelled\<close>. A machine integer of the computation is a natural number with the
  wrap-around written out (\<open>add64\<close>, \<open>sub64\<close>, \<open>mul64\<close>, \<open>shl64\<close>, \<open>as_u32\<close>); a field on disk is a word of its
  width. Where a sum or difference is bounded by a guard next to it the plain operation is used. A
  fallible function returns \<open>error + 'a\<close>; an index out of range, a failed \<^verbatim>\<open>unwrap\<close> and a division by zero are the
  error \<open>Panicked\<close>, and a loop of the source that need not end is an option. A message is a constructor with
  the values it shows. The device state is passed explicitly. The function \<open>format\<close> takes the order in which the
  group heads are written as a parameter \<open>order\<close>; the relation \<open>format_run\<close> has the concurrent writers in its place, every
  run of which is \<open>format\<close> with some permutation of the groups, and the theorems hold for every permutation. The clock, the random UUID and the random seed of \<^verbatim>\<open>format\<close> are
  parameters as well. \<^verbatim>\<open>partition_point\<close> is the length of the longest prefix that satisfies the predicate, which
  is what it returns on the sorted lists it is called with. \<^verbatim>\<open>MemDevice\<close> is assumed to hold at most
  \<open>2 ^ 63\<close> bytes, the largest file offset.

  \<^bold>\<open>What is shown\<close>. The layout is within the device, its groups tile the data and its blocks do not overlap; the
  arithmetic of an accepted geometry never wraps. The plan of a group partitions its blocks between owners, free
  list and free space. The format of an accepted geometry completes under every schedule of the
  concurrent writers and leaves one image. After every run each group, the root inode chunk and the log read back through the device
  as planned, and the other tools take the filesystem. A format cut short at any point is recognisable, and the counts add up. Every encoder is total on
  its domain and its checksum verifies; every field of a superblock and of an inode reads back, and no other byte is changed. The CRC table computes CRC-32C and detects
  bursts. The in-memory device and a device over
  a file refine an array, formatting a file leaves what formatting memory leaves, and a file or block device is opened with the size
  and the sectors the system reports or with the error of the call that failed. The reader finds in a formatted device the geometry that was
  computed. The window of the log reader is transparent. The log of a new filesystem is found clean. Setting the
  label changes the label of every superblock and the fields that every write of a superblock refreshes, and nothing else. Setting the UUID succeeds on a
  clean filesystem, changes the superblocks, and leaves a clean log in the next cycle, so that it can be done
  again, also over a log that was zeroed; restoring gives the old UUID back. A label and a UUID can be set together, and a change of
  the UUID cut short among the superblocks can be repeated or undone. The comparison of two dumps lists exactly the keys that differ, and
  two formats of one geometry are dumped without an error and show no structural difference. Sizes given
  on the command line are read exactly or refused; \<^verbatim>\<open>mkfs-xfs --create\<close> without options succeeds for every size from
  300 MiB; with options that parse it ends in the image of the format or in the one error that the options, the system or the
  room for the free list call for, and leaves a file in which the reader finds the geometry that was reported and whose label and UUID \<^verbatim>\<open>xfs-admin\<close> can set. What is said of the format and of the administration holds on
  every device that meets \<open>block_device\<close>, in memory or over a file.

  \<^bold>\<open>Termination\<close>. Every loop is a total function with its measure, but \<^verbatim>\<open>log2_roundup\<close>, which does not end
  above \<open>2 ^ 63\<close> and is an option. No fuel is used.

  \<^bold>\<open>Not modelled\<close>. Of the command line programs the declarations read by \<^verbatim>\<open>clap\<close> are left out: a model starts from
  the options that it has read and ends with the lines to print. The system calls behind \<^verbatim>\<open>FileDevice\<close>, the system clock,
  \<^verbatim>\<open>Uuid::new_v4\<close> and the parsing and printing of UUIDs are parameters. The \<^verbatim>\<open>io::Error\<close> inside an error is
  dropped, and the messages of \<^verbatim>\<open>thiserror\<close> are constructors. Of the stream of group writers only what its documentation promises is
  modelled. A power cut within one device operation is not: an operation happens or does not. The tests and the examples
  are left out.
\<close>

end
